(* ===== verification/Prelude.thy ===== *)
theory Prelude
  imports Main "HOL-Library.Word" "HOL-Library.Signed_Division"
begin

text \<open>
  What every component of the model shares: the C integer types, the byte images of
  C objects, pointers, the ways a run can stop, and the state-and-error monad in which the
  C functions are written.

  A C function of type \<open>T f(args)\<close> is a HOL function into \<open>('s, 'a) st\<close>: from a
  state it computes either \<open>Inr (value, state)\<close>, or \<open>Inl (reason, state)\<close> when
  the process stops inside the function. The reasons are a call of \<open>exit\<close> and an
  operation whose behaviour the C standard leaves undefined; the state at that moment is
  kept, so what was printed before an \<open>exit\<close> is not lost.
\<close>

unbundle bit_operations_syntax

section \<open>Machine types\<close>

text \<open>Unsigned and signed 16-bit objects have the same bits; \<open>unat\<close> and \<open>sint\<close>
  read them.\<close>

type_synonym u8 = "8 word"
type_synonym u16 = "16 word"
type_synonym f32 = "32 word"

section \<open>Pointers and the reasons to stop\<close>

text \<open>A pointer variable holds \<open>NULL\<close>, the address of an allocated object, or, before
  its first assignment, an indeterminate value.\<close>

datatype ptr = Null | Ptr nat | Indet

datatype ub =
  NullDeref          \<comment> \<open>dereference of NULL\<close>
| DanglingPtr        \<comment> \<open>use of an object after free\<close>
| Uninitialised      \<comment> \<open>use of an indeterminate value\<close>
| OutOfBounds        \<comment> \<open>access outside an array or object\<close>
| SignedOverflow     \<comment> \<open>result of int arithmetic not representable\<close>
| BadShift           \<comment> \<open>shift by the width of the type or more\<close>
| DivByZero
| BadBool            \<comment> \<open>a bool object that holds neither 0 nor 1\<close>

datatype stop =
  ExitSuccess        \<comment> \<open>exit(0)\<close>
| ExitFailure        \<comment> \<open>exit(EXIT_FAILURE)\<close>
| Undefined ub
| OutOfFuel          \<comment> \<open>the bound given to a loop of the model was too small\<close>

section \<open>The monad\<close>

type_synonym ('s, 'a) st = "'s \<Rightarrow> (stop \<times> 's) + ('a \<times> 's)"

definition return :: "'a \<Rightarrow> ('s, 'a) st" where
  "return x = (\<lambda>s. Inr (x, s))"

definition bind :: "('s, 'a) st \<Rightarrow> ('a \<Rightarrow> ('s, 'b) st) \<Rightarrow> ('s, 'b) st" where
  "bind m f = (\<lambda>s. case m s of Inl e \<Rightarrow> Inl e | Inr (x, t) \<Rightarrow> f x t)"

definition seq :: "('s, 'a) st \<Rightarrow> ('s, 'b) st \<Rightarrow> ('s, 'b) st" where
  "seq m n = bind m (\<lambda>_. n)"

definition stop_with :: "stop \<Rightarrow> ('s, 'a) st" where
  "stop_with w = (\<lambda>s. Inl (w, s))"

definition gets :: "('s \<Rightarrow> 'a) \<Rightarrow> ('s, 'a) st" where
  "gets f = (\<lambda>s. Inr (f s, s))"

definition modify :: "('s \<Rightarrow> 's) \<Rightarrow> ('s, unit) st" where
  "modify f = (\<lambda>s. Inr ((), f s))"

abbreviation undef :: "ub \<Rightarrow> ('s, 'a) st" where
  "undef u \<equiv> stop_with (Undefined u)"

text \<open>\<open>the_init\<close>: reading a local variable that may not have been assigned.\<close>

definition the_init :: "'a option \<Rightarrow> ('s, 'a) st" where
  "the_init v = (case v of None \<Rightarrow> undef Uninitialised | Some x \<Rightarrow> return x)"

text \<open>\<open>in_bounds\<close>: the result of an array access, \<open>None\<close> when it is out of bounds.\<close>

definition in_bounds :: "'a option \<Rightarrow> ('s, 'a) st" where
  "in_bounds v = (case v of None \<Rightarrow> undef OutOfBounds | Some x \<Rightarrow> return x)"

text \<open>\<open>deref h p\<close> is \<open>*p\<close> for a pointer into the heap of objects \<open>h\<close>.\<close>

definition deref :: "('s \<Rightarrow> nat \<Rightarrow> 'o option) \<Rightarrow> ptr \<Rightarrow> ('s, 'o) st" where
  "deref h p = (case p of
     Null \<Rightarrow> undef NullDeref
   | Indet \<Rightarrow> undef Uninitialised
   | Ptr a \<Rightarrow> (\<lambda>s. case h s a of
       None \<Rightarrow> Inl (Undefined DanglingPtr, s)
     | Some x \<Rightarrow> Inr (x, s)))"

text \<open>\<open>addr_of_ptr\<close>: the address in a pointer that has just been dereferenced.\<close>

fun addr_of_ptr :: "ptr \<Rightarrow> nat" where
  "addr_of_ptr (Ptr a) = a"
| "addr_of_ptr _ = 0"

text \<open>\<open>is_null p\<close> is the test \<open>p == NULL\<close>.\<close>

definition is_null :: "ptr \<Rightarrow> ('s, bool) st" where
  "is_null p = (case p of
     Null \<Rightarrow> return True
   | Ptr _ \<Rightarrow> return False
   | Indet \<Rightarrow> undef Uninitialised)"

named_theorems st_simps \<open>evaluation of monadic programs on a state\<close>

lemma return_apply [st_simps]: "return x s = Inr (x, s)"
  by (simp add: return_def)

lemma bind_apply [st_simps]:
  "bind m f s = (case m s of Inl e \<Rightarrow> Inl e | Inr (x, t) \<Rightarrow> f x t)"
  by (simp add: bind_def)

lemma seq_apply [st_simps]:
  "seq m n s = (case m s of Inl e \<Rightarrow> Inl e | Inr (x, t) \<Rightarrow> n t)"
  by (simp add: seq_def bind_def)

lemma stop_with_apply [st_simps]: "stop_with w s = Inl (w, s)"
  by (simp add: stop_with_def)

lemma gets_apply [st_simps]: "gets f s = Inr (f s, s)"
  by (simp add: gets_def)

lemma modify_apply [st_simps]: "modify f s = Inr ((), f s)"
  by (simp add: modify_def)

lemma the_init_simps [st_simps]:
  "the_init None = undef Uninitialised"
  "the_init (Some x) = return x"
  by (simp_all add: the_init_def)

lemma in_bounds_simps [st_simps]:
  "in_bounds None = undef OutOfBounds"
  "in_bounds (Some x) = return x"
  by (simp_all add: in_bounds_def)

lemma deref_Ptr [st_simps]:
  "deref h (Ptr a) s = (case h s a of
     None \<Rightarrow> Inl (Undefined DanglingPtr, s) | Some x \<Rightarrow> Inr (x, s))"
  by (simp add: deref_def)

lemma deref_bad [st_simps]:
  "deref h Null = undef NullDeref"
  "deref h Indet = undef Uninitialised"
  by (simp_all add: deref_def)

lemma is_null_simps [st_simps]:
  "is_null Null = return True"
  "is_null (Ptr a) = return False"
  "is_null Indet = undef Uninitialised"
  by (simp_all add: is_null_def)

text \<open>The monad laws: a sequence of C statements associates.\<close>

lemma bind_return_left [simp]: "bind (return x) f = f x"
  by (simp add: bind_def return_def)

lemma bind_return_right [simp]: "bind m return = m"
  by (rule ext) (simp add: bind_def return_def split: sum.splits prod.splits)

lemma bind_assoc: "bind (bind m f) g = bind m (\<lambda>x. bind (f x) g)"
  by (rule ext) (simp add: bind_def split: sum.splits)

lemma seq_assoc: "seq (seq l m) n = seq l (seq m n)"
  by (simp add: seq_def bind_assoc)

section \<open>Byte images of C objects\<close>

text \<open>The host is little-endian: the object at address \<open>p\<close> has its low byte at
  \<open>p\<close>. These are the bytes \<open>memcpy\<close> and the \<open>uint8_t *\<close> accesses see.\<close>

definition bytes_of_u16 :: "u16 \<Rightarrow> u8 list" where
  "bytes_of_u16 w = [ucast w, ucast (drop_bit 8 w)]"

definition u16_of_bytes :: "u8 list \<Rightarrow> u16" where
  "u16_of_bytes bs = ucast (bs ! 0) OR push_bit 8 (ucast (bs ! 1))"

definition bytes_of_f32 :: "f32 \<Rightarrow> u8 list" where
  "bytes_of_f32 w =
     [ucast w, ucast (drop_bit 8 w), ucast (drop_bit 16 w), ucast (drop_bit 24 w)]"

definition f32_of_bytes :: "u8 list \<Rightarrow> f32" where
  "f32_of_bytes bs = ucast (bs ! 0) OR push_bit 8 (ucast (bs ! 1))
     OR push_bit 16 (ucast (bs ! 2)) OR push_bit 24 (ucast (bs ! 3))"

definition bytes_of_bool :: "bool \<Rightarrow> u8 list" where
  "bytes_of_bool b = [if b then 1 else 0]"

definition bool_of_bytes :: "u8 list \<Rightarrow> ('s, bool) st" where
  "bool_of_bytes bs =
     (if bs ! 0 = 0 then return False
      else if bs ! 0 = 1 then return True
      else undef BadBool)"

lemma length_bytes [simp]:
  "length (bytes_of_u16 w) = 2" "length (bytes_of_f32 x) = 4" "length (bytes_of_bool b) = 1"
  by (simp_all add: bytes_of_u16_def bytes_of_f32_def bytes_of_bool_def)

lemma u16_of_bytes_of_u16 [simp]: "u16_of_bytes (bytes_of_u16 w) = w"
  unfolding u16_of_bytes_def bytes_of_u16_def
  by (rule bit_word_eqI) (auto simp: bit_simps)

lemma f32_of_bytes_of_f32 [simp]: "f32_of_bytes (bytes_of_f32 w) = w"
proof (rule bit_word_eqI)
  fix n assume "n < LENGTH(32)"
  then consider "n < 8" | "8 \<le> n \<and> n < 16" | "16 \<le> n \<and> n < 24" | "24 \<le> n \<and> n < 32"
    by force
  then show "bit (f32_of_bytes (bytes_of_f32 w)) n = bit w n"
    unfolding f32_of_bytes_def bytes_of_f32_def
    by cases (auto simp: bit_simps numeral_2_eq_2 numeral_3_eq_3)
qed

lemma bool_of_bytes_of_bool [simp]: "bool_of_bytes (bytes_of_bool b) = return b"
  by (simp add: bool_of_bytes_def bytes_of_bool_def)

lemma bytes_of_u16_of_bytes:
  assumes "length bs = 2"
  shows "bytes_of_u16 (u16_of_bytes bs) = bs"
proof -
  from assms obtain l h where bs: "bs = [l, h]"
    by (auto simp: numeral_2_eq_2 length_Suc_conv)
  have "ucast (u16_of_bytes bs) = l"
    unfolding bs u16_of_bytes_def by (rule bit_word_eqI) (auto simp: bit_simps)
  moreover have "ucast (drop_bit 8 (u16_of_bytes bs)) = h"
    unfolding bs u16_of_bytes_def
    by (rule bit_word_eqI) (auto simp: bit_simps dest: bit_imp_le_length)
  ultimately show ?thesis by (simp add: bytes_of_u16_def bs)
qed

lemma ucast_and_255: "(ucast (w AND 255 :: u16) :: u8) = ucast w"
proof -
  have "w AND 255 = take_bit 8 w" by (simp add: take_bit_eq_mask mask_eq_exp_minus_1)
  then show ?thesis by (auto simp: bit_simps intro!: bit_word_eqI)
qed

section \<open>Heaps\<close>

text \<open>Updates of a heap are kept as they are and read at an address; unfolding them to
  conditionals under a lambda is left to the proofs that need it.\<close>

declare fun_upd_apply [simp del]
declare fun_upd_same [simp]
declare fun_upd_other [simp]

section \<open>Words\<close>

lemma unat_u16_less: "unat (w :: u16) < 65536"
  by (rule order_less_le_trans [OF unsigned_less]) simp

lemma unat_u16_add:
  assumes "unat (a :: u16) + unat b < 65536"
  shows "unat (a + b) = unat a + unat b"
  using assms by (simp add: unat_word_ariths)

lemma unat_u16_add_wrap:
  assumes "65536 \<le> unat (a :: u16) + unat b"
  shows "unat (a + b) = unat a + unat b - 65536"
proof -
  have "unat a + unat b < 2 * 65536"
    using unat_u16_less [of a] unat_u16_less [of b] by linarith
  with assms have "(unat a + unat b) mod 65536 = unat a + unat b - 65536"
    by (simp add: mod_if)
  then show ?thesis by (simp add: unat_word_ariths)
qed

lemma unat_u16_sub:
  assumes "b \<le> (a :: u16)"
  shows "unat (a - b) = unat a - unat b"
  using assms by (simp add: unat_sub)

end
