(* ===== verification/Sys_C.thy ===== *)
theory Sys_C
  imports Prelude
begin

text \<open>
  src/sys.c and the output channel of src/io.c: the trace of the calls of \<open>vmprintf\<close>, the
  C library's allocator, and the counter \<open>dynamic_memory_usage\<close>.

  The allocator is the C library's: \<open>malloc_ok s n\<close> says whether the \<open>n\<close>-th
  allocation succeeds, and a successful one returns an address that was never used before,
  so that a pointer to a freed object stays recognisable. The functions of the model that
  allocate and free an object add it to, and remove it from, the heap of its type.
\<close>

section \<open>State\<close>

text \<open>The arguments of a \<open>printf\<close> call after the default promotions; a \<open>float\<close>
  is kept as its 32 bits.\<close>

datatype arg = AInt int | AF32 f32 | AStr string

datatype event =
  Printf string "arg list"
| Call string "int list"   \<comment> \<open>another call that acts outside the machine\<close>

record sys =
  out :: "event list"
  malloc_ok :: "nat \<Rightarrow> bool"
  mallocs :: nat
  dynamic_memory_usage :: u16

section \<open>Operations\<close>

definition emit :: "event \<Rightarrow> ('z sys_scheme, unit) st" where
  "emit e = modify (\<lambda>s. s\<lparr>out := out s @ [e]\<rparr>)"

definition vmprintf :: "string \<Rightarrow> arg list \<Rightarrow> ('z sys_scheme, unit) st" where
  "vmprintf fmt args = emit (Printf fmt args)"

definition exit_failure :: "('z sys_scheme, 'a) st" where
  "exit_failure = stop_with ExitFailure"

definition c_malloc :: "('z sys_scheme, ptr) st" where
  "c_malloc = (\<lambda>s.
     let n = mallocs s in
     Inr (if malloc_ok s n then Ptr n else Null, s\<lparr>mallocs := Suc n\<rparr>))"

definition vmmalloc :: "u16 \<Rightarrow> ('z sys_scheme, ptr) st" where
  "vmmalloc sz =
     bind c_malloc (\<lambda>p.
     if p \<noteq> Null
     then seq (modify (\<lambda>s. s\<lparr>dynamic_memory_usage := dynamic_memory_usage s + sz\<rparr>)) (return p)
     else return p)"

definition vmcalloc :: "u16 \<Rightarrow> u16 \<Rightarrow> ('z sys_scheme, ptr) st" where
  "vmcalloc count sz =
     bind c_malloc (\<lambda>p.
     if p \<noteq> Null
     then seq (modify (\<lambda>s. s\<lparr>dynamic_memory_usage := dynamic_memory_usage s + sz\<rparr>)) (return p)
     else return p)"

text \<open>\<open>release\<close> is the effect of \<open>free(ptr)\<close>: the object leaves its heap (nothing
  for an array that is part of an object of the model, or for NULL).\<close>

definition vmfree :: "('z sys_scheme \<Rightarrow> 'z sys_scheme) \<Rightarrow> u16 \<Rightarrow> ('z sys_scheme, unit) st" where
  "vmfree release sz =
     seq (modify (\<lambda>s. s\<lparr>dynamic_memory_usage := dynamic_memory_usage s - sz\<rparr>))
         (modify release)"

definition get_memory_usage :: "('z sys_scheme, u16) st" where
  "get_memory_usage = gets dynamic_memory_usage"

definition get_local_vm_id :: u16 where
  "get_local_vm_id = 1"

section \<open>Evaluation\<close>

lemma emit_apply [st_simps]: "emit e s = Inr ((), s\<lparr>out := out s @ [e]\<rparr>)"
  by (simp add: emit_def st_simps)

lemma vmprintf_apply [st_simps]:
  "vmprintf f xs s = Inr ((), s\<lparr>out := out s @ [Printf f xs]\<rparr>)"
  by (simp add: vmprintf_def st_simps)

lemma exit_failure_apply [st_simps]: "exit_failure s = Inl (ExitFailure, s)"
  by (simp add: exit_failure_def st_simps)

lemma c_malloc_apply [st_simps]:
  "c_malloc s = Inr (if malloc_ok s (mallocs s) then Ptr (mallocs s) else Null,
     s\<lparr>mallocs := Suc (mallocs s)\<rparr>)"
  by (simp add: c_malloc_def Let_def)

lemma vmmalloc_apply [st_simps]:
  "vmmalloc n s =
     (if malloc_ok s (mallocs s)
      then Inr (Ptr (mallocs s),
        s\<lparr>mallocs := Suc (mallocs s), dynamic_memory_usage := dynamic_memory_usage s + n\<rparr>)
      else Inr (Null, s\<lparr>mallocs := Suc (mallocs s)\<rparr>))"
  by (simp add: vmmalloc_def st_simps)

lemma vmcalloc_apply [st_simps]:
  "vmcalloc c n s =
     (if malloc_ok s (mallocs s)
      then Inr (Ptr (mallocs s),
        s\<lparr>mallocs := Suc (mallocs s), dynamic_memory_usage := dynamic_memory_usage s + n\<rparr>)
      else Inr (Null, s\<lparr>mallocs := Suc (mallocs s)\<rparr>))"
  by (simp add: vmcalloc_def st_simps)

lemma vmfree_apply [st_simps]:
  "vmfree f n s = Inr ((), f (s\<lparr>dynamic_memory_usage := dynamic_memory_usage s - n\<rparr>))"
  by (simp add: vmfree_def st_simps)

lemma get_memory_usage_apply [st_simps]:
  "get_memory_usage s = Inr (dynamic_memory_usage s, s)"
  by (simp add: get_memory_usage_def st_simps)

end
