(* ===== verification/Memory_C.thy ===== *)
theory Memory_C
  imports Sys_C
begin

text \<open>
  src/memory.c and src/memory.h: a byte memory with checked addresses. Nothing else in the
  machine uses it; its two 16-bit accessors do not agree with each other.
\<close>

section \<open>State\<close>

record memory =
  mem_data :: "u8 list"
  mem_size :: u16

record memory_heap = sys +
  memories :: "nat \<Rightarrow> memory option"

definition sizeof_Memory :: u16 where
  "sizeof_Memory = 16"

definition put_memory :: "ptr \<Rightarrow> memory \<Rightarrow> ('z memory_heap_scheme, unit) st" where
  "put_memory p m = modify (\<lambda>s. s\<lparr>memories := (memories s)(addr_of_ptr p \<mapsto> m)\<rparr>)"

section \<open>Operations\<close>

definition memory_create :: "u16 \<Rightarrow> ('z memory_heap_scheme, ptr) st" where
  "memory_create sz =
     bind (vmmalloc sizeof_Memory) (\<lambda>memory.
     if memory = Null
     then seq (vmprintf ''mem_alloc_failed: Memory\<newline>'' []) exit_failure
     else bind (vmmalloc sz) (\<lambda>data.
     if data = Null
     then seq (vmprintf ''mem_alloc_failed: Memory->data\<newline>'' []) exit_failure
     else seq (put_memory memory \<lparr>mem_data = replicate (unat sz) 0, mem_size = sz\<rparr>)
              (return memory)))"

definition memory_free :: "ptr \<Rightarrow> ('z memory_heap_scheme, unit) st" where
  "memory_free p =
     bind (deref memories p) (\<lambda>m.
     seq (vmfree (\<lambda>s. s) (mem_size m))
         (vmfree (\<lambda>s. s\<lparr>memories := (memories s)(addr_of_ptr p := None)\<rparr>) sizeof_Memory))"

text \<open>The loop of \<open>memory_print\<close>, from index \<open>i\<close>.\<close>

fun print_bytes :: "nat \<Rightarrow> u8 list \<Rightarrow> ('z sys_scheme, unit) st" where
  "print_bytes i [] = return ()"
| "print_bytes i (b # bs) =
     seq (if i > 0 then vmprintf '', '' [] else return ())
    (seq (vmprintf ''%u'' [AInt (uint b)]) (print_bytes (Suc i) bs))"

definition memory_print :: "ptr \<Rightarrow> ('z memory_heap_scheme, unit) st" where
  "memory_print p =
     seq (vmprintf ''['' [])
    (bind (deref memories p) (\<lambda>m.
     if length (mem_data m) < unat (mem_size m) then undef OutOfBounds
     else seq (print_bytes 0 (take (unat (mem_size m)) (mem_data m)))
              (vmprintf '']\<newline>'' [])))"

definition memory_get_address :: "ptr \<Rightarrow> u16 \<Rightarrow> ('z memory_heap_scheme, u8) st" where
  "memory_get_address p address =
     bind (deref memories p) (\<lambda>m.
     if 0 \<le> address \<and> address < mem_size m
     then if unat address < length (mem_data m) then return (mem_data m ! unat address)
          else undef OutOfBounds
     else seq (vmprintf ''Get: memory address %d out of the range\<newline>'' [AInt (uint address)])
              exit_failure)"

definition memory_set_address :: "ptr \<Rightarrow> u16 \<Rightarrow> u8 \<Rightarrow> ('z memory_heap_scheme, unit) st" where
  "memory_set_address p address v =
     bind (deref memories p) (\<lambda>m.
     if 0 \<le> address \<and> address < mem_size m
     then if unat address < length (mem_data m)
          then put_memory p (m\<lparr>mem_data := (mem_data m)[unat address := v]\<rparr>)
          else undef OutOfBounds
     else seq (vmprintf ''Set: memory address %d out of the range\<newline>'' [AInt (uint address)])
              exit_failure)"

text \<open>The high byte is shifted as an \<open>int\<close> and then stored in a \<open>uint8_t\<close>.\<close>

definition memory_get_address_16b :: "ptr \<Rightarrow> u16 \<Rightarrow> ('z memory_heap_scheme, u16) st" where
  "memory_get_address_16b p address =
     bind (memory_get_address p address) (\<lambda>hb.
     let h = (ucast (push_bit 8 (ucast hb :: 32 word)) :: u8) in
     bind (memory_get_address p (address + 1)) (\<lambda>l.
     return (ucast h OR ucast l)))"

definition memory_set_address_16b :: "ptr \<Rightarrow> u16 \<Rightarrow> u16 \<Rightarrow> ('z memory_heap_scheme, unit) st" where
  "memory_set_address_16b p address v =
     (let h = (ucast (drop_bit 8 v) :: u8) in
      seq (memory_set_address p address h)
     (let l = (ucast (v AND 255) :: u8) in
      memory_set_address p (address + 1) l))"

end
