(* ===== verification/Memory_Spec.thy ===== *)
theory Memory_Spec
  imports Memory_C
begin

text \<open>
  What src/memory.c promises: checked byte access, and what its two 16-bit accessors do to
  each other's values.
\<close>

definition memory_ok :: "memory \<Rightarrow> bool" where
  "memory_ok m \<longleftrightarrow> length (mem_data m) = unat (mem_size m)"

definition demo_memory :: memory_heap where
  "demo_memory = \<lparr>out = [], malloc_ok = (\<lambda>_. True), mallocs = 2, dynamic_memory_usage = 20,
     memories = [1 \<mapsto> \<lparr>mem_data = [0, 0, 0, 0], mem_size = 4\<rparr>]\<rparr>"

lemma put_memory_apply [st_simps]:
  "put_memory (Ptr a) m s = Inr ((), s\<lparr>memories := (memories s)(a \<mapsto> m)\<rparr>)"
  by (simp add: put_memory_def st_simps)

lemma memory_get_inside:
  assumes "memories s a = Some m" and "memory_ok m" and "address < mem_size m"
  shows "memory_get_address (Ptr a) address s = Inr (mem_data m ! unat address, s)"
  using assms by (simp add: memory_get_address_def st_simps memory_ok_def word_less_nat_alt)

lemma memory_set_inside:
  assumes "memories s a = Some m" and "memory_ok m" and "address < mem_size m"
  shows "memory_set_address (Ptr a) address v s =
    Inr ((), s\<lparr>memories := (memories s)(a \<mapsto> m\<lparr>mem_data := (mem_data m)[unat address := v]\<rparr>)\<rparr>)"
  using assms by (simp add: memory_set_address_def st_simps memory_ok_def word_less_nat_alt)

lemma shifted_byte_lost: "(ucast (push_bit 8 (ucast (b :: u8) :: 32 word)) :: u8) = 0"
  by (rule bit_word_eqI) (auto simp: bit_simps)

section \<open>Properties\<close>

text \<open>Byte access is checked and exact. An address below the size can be written and
  then read back, without touching any other byte; at any other address both accessors
  print the address and end the process with the memory unchanged.\<close>

lemma memory_set_get:
  assumes "memories s a = Some m" and "memory_ok m"
  shows "if address < mem_size m
    then \<exists>m'. memory_set_address (Ptr a) address v s
             = Inr ((), s\<lparr>memories := (memories s)(a \<mapsto> m')\<rparr>)
           \<and> memory_get_address (Ptr a) address (s\<lparr>memories := (memories s)(a \<mapsto> m')\<rparr>)
             = Inr (v, s\<lparr>memories := (memories s)(a \<mapsto> m')\<rparr>)
           \<and> memory_ok m' \<and> (\<forall>i. i \<noteq> unat address \<longrightarrow> mem_data m' ! i = mem_data m ! i)
    else memory_set_address (Ptr a) address v s = Inl (ExitFailure, s\<lparr>out := out s @
             [Printf ''Set: memory address %d out of the range\<newline>'' [AInt (uint address)]]\<rparr>)
         \<and> memory_get_address (Ptr a) address s = Inl (ExitFailure, s\<lparr>out := out s @
             [Printf ''Get: memory address %d out of the range\<newline>'' [AInt (uint address)]]\<rparr>)"
proof (cases "address < mem_size m")
  case True
  let ?m = "m\<lparr>mem_data := (mem_data m)[unat address := v]\<rparr>"
  have ok: "memory_ok ?m" using assms(2) by (simp add: memory_ok_def)
  have "unat address < length (mem_data m)"
    using True assms(2) by (simp add: memory_ok_def word_less_nat_alt)
  with True ok memory_set_inside [OF assms True]
    memory_get_inside [of "s\<lparr>memories := (memories s)(a \<mapsto> ?m)\<rparr>" a ?m address]
  show ?thesis by (auto intro!: exI [of _ ?m])
next
  case False
  with assms(1) show ?thesis
    by (simp add: memory_set_address_def memory_get_address_def st_simps)
qed

lemma memory_set_get_example:
  "(\<exists>m'. memory_set_address (Ptr 1) 3 9 demo_memory
       = Inr ((), demo_memory\<lparr>memories := (memories demo_memory)(1 \<mapsto> m')\<rparr>))
   \<and> (\<exists>t. memory_get_address (Ptr 1) 4 demo_memory = Inl (ExitFailure, t))"
proof -
  let ?m = "\<lparr>mem_data = [0, 0, 0, 0], mem_size = 4\<rparr>"
  have h: "memories demo_memory 1 = Some ?m" "memory_ok ?m"
    by (simp_all add: demo_memory_def memory_ok_def)
  from memory_set_get [OF h, of 3 9] memory_set_get [OF h, of 4 9] show ?thesis by auto
qed

text \<open>The 16-bit accessors lose the high byte. \<open>memory_set_address_16b\<close> stores both
  bytes, but \<open>memory_get_address_16b\<close> shifts the high byte inside a \<open>uint8_t\<close>, so reading
  the value back gives its low byte only.\<close>

lemma memory_16b_loses_high_byte:
  assumes "memories s a = Some m" and "memory_ok m"
    and "unat address + 1 < unat (mem_size m)"
  shows "\<exists>t. bind (memory_set_address_16b (Ptr a) address v)
               (\<lambda>_. memory_get_address_16b (Ptr a) address) s = Inr (v AND 255, t)"
proof -
  have n1: "unat (address + 1) = Suc (unat address)"
    using assms(3) unat_u16_less [of "mem_size m"] unat_u16_add [of address 1] by simp
  have in0: "address < mem_size m" and in1: "address + 1 < mem_size m"
    using assms(3) n1 by (simp_all add: word_less_nat_alt)
  define hi lo :: u8 where "hi = ucast (drop_bit 8 v)" and "lo = ucast (v AND 255)"
  let ?m1 = "m\<lparr>mem_data := (mem_data m)[unat address := hi]\<rparr>"
  let ?m2 = "?m1\<lparr>mem_data := (mem_data ?m1)[unat (address + 1) := lo]\<rparr>"
  have ok1: "memory_ok ?m1" and ok2: "memory_ok ?m2"
    using assms(2) by (simp_all add: memory_ok_def)
  have len: "Suc (unat address) < length (mem_data m)"
    using assms by (simp add: memory_ok_def)
  let ?s1 = "s\<lparr>memories := (memories s)(a \<mapsto> ?m1)\<rparr>"
  let ?s2 = "?s1\<lparr>memories := (memories ?s1)(a \<mapsto> ?m2)\<rparr>"
  have set_eq: "memory_set_address_16b (Ptr a) address v s = Inr ((), ?s2)"
    using memory_set_inside [OF assms(1,2) in0, of hi]
      memory_set_inside [of ?s1 a ?m1 "address + 1" lo] ok1 in1
    by (simp add: memory_set_address_16b_def hi_def lo_def st_simps Let_def)
  have "memory_get_address (Ptr a) address ?s2 = Inr (hi, ?s2)"
    and "memory_get_address (Ptr a) (address + 1) ?s2 = Inr (lo, ?s2)"
    using memory_get_inside [of ?s2 a ?m2] ok2 in0 in1 len n1 by simp_all
  then have "memory_get_address_16b (Ptr a) address ?s2 = Inr (ucast lo, ?s2)"
    by (simp add: memory_get_address_16b_def st_simps shifted_byte_lost)
  moreover have "ucast lo = v AND 255"
  proof -
    have "v AND 255 = take_bit 8 v" by (simp add: take_bit_eq_mask mask_eq_exp_minus_1)
    then show ?thesis unfolding lo_def by (auto simp: bit_simps intro!: bit_word_eqI)
  qed
  ultimately show ?thesis using set_eq by (simp add: st_simps)
qed

lemma memory_16b_loses_high_byte_witness:
  "\<exists>t. bind (memory_set_address_16b (Ptr 1) 0 4660)
         (\<lambda>_. memory_get_address_16b (Ptr 1) 0) demo_memory = Inr (52, t)"
proof -
  let ?m = "\<lparr>mem_data = [0, 0, 0, 0], mem_size = 4\<rparr>"
  have h: "memories demo_memory 1 = Some ?m" "memory_ok ?m"
    by (simp_all add: demo_memory_def memory_ok_def)
  from memory_16b_loses_high_byte [OF h, of 0 4660] show ?thesis by simp
qed

end
