(* ===== verification/Stack_C.thy ===== *)
theory Stack_C
  imports Sys_C
begin

text \<open>
  src/stack.c and src/stack.h: the byte stacks. Every task has two of them, an operand
  stack and a call stack. A stack grows from index 0; \<open>sp\<close> is the index of the first
  free byte, \<open>bp\<close> the base of the current call frame. Values of several bytes are
  stored with their bytes reversed (big-endian on the little-endian host).

  The bounds checks are those of the source, with its 16-bit arithmetic; an access the
  checks let through and that is outside the data array stops with
  \<open>Undefined OutOfBounds\<close>.
\<close>

section \<open>State\<close>

record stack =
  stk_data :: "u8 list"
  stk_size :: u16
  sp :: u16
  bp :: u16

record stack_heap = sys +
  stacks :: "nat \<Rightarrow> stack option"

definition sizeof_Stack :: u16 where
  "sizeof_Stack = 16"

definition put_stack :: "ptr \<Rightarrow> stack \<Rightarrow> ('z stack_heap_scheme, unit) st" where
  "put_stack p k = modify (\<lambda>s. s\<lparr>stacks := (stacks s)(addr_of_ptr p \<mapsto> k)\<rparr>)"

section \<open>Operations\<close>

definition stack_error_print :: "string \<Rightarrow> ('z sys_scheme, unit) st" where
  "stack_error_print message = vmprintf ''StackError: %s\<newline>'' [AStr message]"

definition stack_create :: "u16 \<Rightarrow> ('z stack_heap_scheme, ptr) st" where
  "stack_create sz =
     bind (vmmalloc sizeof_Stack) (\<lambda>stack.
     if stack = Null
     then seq (stack_error_print ''mem_alloc_failed for Stack\<newline>'') exit_failure
     else bind (vmmalloc sz) (\<lambda>data.
     if data = Null
     then seq (stack_error_print ''mem_alloc_failed for Stack->data\<newline>'') exit_failure
     else seq (put_stack stack
            \<lparr>stk_data = replicate (unat sz) 0, stk_size = sz, sp = 0, bp = 0\<rparr>)
         (return stack)))"

definition stack_free :: "ptr \<Rightarrow> ('z stack_heap_scheme, unit) st" where
  "stack_free p =
     bind (deref stacks p) (\<lambda>k.
     seq (vmfree (\<lambda>s. s) (stk_size k))
         (vmfree (\<lambda>s. s\<lparr>stacks := (stacks s)(addr_of_ptr p := None)\<rparr>) sizeof_Stack))"

text \<open>The loop of \<open>stack_print\<close>: one call per element, from index \<open>i\<close>.\<close>

fun print_cells :: "nat \<Rightarrow> nat \<Rightarrow> u8 list \<Rightarrow> ('z sys_scheme, unit) st" where
  "print_cells cur i [] = return ()"
| "print_cells cur i (b # bs) =
     seq (if i > 0 then vmprintf '', '' [] else return ())
    (seq (if i = cur then vmprintf ''->'' [] else return ())
    (seq (vmprintf ''0x%02X'' [AInt (uint b)])
         (print_cells cur (Suc i) bs)))"

definition stack_print :: "ptr \<Rightarrow> ('z stack_heap_scheme, unit) st" where
  "stack_print p =
     bind (deref stacks p) (\<lambda>k.
     seq (vmprintf ''SP: %d\<newline>'' [AInt (uint (sp k))])
    (seq (vmprintf ''['' [])
    (if length (stk_data k) < unat (stk_size k) then undef OutOfBounds
     else seq (print_cells (unat (sp k)) 0 (take (unat (stk_size k)) (stk_data k)))
              (vmprintf '']\<newline>'' []))))"

definition stack_pop :: "ptr \<Rightarrow> ('z stack_heap_scheme, u8) st" where
  "stack_pop p =
     bind (deref stacks p) (\<lambda>k.
     if sp k = 0 then seq (stack_error_print ''stackunderflow'') exit_failure
     else let k' = k\<lparr>sp := sp k - 1\<rparr> in
       seq (put_stack p k')
           (if unat (sp k') < length (stk_data k') then return (stk_data k' ! unat (sp k'))
            else undef OutOfBounds))"

definition stack_push :: "ptr \<Rightarrow> u8 \<Rightarrow> ('z stack_heap_scheme, unit) st" where
  "stack_push p v =
     bind (deref stacks p) (\<lambda>k.
     if sp k = stk_size k then seq (stack_error_print ''stackoverflow'') exit_failure
     else if unat (sp k) < length (stk_data k)
       then put_stack p (k\<lparr>stk_data := (stk_data k)[unat (sp k) := v], sp := sp k + 1\<rparr>)
       else undef OutOfBounds)"

fun stack_pop_bytes :: "ptr \<Rightarrow> nat \<Rightarrow> ('z stack_heap_scheme, u8 list) st" where
  "stack_pop_bytes p 0 = return []"
| "stack_pop_bytes p (Suc n) =
     bind (stack_pop p) (\<lambda>b. bind (stack_pop_bytes p n) (\<lambda>bs. return (b # bs)))"

definition stack_push_16b :: "ptr \<Rightarrow> u16 \<Rightarrow> ('z stack_heap_scheme, unit) st" where
  "stack_push_16b p v =
     seq (stack_push p (ucast (drop_bit 8 v))) (stack_push p (ucast (v AND 255)))"

definition stack_pop_16b :: "ptr \<Rightarrow> ('z stack_heap_scheme, u16) st" where
  "stack_pop_16b p =
     bind (stack_pop_bytes p 2) (\<lambda>buffer.
     return (push_bit 8 (ucast (buffer ! 1)) OR ucast (buffer ! 0)))"

text \<open>
  The copying loops. \<open>bend_write\<close> is \<open>data[address + i] = value[size - 1 - i]\<close>,
  \<open>bend_read\<close> is \<open>value[i] = data[address + (size - i - 1)]\<close>, and \<open>pop_loop\<close>
  walks \<open>data_ptr\<close> down; \<open>None\<close> is an access outside an array.
\<close>

function bend_write :: "u8 list \<Rightarrow> nat \<Rightarrow> nat \<Rightarrow> nat \<Rightarrow> u8 list \<Rightarrow> u8 list option" where
  "bend_write val n address i data =
     (if i < n then
        if address + i < length data \<and> n - 1 - i < length val
        then bend_write val n address (Suc i) (data[address + i := val ! (n - 1 - i)])
        else None
      else Some data)"
  by pat_completeness auto
termination
  by (relation "measure (\<lambda>(val, n, address, i, data). n - i)") auto

function bend_read :: "u8 list \<Rightarrow> nat \<Rightarrow> nat \<Rightarrow> nat \<Rightarrow> u8 list option" where
  "bend_read data n address i =
     (if i < n then
        if address + (n - i - 1) < length data
        then map_option (Cons (data ! (address + (n - i - 1)))) (bend_read data n address (Suc i))
        else None
      else Some [])"
  by pat_completeness auto
termination
  by (relation "measure (\<lambda>(data, n, address, i). n - i)") auto

fun pop_loop :: "u8 list \<Rightarrow> nat \<Rightarrow> nat \<Rightarrow> u8 list option" where
  "pop_loop data data_ptr 0 = Some []"
| "pop_loop data data_ptr (Suc n) =
     (if data_ptr < length data
      then map_option (Cons (data ! data_ptr)) (pop_loop data (data_ptr - 1) n)
      else None)"

definition stack_write_bend_data_at ::
  "ptr \<Rightarrow> u8 list \<Rightarrow> u16 \<Rightarrow> u16 \<Rightarrow> ('z stack_heap_scheme, unit) st" where
  "stack_write_bend_data_at p val sz address =
     bind (deref stacks p) (\<lambda>k.
     let final_address = address + sz in
     if final_address > stk_size k
     then seq (vmprintf ''stack_write_bend_data_at: stackoverflow\<newline>'' [])
         (seq (stack_print p) exit_failure)
     else bind (in_bounds (bend_write val (unat sz) (unat address) 0 (stk_data k))) (\<lambda>data.
          put_stack p (k\<lparr>stk_data := data,
                         sp := (if final_address > sp k then final_address else sp k)\<rparr>)))"

definition stack_push_bend_data :: "ptr \<Rightarrow> u8 list \<Rightarrow> u16 \<Rightarrow> ('z stack_heap_scheme, unit) st" where
  "stack_push_bend_data p val sz =
     bind (deref stacks p) (\<lambda>k. stack_write_bend_data_at p val sz (sp k))"

definition stack_push_data :: "ptr \<Rightarrow> u8 list \<Rightarrow> u16 \<Rightarrow> ('z stack_heap_scheme, unit) st" where
  "stack_push_data p val sz = stack_push_bend_data p val sz"

definition stack_pop_bend_data :: "ptr \<Rightarrow> u16 \<Rightarrow> ('z stack_heap_scheme, u8 list) st" where
  "stack_pop_bend_data p sz =
     bind (deref stacks p) (\<lambda>k.
     if sz > sp k
     then seq (vmprintf ''stack_pop_bend_data: stack underflow\<newline>'' [])
         (seq (stack_print p) exit_failure)
     else let k' = k\<lparr>sp := sp k - sz\<rparr> in
       seq (put_stack p k')
           (in_bounds (pop_loop (stk_data k') (unat (sp k') + unat sz - 1) (unat sz))))"

definition stack_pop_data :: "ptr \<Rightarrow> u16 \<Rightarrow> ('z stack_heap_scheme, u8 list) st" where
  "stack_pop_data p sz = stack_pop_bend_data p sz"

definition stack_read_bend_data_at ::
  "ptr \<Rightarrow> u16 \<Rightarrow> u16 \<Rightarrow> ('z stack_heap_scheme, u8 list) st" where
  "stack_read_bend_data_at p sz address =
     bind (deref stacks p) (\<lambda>k.
     if sz > sp k
     then seq (vmprintf ''stack_read_bend_data_at: stack underflow\<newline>'' [])
         (seq (stack_print p) exit_failure)
     else in_bounds (bend_read (stk_data k) (unat sz) (unat address) 0))"

definition stack_read_data_at ::
  "ptr \<Rightarrow> u16 \<Rightarrow> u16 \<Rightarrow> ('z stack_heap_scheme, u8 list) st" where
  "stack_read_data_at p sz address = stack_read_bend_data_at p sz address"

definition stack_read_U16 :: "ptr \<Rightarrow> u16 \<Rightarrow> ('z stack_heap_scheme, u16) st" where
  "stack_read_U16 p address =
     bind (stack_read_bend_data_at p 2 address) (\<lambda>v. return (u16_of_bytes v))"

text \<open>\<open>stack_read_I16\<close> returns the same bits, read as a signed value by its callers.\<close>

definition stack_read_I16 :: "ptr \<Rightarrow> u16 \<Rightarrow> ('z stack_heap_scheme, u16) st" where
  "stack_read_I16 p address =
     bind (stack_read_bend_data_at p 2 address) (\<lambda>v. return (u16_of_bytes v))"

definition stack_read_F32 :: "ptr \<Rightarrow> u16 \<Rightarrow> ('z stack_heap_scheme, f32) st" where
  "stack_read_F32 p address =
     bind (stack_read_bend_data_at p 4 address) (\<lambda>v. return (f32_of_bytes v))"


section \<open>The copying loops\<close>

text \<open>The loops as list operations: a write puts the reversed value in place, a read and a
  pop give the addressed bytes in reverse.\<close>

declare bend_write.simps [simp del] bend_read.simps [simp del]

lemma bend_write_eq:
  "i \<le> n \<Longrightarrow> n \<le> length val \<Longrightarrow> address + n \<le> length data \<Longrightarrow>
   bend_write val n address i data =
     Some (take (address + i) data @ rev (take (n - i) val) @ drop (address + n) data)"
proof (induction val n address i data rule: bend_write.induct)
  case (1 val n address i data)
  show ?case
  proof (cases "i < n")
    case True
    let ?d = "data[address + i := val ! (n - 1 - i)]"
    from True 1 have "bend_write val n address (Suc i) ?d =
        Some (take (address + Suc i) ?d @ rev (take (n - Suc i) val) @ drop (address + n) ?d)"
      by simp
    moreover have "take (address + Suc i) ?d = take (address + i) data @ [val ! (n - 1 - i)]"
      using True "1.prems" by (simp add: take_Suc_conv_app_nth)
    moreover have "drop (address + n) ?d = drop (address + n) data"
      using True by simp
    moreover have "n - i = Suc (n - Suc i)" and "n - Suc i < length val"
      using True "1.prems" by auto
    then have "rev (take (n - i) val) = val ! (n - 1 - i) # rev (take (n - Suc i) val)"
      by (simp add: take_Suc_conv_app_nth)
    ultimately show ?thesis
      using True "1.prems" by (subst bend_write.simps) simp
  next
    case False
    with "1.prems" show ?thesis by (subst bend_write.simps) simp
  qed
qed

lemma bend_write_none:
  "i < n \<Longrightarrow> n \<le> length val \<Longrightarrow> length data < address + n \<Longrightarrow>
   bend_write val n address i data = None"
proof (induction val n address i data rule: bend_write.induct)
  case (1 val n address i data)
  show ?case
  proof (cases "Suc i < n")
    case True
    with 1 show ?thesis by (subst bend_write.simps) simp
  next
    case False
    with "1.prems" have "\<not> address + i < length data" by linarith
    with "1.prems" show ?thesis by (subst bend_write.simps) simp
  qed
qed

lemma bend_read_eq:
  "i \<le> n \<Longrightarrow> address + n \<le> length data \<Longrightarrow>
   bend_read data n address i = Some (rev (take (n - i) (drop address data)))"
proof (induction data n address i rule: bend_read.induct)
  case (1 data n address i)
  show ?case
  proof (cases "i < n")
    case True
    then have "n - i = Suc (n - Suc i)" by simp
    with True 1 show ?thesis
      by (subst bend_read.simps) (simp add: take_Suc_conv_app_nth)
  next
    case False
    with "1.prems" show ?thesis by (subst bend_read.simps) simp
  qed
qed

lemma pop_loop_eq:
  "n \<le> Suc j \<Longrightarrow> j < length data \<Longrightarrow>
   pop_loop data j n = Some (rev (take n (drop (Suc j - n) data)))"
proof (induction n arbitrary: j)
  case 0
  then show ?case by simp
next
  case (Suc n)
  show ?case
  proof (cases j)
    case 0
    with Suc.prems have "n = 0" by simp
    with 0 Suc.prems show ?thesis by (simp add: take_Suc_conv_app_nth)
  next
    case (Suc j')
    with Suc.IH [of j'] Suc.prems
    have "pop_loop data j' n = Some (rev (take n (drop (Suc j' - n) data)))" by simp
    with Suc Suc.prems show ?thesis by (simp add: take_Suc_conv_app_nth)
  qed
qed

section \<open>Contents and well-formedness\<close>

text \<open>The abstract value of a stack: its bytes in use, oldest first.\<close>

definition contents :: "stack \<Rightarrow> u8 list" where
  "contents k = take (unat (sp k)) (stk_data k)"

text \<open>The data array has the recorded size, and \<open>sp\<close> is within it.\<close>

definition stack_wf :: "stack \<Rightarrow> bool" where
  "stack_wf k \<longleftrightarrow> length (stk_data k) = unat (stk_size k)"

definition stack_ok :: "stack \<Rightarrow> bool" where
  "stack_ok k \<longleftrightarrow> stack_wf k \<and> unat (sp k) \<le> unat (stk_size k)"

lemma length_contents: "stack_ok k \<Longrightarrow> length (contents k) = unat (sp k)"
  by (simp add: stack_ok_def stack_wf_def contents_def)

text \<open>The stack after a push of the object with bytes \<open>v\<close>, and after a pop of
  \<open>n\<close> bytes.\<close>

definition pushed :: "u8 list \<Rightarrow> stack \<Rightarrow> stack" where
  "pushed v k = k\<lparr>stk_data := take (unat (sp k)) (stk_data k) @ rev v
                      @ drop (unat (sp k) + length v) (stk_data k),
                  sp := sp k + of_nat (length v)\<rparr>"

definition popped :: "u16 \<Rightarrow> stack \<Rightarrow> stack" where
  "popped n k = k\<lparr>sp := sp k - n\<rparr>"

lemma pushed_simps [simp]:
  "stk_size (pushed v k) = stk_size k" "bp (pushed v k) = bp k"
  "sp (pushed v k) = sp k + of_nat (length v)"
  by (simp_all add: pushed_def)

lemma popped_simps [simp]:
  "stk_size (popped n k) = stk_size k" "bp (popped n k) = bp k"
  "sp (popped n k) = sp k - n" "stk_data (popped n k) = stk_data k"
  by (simp_all add: popped_def)


lemma length_of_u16:
  assumes "length v \<le> unat (w :: u16)"
  shows "unat (of_nat (length v) :: u16) = length v"
  using assms unat_u16_less [of w] by (simp add: unat_of_nat)

lemma sp_pushed:
  assumes "unat (sp k) + length v \<le> unat (stk_size k)"
  shows "unat (sp (pushed v k)) = unat (sp k) + length v"
proof -
  have "length v \<le> unat (stk_size k)" using assms by simp
  then have "unat (of_nat (length v) :: u16) = length v" by (rule length_of_u16)
  with assms unat_u16_less [of "stk_size k"] show ?thesis
    by (simp add: unat_u16_add)
qed

lemma contents_pushed:
  assumes "stack_ok k" and "unat (sp k) + length v \<le> unat (stk_size k)"
  shows "contents (pushed v k) = contents k @ rev v"
  unfolding contents_def sp_pushed [OF assms(2)]
  using assms by (auto simp: pushed_def stack_ok_def stack_wf_def)

lemma stack_ok_pushed:
  assumes "stack_ok k" and "unat (sp k) + length v \<le> unat (stk_size k)"
  shows "stack_ok (pushed v k)"
  unfolding stack_ok_def stack_wf_def sp_pushed [OF assms(2)]
  using assms by (simp add: pushed_def stack_ok_def stack_wf_def)

lemma contents_popped:
  assumes "stack_ok k" and "n \<le> sp k"
  shows "contents (popped n k) = take (unat (sp k) - unat n) (contents k)"
  using assms by (simp add: contents_def unat_u16_sub)

lemma stack_ok_popped:
  assumes "stack_ok k" and "n \<le> sp k"
  shows "stack_ok (popped n k)"
  using assms by (auto simp: stack_ok_def stack_wf_def unat_u16_sub word_le_nat_alt)

section \<open>The operations on a heap\<close>

lemma put_stack_apply [st_simps]:
  "put_stack (Ptr a) k s = Inr ((), s\<lparr>stacks := (stacks s)(a \<mapsto> k)\<rparr>)"
  by (simp add: put_stack_def st_simps)

lemma print_cells_out:
  "\<exists>evs. print_cells c i bs s = Inr ((), s\<lparr>out := out s @ evs\<rparr>)"
proof (induction bs arbitrary: i s)
  case Nil
  then show ?case by (intro exI [of _ "[]"]) (simp add: st_simps)
next
  case (Cons b bs)
  define pre where "pre = (if i > 0 then [Printf '', '' []] else [])
    @ (if i = c then [Printf ''->'' []] else []) @ [Printf ''0x%02X'' [AInt (uint b)]]"
  from Cons.IH [of "Suc i" "s\<lparr>out := out s @ pre\<rparr>"] obtain evs where
    "print_cells c (Suc i) bs (s\<lparr>out := out s @ pre\<rparr>) = Inr ((), s\<lparr>out := out s @ pre @ evs\<rparr>)"
    by auto
  then show ?case
    by (intro exI [of _ "pre @ evs"]) (auto simp: st_simps pre_def)
qed

lemma stack_print_out:
  assumes "stacks s a = Some k" and "stack_wf k"
  shows "\<exists>evs. stack_print (Ptr a) s = Inr ((), s\<lparr>out := out s @ evs\<rparr>)"
proof -
  let ?t = "s\<lparr>out := out s @ [Printf ''SP: %d\<newline>'' [AInt (uint (sp k))], Printf ''['' []]\<rparr>"
  obtain evs where "print_cells (unat (sp k)) 0 (stk_data k) ?t = Inr ((), ?t\<lparr>out := out ?t @ evs\<rparr>)"
    using print_cells_out by blast
  with assms have "stack_print (Ptr a) s = Inr ((), s\<lparr>out := out s @
      ([Printf ''SP: %d\<newline>'' [AInt (uint (sp k))], Printf ''['' []] @ evs @ [Printf '']\<newline>'' []])\<rparr>)"
    by (simp add: stack_print_def st_simps stack_wf_def)
  then show ?thesis by blast
qed

text \<open>Push: with room, overflow, and where the 16-bit end address wraps.\<close>

lemma stack_push_data_room:
  assumes "stacks s a = Some k" and "stack_ok k"
    and "unat (sp k) + length v \<le> unat (stk_size k)"
  shows "stack_push_data (Ptr a) v (of_nat (length v)) s =
           Inr ((), s\<lparr>stacks := (stacks s)(a \<mapsto> pushed v k)\<rparr>)"
proof -
  have n: "unat (of_nat (length v) :: u16) = length v"
    using assms(3) by (intro length_of_u16 [of v "stk_size k"]) simp
  have end_eq: "unat (sp k + of_nat (length v)) = unat (sp k) + length v"
    using sp_pushed [OF assms(3)] by simp
  have "bend_write v (length v) (unat (sp k)) 0 (stk_data k) = Some (stk_data (pushed v k))"
    using assms by (simp add: bend_write_eq pushed_def stack_ok_def stack_wf_def)
  moreover have "\<not> sp k + of_nat (length v) > stk_size k"
    using assms(3) by (simp add: word_less_nat_alt end_eq)
  moreover have "(if sp k + of_nat (length v) > sp k then sp k + of_nat (length v) else sp k)
      = sp k + of_nat (length v)"
    by (cases "length v = 0") (auto simp: word_less_nat_alt end_eq)
  ultimately show ?thesis
    using assms(1)
    by (simp add: stack_push_data_def stack_push_bend_data_def stack_write_bend_data_at_def
        st_simps n Let_def pushed_def)
qed

lemma stack_push_data_full:
  assumes "stacks s a = Some k" and "stack_wf k"
    and "unat (stk_size k) < unat (sp k) + unat n" and "unat (sp k) + unat n < 65536"
  shows "\<exists>evs. stack_push_data (Ptr a) v n s = Inl (ExitFailure, s\<lparr>out := out s @
           Printf ''stack_write_bend_data_at: stackoverflow\<newline>'' [] # evs\<rparr>)"
proof -
  let ?s = "s\<lparr>out := out s @ [Printf ''stack_write_bend_data_at: stackoverflow\<newline>'' []]\<rparr>"
  obtain evs where "stack_print (Ptr a) ?s = Inr ((), ?s\<lparr>out := out ?s @ evs\<rparr>)"
    using stack_print_out [of ?s a k] assms by auto
  moreover have "sp k + n > stk_size k"
    using assms(3,4) by (simp add: word_less_nat_alt unat_u16_add)
  ultimately show ?thesis
    using assms(1)
    by (simp add: stack_push_data_def stack_push_bend_data_def stack_write_bend_data_at_def
        st_simps Let_def) blast
qed

lemma stack_write_wraps:
  assumes "stacks s a = Some k" and "stack_wf k" and "length v = unat n"
    and "65536 \<le> unat address + unat n" and "unat address + unat n - 65536 \<le> unat (stk_size k)"
  shows "stack_write_bend_data_at (Ptr a) v n address s = Inl (Undefined OutOfBounds, s)"
proof -
  have "\<not> address + n > stk_size k"
    using assms(4,5) by (simp add: word_less_nat_alt unat_u16_add_wrap)
  moreover have "0 < unat n" using assms(4) unat_u16_less [of address] by linarith
  then have "bend_write v (unat n) (unat address) 0 (stk_data k) = None"
    using assms unat_u16_less [of "stk_size k"]
    by (intro bend_write_none) (auto simp: stack_wf_def)
  ultimately show ?thesis
    using assms(1) by (simp add: stack_write_bend_data_at_def st_simps Let_def)
qed

text \<open>Pop: enough bytes, and underflow.\<close>

lemma stack_pop_data_enough:
  assumes "stacks s a = Some k" and "stack_ok k" and "n \<le> sp k"
  shows "stack_pop_data (Ptr a) n s =
           Inr (rev (drop (unat (sp k) - unat n) (contents k)),
                s\<lparr>stacks := (stacks s)(a \<mapsto> popped n k)\<rparr>)"
proof -
  let ?b = "unat (sp k) - unat n"
  have le: "unat n \<le> unat (sp k)" using assms(3) by (simp add: word_le_nat_alt)
  have "pop_loop (stk_data k) (?b + unat n - 1) (unat n) =
      Some (rev (drop ?b (contents k)))"
  proof (cases "unat n = 0")
    case True
    with assms(2) show ?thesis by (simp add: length_contents)
  next
    case False
    with le have "?b + unat n - 1 < unat (sp k)" and "Suc (?b + unat n - 1) = unat (sp k)"
      and "unat n \<le> Suc (?b + unat n - 1)" by auto
    with le assms(2) pop_loop_eq [of "unat n" "?b + unat n - 1" "stk_data k"] show ?thesis
      by (simp add: stack_ok_def stack_wf_def contents_def drop_take)
  qed
  moreover have "\<not> sp k < n" using assms(3) by simp
  ultimately show ?thesis
    using le assms(1,3)
    by (simp add: stack_pop_data_def stack_pop_bend_data_def st_simps unat_u16_sub
        popped_def Let_def)
qed

lemma stack_pop_data_underflow:
  assumes "stacks s a = Some k" and "stack_wf k" and "sp k < n"
  shows "\<exists>evs. stack_pop_data (Ptr a) n s = Inl (ExitFailure, s\<lparr>out := out s @
           Printf ''stack_pop_bend_data: stack underflow\<newline>'' [] # evs\<rparr>)"
proof -
  let ?s = "s\<lparr>out := out s @ [Printf ''stack_pop_bend_data: stack underflow\<newline>'' []]\<rparr>"
  obtain evs where "stack_print (Ptr a) ?s = Inr ((), ?s\<lparr>out := out ?s @ evs\<rparr>)"
    using stack_print_out [of ?s a k] assms by auto
  with assms(1,3) show ?thesis
    by (simp add: stack_pop_data_def stack_pop_bend_data_def st_simps) blast
qed

end
