(* ===== verification/Messaging_C.thy ===== *)
theory Messaging_C
  imports Stack_C
begin

text \<open>
  src/messaging.c and src/messaging.h: messages, the per-task inboxes (a linked list of
  queues, each a linked list of messages with head, tail and count), local delivery, and
  the wire format of a message.

  \<open>message_create\<close> does not assign \<open>next\<close>, so it is indeterminate until another
  message is queued behind this one; \<open>message_deserialize\<close> allocates zeroed memory.
\<close>

section \<open>State\<close>

record message =
  m_next :: ptr
  m_payload :: "u8 list option"   \<comment> \<open>\<open>None\<close> is NULL\<close>
  m_vm_src :: u16
  m_vm_dst :: u16
  m_task_src :: u16
  m_task_dst :: u16
  m_seq :: u16
  m_payload_size :: u16
  m_crc :: u16
  m_frag_id :: u8
  m_frag_total :: u8

record message_queue =
  q_next :: ptr
  q_task_id :: u16
  q_head :: ptr
  q_tail :: ptr
  q_count :: u16

record msg_heap = stack_heap +
  messages :: "nat \<Rightarrow> message option"
  queues :: "nat \<Rightarrow> message_queue option"

definition TASK_MESSAGE_QUEUE_SIZE :: u16 where
  "TASK_MESSAGE_QUEUE_SIZE = 4"

definition sizeof_Message :: u16 where
  "sizeof_Message = 32"

definition sizeof_MessageQueue :: u16 where
  "sizeof_MessageQueue = 40"

definition put_message :: "ptr \<Rightarrow> message \<Rightarrow> ('z msg_heap_scheme, unit) st" where
  "put_message p m = modify (\<lambda>s. s\<lparr>messages := (messages s)(addr_of_ptr p \<mapsto> m)\<rparr>)"

definition put_queue :: "ptr \<Rightarrow> message_queue \<Rightarrow> ('z msg_heap_scheme, unit) st" where
  "put_queue p q = modify (\<lambda>s. s\<lparr>queues := (queues s)(addr_of_ptr p \<mapsto> q)\<rparr>)"

section \<open>Messages\<close>

definition generate_sequence_id :: int where
  "generate_sequence_id = 1"

definition compute_crc :: "message \<Rightarrow> ('s, u16) st" where
  "compute_crc m =
     (if m_payload_size m = 0 then return 0
      else case m_payload m of
        None \<Rightarrow> undef NullDeref
      | Some bs \<Rightarrow>
          if length bs < unat (m_payload_size m) then undef OutOfBounds
          else return (foldl (\<lambda>crc b. crc XOR ucast b) 0 (take (unat (m_payload_size m)) bs)))"

definition message_free :: "ptr \<Rightarrow> ('z msg_heap_scheme, unit) st" where
  "message_free p =
     bind (deref messages p) (\<lambda>m.
     seq (vmfree (\<lambda>s. s) (m_payload_size m))
         (vmfree (\<lambda>s. s\<lparr>messages := (messages s)(addr_of_ptr p := None)\<rparr>) sizeof_Message))"

text \<open>\<open>src\<close> is the memory the argument \<open>payload\<close> points into, up to its end.\<close>

definition message_create ::
  "u16 \<Rightarrow> u16 \<Rightarrow> u16 \<Rightarrow> u16 \<Rightarrow> u8 list \<Rightarrow> u16 \<Rightarrow> ('z msg_heap_scheme, ptr) st" where
  "message_create vm_src vm_dst task_src_id task_dst_id src payload_size =
     bind (vmmalloc sizeof_Message) (\<lambda>message.
     if message = Null then undef NullDeref
     else bind (vmmalloc payload_size) (\<lambda>payload.
     if payload_size > 0 \<and> payload = Null then undef NullDeref
     else if length src < unat payload_size then undef OutOfBounds
     else
       let m = \<lparr>m_next = Indet,
                m_payload = (if payload = Null then None else Some (take (unat payload_size) src)),
                m_vm_src = vm_src, m_vm_dst = vm_dst,
                m_task_src = task_src_id, m_task_dst = task_dst_id, m_seq = 0,
                m_payload_size = payload_size, m_crc = 0, m_frag_id = 0, m_frag_total = 0\<rparr>
       in bind (compute_crc m) (\<lambda>crc.
          seq (put_message message (m\<lparr>m_crc := crc\<rparr>)) (return message))))"

section \<open>Queues and delivery\<close>

definition message_queue_create :: "u16 \<Rightarrow> ('z msg_heap_scheme, ptr) st" where
  "message_queue_create task_id =
     bind (vmmalloc sizeof_MessageQueue) (\<lambda>queue.
     if queue = Null
     then seq (vmprintf ''mem_alloc_failed: message queue\<newline>'' []) exit_failure
     else seq (put_queue queue \<lparr>q_next = Null, q_task_id = task_id, q_head = Null,
                                q_tail = Null, q_count = 0\<rparr>)
              (return queue))"

text \<open>The loop that frees the messages of a queue, with a bound on its rounds.\<close>

fun free_messages :: "nat \<Rightarrow> ptr \<Rightarrow> ('z msg_heap_scheme, unit) st" where
  "free_messages 0 message = stop_with OutOfFuel"
| "free_messages (Suc n) message =
     bind (is_null message) (\<lambda>null.
     if null then return ()
     else bind (deref messages message) (\<lambda>m.
          seq (message_free message) (free_messages n (m_next m))))"

definition message_queue_free :: "ptr \<Rightarrow> ('z msg_heap_scheme, unit) st" where
  "message_queue_free queue =
     bind (deref queues queue) (\<lambda>q.
     bind (gets mallocs) (\<lambda>n.
     seq (free_messages (Suc n) (q_head q))
         (vmfree (\<lambda>s. s\<lparr>queues := (queues s)(addr_of_ptr queue := None)\<rparr>) sizeof_MessageQueue)))"

text \<open>Appending \<open>message\<close> to the queue at \<open>queue\<close>, the innermost part of
  \<open>deliver_local\<close>.\<close>

definition enqueue :: "ptr \<Rightarrow> ptr \<Rightarrow> ('z msg_heap_scheme, unit) st" where
  "enqueue queue message =
     bind (deref queues queue) (\<lambda>q.
     bind (is_null (q_head q)) (\<lambda>empty.
     seq (if empty
          then put_queue queue (q\<lparr>q_head := message, q_tail := message\<rparr>)
          else bind (deref messages (q_tail q)) (\<lambda>t.
               seq (put_message (q_tail q) (t\<lparr>m_next := message\<rparr>))
                   (put_queue queue (q\<lparr>q_tail := message\<rparr>))))
         (bind (deref queues queue) (\<lambda>q'.
          put_queue queue (q'\<lparr>q_count := q_count q' + 1\<rparr>)))))"

fun deliver_loop :: "nat \<Rightarrow> ptr \<Rightarrow> ptr \<Rightarrow> ('z msg_heap_scheme, bool) st" where
  "deliver_loop 0 queue message = stop_with OutOfFuel"
| "deliver_loop (Suc n) queue message =
     bind (is_null queue) (\<lambda>null.
     if null
     then bind (deref messages message) (\<lambda>m.
          seq (vmprintf ''task %d not found\<newline>'' [AInt (uint (m_task_dst m))])
         (seq (message_free message) (return False)))
     else bind (deref queues queue) (\<lambda>q.
          bind (deref messages message) (\<lambda>m.
          if q_task_id q = m_task_dst m
          then if q_count q \<ge> TASK_MESSAGE_QUEUE_SIZE
               then seq (vmprintf ''task %d inbox is full\<newline>'' [AInt (uint (m_task_dst m))])
                        (return False)
               else seq (enqueue queue message) (return True)
          else deliver_loop n (q_next q) message)))"

definition deliver_local :: "ptr \<Rightarrow> ptr \<Rightarrow> ('z msg_heap_scheme, bool) st" where
  "deliver_local message_queues message =
     bind (gets mallocs) (\<lambda>n. deliver_loop (Suc n) message_queues message)"

definition send_remote_message :: "u16 \<Rightarrow> ptr \<Rightarrow> ('z sys_scheme, unit) st" where
  "send_remote_message vm_id msg =
     vmprintf ''Sending message to remote vm %d\<newline>'' [AInt (uint vm_id)]"

definition send_message :: "ptr \<Rightarrow> ptr \<Rightarrow> ('z msg_heap_scheme, unit) st" where
  "send_message local_task_inbox message =
     bind (is_null message) (\<lambda>null.
     if null then vmprintf ''message is NULL\<newline>'' []
     else bind (deref messages message) (\<lambda>m.
       if m_vm_dst m = get_local_vm_id
       then bind (deliver_local local_task_inbox message) (\<lambda>delivered.
            if \<not> delivered then vmprintf ''Error delivering local message\<newline>'' []
            else return ())
       else send_remote_message (m_vm_dst m) message))"

definition message_queue_send_message ::
  "ptr \<Rightarrow> u16 \<Rightarrow> u16 \<Rightarrow> u8 list \<Rightarrow> u16 \<Rightarrow> ('z msg_heap_scheme, unit) st" where
  "message_queue_send_message queue task_src_id task_dst_id src payload_size =
     (let vm_src = get_local_vm_id in
      bind (message_create vm_src vm_src task_src_id task_dst_id src payload_size) (\<lambda>message.
      send_message queue message))"

section \<open>Wire format\<close>

text \<open>\<open>message_serialize\<close> returns the bytes it has written at the start of the buffer
  and \<open>*out_size\<close>; \<open>None\<close> is NULL. \<open>vmmalloc\<close> takes the size as a
  \<open>uint16_t\<close>.\<close>

definition message_serialize :: "message \<Rightarrow> ('z sys_scheme, u8 list option \<times> nat) st" where
  "message_serialize msg =
     (let out_size = 16 + unat (m_payload_size msg);
          cap = (of_nat out_size :: u16) in
      bind (vmmalloc cap) (\<lambda>buffer.
      if buffer = Null
      then seq (vmprintf ''mem_alloc_failed: message buffer\<newline>'' []) (return (None, out_size))
      else
        let hdr = bytes_of_u16 (m_vm_src msg) @ bytes_of_u16 (m_vm_dst msg)
              @ bytes_of_u16 (m_task_src msg) @ bytes_of_u16 (m_task_dst msg)
              @ bytes_of_u16 (m_seq msg) @ bytes_of_u16 (m_payload_size msg)
              @ bytes_of_u16 (m_crc msg) @ [m_frag_id msg, m_frag_total msg] in
        if unat cap < length hdr then undef OutOfBounds
        else if m_payload_size msg > 0 \<and> m_payload msg \<noteq> None
        then if length (the (m_payload msg)) < unat (m_payload_size msg) \<or> unat cap < out_size
             then undef OutOfBounds
             else return (Some (hdr @ take (unat (m_payload_size msg)) (the (m_payload msg))),
                          out_size)
        else return (Some hdr, out_size)))"

definition message_deserialize :: "u8 list \<Rightarrow> nat \<Rightarrow> ('z msg_heap_scheme, ptr) st" where
  "message_deserialize buffer buffer_size =
     (if buffer_size < 16 then return Null
      else
        bind (vmcalloc 1 sizeof_Message) (\<lambda>msg.
        if msg = Null
        then seq (vmprintf ''mem_alloc_failed: message buffer\<newline>'' []) (return Null)
        else if length buffer < 16 then undef OutOfBounds
        else
          let m = \<lparr>m_next = Null, m_payload = None,
                   m_vm_src = u16_of_bytes buffer,
                   m_vm_dst = u16_of_bytes (drop 2 buffer),
                   m_task_src = u16_of_bytes (drop 4 buffer),
                   m_task_dst = u16_of_bytes (drop 6 buffer),
                   m_seq = u16_of_bytes (drop 8 buffer),
                   m_payload_size = u16_of_bytes (drop 10 buffer),
                   m_crc = u16_of_bytes (drop 12 buffer),
                   m_frag_id = buffer ! 14, m_frag_total = buffer ! 15\<rparr> in
          seq (put_message msg m)
         (if m_payload_size m > 0 \<and> 16 + unat (m_payload_size m) \<le> buffer_size
          then bind (vmmalloc (m_payload_size m)) (\<lambda>payload.
               if payload = Null
               then seq (vmprintf ''mem_alloc_failed: message payload\<newline>'' [])
                   (seq (message_free msg) (return Null))
               else if length buffer < 16 + unat (m_payload_size m) then undef OutOfBounds
               else seq (put_message msg (m\<lparr>m_payload :=
                            Some (take (unat (m_payload_size m)) (drop 16 buffer))\<rparr>))
                        (return msg))
          else return msg)))"

end
