(* ===== verification/Task_C.thy ===== *)
theory Task_C
  imports Messaging_C
begin

text \<open>
  src/task.c and src/task.h: a task owns its operand stack, its call stack and its inbox.
  \<open>task_create\<close> leaves the inbox pointer unassigned; \<open>cpu_create_task_inbox\<close> and
  \<open>cpu_load_program\<close> set it.
\<close>

section \<open>State\<close>

record task =
  t_opstack :: ptr
  t_stack :: ptr
  t_inbox :: ptr
  t_id :: u16
  t_ip :: u16
  t_message_handler_address :: u16
  t_active :: u8

record task_heap = msg_heap +
  tasks :: "nat \<Rightarrow> task option"

definition MAX_TASKS :: u16 where
  "MAX_TASKS = 4"

definition sizeof_Task :: u16 where
  "sizeof_Task = 32"

definition put_task :: "ptr \<Rightarrow> task \<Rightarrow> ('z task_heap_scheme, unit) st" where
  "put_task p t = modify (\<lambda>s. s\<lparr>tasks := (tasks s)(addr_of_ptr p \<mapsto> t)\<rparr>)"

section \<open>Operations\<close>

definition task_create :: "u8 \<Rightarrow> u16 \<Rightarrow> u16 \<Rightarrow> u16 \<Rightarrow> u16 \<Rightarrow> ('z task_heap_scheme, ptr) st" where
  "task_create task_id ip opstack_size stack_size message_handler_address =
     bind (vmmalloc sizeof_Task) (\<lambda>task.
     if task = Null
     then seq (vmprintf ''mem_alloc_failed: task\<newline>'' []) exit_failure
     else bind (stack_create opstack_size) (\<lambda>opstack.
          bind (stack_create stack_size) (\<lambda>stack.
          seq (put_task task \<lparr>t_opstack = opstack, t_stack = stack, t_inbox = Indet,
                 t_id = ucast task_id, t_ip = ip,
                 t_message_handler_address = message_handler_address, t_active = 0\<rparr>)
              (return task))))"

definition task_free :: "ptr \<Rightarrow> ('z task_heap_scheme, unit) st" where
  "task_free p =
     bind (deref tasks p) (\<lambda>t.
     seq (stack_free (t_opstack t))
    (seq (stack_free (t_stack t))
    (seq (message_queue_free (t_inbox t))
         (vmfree (\<lambda>s. s\<lparr>tasks := (tasks s)(addr_of_ptr p := None)\<rparr>) sizeof_Task))))"

end
