(* ===== verification/Tasktree_C.thy ===== *)
theory Tasktree_C
  imports Task_C
begin

text \<open>
  src/tasktree.c and src/tasktree.h: the tree of tasks. A node has a growing array of
  children (the list \<open>children\<close> is the whole array, of length \<open>childCapacity\<close>; its
  first \<open>childCount\<close> entries are in use) and a parent pointer.

  The recursive functions take a bound on the depth of the calls plus the rounds of the
  loops; the callers in the model pass a bound that the number of allocations justifies.
\<close>

section \<open>State\<close>

record node =
  n_id :: u16
  children :: "ptr list"
  childCount :: u16
  childCapacity :: u16
  n_parent :: ptr
  n_task :: ptr

record tree_heap = task_heap +
  nodes :: "nat \<Rightarrow> node option"
  nextId :: int

definition sizeof_TaskTreeNode :: u16 where
  "sizeof_TaskTreeNode = 40"

definition put_node :: "ptr \<Rightarrow> node \<Rightarrow> ('z tree_heap_scheme, unit) st" where
  "put_node p n = modify (\<lambda>s. s\<lparr>nodes := (nodes s)(addr_of_ptr p \<mapsto> n)\<rparr>)"

definition nth_opt :: "'a list \<Rightarrow> nat \<Rightarrow> 'a option" where
  "nth_opt xs i = (if i < length xs then Some (xs ! i) else None)"

section \<open>Operations\<close>

definition task_tree_create_node :: "ptr \<Rightarrow> ('z tree_heap_scheme, ptr) st" where
  "task_tree_create_node task =
     bind (vmmalloc sizeof_TaskTreeNode) (\<lambda>new_task.
     if new_task = Null
     then seq (vmprintf ''mem_alloc_failed: task\<newline>'' []) exit_failure
     else bind (gets nextId) (\<lambda>i.
          if i \<ge> 2147483647 then undef SignedOverflow
          else seq (modify (\<lambda>s. s\<lparr>nextId := i + 1\<rparr>))
              (seq (put_node new_task \<lparr>n_id = word_of_int i, children = [], childCount = 0,
                      childCapacity = 0, n_parent = Null, n_task = task\<rparr>)
                   (return new_task))))"

text \<open>\<open>realloc\<close> of the children array: the old entries stay, new ones are indeterminate.\<close>

definition grow_children :: "u16 \<Rightarrow> ptr list \<Rightarrow> ptr list" where
  "grow_children cap cs = take (unat cap) (cs @ replicate (unat cap) Indet)"

definition task_tree_add_child :: "ptr \<Rightarrow> ptr \<Rightarrow> ('z tree_heap_scheme, ptr) st" where
  "task_tree_add_child parent task =
     bind (task_tree_create_node task) (\<lambda>child.
     seq (bind (deref nodes child) (\<lambda>c. put_node child (c\<lparr>n_parent := parent\<rparr>)))
    (seq (bind (deref nodes parent) (\<lambda>p.
          if childCount p = childCapacity p
          then let cap = (if childCapacity p = 0 then 2 else childCapacity p * 2) in
               bind c_malloc (\<lambda>mem.
               if mem = Null
               then seq (vmprintf ''mem_alloc_failed: task child\<newline>'' []) exit_failure
               else put_node parent (p\<lparr>childCapacity := cap,
                                       children := grow_children cap (children p)\<rparr>))
          else return ()))
    (bind (deref nodes parent) (\<lambda>p.
     if unat (childCount p) < length (children p)
     then seq (put_node parent (p\<lparr>children := (children p)[unat (childCount p) := child],
                                  childCount := childCount p + 1\<rparr>))
              (return child)
     else undef OutOfBounds))))"

text \<open>\<open>task_tree_free_from n root i\<close> is the loop over the children from index
  \<open>i\<close>.\<close>

fun task_tree_free :: "nat \<Rightarrow> ptr \<Rightarrow> ('z tree_heap_scheme, unit) st"
and task_tree_free_from :: "nat \<Rightarrow> ptr \<Rightarrow> nat \<Rightarrow> ('z tree_heap_scheme, unit) st" where
  "task_tree_free 0 root = stop_with OutOfFuel"
| "task_tree_free (Suc n) root =
     bind (is_null root) (\<lambda>null.
     if null then return ()
     else seq (task_tree_free_from n root 0)
         (bind (deref nodes root) (\<lambda>r.
          seq (task_free (n_task r))
         (seq (vmfree (\<lambda>s. s) (sizeof_TaskTreeNode * childCount r))
              (vmfree (\<lambda>s. s\<lparr>nodes := (nodes s)(addr_of_ptr root := None)\<rparr>)
                 sizeof_TaskTreeNode)))))"
| "task_tree_free_from 0 root i = stop_with OutOfFuel"
| "task_tree_free_from (Suc n) root i =
     bind (deref nodes root) (\<lambda>r.
     if i < unat (childCount r)
     then bind (in_bounds (nth_opt (children r) i)) (\<lambda>c.
          seq (task_tree_free n c) (task_tree_free_from n root (Suc i)))
     else return ())"

definition tree_fuel :: "'z sys_scheme \<Rightarrow> nat" where
  "tree_fuel s = 3 * mallocs s + 3"

text \<open>\<open>children[j] = children[j + 1]\<close> for \<open>j\<close> from \<open>i\<close> to \<open>n - 2\<close>;
  \<open>k\<close> is the number of rounds left.\<close>

fun shift_left :: "nat \<Rightarrow> nat \<Rightarrow> ptr list \<Rightarrow> ptr list option" where
  "shift_left 0 j cs = Some cs"
| "shift_left (Suc k) j cs =
     (if Suc j < length cs then shift_left k (Suc j) (cs[j := cs ! Suc j]) else None)"

fun remove_child_from :: "nat \<Rightarrow> ptr \<Rightarrow> u16 \<Rightarrow> nat \<Rightarrow> ('z tree_heap_scheme, unit) st" where
  "remove_child_from 0 parent nid i = stop_with OutOfFuel"
| "remove_child_from (Suc n) parent nid i =
     bind (deref nodes parent) (\<lambda>p.
     if i < unat (childCount p)
     then bind (in_bounds (nth_opt (children p) i)) (\<lambda>c.
          bind (deref nodes c) (\<lambda>cn.
          if n_id cn = nid
          then bind (gets tree_fuel) (\<lambda>f.
               seq (task_tree_free f c)
              (bind (deref nodes parent) (\<lambda>q.
               bind (in_bounds (shift_left (unat (childCount q) - 1 - i) i (children q))) (\<lambda>cs.
               put_node parent (q\<lparr>children := cs, childCount := childCount q - 1\<rparr>)))))
          else remove_child_from n parent nid (Suc i)))
     else return ())"

definition task_tree_remove_child :: "ptr \<Rightarrow> ('z tree_heap_scheme, unit) st" where
  "task_tree_remove_child node =
     bind (deref nodes node) (\<lambda>n.
     bind (deref nodes (n_parent n)) (\<lambda>p.
     remove_child_from (Suc (unat (childCount p))) (n_parent n) (n_id n) 0))"

fun print_indent :: "nat \<Rightarrow> ('z sys_scheme, unit) st" where
  "print_indent 0 = return ()"
| "print_indent (Suc d) = seq (vmprintf ''  '' []) (print_indent d)"

fun task_tree_print :: "nat \<Rightarrow> ptr \<Rightarrow> nat \<Rightarrow> ('z tree_heap_scheme, unit) st"
and task_tree_print_from :: "nat \<Rightarrow> ptr \<Rightarrow> nat \<Rightarrow> nat \<Rightarrow> ('z tree_heap_scheme, unit) st" where
  "task_tree_print 0 root depth = stop_with OutOfFuel"
| "task_tree_print (Suc n) root depth =
     bind (is_null root) (\<lambda>null.
     if null then return ()
     else seq (print_indent depth)
         (bind (deref nodes root) (\<lambda>r.
          seq (vmprintf ''Task ID: %d\<newline>'' [AInt (uint (n_id r))])
              (task_tree_print_from n root depth 0))))"
| "task_tree_print_from 0 root depth i = stop_with OutOfFuel"
| "task_tree_print_from (Suc n) root depth i =
     bind (deref nodes root) (\<lambda>r.
     if i < unat (childCount r)
     then bind (in_bounds (nth_opt (children r) i)) (\<lambda>c.
          seq (task_tree_print n c (Suc depth)) (task_tree_print_from n root depth (Suc i)))
     else return ())"

text \<open>The traversal calls \<open>process\<close> on a node before its children and reads the
  node's child count again before each of them, so it sees the children added and removed
  by the calls.\<close>

fun task_tree_traverse_dfs ::
  "nat \<Rightarrow> ptr \<Rightarrow> (ptr \<Rightarrow> ('z tree_heap_scheme, unit) st) \<Rightarrow> ('z tree_heap_scheme, unit) st"
and traverse_children ::
  "nat \<Rightarrow> ptr \<Rightarrow> nat \<Rightarrow> (ptr \<Rightarrow> ('z tree_heap_scheme, unit) st) \<Rightarrow> ('z tree_heap_scheme, unit) st"
where
  "task_tree_traverse_dfs 0 root process = stop_with OutOfFuel"
| "task_tree_traverse_dfs (Suc n) root process =
     bind (is_null root) (\<lambda>null.
     if null then return ()
     else seq (process root) (traverse_children n root 0 process))"
| "traverse_children 0 root i process = stop_with OutOfFuel"
| "traverse_children (Suc n) root i process =
     bind (deref nodes root) (\<lambda>r.
     if i < unat (childCount r)
     then bind (in_bounds (nth_opt (children r) i)) (\<lambda>c.
          seq (task_tree_traverse_dfs n c process) (traverse_children n root (Suc i) process))
     else return ())"

end
