(* ===== verification/Io_C.thy ===== *)
theory Io_C
  imports Tasktree_C
begin

text \<open>
  src/io.c and src/io.h, as built for the host: the bank of memory-mapped ports. On the
  host the three port registers are the global variables \<open>DDRB\<close>, \<open>PORTB\<close> and
  \<open>PINB\<close> of src/io.c; a bank holds pointers to them.
\<close>

section \<open>State\<close>

datatype port = DDRB | PORTB | PINB

text \<open>The array \<open>ports\<close> of a bank: an entry never assigned is \<open>None\<close>.\<close>

record port_bank =
  ports :: "port option list"
  bank_size :: u8

record io_heap = tree_heap +
  port_regs :: "port \<Rightarrow> u8"
  port_banks :: "nat \<Rightarrow> port_bank option"

definition sizeof_PortBank :: u16 where
  "sizeof_PortBank = 16"

definition put_bank :: "ptr \<Rightarrow> port_bank \<Rightarrow> ('z io_heap_scheme, unit) st" where
  "put_bank p b = modify (\<lambda>s. s\<lparr>port_banks := (port_banks s)(addr_of_ptr p \<mapsto> b)\<rparr>)"

section \<open>Operations\<close>

definition map_ports :: "ptr \<Rightarrow> ('z io_heap_scheme, unit) st" where
  "map_ports p =
     bind (deref port_banks p) (\<lambda>b.
     if length (ports b) < 3 then undef OutOfBounds
     else put_bank p (b\<lparr>ports := (ports b)[0 := Some DDRB, 1 := Some PORTB, 2 := Some PINB]\<rparr>))"

definition port_bank_create :: "u8 \<Rightarrow> ('z io_heap_scheme, ptr) st" where
  "port_bank_create sz =
     bind (vmmalloc sizeof_PortBank) (\<lambda>port_bank.
     if port_bank = Null
     then seq (vmprintf ''mem_alloc_failed: port bank\<newline>'' []) exit_failure
     else bind (vmmalloc (ucast sz * 8)) (\<lambda>ports.
     if ports = Null
     then seq (vmprintf ''mem_alloc_failed: ports of the bank\<newline>'' []) exit_failure
     else seq (put_bank port_bank \<lparr>ports = replicate (unat sz) None, bank_size = sz\<rparr>)
         (seq (map_ports port_bank) (return port_bank))))"

definition port_of_address :: "ptr \<Rightarrow> u8 \<Rightarrow> ('z io_heap_scheme, port) st" where
  "port_of_address p address =
     bind (deref port_banks p) (\<lambda>b.
     bind (in_bounds (nth_opt (ports b) (unat address))) the_init)"

definition port_bank_get_address :: "ptr \<Rightarrow> u8 \<Rightarrow> ('z io_heap_scheme, u8) st" where
  "port_bank_get_address p address =
     bind (port_of_address p address) (\<lambda>r. gets (\<lambda>s. port_regs s r))"

definition port_bank_set_address :: "ptr \<Rightarrow> u8 \<Rightarrow> u8 \<Rightarrow> ('z io_heap_scheme, unit) st" where
  "port_bank_set_address p address v =
     bind (port_of_address p address) (\<lambda>r.
     modify (\<lambda>s. s\<lparr>port_regs := (port_regs s)(r := v)\<rparr>))"

text \<open>The loop of \<open>port_bank_print\<close>: \<open>n\<close> entries from index \<open>i\<close>.\<close>

fun print_ports :: "ptr \<Rightarrow> nat \<Rightarrow> nat \<Rightarrow> ('z io_heap_scheme, unit) st" where
  "print_ports p 0 i = return ()"
| "print_ports p (Suc n) i =
     seq (if i > 0 then vmprintf '', '' [] else return ())
    (bind (port_bank_get_address p (of_nat i)) (\<lambda>v.
     seq (vmprintf ''%hhu'' [AInt (uint v)]) (print_ports p n (Suc i))))"

definition port_bank_print :: "ptr \<Rightarrow> ('z io_heap_scheme, unit) st" where
  "port_bank_print p =
     seq (vmprintf ''['' [])
    (bind (deref port_banks p) (\<lambda>b.
     seq (print_ports p (unat (bank_size b)) 0) (vmprintf '']\<newline>'' [])))"

definition port_bank_free :: "ptr \<Rightarrow> ('z io_heap_scheme, unit) st" where
  "port_bank_free p =
     bind (deref port_banks p) (\<lambda>b.
     seq (vmfree (\<lambda>s. s) (ucast (bank_size b)))
         (vmfree (\<lambda>s. s\<lparr>port_banks := (port_banks s)(addr_of_ptr p := None)\<rparr>) sizeof_PortBank))"

end
