(* ===== verification/Server_C.thy ===== *)
theory Server_C
  imports Io_C
begin

text \<open>
  src/server.c and src/server.h (the MACOSX build): the listening socket and the receipt
  of one message. The results of the socket calls are inputs of the model: fields of the
  state that nothing changes, read in the order of the calls.
\<close>

section \<open>State\<close>

text \<open>One call of \<open>accept\<close>: it fails with EWOULDBLOCK/EAGAIN or with another error, or
  returns a descriptor from which \<open>read\<close> gets the given bytes (\<open>None\<close>: it fails).\<close>

datatype accept_result = WouldBlock | AcceptError | Accepted int "u8 list option"

record server =
  server_fd :: int
  server_port :: int

record net_heap = io_heap +
  servers :: "nat \<Rightarrow> server option"
  env_socket :: int          \<comment> \<open>result of \<open>socket\<close>\<close>
  env_getfl :: int           \<comment> \<open>result of \<open>fcntl(fd, F_GETFL, 0)\<close>\<close>
  env_setfl :: int           \<comment> \<open>result of \<open>fcntl(fd, F_SETFL, ...)\<close>\<close>
  env_bind :: int
  env_listen :: int
  env_accept :: "nat \<Rightarrow> accept_result"
  accepts :: nat             \<comment> \<open>calls of \<open>accept\<close> so far\<close>

definition SERVER_PORT :: int where
  "SERVER_PORT = 31337"

definition BUFFER_SIZE :: nat where
  "BUFFER_SIZE = 128"

definition sizeof_Server :: u16 where
  "sizeof_Server = 28"

section \<open>Operations\<close>

definition make_socket_non_blocking :: "('z net_heap_scheme, int) st" where
  "make_socket_non_blocking =
     bind (gets env_getfl) (\<lambda>flags.
     if flags = -1 then return (-1) else gets env_setfl)"

definition free_server_object :: "ptr \<Rightarrow> ('z net_heap_scheme, unit) st" where
  "free_server_object p =
     vmfree (\<lambda>s. s\<lparr>servers := (servers s)(addr_of_ptr p := None)\<rparr>) sizeof_Server"

definition server_free :: "ptr \<Rightarrow> ('z net_heap_scheme, unit) st" where
  "server_free p =
     bind (is_null p) (\<lambda>null.
     if null then return ()
     else bind (deref servers p) (\<lambda>sv.
          seq (emit (Call ''close'' [server_fd sv])) (free_server_object p)))"

definition server_create :: "int \<Rightarrow> ('z net_heap_scheme, ptr) st" where
  "server_create port =
     bind (vmmalloc sizeof_Server) (\<lambda>server.
     if server = Null
     then seq (vmprintf ''mem_alloc_failed: server\<newline>'' []) exit_failure
     else bind (gets env_socket) (\<lambda>fd.
     seq (modify (\<lambda>s. s\<lparr>servers := (servers s)(addr_of_ptr server \<mapsto>
            \<lparr>server_fd = fd, server_port = port\<rparr>)\<rparr>))
     (if fd = -1
      then seq (vmprintf ''socket error\<newline>'' []) (seq (free_server_object server) (return Null))
      else bind make_socket_non_blocking (\<lambda>nb.
      if nb = -1
      then seq (vmprintf ''fcntl error\<newline>'' []) (seq (server_free server) (return Null))
      else bind (gets env_bind) (\<lambda>b.
      if b < 0
      then seq (vmprintf ''bind error\<newline>'' []) (seq (server_free server) (return Null))
      else bind (gets env_listen) (\<lambda>l.
      if l < 0
      then seq (vmprintf ''listen error\<newline>'' []) (seq (server_free server) (return Null))
      else return server))))))"

definition server_receive_message :: "ptr \<Rightarrow> ('z net_heap_scheme, ptr) st" where
  "server_receive_message p =
     bind (deref servers p) (\<lambda>sv.
     bind (gets (\<lambda>s. env_accept s (accepts s))) (\<lambda>r.
     seq (modify (\<lambda>s. s\<lparr>accepts := Suc (accepts s)\<rparr>))
     (case r of
        WouldBlock \<Rightarrow> return Null
      | AcceptError \<Rightarrow> seq (vmprintf ''accept error\<newline>'' []) (return Null)
      | Accepted client_fd available \<Rightarrow>
          let buffer = (case available of None \<Rightarrow> [] | Some bs \<Rightarrow> take BUFFER_SIZE bs) in
          seq (emit (Call ''close'' [client_fd]))
          (if buffer = []
           then seq (vmprintf ''read error\<newline>'' []) (return Null)
           else message_deserialize buffer (length buffer)))))"

end
