(* ===== verification/Delay_C.thy ===== *)
theory Delay_C
  imports Server_C
begin

text \<open>
  src/delay.c, the MACOSX and WINDOWS branches: the wrapping millisecond clock and the blocking
  delay. The results of \<open>gettimeofday\<close> (seconds and microseconds) and of
  \<open>GetSystemTimeAsFileTime\<close> (units of 100 ns, both halves of the 64 bits) are inputs of the
  model. The machine is the MACOSX build; the ARDUINO branch is in the theory of the board.
\<close>

record clock_heap = net_heap +
  env_time :: "nat \<Rightarrow> 64 word \<times> 64 word"
  env_filetime :: "nat \<Rightarrow> 32 word \<times> 32 word"    \<comment> \<open>low and high half\<close>
  clock_reads :: nat

definition timer_init :: "('z clock_heap_scheme, unit) st" where
  "timer_init = return ()"

definition millis :: "('z clock_heap_scheme, u16) st" where
  "millis =
     bind (gets (\<lambda>s. env_time s (clock_reads s))) (\<lambda>tv.
     seq (modify (\<lambda>s. s\<lparr>clock_reads := Suc (clock_reads s)\<rparr>))
     (let milliseconds = fst tv * 1000 + snd tv div 1000 in
      return (ucast (milliseconds mod 65536))))"

definition delay_ms :: "u16 \<Rightarrow> ('z sys_scheme, unit) st" where
  "delay_ms milliseconds = emit (Call ''usleep'' [uint milliseconds * 1000])"

section \<open>The WINDOWS build\<close>

definition millis_windows :: "('z clock_heap_scheme, u16) st" where
  "millis_windows =
     bind (gets (\<lambda>s. env_filetime s (clock_reads s))) (\<lambda>ft.
     seq (modify (\<lambda>s. s\<lparr>clock_reads := Suc (clock_reads s)\<rparr>))
     (let quad_part = (ucast (fst ft) OR push_bit 32 (ucast (snd ft)) :: 64 word);
          milliseconds = (quad_part div 10000) mod 65536 in
      return (ucast milliseconds)))"

definition delay_ms_windows :: "u16 \<Rightarrow> ('z sys_scheme, unit) st" where
  "delay_ms_windows milliseconds = emit (Call ''Sleep'' [uint milliseconds])"

end
