(* ===== verification/Cpu_C.thy ===== *)
theory Cpu_C
  imports Delay_C
begin

text \<open>
  src/cpu.h and the part of src/cpu.c below the instructions: the machine's state, its
  creation and release, program loading, instruction fetch, task creation and deletion,
  and the context switch. The machine has one \<open>CPU\<close> object; its fields are the fields
  \<open>cpu_...\<close> of the state, and the fields above it are the objects it reaches.

  \<open>cpu_opstack\<close> and \<open>cpu_stack\<close> point to the stacks of the running task, so the
  instructions change that task's stacks; \<open>cpu_ip\<close> is a copy of the task's \<open>ip\<close>
  that the context switch writes back.
\<close>

section \<open>State\<close>

record cpu = clock_heap +
  cpu_task_tree_root :: ptr
  cpu_task_tree_current_node :: ptr
  cpu_program :: "u8 list"
  cpu_opstack :: ptr
  cpu_stack :: ptr
  cpu_port_bank :: ptr
  cpu_message_queues :: ptr
  cpu_server :: ptr
  cpu_program_size :: u16
  cpu_ip :: u16
  cpu_data_address :: u16
  cpu_tasks_number :: u16
  f32_add :: "f32 \<Rightarrow> f32 \<Rightarrow> f32"    \<comment> \<open>the host's \<open>float\<close> arithmetic\<close>
  f32_sub :: "f32 \<Rightarrow> f32 \<Rightarrow> f32"
  f32_mul :: "f32 \<Rightarrow> f32 \<Rightarrow> f32"
  f32_div :: "f32 \<Rightarrow> f32 \<Rightarrow> f32"

definition TASK_OPSTACK_SIZE :: u16 where
  "TASK_OPSTACK_SIZE = 1024"

definition TASK_STACK_SIZE :: u16 where
  "TASK_STACK_SIZE = 4096"

definition CONTEXT_MAX_CYCLES :: u8 where
  "CONTEXT_MAX_CYCLES = 255"

definition sizeof_CPU :: u16 where
  "sizeof_CPU = 72"

section \<open>Creation, loading and release\<close>

definition cpu_create :: "u8 \<Rightarrow> ('z cpu_scheme, unit) st" where
  "cpu_create port_bank =
     bind (vmmalloc sizeof_CPU) (\<lambda>cpu.
     if cpu = Null then undef NullDeref
     else bind (port_bank_create port_bank) (\<lambda>pb.
     seq (modify (\<lambda>s. s\<lparr>cpu_port_bank := pb\<rparr>))
    (bind (server_create SERVER_PORT) (\<lambda>sv.
     modify (\<lambda>s. s\<lparr>cpu_server := sv, cpu_ip := 0, cpu_data_address := 0,
                   cpu_tasks_number := 0, cpu_message_queues := Null\<rparr>)))))"

definition cpu_load_program :: "u8 list \<Rightarrow> u16 \<Rightarrow> u16 \<Rightarrow> ('z cpu_scheme, unit) st" where
  "cpu_load_program prog program_size data_address =
     seq (modify (\<lambda>s. s\<lparr>cpu_program := prog, cpu_program_size := program_size,
                       cpu_data_address := data_address\<rparr>))
    (bind (task_create 0 0 TASK_OPSTACK_SIZE TASK_STACK_SIZE 0) (\<lambda>main_task.
     bind (task_tree_create_node main_task) (\<lambda>root.
     seq (modify (\<lambda>s. s\<lparr>cpu_task_tree_root := root\<rparr>))
    (seq (modify (\<lambda>s. s\<lparr>cpu_task_tree_current_node := cpu_task_tree_root s\<rparr>))
    (bind (message_queue_create 0) (\<lambda>queue.
     seq (bind (deref tasks main_task) (\<lambda>t. put_task main_task (t\<lparr>t_inbox := queue\<rparr>)))
         (modify (\<lambda>s. s\<lparr>cpu_message_queues := queue\<rparr>))))))))"

definition cpu_free :: "('z cpu_scheme, unit) st" where
  "cpu_free =
     seq (bind (gets cpu_port_bank) port_bank_free)
    (seq (bind (gets tree_fuel) (\<lambda>n. bind (gets cpu_task_tree_root) (task_tree_free n)))
         (vmfree (\<lambda>s. s) sizeof_CPU))"

section \<open>Fetch\<close>

text \<open>\<open>None\<close> when the destination is left as it was.\<close>

definition cpu_fetch_data :: "nat \<Rightarrow> ('z cpu_scheme, u8 list option) st" where
  "cpu_fetch_data sz =
     bind (gets cpu_ip) (\<lambda>ip.
     bind (gets cpu_program_size) (\<lambda>program_size.
     if 0 \<le> ip \<and> ip < program_size
     then bind (gets cpu_program) (\<lambda>prog.
          if length prog < unat ip + sz then undef OutOfBounds
          else seq (modify (\<lambda>s. s\<lparr>cpu_ip := ip + of_nat sz\<rparr>))
                   (return (Some (take sz (drop (unat ip) prog)))))
     else seq (vmprintf ''cpu_fetch_data: out of program memory\<newline>'' []) (return None)))"

section \<open>Tasks\<close>

text \<open>The loop \<open>while (queue->next != NULL)\<close>.\<close>

fun last_queue :: "nat \<Rightarrow> ptr \<Rightarrow> ('z msg_heap_scheme, ptr) st" where
  "last_queue 0 queue = stop_with OutOfFuel"
| "last_queue (Suc n) queue =
     bind (deref queues queue) (\<lambda>q.
     bind (is_null (q_next q)) (\<lambda>null.
     if null then return queue else last_queue n (q_next q)))"

definition cpu_create_task_inbox :: "ptr \<Rightarrow> ('z cpu_scheme, unit) st" where
  "cpu_create_task_inbox task =
     bind (deref tasks task) (\<lambda>t.
     bind (message_queue_create (t_id t)) (\<lambda>new_queue.
     seq (put_task task (t\<lparr>t_inbox := new_queue\<rparr>))
    (bind (gets cpu_message_queues) (\<lambda>queue.
     bind (gets mallocs) (\<lambda>n.
     bind (last_queue (Suc n) queue) (\<lambda>last.
     bind (deref queues last) (\<lambda>q. put_queue last (q\<lparr>q_next := new_queue\<rparr>))))))))"

definition cpu_create_task :: "u16 \<Rightarrow> ('z cpu_scheme, unit) st" where
  "cpu_create_task address =
     bind (gets cpu_tasks_number) (\<lambda>tasks_number.
     if tasks_number = MAX_TASKS then vmprintf ''reached max tasks\<newline>'' []
     else seq (modify (\<lambda>s. s\<lparr>cpu_tasks_number := cpu_tasks_number s + 1\<rparr>))
    (bind (gets (\<lambda>s. ucast (cpu_tasks_number s))) (\<lambda>task_id.
     bind (bind (gets cpu_opstack) (\<lambda>p. stack_pop_data p 2)) (\<lambda>v.
     let message_handler_address = u16_of_bytes v in
     bind (task_create task_id address TASK_OPSTACK_SIZE TASK_STACK_SIZE message_handler_address)
       (\<lambda>task.
     bind (bind (gets cpu_task_tree_current_node) (\<lambda>c. task_tree_add_child c task)) (\<lambda>_.
     cpu_create_task_inbox task))))))"

definition cpu_delete_task :: "ptr \<Rightarrow> ('z cpu_scheme, unit) st" where
  "cpu_delete_task node = task_tree_remove_child node"

section \<open>Context switch\<close>

definition cpu_set_task_node :: "ptr \<Rightarrow> ('z cpu_scheme, unit) st" where
  "cpu_set_task_node node =
     bind (deref nodes node) (\<lambda>n.
     bind (deref tasks (n_task n)) (\<lambda>t.
     seq (put_task (n_task n) (t\<lparr>t_active := 1\<rparr>))
         (modify (\<lambda>s. s\<lparr>cpu_ip := t_ip t, cpu_opstack := t_opstack t, cpu_stack := t_stack t,
                       cpu_task_tree_current_node := node\<rparr>))))"

definition cpu_context_switch :: "ptr \<Rightarrow> ('z cpu_scheme, unit) st" where
  "cpu_context_switch node =
     seq (bind (gets cpu_task_tree_current_node) (\<lambda>c.
          bind (deref nodes c) (\<lambda>n.
          bind (is_null (n_task n)) (\<lambda>null.
          if null then return ()
          else bind (deref tasks (n_task n)) (\<lambda>t.
               bind (gets cpu_ip) (\<lambda>ip.
               put_task (n_task n) (t\<lparr>t_active := 0, t_ip := ip\<rparr>)))))))
         (cpu_set_task_node node)"

definition cpu_print :: "('z cpu_scheme, unit) st" where
  "cpu_print =
     seq (bind (gets cpu_ip) (\<lambda>ip. vmprintf ''IP: %d\<newline>'' [AInt (uint ip)]))
    (seq (vmprintf ''OpStack:\<newline>'' [])
    (seq (bind (gets cpu_opstack) stack_print)
    (seq (vmprintf ''Stack:\<newline>'' [])
         (bind (gets cpu_stack) stack_print))))"

text \<open>\<open>cpu_check_incoming_messages\<close>: at most one message from the network per cycle.\<close>

definition cpu_check_incoming_messages :: "('z cpu_scheme, unit) st" where
  "cpu_check_incoming_messages =
     bind (bind (gets cpu_server) server_receive_message) (\<lambda>message.
     bind (is_null message) (\<lambda>null.
     if null then return ()
     else bind (gets cpu_message_queues) (\<lambda>q.
          bind (deliver_local q message) (\<lambda>_. return ()))))"

end
