(* ===== verification/Builtin_C.thy ===== *)
theory Builtin_C
  imports Cpu_C
begin

text \<open>
  src/builtin.c and src/builtin.h, as built for MACOSX: the system calls. Their operands
  are on the operand stack of the running task; format strings and message payloads are
  read from the data area of the program.
\<close>

section \<open>Operands\<close>

text \<open>Popping an object from, and pushing one on, the stack that \<open>cpu->opstack\<close> points
  to: the calls of \<open>stack_pop_data\<close> and \<open>stack_push_data\<close> with the size of the object.\<close>

definition opstack_pop :: "u16 \<Rightarrow> ('z cpu_scheme, u8 list) st" where
  "opstack_pop sz = bind (gets cpu_opstack) (\<lambda>p. stack_pop_data p sz)"

definition opstack_push :: "u8 list \<Rightarrow> u16 \<Rightarrow> ('z cpu_scheme, unit) st" where
  "opstack_push v sz = bind (gets cpu_opstack) (\<lambda>p. stack_push_data p v sz)"

definition pop_u16 :: "('z cpu_scheme, u16) st" where
  "pop_u16 = bind (opstack_pop 2) (\<lambda>v. return (u16_of_bytes v))"

definition push_u16 :: "u16 \<Rightarrow> ('z cpu_scheme, unit) st" where
  "push_u16 w = opstack_push (bytes_of_u16 w) 2"

definition pop_f32 :: "('z cpu_scheme, f32) st" where
  "pop_f32 = bind (opstack_pop 4) (\<lambda>v. return (f32_of_bytes v))"

definition push_f32 :: "f32 \<Rightarrow> ('z cpu_scheme, unit) st" where
  "push_f32 w = opstack_push (bytes_of_f32 w) 4"

definition pop_bool :: "('z cpu_scheme, bool) st" where
  "pop_bool = bind (opstack_pop 1) bool_of_bytes"

definition push_bool :: "bool \<Rightarrow> ('z cpu_scheme, unit) st" where
  "push_bool b = opstack_push (bytes_of_bool b) 1"

text \<open>\<open>&cpu->program[cpu->data_address + address - cpu->port_bank->size]\<close>: the bytes of
  the program from there on. The index is an \<open>int\<close>; a pointer outside the array is
  undefined.\<close>

definition program_suffix :: "u8 list \<Rightarrow> int \<Rightarrow> u8 list option" where
  "program_suffix prog idx =
     (if 0 \<le> idx \<and> idx \<le> int (length prog) then Some (drop (nat idx) prog) else None)"

definition data_pointer :: "u16 \<Rightarrow> ('z cpu_scheme, u8 list) st" where
  "data_pointer address =
     bind (bind (gets cpu_port_bank) (deref port_banks)) (\<lambda>b.
     bind (gets cpu_data_address) (\<lambda>da.
     bind (gets cpu_program) (\<lambda>prog.
     in_bounds (program_suffix prog (uint da + uint address - uint (bank_size b))))))"

section \<open>System calls\<close>

text \<open>The conversions of \<open>builtin_print\<close>: the character after a percent sign.\<close>

definition print_conversion :: "u8 \<Rightarrow> ('z cpu_scheme, unit) st" where
  "print_conversion c =
     (if c = 117 \<comment> \<open>u\<close> then bind pop_u16 (\<lambda>w. vmprintf ''%hu'' [AInt (uint w)])
      else if c = 105 \<comment> \<open>i\<close> then bind pop_u16 (\<lambda>w. vmprintf ''%hi'' [AInt (sint w)])
      else if c = 102 \<comment> \<open>f\<close> then bind pop_f32 (\<lambda>x. vmprintf ''%.2f'' [AF32 x])
      else if c = 115 \<comment> \<open>s\<close> then
        bind (opstack_pop 1) (\<lambda>v. vmprintf ''%c'' [AInt (uint (v ! 0))])
      else vmprintf ''%%%c'' [AInt (sint c)])"

text \<open>The loop over the format string: the argument is the rest of the program's bytes
  from \<open>format\<close> on, so running past the end of the program is visible.\<close>

fun print_format :: "u8 list \<Rightarrow> ('z cpu_scheme, unit) st" where
  "print_format [] = undef OutOfBounds"
| "print_format (c # cs) =
     (if c = 0 then return ()
      else if c = 37 \<comment> \<open>percent\<close> then
        (case cs of
           [] \<Rightarrow> undef OutOfBounds
         | d # ds \<Rightarrow> seq (print_conversion d) (print_format ds))
      else seq (vmprintf ''%c'' [AInt (sint c)]) (print_format cs))"

definition builtin_print :: "('z cpu_scheme, unit) st" where
  "builtin_print =
     bind pop_u16 (\<lambda>format_address.
     bind (data_pointer format_address) print_format)"

definition builtin_print_opstack :: "('z cpu_scheme, unit) st" where
  "builtin_print_opstack =
     seq (vmprintf ''OPSTACK\<newline>'' []) (bind (gets cpu_opstack) stack_print)"

definition builtin_print_stack :: "('z cpu_scheme, unit) st" where
  "builtin_print_stack =
     seq (vmprintf ''STACK\<newline>'' []) (bind (gets cpu_stack) stack_print)"

text \<open>The body is compiled for ARDUINO only.\<close>

definition builtin_toggle_led :: "u16 \<Rightarrow> ('z cpu_scheme, unit) st" where
  "builtin_toggle_led milliseconds = return ()"

definition builtin_send_message :: "('z cpu_scheme, unit) st" where
  "builtin_send_message =
     bind pop_u16 (\<lambda>payload_size.
     bind pop_u16 (\<lambda>payload_address.
     bind (data_pointer payload_address) (\<lambda>payload.
     bind pop_u16 (\<lambda>task_dst_id.
     bind (bind (gets cpu_task_tree_current_node) (deref nodes)) (\<lambda>n.
     bind (deref tasks (n_task n)) (\<lambda>t.
     bind (gets cpu_message_queues) (\<lambda>q.
     message_queue_send_message q (t_id t) task_dst_id payload payload_size)))))))"

definition builtin_push_memory_usage :: "('z cpu_scheme, unit) st" where
  "builtin_push_memory_usage = bind get_memory_usage push_u16"

definition fetch_u16 :: "('z cpu_scheme, u16 option) st" where
  "fetch_u16 = bind (cpu_fetch_data 2) (\<lambda>v. return (map_option u16_of_bytes v))"

definition builtin_syscall :: "('z cpu_scheme, unit) st" where
  "builtin_syscall =
     bind (bind fetch_u16 the_init) (\<lambda>func_id.
     if func_id = 0 then builtin_print
     else if func_id = 1 then builtin_toggle_led 500
     else if func_id = 2 then builtin_print_opstack
     else if func_id = 3 then builtin_send_message
     else if func_id = 4 then builtin_push_memory_usage
     else if func_id = 5 then builtin_print_stack
     else return ())"

end
