(* ===== verification/Instructions_C.thy ===== *)
theory Instructions_C
  imports Builtin_C
begin

text \<open>
  src/instructions.c and src/instructions.h: one definition per instruction, in the order
  of the source. Unsigned 16-bit operands are promoted to a 32-bit \<open>int\<close>, so a product
  or a left shift that does not fit in an \<open>int\<close> is undefined, and so are a shift by 32 or
  more and a division by zero; the other results are truncated to 16 bits.
\<close>

section \<open>Opcodes\<close>

datatype opcode =
  OP_HALT | OP_DELAY | OP_JUMP | OP_POP_JUMP_IF_FALSE
| OP_COMPARE_EQ | OP_COMPARE_LT | OP_COMPARE_GT | OP_COMPARE_LE | OP_COMPARE_GE
| OP_CALL | OP_RETURN | OP_SYSCALL | OP_ASYNC_CALL | OP_ASYNC_RETURN
| OP_PUSHL_U16 | OP_POP_U16 | OP_TOP_U16 | OP_ADD_U16 | OP_SUB_U16 | OP_MUL_U16 | OP_DIV_U16
| OP_POPA_U16 | OP_PUSH_U16 | OP_ALLOC_LOCAL | OP_PUSH_LOCAL | OP_POP_LOCAL
| OP_PUSHL_I16 | OP_POP_I16 | OP_TOP_I16 | OP_ADD_I16 | OP_SUB_I16 | OP_MUL_I16 | OP_DIV_I16
| OP_READ_I16 | OP_WRITE_I16 | OP_ALLOC_I16 | OP_FREE_I16
| OP_PUSHL_F32 | OP_POP_F32 | OP_TOP_F32 | OP_ADD_F32 | OP_SUB_F32 | OP_MUL_F32 | OP_DIV_F32
| OP_PUSH_MILLIS
| OP_LSHIFT_U16 | OP_RSHIFT_U16 | OP_OR_U16 | OP_XOR_U16 | OP_AND_U16 | OP_NOT_U16

text \<open>The enumeration in the order of its values, 0 to 50.\<close>

definition opcodes :: "opcode list" where
  "opcodes =
    [OP_HALT, OP_DELAY, OP_JUMP, OP_POP_JUMP_IF_FALSE,
     OP_COMPARE_EQ, OP_COMPARE_LT, OP_COMPARE_GT, OP_COMPARE_LE, OP_COMPARE_GE,
     OP_CALL, OP_RETURN, OP_SYSCALL, OP_ASYNC_CALL, OP_ASYNC_RETURN,
     OP_PUSHL_U16, OP_POP_U16, OP_TOP_U16, OP_ADD_U16, OP_SUB_U16, OP_MUL_U16, OP_DIV_U16,
     OP_POPA_U16, OP_PUSH_U16, OP_ALLOC_LOCAL, OP_PUSH_LOCAL, OP_POP_LOCAL,
     OP_PUSHL_I16, OP_POP_I16, OP_TOP_I16, OP_ADD_I16, OP_SUB_I16, OP_MUL_I16, OP_DIV_I16,
     OP_READ_I16, OP_WRITE_I16, OP_ALLOC_I16, OP_FREE_I16,
     OP_PUSHL_F32, OP_POP_F32, OP_TOP_F32, OP_ADD_F32, OP_SUB_F32, OP_MUL_F32, OP_DIV_F32,
     OP_PUSH_MILLIS,
     OP_LSHIFT_U16, OP_RSHIFT_U16, OP_OR_U16, OP_XOR_U16, OP_AND_U16, OP_NOT_U16]"

definition opcode_of :: "u8 \<Rightarrow> opcode option" where
  "opcode_of b = nth_opt opcodes (unat b)"

section \<open>C arithmetic on promoted operands\<close>

definition int_max :: int where
  "int_max = 2147483647"

text \<open>\<open>u16_of_int\<close> is the conversion of an \<open>int\<close> to \<open>uint16_t\<close> (or to
  \<open>int16_t\<close>, which gcc and clang define as the same truncation).\<close>

definition c_mul_u16 :: "u16 \<Rightarrow> u16 \<Rightarrow> ('s, u16) st" where
  "c_mul_u16 a b =
     (if uint a * uint b > int_max then undef SignedOverflow
      else return (word_of_int (uint a * uint b)))"

definition c_div_u16 :: "u16 \<Rightarrow> u16 \<Rightarrow> ('s, u16) st" where
  "c_div_u16 a b =
     (if b = 0 then undef DivByZero else return (word_of_int (uint a div uint b)))"

definition c_div_i16 :: "u16 \<Rightarrow> u16 \<Rightarrow> ('s, u16) st" where
  "c_div_i16 a b =
     (if sint b = 0 then undef DivByZero else return (word_of_int (sint a sdiv sint b)))"

definition c_shl_u16 :: "u16 \<Rightarrow> u16 \<Rightarrow> ('s, u16) st" where
  "c_shl_u16 a b =
     (if unat b \<ge> 32 then undef BadShift
      else if push_bit (unat b) (uint a) > int_max then undef SignedOverflow
      else return (word_of_int (push_bit (unat b) (uint a))))"

definition c_shr_u16 :: "u16 \<Rightarrow> u16 \<Rightarrow> ('s, u16) st" where
  "c_shr_u16 a b =
     (if unat b \<ge> 32 then undef BadShift
      else return (word_of_int (drop_bit (unat b) (uint a))))"

section \<open>Halt and unsigned values\<close>

definition halt :: "('z cpu_scheme, unit) st" where
  "halt = seq (vmprintf ''Exit\<newline>'' []) (seq cpu_free (stop_with ExitSuccess))"

definition push_literal_U16 :: "('z cpu_scheme, unit) st" where
  "push_literal_U16 = bind (bind fetch_u16 the_init) push_u16"

definition pop_U16 :: "('z cpu_scheme, unit) st" where
  "pop_U16 = bind pop_u16 (\<lambda>_. return ())"

definition push_U16 :: "('z cpu_scheme, unit) st" where
  "push_U16 =
     bind (bind fetch_u16 the_init) (\<lambda>address.
     bind (gets cpu_port_bank) (\<lambda>pb.
     bind (deref port_banks pb) (\<lambda>b.
     bind (if address < ucast (bank_size b)
           then bind (port_bank_get_address pb (ucast address)) (\<lambda>v. return (ucast v))
           else bind (data_pointer address) (\<lambda>bs.
                bind (in_bounds (nth_opt bs 0)) (\<lambda>v. return (ucast v))))
       push_u16)))"

definition pop_address_U16 :: "('z cpu_scheme, unit) st" where
  "pop_address_U16 =
     bind fetch_u16 (\<lambda>a.
     bind pop_u16 (\<lambda>v.
     bind (the_init a) (\<lambda>address.
     bind (gets cpu_port_bank) (\<lambda>pb.
     bind (deref port_banks pb) (\<lambda>b.
     if address < ucast (bank_size b)
     then port_bank_set_address pb (ucast address) (ucast v)
     else seq (vmprintf ''ERROR: invalid cpu address\<newline>'' []) exit_failure)))))"

definition load_U16 :: "('z cpu_scheme, unit) st" where
  "load_U16 =
     bind (bind fetch_u16 the_init) (\<lambda>address.
     bind (bind (gets cpu_stack) (\<lambda>p. stack_read_bend_data_at p 2 address)) (\<lambda>v.
     opstack_push v 2))"

definition store_U16 :: "('z cpu_scheme, unit) st" where
  "store_U16 =
     bind fetch_u16 (\<lambda>a.
     bind (opstack_pop 2) (\<lambda>v.
     bind (the_init a) (\<lambda>address.
     bind (gets cpu_stack) (\<lambda>p. stack_write_bend_data_at p v 2 address))))"

text \<open>\<open>p->sp += n\<close> and \<open>p->sp -= n\<close>, which nothing checks.\<close>

definition sp_add :: "ptr \<Rightarrow> u16 \<Rightarrow> ('z stack_heap_scheme, unit) st" where
  "sp_add p n = bind (deref stacks p) (\<lambda>k. put_stack p (k\<lparr>sp := sp k + n\<rparr>))"

definition sp_sub :: "ptr \<Rightarrow> u16 \<Rightarrow> ('z stack_heap_scheme, unit) st" where
  "sp_sub p n = bind (deref stacks p) (\<lambda>k. put_stack p (k\<lparr>sp := sp k - n\<rparr>))"

definition var_U16 :: "('z cpu_scheme, unit) st" where
  "var_U16 = bind fetch_u16 (\<lambda>_. bind (gets cpu_stack) (\<lambda>p. sp_add p 2))"

definition del_U16 :: "('z cpu_scheme, unit) st" where
  "del_U16 = bind fetch_u16 (\<lambda>_. bind (gets cpu_stack) (\<lambda>p. sp_sub p 2))"

definition top_U16 :: "('z cpu_scheme, unit) st" where
  "top_U16 =
     bind (gets cpu_opstack) (\<lambda>p.
     bind (deref stacks p) (\<lambda>k.
     bind (stack_read_U16 p (sp k - 2)) (\<lambda>v.
     vmprintf ''%hu\<newline>'' [AInt (uint v)])))"

definition add_U16 :: "('z cpu_scheme, unit) st" where
  "add_U16 = bind pop_u16 (\<lambda>b. bind pop_u16 (\<lambda>a. push_u16 (a + b)))"

definition subtract_U16 :: "('z cpu_scheme, unit) st" where
  "subtract_U16 = bind pop_u16 (\<lambda>b. bind pop_u16 (\<lambda>a. push_u16 (a - b)))"

definition multiply_U16 :: "('z cpu_scheme, unit) st" where
  "multiply_U16 = bind pop_u16 (\<lambda>b. bind pop_u16 (\<lambda>a. bind (c_mul_u16 a b) push_u16))"

definition divide_U16 :: "('z cpu_scheme, unit) st" where
  "divide_U16 = bind pop_u16 (\<lambda>b. bind pop_u16 (\<lambda>a. bind (c_div_u16 a b) push_u16))"

section \<open>Signed values\<close>

definition push_literal_I16 :: "('z cpu_scheme, unit) st" where
  "push_literal_I16 = bind (bind fetch_u16 the_init) push_u16"

definition pop_I16 :: "('z cpu_scheme, unit) st" where
  "pop_I16 = bind (gets cpu_opstack) (\<lambda>p. sp_sub p 2)"

definition load_I16 :: "('z cpu_scheme, unit) st" where
  "load_I16 =
     bind (bind fetch_u16 the_init) (\<lambda>address.
     bind (bind (gets cpu_stack) (\<lambda>p. stack_read_bend_data_at p 2 address)) (\<lambda>v.
     opstack_push v 2))"

definition store_I16 :: "('z cpu_scheme, unit) st" where
  "store_I16 =
     bind fetch_u16 (\<lambda>a.
     bind (opstack_pop 2) (\<lambda>v.
     bind (the_init a) (\<lambda>address.
     bind (gets cpu_stack) (\<lambda>p. stack_write_bend_data_at p v 2 address))))"

definition var_I16 :: "('z cpu_scheme, unit) st" where
  "var_I16 = bind fetch_u16 (\<lambda>_. bind (gets cpu_stack) (\<lambda>p. sp_add p 2))"

definition del_I16 :: "('z cpu_scheme, unit) st" where
  "del_I16 = bind fetch_u16 (\<lambda>_. bind (gets cpu_stack) (\<lambda>p. sp_sub p 2))"

definition top_I16 :: "('z cpu_scheme, unit) st" where
  "top_I16 =
     bind (gets cpu_opstack) (\<lambda>p.
     bind (deref stacks p) (\<lambda>k.
     bind (stack_read_I16 p (sp k - 2)) (\<lambda>v.
     vmprintf ''%hi\<newline>'' [AInt (sint v)])))"

text \<open>Sum, difference and product of two \<open>int16_t\<close> fit in an \<open>int\<close>.\<close>

definition add_I16 :: "('z cpu_scheme, unit) st" where
  "add_I16 =
     bind pop_u16 (\<lambda>b. bind pop_u16 (\<lambda>a. push_u16 (word_of_int (sint a + sint b))))"

definition subtract_I16 :: "('z cpu_scheme, unit) st" where
  "subtract_I16 =
     bind pop_u16 (\<lambda>b. bind pop_u16 (\<lambda>a. push_u16 (word_of_int (sint a - sint b))))"

definition multiply_I16 :: "('z cpu_scheme, unit) st" where
  "multiply_I16 =
     bind pop_u16 (\<lambda>b. bind pop_u16 (\<lambda>a. push_u16 (word_of_int (sint a * sint b))))"

definition divide_I16 :: "('z cpu_scheme, unit) st" where
  "divide_I16 = bind pop_u16 (\<lambda>b. bind pop_u16 (\<lambda>a. bind (c_div_i16 a b) push_u16))"

section \<open>Floating point values\<close>

definition push_literal_F32 :: "('z cpu_scheme, unit) st" where
  "push_literal_F32 =
     bind (bind (cpu_fetch_data 4) the_init) (\<lambda>v. push_f32 (f32_of_bytes v))"

definition pop_F32 :: "('z cpu_scheme, unit) st" where
  "pop_F32 = bind pop_f32 (\<lambda>_. return ())"

definition top_F32 :: "('z cpu_scheme, unit) st" where
  "top_F32 =
     bind (gets cpu_opstack) (\<lambda>p.
     bind (deref stacks p) (\<lambda>k.
     bind (stack_read_F32 p (sp k - 4)) (\<lambda>v.
     vmprintf ''%.2f\<newline>'' [AF32 v])))"

definition add_F32 :: "('z cpu_scheme, unit) st" where
  "add_F32 =
     bind pop_f32 (\<lambda>b. bind pop_f32 (\<lambda>a. bind (gets f32_add) (\<lambda>f. push_f32 (f a b))))"

definition subtract_F32 :: "('z cpu_scheme, unit) st" where
  "subtract_F32 =
     bind pop_f32 (\<lambda>b. bind pop_f32 (\<lambda>a. bind (gets f32_sub) (\<lambda>f. push_f32 (f a b))))"

definition multiply_F32 :: "('z cpu_scheme, unit) st" where
  "multiply_F32 =
     bind pop_f32 (\<lambda>b. bind pop_f32 (\<lambda>a. bind (gets f32_mul) (\<lambda>f. push_f32 (f a b))))"

definition divide_F32 :: "('z cpu_scheme, unit) st" where
  "divide_F32 =
     bind pop_f32 (\<lambda>b. bind pop_f32 (\<lambda>a. bind (gets f32_div) (\<lambda>f. push_f32 (f a b))))"

section \<open>Control flow and comparisons\<close>

definition delay :: "('z cpu_scheme, unit) st" where
  "delay = bind (bind fetch_u16 the_init) delay_ms"

definition jump :: "('z cpu_scheme, unit) st" where
  "jump =
     bind (bind fetch_u16 the_init) (\<lambda>address. modify (\<lambda>s. s\<lparr>cpu_ip := address\<rparr>))"

definition pop_jump_if_false :: "('z cpu_scheme, unit) st" where
  "pop_jump_if_false =
     bind fetch_u16 (\<lambda>a.
     bind pop_bool (\<lambda>result.
     if \<not> result then bind (the_init a) (\<lambda>address. modify (\<lambda>s. s\<lparr>cpu_ip := address\<rparr>))
     else return ()))"

definition compare_equal :: "('z cpu_scheme, unit) st" where
  "compare_equal = bind pop_u16 (\<lambda>b. bind pop_u16 (\<lambda>a. push_bool (sint a = sint b)))"

definition compare_less :: "('z cpu_scheme, unit) st" where
  "compare_less = bind pop_u16 (\<lambda>b. bind pop_u16 (\<lambda>a. push_bool (sint a < sint b)))"

definition compare_greater :: "('z cpu_scheme, unit) st" where
  "compare_greater = bind pop_u16 (\<lambda>b. bind pop_u16 (\<lambda>a. push_bool (sint a > sint b)))"

definition compare_less_equal :: "('z cpu_scheme, unit) st" where
  "compare_less_equal = bind pop_u16 (\<lambda>b. bind pop_u16 (\<lambda>a. push_bool (sint a \<le> sint b)))"

definition compare_greater_equal :: "('z cpu_scheme, unit) st" where
  "compare_greater_equal = bind pop_u16 (\<lambda>b. bind pop_u16 (\<lambda>a. push_bool (sint a \<ge> sint b)))"

section \<open>Bitwise operations\<close>

definition bitwise_and_U16 :: "('z cpu_scheme, unit) st" where
  "bitwise_and_U16 = bind pop_u16 (\<lambda>b. bind pop_u16 (\<lambda>a. push_u16 (a AND b)))"

definition bitwise_or_U16 :: "('z cpu_scheme, unit) st" where
  "bitwise_or_U16 = bind pop_u16 (\<lambda>b. bind pop_u16 (\<lambda>a. push_u16 (a OR b)))"

definition bitwise_xor_U16 :: "('z cpu_scheme, unit) st" where
  "bitwise_xor_U16 = bind pop_u16 (\<lambda>b. bind pop_u16 (\<lambda>a. push_u16 (a XOR b)))"

definition bitwise_not_U16 :: "('z cpu_scheme, unit) st" where
  "bitwise_not_U16 = bind pop_u16 (\<lambda>a. push_u16 (NOT a))"

definition bitwise_left_shift_U16 :: "('z cpu_scheme, unit) st" where
  "bitwise_left_shift_U16 =
     bind pop_u16 (\<lambda>b. bind pop_u16 (\<lambda>a. bind (c_shl_u16 a b) push_u16))"

definition bitwise_right_shift_U16 :: "('z cpu_scheme, unit) st" where
  "bitwise_right_shift_U16 =
     bind pop_u16 (\<lambda>b. bind pop_u16 (\<lambda>a. bind (c_shr_u16 a b) push_u16))"

section \<open>Calls\<close>

text \<open>Pushing the \<open>uint16_t\<close> object of value \<open>w\<close> on the call stack.\<close>

definition stack_push_u16 :: "u16 \<Rightarrow> ('z cpu_scheme, unit) st" where
  "stack_push_u16 w = bind (gets cpu_stack) (\<lambda>p. stack_push_data p (bytes_of_u16 w) 2)"

definition stack_pop_u16 :: "('z cpu_scheme, u16) st" where
  "stack_pop_u16 =
     bind (bind (gets cpu_stack) (\<lambda>p. stack_pop_data p 2)) (\<lambda>v. return (u16_of_bytes v))"

text \<open>The object that \<open>cpu->stack\<close> points to, and an assignment to its fields.\<close>

definition call_stack :: "('z cpu_scheme, stack) st" where
  "call_stack = bind (gets cpu_stack) (deref stacks)"

definition set_call_stack :: "stack \<Rightarrow> ('z cpu_scheme, unit) st" where
  "set_call_stack k = bind (gets cpu_stack) (\<lambda>p. put_stack p k)"

definition call_address :: "u16 \<Rightarrow> ('z cpu_scheme, unit) st" where
  "call_address address =
     seq (bind (gets cpu_ip) stack_push_u16)
    (seq (modify (\<lambda>s. s\<lparr>cpu_ip := address\<rparr>))
    (seq (bind call_stack (\<lambda>k. stack_push_u16 (bp k)))
         (bind call_stack (\<lambda>k. set_call_stack (k\<lparr>bp := sp k\<rparr>)))))"

definition call :: "('z cpu_scheme, unit) st" where
  "call = bind (bind fetch_u16 the_init) call_address"

definition ret :: "('z cpu_scheme, unit) st" where
  "ret =
     seq (bind call_stack (\<lambda>k. set_call_stack (k\<lparr>sp := bp k\<rparr>)))
    (seq (bind stack_pop_u16 (\<lambda>b. bind call_stack (\<lambda>k. set_call_stack (k\<lparr>bp := b\<rparr>))))
         (bind stack_pop_u16 (\<lambda>address. modify (\<lambda>s. s\<lparr>cpu_ip := address\<rparr>))))"

definition async_call :: "('z cpu_scheme, unit) st" where
  "async_call = bind (bind fetch_u16 the_init) cpu_create_task"

definition async_ret :: "('z cpu_scheme, unit) st" where
  "async_ret = bind (gets cpu_task_tree_current_node) cpu_delete_task"

definition syscall :: "('z cpu_scheme, unit) st" where
  "syscall = builtin_syscall"

section \<open>Time and local variables\<close>

definition push_millis :: "('z cpu_scheme, unit) st" where
  "push_millis = bind millis push_u16"

definition allocate_local :: "('z cpu_scheme, unit) st" where
  "allocate_local =
     bind pop_u16 (\<lambda>sz.
     bind fetch_u16 (\<lambda>_.
     bind (gets cpu_stack) (\<lambda>p. sp_add p sz)))"

text \<open>The buffer of \<open>push_local\<close> and \<open>pop_local\<close> is one pointer variable, 8 bytes on
  the host: copying more bytes into it runs past the object.\<close>

definition sizeof_ptr :: nat where
  "sizeof_ptr = 8"

definition push_local :: "('z cpu_scheme, unit) st" where
  "push_local =
     bind pop_u16 (\<lambda>address.
     bind pop_u16 (\<lambda>sz.
     bind (gets cpu_stack) (\<lambda>p.
     bind (deref stacks p) (\<lambda>k.
     bind (stack_read_data_at p sz (bp k + address)) (\<lambda>v.
     if unat sz > sizeof_ptr then undef OutOfBounds
     else opstack_push v sz)))))"

definition pop_local :: "('z cpu_scheme, unit) st" where
  "pop_local =
     bind pop_u16 (\<lambda>address.
     bind pop_u16 (\<lambda>sz.
     bind (opstack_pop sz) (\<lambda>v.
     if unat sz > sizeof_ptr then undef OutOfBounds
     else
       bind (gets cpu_stack) (\<lambda>p.
       bind (deref stacks p) (\<lambda>k.
       stack_write_bend_data_at p v sz (bp k + address))))))"

end
