(* ===== verification/Interfaces.thy ===== *)
theory Interfaces
  imports Prelude
begin

text \<open>
  The contracts the components rely on. \<open>byte_lifo\<close> is a bounded stack of bytes: what a
  push and a pop do to the bytes in use, that they keep its invariant and the rest of the
  state, and that they end the process instead of overflowing or underflowing. \<open>codec\<close> is
  a fixed-width byte image of a type, and \<open>typed_lifo\<close> puts the two together: the
  operand discipline of every arithmetic, comparison and bitwise instruction is proved here
  once. The interpretations are with the components that provide the operations.
\<close>

section \<open>A bounded stack of bytes\<close>

locale byte_lifo =
  fixes push :: "u8 list \<Rightarrow> ('s, unit) st"
    and pop :: "nat \<Rightarrow> ('s, u8 list) st"
    and used :: "'s \<Rightarrow> u8 list"
    and capacity :: "'s \<Rightarrow> nat"
    and ok :: "'s \<Rightarrow> bool"
    and same :: "'s \<Rightarrow> 's \<Rightarrow> bool"
  assumes push_room: "ok s \<Longrightarrow> length (used s) + length v \<le> capacity s \<Longrightarrow>
      \<exists>t. push v s = Inr ((), t) \<and> ok t \<and> used t = used s @ rev v
        \<and> capacity t = capacity s \<and> same s t"
    and push_full: "ok s \<Longrightarrow> capacity s < length (used s) + length v \<Longrightarrow>
      length (used s) + length v < 65536 \<Longrightarrow> \<exists>t. push v s = Inl (ExitFailure, t)"
    and pop_enough: "ok s \<Longrightarrow> used s = xs @ ys \<Longrightarrow>
      \<exists>t. pop (length ys) s = Inr (rev ys, t) \<and> ok t \<and> used t = xs
        \<and> capacity t = capacity s \<and> same s t"
    and pop_underflow: "ok s \<Longrightarrow> length (used s) < n \<Longrightarrow> n < 65536 \<Longrightarrow>
      \<exists>t. pop n s = Inl (ExitFailure, t)"
    and used_bound: "ok s \<Longrightarrow> length (used s) \<le> capacity s"
    and same_trans: "same s t \<Longrightarrow> same t u \<Longrightarrow> same s u"
begin

text \<open>A pop gives back what the matching push stored, and restores the contents.\<close>

lemma push_pop:
  assumes "ok s" and "length (used s) + length v \<le> capacity s"
  shows "\<exists>t. bind (push v) (\<lambda>_. pop (length v)) s = Inr (v, t) \<and> ok t
    \<and> used t = used s \<and> capacity t = capacity s \<and> same s t"
proof -
  obtain t where t: "push v s = Inr ((), t)" "ok t" "used t = used s @ rev v"
      "capacity t = capacity s" "same s t"
    using push_room [OF assms] by blast
  obtain u where "pop (length (rev v)) t = Inr (rev (rev v), u)" "ok u" "used u = used s"
      "capacity u = capacity t" "same t u"
    using pop_enough [OF t(2,3)] by blast
  with t same_trans show ?thesis by (auto simp: st_simps)
qed

text \<open>Last in, first out.\<close>

lemma push_push_pop_pop:
  assumes "ok s" and "length (used s) + length v + length w \<le> capacity s"
  shows "\<exists>t. bind (push v) (\<lambda>_. bind (push w) (\<lambda>_. bind (pop (length w)) (\<lambda>w'.
      bind (pop (length v)) (\<lambda>v'. return (v', w'))))) s = Inr ((v, w), t)
    \<and> ok t \<and> used t = used s \<and> capacity t = capacity s \<and> same s t"
proof -
  obtain t where t: "push v s = Inr ((), t)" "ok t" "used t = used s @ rev v"
      "capacity t = capacity s" "same s t"
    using push_room [of s v] assms by auto
  then have "length (used t) + length w \<le> capacity t" using assms(2) by simp
  from push_pop [OF t(2) this] obtain u where
    u: "bind (push w) (\<lambda>_. pop (length w)) t = Inr (w, u)" "ok u" "used u = used s @ rev v"
      "capacity u = capacity s" "same t u"
    using t by auto
  obtain r where r: "pop (length (rev v)) u = Inr (rev (rev v), r)" "ok r" "used r = used s"
      "capacity r = capacity u" "same u r"
    using pop_enough [OF u(2,3)] by blast
  from t u r show ?thesis
    by (auto simp: st_simps split: sum.splits prod.splits intro: same_trans)
qed

end

section \<open>Byte images\<close>

locale codec =
  fixes enc :: "'v \<Rightarrow> u8 list"
    and dec :: "u8 list \<Rightarrow> 'v"
    and width :: nat
  assumes dec_enc: "dec (enc v) = v"
    and length_enc: "length (enc v) = width"
begin

lemma enc_inject: "enc v = enc w \<longleftrightarrow> v = w"
  by (metis dec_enc)

end

interpretation u16_codec: codec bytes_of_u16 u16_of_bytes 2
  by unfold_locales simp_all

interpretation f32_codec: codec bytes_of_f32 f32_of_bytes 4
  by unfold_locales simp_all

section \<open>Typed operands\<close>

locale typed_lifo = byte_lifo push pop used capacity ok same + codec enc dec width
  for push :: "u8 list \<Rightarrow> ('s, unit) st"
    and pop :: "nat \<Rightarrow> ('s, u8 list) st"
    and used :: "'s \<Rightarrow> u8 list"
    and capacity :: "'s \<Rightarrow> nat"
    and ok :: "'s \<Rightarrow> bool"
    and same :: "'s \<Rightarrow> 's \<Rightarrow> bool"
    and enc :: "'v \<Rightarrow> u8 list"
    and dec :: "u8 list \<Rightarrow> 'v"
    and width :: nat +
  assumes width_small: "width < 65536"
begin

lemma pop_typed:
  assumes "ok s" and "used s = xs @ rev (enc v)"
  shows "\<exists>t. pop width s = Inr (enc v, t) \<and> ok t \<and> used t = xs
    \<and> capacity t = capacity s \<and> same s t"
  using pop_enough [OF assms] by (simp add: length_enc)

text \<open>A unary instruction: pop an operand, push the result.\<close>

lemma unary:
  assumes "ok s" and "used s = xs @ rev (enc a)" and "length (r a) \<le> width"
  shows "\<exists>t. bind (pop width) (\<lambda>va. push (r (dec va))) s = Inr ((), t) \<and> ok t
    \<and> used t = xs @ rev (r a) \<and> capacity t = capacity s \<and> same s t"
proof -
  from pop_typed [OF assms(1,2)] obtain t where
    t: "pop width s = Inr (enc a, t)" "ok t" "used t = xs" "capacity t = capacity s" "same s t"
    by blast
  have "length (used t) + length (r a) \<le> capacity t"
    using used_bound [OF assms(1)] assms(2,3) t(3,4) by (simp add: length_enc)
  from push_room [OF t(2) this] t show ?thesis
    by (auto simp: st_simps dec_enc intro: same_trans)
qed

text \<open>A binary instruction: pop the second operand, then the first, push the result.\<close>

lemma binary:
  assumes "ok s" and "used s = xs @ rev (enc a) @ rev (enc b)" and "length (r a b) \<le> 2 * width"
  shows "\<exists>t. bind (pop width) (\<lambda>vb. bind (pop width) (\<lambda>va. push (r (dec va) (dec vb)))) s
      = Inr ((), t)
    \<and> ok t \<and> used t = xs @ rev (r a b) \<and> capacity t = capacity s \<and> same s t"
proof -
  from pop_typed [of s "xs @ rev (enc a)" b] assms obtain t where
    t: "pop width s = Inr (enc b, t)" "ok t" "used t = xs @ rev (enc a)"
      "capacity t = capacity s" "same s t" by auto
  from pop_typed [OF t(2,3)] obtain u where
    u: "pop width t = Inr (enc a, u)" "ok u" "used u = xs" "capacity u = capacity t" "same t u"
    by blast
  have "length (used u) + length (r a b) \<le> capacity u"
    using used_bound [OF assms(1)] assms(2,3) t(4) u(3,4) by (simp add: length_enc)
  from push_room [OF u(2) this] t u show ?thesis
    by (auto simp: st_simps dec_enc intro: same_trans)
qed

text \<open>With fewer bytes than its operands need, a binary instruction ends the process.\<close>

lemma binary_underflow:
  assumes "ok s" and "length (used s) < 2 * width"
  shows "\<exists>t. bind (pop width) (\<lambda>vb. bind (pop width) (\<lambda>va. m va vb)) s = Inl (ExitFailure, t)"
proof (cases "length (used s) < width")
  case True
  with pop_underflow [OF assms(1) True width_small] show ?thesis by (auto simp: st_simps)
next
  case False
  let ?xs = "take (length (used s) - width) (used s)"
    and ?ys = "drop (length (used s) - width) (used s)"
  from pop_enough [of s ?xs ?ys] assms(1) False obtain t where
    t: "pop width s = Inr (rev ?ys, t)" "ok t" "used t = ?xs" by auto
  from False assms(2) t(3) have "length (used t) < width" by simp
  with pop_underflow [OF t(2) this width_small] t(1) show ?thesis
    by (auto simp: st_simps)
qed

end

end
