(* ===== verification/Stack_Spec.thy ===== *)
theory Stack_Spec
  imports Stack_C Interfaces
begin

text \<open>
  What the byte stacks of src/stack.c promise: they refine a bounded last-in first-out list
  of bytes (the interpretation \<open>stack_lifo\<close> of the contract \<open>byte_lifo\<close>), they end the
  process on overflow and underflow as long as the 16-bit end address does not wrap, and
  the other operations agree with them.
\<close>

section \<open>The stack at an address as a bounded stack of bytes\<close>

definition stack_at :: "nat \<Rightarrow> 'z stack_heap_scheme \<Rightarrow> stack" where
  "stack_at a s = the (stacks s a)"

definition live_stack :: "nat \<Rightarrow> 'z stack_heap_scheme \<Rightarrow> bool" where
  "live_stack a s \<longleftrightarrow> stacks s a \<noteq> None \<and> stack_ok (stack_at a s)"

text \<open>\<open>t\<close> differs from \<open>s\<close> at most in the data and \<open>sp\<close> of the stack at \<open>a\<close>.\<close>

definition same_but_stack :: "nat \<Rightarrow> 'z stack_heap_scheme \<Rightarrow> 'z stack_heap_scheme \<Rightarrow> bool" where
  "same_but_stack a s t \<longleftrightarrow>
     (\<exists>k. t = s\<lparr>stacks := (stacks s)(a \<mapsto> k)\<rparr> \<and> stk_size k = stk_size (stack_at a s)
        \<and> bp k = bp (stack_at a s))"

lemma same_but_stackI:
  "stacks s a = Some k \<Longrightarrow> stk_size k' = stk_size k \<Longrightarrow> bp k' = bp k \<Longrightarrow>
   same_but_stack a s (s\<lparr>stacks := (stacks s)(a \<mapsto> k')\<rparr>)"
  by (auto simp: same_but_stack_def stack_at_def)

lemma same_but_stack_trans:
  "same_but_stack a s t \<Longrightarrow> same_but_stack a t u \<Longrightarrow> same_but_stack a s u"
  by (auto simp: same_but_stack_def stack_at_def)

lemma live_stackE:
  assumes "live_stack a s"
  obtains k where "stacks s a = Some k" "stack_ok k" "stack_at a s = k"
  using assms by (auto simp: live_stack_def stack_at_def)

lemma same_but_stack_refl:
  assumes "live_stack a s"
  shows "same_but_stack a s s"
proof -
  obtain k where "stacks s a = Some k" "stack_at a s = k" using assms by (rule live_stackE)
  moreover from this have "s\<lparr>stacks := (stacks s)(a \<mapsto> k)\<rparr> = s" by (simp add: fun_upd_idem)
  ultimately show ?thesis by (metis same_but_stack_def)
qed

interpretation stack_lifo: byte_lifo
  "\<lambda>v. stack_push_data (Ptr a) v (of_nat (length v))"
  "\<lambda>n. stack_pop_data (Ptr a) (of_nat n)"
  "\<lambda>s. contents (stack_at a s)"
  "\<lambda>s. unat (stk_size (stack_at a s))"
  "live_stack a"
  "same_but_stack a"
  for a :: nat
proof
  fix s :: "'z stack_heap_scheme" and v :: "u8 list"
  assume "live_stack a s" and room: "length (contents (stack_at a s)) + length v
      \<le> unat (stk_size (stack_at a s))"
  then obtain k where k: "stacks s a = Some k" "stack_ok k" "stack_at a s = k"
    by (auto elim: live_stackE)
  with room have "unat (sp k) + length v \<le> unat (stk_size k)" by (simp add: length_contents)
  with k show "\<exists>t. stack_push_data (Ptr a) v (of_nat (length v)) s = Inr ((), t) \<and> live_stack a t
      \<and> contents (stack_at a t) = contents (stack_at a s) @ rev v
      \<and> unat (stk_size (stack_at a t)) = unat (stk_size (stack_at a s)) \<and> same_but_stack a s t"
    by (auto simp: stack_push_data_room live_stack_def stack_at_def contents_pushed
        stack_ok_pushed intro!: same_but_stackI)
next
  fix s :: "'z stack_heap_scheme" and v :: "u8 list"
  assume "live_stack a s" and full: "unat (stk_size (stack_at a s)) < length (contents (stack_at a s)) + length v"
    and small: "length (contents (stack_at a s)) + length v < 65536"
  then obtain k where k: "stacks s a = Some k" "stack_ok k" "stack_at a s = k"
    by (auto elim: live_stackE)
  have "unat (of_nat (length v) :: u16) = length v"
    using small by (simp add: unat_of_nat)
  with k full small obtain evs where
    "stack_push_data (Ptr a) v (of_nat (length v)) s = Inl (ExitFailure, s\<lparr>out := out s @
        Printf ''stack_write_bend_data_at: stackoverflow\<newline>'' [] # evs\<rparr>)"
    using stack_push_data_full [of s a k "of_nat (length v)" v]
    by (auto simp: length_contents stack_ok_def)
  then show "\<exists>t. stack_push_data (Ptr a) v (of_nat (length v)) s = Inl (ExitFailure, t)" by blast
next
  fix s :: "'z stack_heap_scheme" and xs ys :: "u8 list"
  assume "live_stack a s" and c: "contents (stack_at a s) = xs @ ys"
  then obtain k where k: "stacks s a = Some k" "stack_ok k" "stack_at a s = k"
    by (auto elim: live_stackE)
  with c have len: "unat (sp k) = length xs + length ys" by (metis length_contents length_append)
  then have n: "unat (of_nat (length ys) :: u16) = length ys"
    by (intro length_of_u16 [of ys "sp k"]) simp
  with len have le: "of_nat (length ys) \<le> sp k" by (simp add: word_le_nat_alt)
  show "\<exists>t. stack_pop_data (Ptr a) (of_nat (length ys)) s = Inr (rev ys, t) \<and> live_stack a t
      \<and> contents (stack_at a t) = xs
      \<and> unat (stk_size (stack_at a t)) = unat (stk_size (stack_at a s)) \<and> same_but_stack a s t"
    using k c len n le stack_pop_data_enough [OF k(1,2) le]
      contents_popped [OF k(2) le] stack_ok_popped [OF k(2) le]
    by (auto simp: live_stack_def stack_at_def intro!: same_but_stackI)
next
  fix s :: "'z stack_heap_scheme" and n :: nat
  assume "live_stack a s" and n: "length (contents (stack_at a s)) < n" "n < 65536"
  then obtain k where k: "stacks s a = Some k" "stack_ok k" "stack_at a s = k"
    by (auto elim: live_stackE)
  with n have "sp k < of_nat n"
    by (simp add: word_less_nat_alt length_contents unat_of_nat)
  with k show "\<exists>t. stack_pop_data (Ptr a) (of_nat n) s = Inl (ExitFailure, t)"
    using stack_pop_data_underflow [of s a k "of_nat n"] by (auto simp: stack_ok_def)
next
  fix s :: "'z stack_heap_scheme"
  assume "live_stack a s"
  then show "length (contents (stack_at a s)) \<le> unat (stk_size (stack_at a s))"
    by (auto elim!: live_stackE simp: length_contents) (simp add: stack_ok_def)
qed (rule same_but_stack_trans)

section \<open>Byte-wise operations\<close>

text \<open>\<open>stack_push\<close> and \<open>stack_pop\<close> move one byte; \<open>stack_pop_bytes\<close> returns the bytes
  in the order it pops them, the last pushed first.\<close>

lemma stack_push_room:
  assumes "stacks s a = Some k" and "stack_ok k" and "unat (sp k) < unat (stk_size k)"
  shows "stack_push (Ptr a) v s = Inr ((), s\<lparr>stacks := (stacks s)(a \<mapsto> pushed [v] k)\<rparr>)"
proof -
  have "sp k \<noteq> stk_size k" and "unat (sp k) < length (stk_data k)"
    using assms by (auto simp: stack_ok_def stack_wf_def)
  then show ?thesis
    using assms(1) by (simp add: stack_push_def st_simps pushed_def upd_conv_take_nth_drop)
qed

lemma stack_pop_enough:
  assumes "stacks s a = Some k" and "stack_ok k" and "contents k = xs @ [v]"
  shows "stack_pop (Ptr a) s = Inr (v, s\<lparr>stacks := (stacks s)(a \<mapsto> popped 1 k)\<rparr>)"
    and "contents (popped 1 k) = xs" and "stack_ok (popped 1 k)"
proof -
  have len: "unat (sp k) = Suc (length xs)"
    using length_contents [OF assms(2)] assms(3) by simp
  then have nz: "sp k \<noteq> 0" by auto
  then have le: "1 \<le> sp k" by (simp add: word_le_nat_alt len)
  have sp1: "unat (sp k - 1) = length xs" using unat_u16_sub [OF le] len by simp
  have "stk_data k ! length xs = v"
    using assms(3) len unfolding contents_def by (metis lessI nth_append_length nth_take)
  moreover have "length xs < length (stk_data k)"
    using assms(2) len by (simp add: stack_ok_def stack_wf_def)
  ultimately show "stack_pop (Ptr a) s = Inr (v, s\<lparr>stacks := (stacks s)(a \<mapsto> popped 1 k)\<rparr>)"
    using assms(1) nz sp1 by (simp add: stack_pop_def st_simps popped_def Let_def)
  show "contents (popped 1 k) = xs"
    using contents_popped [OF assms(2) le] assms(3) len by simp
  show "stack_ok (popped 1 k)"
    by (rule stack_ok_popped [OF assms(2) le])
qed

lemma stack_pop_bytes_enough:
  assumes "stacks s a = Some k" and "stack_ok k" and "contents k = xs @ ys"
  shows "\<exists>k'. stack_pop_bytes (Ptr a) (length ys) s
             = Inr (rev ys, s\<lparr>stacks := (stacks s)(a \<mapsto> k')\<rparr>)
           \<and> stack_ok k' \<and> contents k' = xs"
  using assms
proof (induction ys arbitrary: s k rule: rev_induct)
  case Nil
  then have "s\<lparr>stacks := (stacks s)(a \<mapsto> k)\<rparr> = s" by (simp add: fun_upd_idem)
  moreover have "stack_pop_bytes (Ptr a) (length []) s = Inr (rev [], s)" by (simp add: st_simps)
  ultimately show ?case using Nil.prems by (metis append_Nil2)
next
  case (snoc y ys)
  let ?t = "s\<lparr>stacks := (stacks s)(a \<mapsto> popped 1 k)\<rparr>"
  note pop = stack_pop_enough [OF snoc.prems(1,2), of "xs @ ys" y]
  have popped: "stack_pop (Ptr a) s = Inr (y, ?t)" "contents (popped 1 k) = xs @ ys"
    "stack_ok (popped 1 k)"
    using pop snoc.prems(3) by simp_all
  with snoc.IH [of ?t "popped 1 k"] obtain k' where
    "stack_pop_bytes (Ptr a) (length ys) ?t = Inr (rev ys, ?t\<lparr>stacks := (stacks ?t)(a \<mapsto> k')\<rparr>)"
    "stack_ok k'" "contents k' = xs" by auto
  with popped(1) show ?case
    by (intro exI [of _ k']) (simp add: st_simps)
qed

section \<open>Random access\<close>

definition written :: "u8 list \<Rightarrow> nat \<Rightarrow> stack \<Rightarrow> stack" where
  "written v i k = k\<lparr>stk_data := take i (stk_data k) @ rev v @ drop (i + length v) (stk_data k),
                    sp := of_nat (max (i + length v) (unat (sp k)))\<rparr>"

lemma stack_write_inside:
  assumes "stacks s a = Some k" and "stack_ok k" and "length v = unat n"
    and "unat address + unat n \<le> unat (stk_size k)"
  shows "stack_write_bend_data_at (Ptr a) v n address s =
           Inr ((), s\<lparr>stacks := (stacks s)(a \<mapsto> written v (unat address) k)\<rparr>)"
proof -
  have end_eq: "unat (address + n) = unat address + unat n"
    using assms(4) unat_u16_less [of "stk_size k"] by (intro unat_u16_add) simp
  have "bend_write v (unat n) (unat address) 0 (stk_data k) =
      Some (stk_data (written v (unat address) k))"
    using assms by (simp add: bend_write_eq written_def stack_ok_def stack_wf_def)
  moreover have "\<not> address + n > stk_size k"
    using assms(4) by (simp add: word_less_nat_alt end_eq)
  moreover have "(if address + n > sp k then address + n else sp k) = sp (written v (unat address) k)"
    using assms(3) by (auto simp: written_def word_less_nat_alt end_eq max_def
        simp flip: end_eq)
  ultimately show ?thesis
    using assms(1)
    by (simp add: stack_write_bend_data_at_def st_simps Let_def written_def)
qed

lemma stack_read_inside:
  assumes "stacks s a = Some k" and "n \<le> sp k"
    and "unat address + unat n \<le> length (stk_data k)"
  shows "stack_read_bend_data_at (Ptr a) n address s =
           Inr (rev (take (unat n) (drop (unat address) (stk_data k))), s)"
proof -
  have "\<not> sp k < n" using assms(2) by simp
  with assms(1,3) show ?thesis
    by (simp add: stack_read_bend_data_at_def st_simps bend_read_eq)
qed

section \<open>A concrete heap\<close>

text \<open>A heap with one stack of eight bytes, three in use, at address 1.\<close>

definition demo_stack :: stack where
  "demo_stack = \<lparr>stk_data = [10, 20, 30, 0, 0, 0, 0, 0], stk_size = 8, sp = 3, bp = 0\<rparr>"

definition demo_heap :: stack_heap where
  "demo_heap = \<lparr>out = [], malloc_ok = (\<lambda>_. True), mallocs = 2, dynamic_memory_usage = 24,
     stacks = [1 \<mapsto> demo_stack]\<rparr>"

lemma demo_stack_ok [simp]: "stack_ok demo_stack"
  by (simp add: demo_stack_def stack_ok_def stack_wf_def)

lemma demo_heap_simps [simp]:
  "stacks demo_heap 1 = Some demo_stack" "stacks demo_heap (Suc 0) = Some demo_stack"
  "stk_size demo_stack = 8" "sp demo_stack = 3" "contents demo_stack = [10, 20, 30]"
  "stk_data demo_stack = [10, 20, 30, 0, 0, 0, 0, 0]" "stack_at (Suc 0) demo_heap = demo_stack"
  by (simp_all add: demo_heap_def demo_stack_def contents_def stack_at_def)

lemma live_demo [simp]: "live_stack (Suc 0) demo_heap"
  by (simp add: live_stack_def)

section \<open>Properties\<close>

text \<open>C28: the three outcomes of \<open>stack_push_data\<close> on a well-formed stack. With room, the
  bytes in use are extended by the value's bytes in reverse and everything else stays; if
  the new end does not fit, the process ends with the overflow message before anything is
  written; but when the end passes 65535 the 16-bit sum wraps, the check passes and the
  write runs past the data array.\<close>

theorem stack_push_data_outcome:
  assumes "stacks s a = Some k" and "stack_ok k" and "length v = unat n"
  shows "if unat (sp k) + unat n \<le> unat (stk_size k)
    then \<exists>k'. stack_push_data (Ptr a) v n s = Inr ((), s\<lparr>stacks := (stacks s)(a \<mapsto> k')\<rparr>)
           \<and> stack_ok k' \<and> contents k' = contents k @ rev v
           \<and> stk_size k' = stk_size k \<and> bp k' = bp k
    else if unat (sp k) + unat n < 65536
    then \<exists>evs. stack_push_data (Ptr a) v n s = Inl (ExitFailure, s\<lparr>out := out s @
           Printf ''stack_write_bend_data_at: stackoverflow\<newline>'' [] # evs\<rparr>)
    else stack_push_data (Ptr a) v n s = Inl (Undefined OutOfBounds, s)"
proof -
  have n: "of_nat (length v) = n" by (simp add: assms(3))
  consider (room) "unat (sp k) + unat n \<le> unat (stk_size k)"
    | (full) "unat (stk_size k) < unat (sp k) + unat n" "unat (sp k) + unat n < 65536"
    | (wrap) "65536 \<le> unat (sp k) + unat n"
    by linarith
  then show ?thesis
  proof cases
    case room
    with stack_push_data_room [of s a k v] contents_pushed [of k v] stack_ok_pushed [of k v] assms n
    show ?thesis by (auto intro!: exI [of _ "pushed v k"])
  next
    case full
    with stack_push_data_full [of s a k n v] assms show ?thesis by (simp add: stack_ok_def)
  next
    case wrap
    moreover from this have "unat (sp k) + unat n - 65536 \<le> unat (stk_size k)"
      using assms(2) unat_u16_less [of n] unfolding stack_ok_def by linarith
    ultimately show ?thesis
      using stack_write_wraps [of s a k v n "sp k"] assms unat_u16_less [of "stk_size k"]
      by (auto simp: stack_push_data_def stack_push_bend_data_def st_simps stack_ok_def)
  qed
qed

theorem stack_push_data_outcome_witness:
  "(\<exists>k'. stack_push_data (Ptr 1) [1, 2] 2 demo_heap
       = Inr ((), demo_heap\<lparr>stacks := (stacks demo_heap)(1 \<mapsto> k')\<rparr>)
      \<and> contents k' = [10, 20, 30, 2, 1])
   \<and> stack_push_data (Ptr 1) (replicate 65534 7) 65534 demo_heap
       = Inl (Undefined OutOfBounds, demo_heap)"
  using stack_push_data_outcome [of demo_heap 1 demo_stack "[1, 2]" 2]
    stack_push_data_outcome [of demo_heap 1 demo_stack "replicate 65534 7" 65534]
  by auto

text \<open>C29: the two outcomes of \<open>stack_pop_data\<close> on a well-formed stack. It takes the last
  \<open>n\<close> bytes in use and returns them in reverse, which is the order of the object's bytes;
  with fewer bytes in use the process ends with the underflow message.\<close>

theorem stack_pop_data_outcome:
  assumes "stacks s a = Some k" and "stack_ok k"
  shows "if unat n \<le> length (contents k)
    then \<exists>k'. stack_pop_data (Ptr a) n s =
             Inr (rev (drop (length (contents k) - unat n) (contents k)),
                  s\<lparr>stacks := (stacks s)(a \<mapsto> k')\<rparr>)
           \<and> stack_ok k' \<and> contents k' = take (length (contents k) - unat n) (contents k)
           \<and> stk_size k' = stk_size k \<and> bp k' = bp k
    else \<exists>evs. stack_pop_data (Ptr a) n s = Inl (ExitFailure, s\<lparr>out := out s @
           Printf ''stack_pop_bend_data: stack underflow\<newline>'' [] # evs\<rparr>)"
proof (cases "n \<le> sp k")
  case True
  with stack_pop_data_enough [OF assms True] contents_popped [OF assms(2) True]
    stack_ok_popped [OF assms(2) True] assms(2)
  show ?thesis
    by (auto simp: length_contents word_le_nat_alt intro!: exI [of _ "popped n k"])
next
  case False
  then have "sp k < n" by simp
  with stack_pop_data_underflow [OF assms(1) _ this] assms(2) show ?thesis
    by (simp add: length_contents stack_ok_def word_less_nat_alt)
qed

theorem stack_pop_data_outcome_witness:
  "(\<exists>k'. stack_pop_data (Ptr 1) 2 demo_heap
       = Inr ([30, 20], demo_heap\<lparr>stacks := (stacks demo_heap)(1 \<mapsto> k')\<rparr>)
      \<and> contents k' = [10])
   \<and> (\<exists>evs. stack_pop_data (Ptr 1) 4 demo_heap = Inl (ExitFailure, demo_heap\<lparr>out :=
       out demo_heap @ Printf ''stack_pop_bend_data: stack underflow\<newline>'' [] # evs\<rparr>))"
  using stack_pop_data_outcome [of demo_heap 1 demo_stack 2]
    stack_pop_data_outcome [of demo_heap 1 demo_stack 4]
  by auto

text \<open>Last in, first out. Two values pushed with \<open>stack_push_data\<close> come back unchanged,
  the second one first, and the stack's contents and everything else in the heap are as
  before the pushes.\<close>

lemma stack_push_push_pop_pop:
  assumes "live_stack a s"
    and "length (contents (stack_at a s)) + length v + length w \<le> unat (stk_size (stack_at a s))"
  shows "\<exists>t. bind (stack_push_data (Ptr a) v (of_nat (length v))) (\<lambda>_.
             bind (stack_push_data (Ptr a) w (of_nat (length w))) (\<lambda>_.
             bind (stack_pop_data (Ptr a) (of_nat (length w))) (\<lambda>w'.
             bind (stack_pop_data (Ptr a) (of_nat (length v))) (\<lambda>v'. return (v', w'))))) s
           = Inr ((v, w), t)
    \<and> contents (stack_at a t) = contents (stack_at a s) \<and> live_stack a t \<and> same_but_stack a s t"
  using stack_lifo.push_push_pop_pop [OF assms] by blast

lemma stack_push_push_pop_pop_witness:
  "\<exists>t. bind (stack_push_data (Ptr 1) [1, 2] 2) (\<lambda>_.
       bind (stack_push_data (Ptr 1) [3] 1) (\<lambda>_.
       bind (stack_pop_data (Ptr 1) 1) (\<lambda>w'.
       bind (stack_pop_data (Ptr 1) 2) (\<lambda>v'. return (v', w'))))) demo_heap
     = Inr (([1, 2], [3]), t) \<and> contents (stack_at 1 t) = [10, 20, 30]"
  using stack_push_push_pop_pop [of 1 demo_heap "[1, 2]" "[3]"] by auto

text \<open>\<open>stack_write_bend_data_at\<close> inside the array stores the value so that
  \<open>stack_read_bend_data_at\<close> at the same address returns it, for any address (this is how
  local variables are written and read); every byte outside the written range keeps its
  value, and \<open>sp\<close> only moves up to cover the range.\<close>

lemma stack_write_read:
  assumes "stacks s a = Some k" and "stack_ok k" and "length v = unat n"
    and "unat address + unat n \<le> unat (stk_size k)"
  shows "\<exists>k'. stack_write_bend_data_at (Ptr a) v n address s
          = Inr ((), s\<lparr>stacks := (stacks s)(a \<mapsto> k')\<rparr>)
        \<and> stack_read_bend_data_at (Ptr a) n address (s\<lparr>stacks := (stacks s)(a \<mapsto> k')\<rparr>)
          = Inr (v, s\<lparr>stacks := (stacks s)(a \<mapsto> k')\<rparr>)
        \<and> stack_ok k' \<and> unat (sp k') = max (unat address + unat n) (unat (sp k))
        \<and> (\<forall>i. i < unat address \<or> unat address + unat n \<le> i \<longrightarrow> stk_data k' ! i = stk_data k ! i)"
proof (intro exI [of _ "written v (unat address) k"] conjI)
  let ?k = "written v (unat address) k" and ?m = "max (unat address + unat n) (unat (sp k))"
  let ?t = "s\<lparr>stacks := (stacks s)(a \<mapsto> ?k)\<rparr>"
  have len: "length (stk_data k) = unat (stk_size k)" and sp: "unat (sp k) \<le> unat (stk_size k)"
    using assms(2) by (auto simp: stack_ok_def stack_wf_def)
  have "?m < 65536" using assms(4) sp unat_u16_less [of "stk_size k"] by (auto simp: max_def)
  then show sp': "unat (sp ?k) = ?m"
    by (simp add: written_def assms(3) unat_of_nat)
  have len': "length (stk_data ?k) = unat (stk_size k)" and size': "stk_size ?k = stk_size k"
    using assms(3,4) len by (simp_all add: written_def)
  show "stack_ok ?k"
    unfolding stack_ok_def stack_wf_def sp' len' size' using assms(4) sp by simp
  show "stack_write_bend_data_at (Ptr a) v n address s = Inr ((), ?t)"
    by (rule stack_write_inside [OF assms])
  have "n \<le> sp ?k" by (simp add: word_le_nat_alt sp')
  then show "stack_read_bend_data_at (Ptr a) n address ?t = Inr (v, ?t)"
    using stack_read_inside [of ?t a ?k n address] len' assms(3,4) len
    by (simp add: written_def)
  show "\<forall>i. i < unat address \<or> unat address + unat n \<le> i \<longrightarrow> stk_data ?k ! i = stk_data k ! i"
    using assms(3,4) len by (auto simp: written_def nth_append)
qed

lemma stack_write_read_witness:
  "\<exists>k'. stack_write_bend_data_at (Ptr 1) [1, 2] 2 5 demo_heap
          = Inr ((), demo_heap\<lparr>stacks := (stacks demo_heap)(1 \<mapsto> k')\<rparr>)
        \<and> unat (sp k') = 7 \<and> stk_data k' ! 1 = 20"
  using stack_write_read [of demo_heap 1 demo_stack "[1, 2]" 2 5] by auto

text \<open>The byte-wise and the block operations agree. With room for two bytes,
  \<open>stack_push_16b\<close> leaves exactly the heap that \<open>stack_push_data\<close> leaves for the
  \<open>uint16_t\<close> object, and \<open>stack_pop_16b\<close> then returns the value and restores the
  contents.\<close>

lemma stack_push_16b_equiv:
  assumes "stacks s a = Some k" and "stack_ok k" and "unat (sp k) + 2 \<le> unat (stk_size k)"
  shows "stack_push_16b (Ptr a) w s = stack_push_data (Ptr a) (bytes_of_u16 w) 2 s
    \<and> (\<exists>k'. bind (stack_push_16b (Ptr a) w) (\<lambda>_. stack_pop_16b (Ptr a)) s
           = Inr (w, s\<lparr>stacks := (stacks s)(a \<mapsto> k')\<rparr>)
         \<and> stack_ok k' \<and> contents k' = contents k)"
proof -
  define hi lo :: u8 where "hi = ucast (drop_bit 8 w)" and "lo = ucast (w AND 255)"
  have lo: "lo = ucast w"
    unfolding lo_def by (rule ucast_and_255)
  let ?k1 = "pushed [hi] k" and ?k2 = "pushed [lo, hi] k"
  have r1: "unat (sp k) + length [hi] \<le> unat (stk_size k)"
    and r2: "unat (sp k) + length [lo, hi] \<le> unat (stk_size k)" using assms(3) by simp_all
  have sp1: "unat (sp ?k1) = Suc (unat (sp k))" using sp_pushed [OF r1] by simp
  have ok1: "stack_ok ?k1" by (rule stack_ok_pushed [OF assms(2) r1])
  have two: "pushed [lo] ?k1 = ?k2"
  proof -
    have "length (take (unat (sp k)) (stk_data k)) = unat (sp k)"
      using assms(2) by (simp add: stack_ok_def stack_wf_def)
    then show ?thesis
      unfolding pushed_def [of "[lo]"] sp1 by (simp add: pushed_def)
  qed
  have push: "stack_push_16b (Ptr a) w s = Inr ((), s\<lparr>stacks := (stacks s)(a \<mapsto> ?k2)\<rparr>)"
    using stack_push_room [of s a k hi] stack_push_room [of "s\<lparr>stacks := (stacks s)(a \<mapsto> ?k1)\<rparr>" a ?k1 lo] assms ok1 sp1 two
    by (simp add: stack_push_16b_def st_simps hi_def [symmetric] lo_def [symmetric])
  then have equiv: "stack_push_16b (Ptr a) w s = stack_push_data (Ptr a) (bytes_of_u16 w) 2 s"
    using stack_push_data_room [OF assms(1,2) r2]
    by (simp add: bytes_of_u16_def lo hi_def)
  have ok2: "stack_ok ?k2" and c2: "contents ?k2 = contents k @ [hi, lo]"
    using stack_ok_pushed [OF assms(2) r2] contents_pushed [OF assms(2) r2] by simp_all
  let ?t = "s\<lparr>stacks := (stacks s)(a \<mapsto> ?k2)\<rparr>"
  obtain k' where k': "stack_pop_bytes (Ptr a) (length [hi, lo]) ?t
        = Inr (rev [hi, lo], ?t\<lparr>stacks := (stacks ?t)(a \<mapsto> k')\<rparr>)"
      "stack_ok k'" "contents k' = contents k"
    using stack_pop_bytes_enough [of ?t a ?k2 "contents k" "[hi, lo]"] ok2 c2 by auto
  have "push_bit 8 (ucast hi) OR ucast lo = w"
    unfolding lo hi_def by (rule bit_word_eqI) (auto simp: bit_simps)
  with push k' have "bind (stack_push_16b (Ptr a) w) (\<lambda>_. stack_pop_16b (Ptr a)) s
      = Inr (w, s\<lparr>stacks := (stacks s)(a \<mapsto> k')\<rparr>)"
    by (simp add: st_simps stack_pop_16b_def numeral_2_eq_2)
  with equiv k'(2,3) show ?thesis by blast
qed

lemma stack_push_16b_equiv_witness:
  "stack_push_16b (Ptr 1) 515 demo_heap = stack_push_data (Ptr 1) [3, 2] 2 demo_heap
   \<and> (\<exists>k'. bind (stack_push_16b (Ptr 1) 515) (\<lambda>_. stack_pop_16b (Ptr 1)) demo_heap
        = Inr (515, demo_heap\<lparr>stacks := (stacks demo_heap)(1 \<mapsto> k')\<rparr>)
      \<and> contents k' = [10, 20, 30])"
proof -
  have "bytes_of_u16 515 = [3, 2]" by (simp add: bytes_of_u16_def) 
  with stack_push_16b_equiv [of demo_heap 1 demo_stack 515] show ?thesis by auto
qed

text \<open>\<open>stack_pop_bytes\<close> fills its destination in the order of the pops, so a block of
  bytes comes out reversed: the last byte pushed is first.\<close>

lemma stack_pop_bytes_reverses:
  assumes "stacks s a = Some k" and "stack_ok k" and "contents k = xs @ ys"
  shows "\<exists>k'. stack_pop_bytes (Ptr a) (length ys) s
             = Inr (rev ys, s\<lparr>stacks := (stacks s)(a \<mapsto> k')\<rparr>)
           \<and> stack_ok k' \<and> contents k' = xs"
  using stack_pop_bytes_enough [OF assms] .

lemma stack_pop_bytes_reverses_witness:
  "\<exists>k'. stack_pop_bytes (Ptr 1) 3 demo_heap
      = Inr ([30, 20, 10], demo_heap\<lparr>stacks := (stacks demo_heap)(1 \<mapsto> k')\<rparr>)
    \<and> contents k' = []"
  using stack_pop_bytes_reverses [of demo_heap 1 demo_stack "[]" "[10, 20, 30]"]
  by (auto simp: numeral_3_eq_3 simp del: stack_pop_bytes.simps)

text \<open>When both allocations succeed, \<open>stack_create\<close> returns a fresh, empty, zeroed and
  well-formed stack and adds its size and 16 to the memory counter; \<open>stack_free\<close> of it
  removes the object and takes the counter back to where it was.\<close>

lemma stack_create_free:
  assumes "malloc_ok s (mallocs s)" and "malloc_ok s (Suc (mallocs s))"
  shows "\<exists>t k. stack_create sz s = Inr (Ptr (mallocs s), t)
        \<and> stacks t = (stacks s)(mallocs s \<mapsto> k)
        \<and> stk_data k = replicate (unat sz) 0 \<and> contents k = [] \<and> stack_ok k
        \<and> dynamic_memory_usage t = dynamic_memory_usage s + sizeof_Stack + sz
        \<and> (\<exists>u. stack_free (Ptr (mallocs s)) t = Inr ((), u)
             \<and> stacks u = (stacks s)(mallocs s := None)
             \<and> dynamic_memory_usage u = dynamic_memory_usage s)"
  using assms
  by (intro exI [of _ "snd (projr (stack_create sz s))"]
      exI [of _ "\<lparr>stk_data = replicate (unat sz) 0, stk_size = sz, sp = 0, bp = 0\<rparr>"])
    (simp add: stack_create_def stack_free_def st_simps stack_ok_def stack_wf_def contents_def)

lemma stack_create_free_witness:
  "\<exists>t k. stack_create 1024 demo_heap = Inr (Ptr 2, t) \<and> stacks t = (stacks demo_heap)(2 \<mapsto> k)
     \<and> contents k = [] \<and> dynamic_memory_usage t = 1064"
proof -
  have ok: "malloc_ok demo_heap (mallocs demo_heap)" "malloc_ok demo_heap (Suc (mallocs demo_heap))"
    by (simp_all add: demo_heap_def)
  have vals: "mallocs demo_heap = 2" "dynamic_memory_usage demo_heap + sizeof_Stack + 1024 = 1064"
    by (simp_all add: demo_heap_def sizeof_Stack_def)
  from stack_create_free [OF ok, of 1024] show ?thesis
    unfolding vals by blast
qed

end
