(* ===== verification/Operand_Spec.thy ===== *)
theory Operand_Spec
  imports Instructions_C Stack_Spec
begin

text \<open>
  The instructions that work on the operand stack alone (src/instructions.c). The stack that
  \<open>cpu->opstack\<close> points to satisfies the contract \<open>byte_lifo\<close> (interpretation
  \<open>opstack_lifo\<close>, which rests on \<open>stack_lifo\<close>), and with the byte images of the operands
  the contract \<open>typed_lifo\<close> (\<open>opstack_u16\<close>, \<open>opstack_f32\<close>).
\<close>

section \<open>The operand stack of the running task\<close>

definition opstack_addr :: "'z cpu_scheme \<Rightarrow> nat" where
  "opstack_addr s = addr_of_ptr (cpu_opstack s)"

definition operands :: "'z cpu_scheme \<Rightarrow> u8 list" where
  "operands s = contents (stack_at (opstack_addr s) s)"

definition opstack_capacity :: "'z cpu_scheme \<Rightarrow> nat" where
  "opstack_capacity s = unat (stk_size (stack_at (opstack_addr s) s))"

definition live_opstack :: "'z cpu_scheme \<Rightarrow> bool" where
  "live_opstack s \<longleftrightarrow> cpu_opstack s = Ptr (opstack_addr s) \<and> live_stack (opstack_addr s) s"

text \<open>\<open>t\<close> differs from \<open>s\<close> at most in the data and \<open>sp\<close> of the operand stack.\<close>

definition same_but_opstack :: "'z cpu_scheme \<Rightarrow> 'z cpu_scheme \<Rightarrow> bool" where
  "same_but_opstack s t \<longleftrightarrow> same_but_stack (opstack_addr s) s t"

lemma same_but_stack_opstack:
  "same_but_stack a s t \<Longrightarrow> cpu_opstack t = cpu_opstack (s :: 'z cpu_scheme)"
  by (auto simp: same_but_stack_def)

lemma same_but_opstack_addr: "same_but_opstack s t \<Longrightarrow> opstack_addr t = opstack_addr s"
  by (simp add: same_but_opstack_def opstack_addr_def same_but_stack_opstack)

lemma opstack_ops:
  assumes "live_opstack s"
  shows "opstack_push v n s = stack_push_data (Ptr (opstack_addr s)) v n s"
    and "opstack_pop n s = stack_pop_data (Ptr (opstack_addr s)) n s"
  using assms by (simp_all add: opstack_push_def opstack_pop_def st_simps live_opstack_def)

lemma live_opstack_same:
  assumes "live_opstack s" and "same_but_stack (opstack_addr s) s t" and "live_stack (opstack_addr s) t"
  shows "live_opstack t" and "opstack_addr t = opstack_addr s" and "same_but_opstack s t"
  using assms same_but_stack_opstack [OF assms(2)]
  by (simp_all add: live_opstack_def opstack_addr_def same_but_opstack_def)

interpretation opstack_lifo: byte_lifo
  "\<lambda>v. opstack_push v (of_nat (length v))"
  "\<lambda>n. opstack_pop (of_nat n)"
  operands opstack_capacity live_opstack same_but_opstack
proof
  fix s :: "'z cpu_scheme" and v :: "u8 list"
  assume s: "live_opstack s" and room: "length (operands s) + length v \<le> opstack_capacity s"
  then have "live_stack (opstack_addr s) s" by (simp add: live_opstack_def)
  from stack_lifo.push_room [OF this] room obtain t where
    t: "stack_push_data (Ptr (opstack_addr s)) v (of_nat (length v)) s = Inr ((), t)"
      "live_stack (opstack_addr s) t" "same_but_stack (opstack_addr s) s t"
      "contents (stack_at (opstack_addr s) t) = operands s @ rev v"
      "unat (stk_size (stack_at (opstack_addr s) t)) = opstack_capacity s"
    by (auto simp: operands_def opstack_capacity_def)
  with live_opstack_same [OF s t(3,2)] opstack_ops [OF s]
  show "\<exists>t. opstack_push v (of_nat (length v)) s = Inr ((), t) \<and> live_opstack t
      \<and> operands t = operands s @ rev v \<and> opstack_capacity t = opstack_capacity s
      \<and> same_but_opstack s t"
    by (auto simp: operands_def opstack_capacity_def)
next
  fix s :: "'z cpu_scheme" and v :: "u8 list"
  assume s: "live_opstack s" and "opstack_capacity s < length (operands s) + length v"
    and "length (operands s) + length v < 65536"
  with stack_lifo.push_full [of "opstack_addr s" s v] opstack_ops [OF s]
  show "\<exists>t. opstack_push v (of_nat (length v)) s = Inl (ExitFailure, t)"
    by (simp add: operands_def opstack_capacity_def live_opstack_def)
next
  fix s :: "'z cpu_scheme" and xs ys :: "u8 list"
  assume s: "live_opstack s" and c: "operands s = xs @ ys"
  then have "live_stack (opstack_addr s) s" by (simp add: live_opstack_def)
  from stack_lifo.pop_enough [OF this] c obtain t where
    t: "stack_pop_data (Ptr (opstack_addr s)) (of_nat (length ys)) s = Inr (rev ys, t)"
      "live_stack (opstack_addr s) t" "same_but_stack (opstack_addr s) s t"
      "contents (stack_at (opstack_addr s) t) = xs"
      "unat (stk_size (stack_at (opstack_addr s) t)) = opstack_capacity s"
    by (auto simp: operands_def opstack_capacity_def)
  with live_opstack_same [OF s t(3,2)] opstack_ops [OF s]
  show "\<exists>t. opstack_pop (of_nat (length ys)) s = Inr (rev ys, t) \<and> live_opstack t
      \<and> operands t = xs \<and> opstack_capacity t = opstack_capacity s \<and> same_but_opstack s t"
    by (auto simp: operands_def opstack_capacity_def)
next
  fix s :: "'z cpu_scheme" and n :: nat
  assume s: "live_opstack s" and "length (operands s) < n" "n < 65536"
  with stack_lifo.pop_underflow [of "opstack_addr s" s n] opstack_ops [OF s]
  show "\<exists>t. opstack_pop (of_nat n) s = Inl (ExitFailure, t)"
    by (simp add: operands_def live_opstack_def)
next
  fix s :: "'z cpu_scheme"
  assume "live_opstack s"
  with stack_lifo.used_bound [of "opstack_addr s" s]
  show "length (operands s) \<le> opstack_capacity s"
    by (simp add: operands_def opstack_capacity_def live_opstack_def)
next
  fix s t u :: "'z cpu_scheme"
  assume st: "same_but_opstack s t" and tu: "same_but_opstack t u"
  with same_but_opstack_addr [OF st] show "same_but_opstack s u"
    unfolding same_but_opstack_def by (auto intro: same_but_stack_trans)
qed

interpretation opstack_u16: typed_lifo
  "\<lambda>v. opstack_push v (of_nat (length v))" "\<lambda>n. opstack_pop (of_nat n)"
  operands opstack_capacity live_opstack same_but_opstack bytes_of_u16 u16_of_bytes 2
  by unfold_locales simp

interpretation opstack_f32: typed_lifo
  "\<lambda>v. opstack_push v (of_nat (length v))" "\<lambda>n. opstack_pop (of_nat n)"
  operands opstack_capacity live_opstack same_but_opstack bytes_of_f32 f32_of_bytes 4
  by unfold_locales simp

section \<open>The instructions in the shape of the contract\<close>

lemma pop2_bind: "bind pop_u16 f = bind (opstack_pop 2) (\<lambda>v. f (u16_of_bytes v))"
  by (simp add: pop_u16_def bind_assoc)

lemma popf_bind: "bind pop_f32 f = bind (opstack_pop 4) (\<lambda>v. f (f32_of_bytes v))"
  by (simp add: pop_f32_def bind_assoc)

text \<open>A two-operand instruction on 16-bit values whose result is the bytes \<open>r a b\<close>.\<close>

definition binop_u16 :: "(u16 \<Rightarrow> u16 \<Rightarrow> u8 list) \<Rightarrow> ('z cpu_scheme, unit) st" where
  "binop_u16 r = bind pop_u16 (\<lambda>b. bind pop_u16 (\<lambda>a. opstack_push (r a b) (of_nat (length (r a b)))))"

lemma binop_u16_ok:
  assumes "live_opstack s" and "operands s = xs @ rev (bytes_of_u16 a) @ rev (bytes_of_u16 b)"
    and "length (r a b) \<le> 4"
  shows "\<exists>t. binop_u16 r s = Inr ((), t) \<and> live_opstack t \<and> operands t = xs @ rev (r a b)
    \<and> same_but_opstack s t"
  using opstack_u16.binary [of s xs a b r] assms
  by (auto simp: binop_u16_def pop2_bind)

lemma pop_pop_underflow:
  assumes "live_opstack s" and "length (operands s) < 4"
  shows "\<exists>t. bind pop_u16 (\<lambda>b. bind pop_u16 (\<lambda>a. m a b)) s = Inl (ExitFailure, t)"
  using opstack_u16.binary_underflow [of s "\<lambda>va vb. m (u16_of_bytes va) (u16_of_bytes vb)"] assms
  by (simp add: pop2_bind)

lemma pop_pop_then:
  assumes "live_opstack s" and "operands s = xs @ rev (bytes_of_u16 a) @ rev (bytes_of_u16 b)"
  shows "\<exists>t. bind pop_u16 (\<lambda>b. bind pop_u16 (\<lambda>a. m a b)) s = m a b t \<and> live_opstack t
    \<and> operands t = xs \<and> opstack_capacity t = opstack_capacity s \<and> same_but_opstack s t"
proof -
  from opstack_u16.pop_typed [of s "xs @ rev (bytes_of_u16 a)" b] assms obtain t where
    t: "opstack_pop 2 s = Inr (bytes_of_u16 b, t)" "live_opstack t"
      "operands t = xs @ rev (bytes_of_u16 a)" "same_but_opstack s t"
      "opstack_capacity t = opstack_capacity s" by auto
  from opstack_u16.pop_typed [OF t(2,3)] obtain u where
    u: "opstack_pop 2 t = Inr (bytes_of_u16 a, u)" "live_opstack u" "operands u = xs"
      "same_but_opstack t u" "opstack_capacity u = opstack_capacity t" by auto
  from t u have "bind pop_u16 (\<lambda>b. bind pop_u16 (\<lambda>a. m a b)) s = m a b u"
    by (simp add: pop2_bind st_simps)
  with u t show ?thesis using opstack_lifo.same_trans by force
qed

end
