(* ===== verification/Run_C.thy ===== *)
theory Run_C
  imports Instructions_C
begin

text \<open>
  The part of src/cpu.c above the instructions: the dispatch of an opcode, the delivery of
  a task's messages to its handler, the time slice of a task, and the scheduler, which
  traverses the task tree for ever.
\<close>

section \<open>Dispatch\<close>

definition execute_op :: "opcode \<Rightarrow> ('z cpu_scheme, unit) st" where
  "execute_op opc = (case opc of
     OP_HALT \<Rightarrow> halt
   | OP_DELAY \<Rightarrow> delay
   | OP_JUMP \<Rightarrow> jump
   | OP_POP_JUMP_IF_FALSE \<Rightarrow> pop_jump_if_false
   | OP_COMPARE_EQ \<Rightarrow> compare_equal
   | OP_COMPARE_LT \<Rightarrow> compare_less
   | OP_COMPARE_GT \<Rightarrow> compare_greater
   | OP_COMPARE_LE \<Rightarrow> compare_less_equal
   | OP_COMPARE_GE \<Rightarrow> compare_greater_equal
   | OP_CALL \<Rightarrow> call
   | OP_RETURN \<Rightarrow> ret
   | OP_SYSCALL \<Rightarrow> syscall
   | OP_ASYNC_CALL \<Rightarrow> async_call
   | OP_ASYNC_RETURN \<Rightarrow> async_ret
   | OP_PUSHL_U16 \<Rightarrow> push_literal_U16
   | OP_POP_U16 \<Rightarrow> pop_U16
   | OP_TOP_U16 \<Rightarrow> top_U16
   | OP_ADD_U16 \<Rightarrow> add_U16
   | OP_SUB_U16 \<Rightarrow> subtract_U16
   | OP_MUL_U16 \<Rightarrow> multiply_U16
   | OP_DIV_U16 \<Rightarrow> divide_U16
   | OP_POPA_U16 \<Rightarrow> pop_address_U16
   | OP_PUSH_U16 \<Rightarrow> push_U16
   | OP_ALLOC_LOCAL \<Rightarrow> allocate_local
   | OP_PUSH_LOCAL \<Rightarrow> push_local
   | OP_POP_LOCAL \<Rightarrow> pop_local
   | OP_PUSHL_I16 \<Rightarrow> push_literal_I16
   | OP_POP_I16 \<Rightarrow> pop_I16
   | OP_TOP_I16 \<Rightarrow> top_I16
   | OP_ADD_I16 \<Rightarrow> add_I16
   | OP_SUB_I16 \<Rightarrow> subtract_I16
   | OP_MUL_I16 \<Rightarrow> multiply_I16
   | OP_DIV_I16 \<Rightarrow> divide_I16
   | OP_READ_I16 \<Rightarrow> load_I16
   | OP_WRITE_I16 \<Rightarrow> store_I16
   | OP_ALLOC_I16 \<Rightarrow> var_I16
   | OP_FREE_I16 \<Rightarrow> del_I16
   | OP_PUSHL_F32 \<Rightarrow> push_literal_F32
   | OP_POP_F32 \<Rightarrow> pop_F32
   | OP_TOP_F32 \<Rightarrow> top_F32
   | OP_ADD_F32 \<Rightarrow> add_F32
   | OP_SUB_F32 \<Rightarrow> subtract_F32
   | OP_MUL_F32 \<Rightarrow> multiply_F32
   | OP_DIV_F32 \<Rightarrow> divide_F32
   | OP_PUSH_MILLIS \<Rightarrow> push_millis
   | OP_LSHIFT_U16 \<Rightarrow> bitwise_left_shift_U16
   | OP_RSHIFT_U16 \<Rightarrow> bitwise_right_shift_U16
   | OP_OR_U16 \<Rightarrow> bitwise_or_U16
   | OP_XOR_U16 \<Rightarrow> bitwise_xor_U16
   | OP_AND_U16 \<Rightarrow> bitwise_and_U16
   | OP_NOT_U16 \<Rightarrow> bitwise_not_U16)"

definition cpu_execute :: "u8 \<Rightarrow> ('z cpu_scheme, unit) st" where
  "cpu_execute opc = (case opcode_of opc of
     None \<Rightarrow> vmprintf ''unknown opcode %d\<newline>'' [AInt (uint opc)]
   | Some f \<Rightarrow> execute_op f)"

section \<open>Messages to the running task\<close>

definition current_task :: "('z cpu_scheme, task) st" where
  "current_task =
     bind (bind (gets cpu_task_tree_current_node) (deref nodes)) (\<lambda>n. deref tasks (n_task n))"

text \<open>The loop \<open>while (inbox_queue->count > 0)\<close>. Each round takes one from the count, so
  the count at the start bounds the rounds.\<close>

fun process_inbox_loop :: "nat \<Rightarrow> ptr \<Rightarrow> ('z cpu_scheme, unit) st" where
  "process_inbox_loop 0 inbox_queue = stop_with OutOfFuel"
| "process_inbox_loop (Suc n) inbox_queue =
     bind (deref queues inbox_queue) (\<lambda>q.
     if q_count q > 0
     then
       let message = q_head q in
       bind current_task (\<lambda>t.
       seq (if t_message_handler_address t > 0 then call_address (t_message_handler_address t)
            else return ())
      (seq (bind (deref messages message) (\<lambda>m.
            bind (deref queues inbox_queue) (\<lambda>q'.
            put_queue inbox_queue (q'\<lparr>q_head := m_next m, q_count := q_count q' - 1\<rparr>))))
      (seq (message_free message)
           (process_inbox_loop n inbox_queue))))
     else return ())"

definition cpu_process_context_inbox :: "('z cpu_scheme, unit) st" where
  "cpu_process_context_inbox =
     bind current_task (\<lambda>t.
     bind (deref queues (t_inbox t)) (\<lambda>q.
     process_inbox_loop (Suc (unat (q_count q))) (t_inbox t)))"

section \<open>Time slices and the scheduler\<close>

text \<open>The loop over \<open>cycles\<close>; the opcode read is returned by \<open>run_instruction\<close>.\<close>

definition run_instruction :: "('z cpu_scheme, u8) st" where
  "run_instruction =
     bind (bind (cpu_fetch_data 1) the_init) (\<lambda>v.
     let opc = v ! 0 in seq (cpu_execute opc) (return opc))"

fun run_cycles :: "nat \<Rightarrow> ('z cpu_scheme, unit) st" where
  "run_cycles 0 = return ()"
| "run_cycles (Suc cycles) =
     bind run_instruction (\<lambda>opc.
     if opcode_of opc = Some OP_ASYNC_RETURN then return ()
     else run_cycles cycles)"

definition cpu_run_cycle :: "ptr \<Rightarrow> ('z cpu_scheme, unit) st" where
  "cpu_run_cycle node =
     seq cpu_check_incoming_messages
    (seq (cpu_context_switch node)
    (seq cpu_process_context_inbox
         (run_cycles (unat CONTEXT_MAX_CYCLES))))"

text \<open>One round of \<open>while (true)\<close> in \<open>cpu_run\<close>, and \<open>n\<close> rounds. \<open>fuel\<close> bounds the
  depth of the traversal.\<close>

definition cpu_round :: "nat \<Rightarrow> ('z cpu_scheme, unit) st" where
  "cpu_round fuel =
     bind (gets cpu_task_tree_root) (\<lambda>root. task_tree_traverse_dfs fuel root cpu_run_cycle)"

fun cpu_run :: "nat \<Rightarrow> nat \<Rightarrow> ('z cpu_scheme, unit) st" where
  "cpu_run fuel 0 = return ()"
| "cpu_run fuel (Suc n) = seq (cpu_round fuel) (cpu_run fuel n)"

text \<open>\<open>main\<close> up to the first \<open>n\<close> rounds of \<open>cpu_run\<close>.\<close>

definition port_banks_number :: u8 where
  "port_banks_number = 3"

definition vm_main :: "u8 list \<Rightarrow> u16 \<Rightarrow> u16 \<Rightarrow> nat \<Rightarrow> nat \<Rightarrow> (cpu, unit) st" where
  "vm_main prog program_size data_address fuel n =
     seq (vmprintf ''Starting VM\<newline>'' [])
    (seq (cpu_create port_banks_number)
    (seq (cpu_load_program prog program_size data_address)
         (cpu_run fuel n)))"

end
