(* ===== verification/Alu_Spec.thy ===== *)
theory Alu_Spec
  imports Operand_Spec Run_C
begin

text \<open>
  The two-operand instructions on 16-bit values against one table. \<open>alu\<close> gives, for an
  opcode and two operands, the bytes of the result or the reason the C expression is
  undefined; it is written with integers, so truncation and signedness are visible.
\<close>

section \<open>The table\<close>

text \<open>\<open>wrap16 i\<close>: the \<open>uint16_t\<close> object that \<open>i\<close> is converted to.\<close>

definition wrap16 :: "int \<Rightarrow> u8 list" where
  "wrap16 i = bytes_of_u16 (word_of_int (i mod 65536))"

definition alu :: "opcode \<Rightarrow> u16 \<Rightarrow> u16 \<Rightarrow> (ub + u8 list) option" where
  "alu opc a b = (case opc of
     OP_ADD_U16 \<Rightarrow> Some (Inr (wrap16 (uint a + uint b)))
   | OP_SUB_U16 \<Rightarrow> Some (Inr (wrap16 (uint a - uint b)))
   | OP_MUL_U16 \<Rightarrow> Some (if 2 ^ 31 \<le> uint a * uint b then Inl SignedOverflow
                          else Inr (wrap16 (uint a * uint b)))
   | OP_DIV_U16 \<Rightarrow> Some (if b = 0 then Inl DivByZero else Inr (wrap16 (uint a div uint b)))
   | OP_ADD_I16 \<Rightarrow> Some (Inr (wrap16 (sint a + sint b)))
   | OP_SUB_I16 \<Rightarrow> Some (Inr (wrap16 (sint a - sint b)))
   | OP_MUL_I16 \<Rightarrow> Some (Inr (wrap16 (sint a * sint b)))
   | OP_DIV_I16 \<Rightarrow> Some (if b = 0 then Inl DivByZero
        else Inr (wrap16 (sgn (sint a) * sgn (sint b) * (\<bar>sint a\<bar> div \<bar>sint b\<bar>))))
   | OP_LSHIFT_U16 \<Rightarrow> Some (if unat b \<ge> 32 then Inl BadShift
        else if 2 ^ 31 \<le> uint a * 2 ^ unat b then Inl SignedOverflow
        else Inr (wrap16 (uint a * 2 ^ unat b)))
   | OP_RSHIFT_U16 \<Rightarrow> Some (if unat b \<ge> 32 then Inl BadShift
        else Inr (wrap16 (uint a div 2 ^ unat b)))
   | OP_AND_U16 \<Rightarrow> Some (Inr (bytes_of_u16 (a AND b)))
   | OP_OR_U16 \<Rightarrow> Some (Inr (bytes_of_u16 (a OR b)))
   | OP_XOR_U16 \<Rightarrow> Some (Inr (bytes_of_u16 (a XOR b)))
   | OP_COMPARE_EQ \<Rightarrow> Some (Inr [if sint a = sint b then 1 else 0])
   | OP_COMPARE_LT \<Rightarrow> Some (Inr [if sint a < sint b then 1 else 0])
   | OP_COMPARE_GT \<Rightarrow> Some (Inr [if sint b < sint a then 1 else 0])
   | OP_COMPARE_LE \<Rightarrow> Some (Inr [if sint a \<le> sint b then 1 else 0])
   | OP_COMPARE_GE \<Rightarrow> Some (Inr [if sint b \<le> sint a then 1 else 0])
   | _ \<Rightarrow> None)"

section \<open>Each instruction has the shape of the table\<close>

text \<open>The last step of a two-operand instruction: push the result, or stop.\<close>

definition alu_step :: "ub + u8 list \<Rightarrow> ('z cpu_scheme, unit) st" where
  "alu_step r = (case r of Inl u \<Rightarrow> undef u | Inr v \<Rightarrow> opstack_push v (of_nat (length v)))"

lemma wrap16_of_int [simp]: "wrap16 i = bytes_of_u16 (word_of_int i)"
proof -
  have "(word_of_int (i mod 65536) :: u16) = word_of_int i"
    by (rule word_of_int_eq_iff [THEN iffD2]) (simp add: take_bit_eq_mod)
  then show ?thesis by (simp add: wrap16_def)
qed

lemma sint_eq_0_u16: "sint (b :: u16) = 0 \<longleftrightarrow> b = 0"
  by (metis signed_0 signed_word_eqI)

lemma int_max_less: "(x :: int) > int_max \<longleftrightarrow> 2 ^ 31 \<le> x"
  by (auto simp: int_max_def)

lemma bind_stop [simp]: "bind (stop_with w) f = stop_with w"
  by (rule ext) (simp add: st_simps)

lemma bind_if: "bind (if c then m else n) f = (if c then bind m f else bind n f)"
  by simp

lemma alu_step_simps:
  "alu_step (Inl u) = undef u"
  "alu_step (Inr (bytes_of_u16 w)) = push_u16 w"
  "alu_step (Inr [if c then 1 else 0]) = push_bool c"
  "alu_step (if d then x else y) = (if d then alu_step x else alu_step y)"
  by (simp_all add: alu_step_def push_u16_def push_bool_def bytes_of_bool_def)

lemmas alu_instructions =
  add_U16_def subtract_U16_def multiply_U16_def divide_U16_def
  add_I16_def subtract_I16_def multiply_I16_def divide_I16_def
  bitwise_and_U16_def bitwise_or_U16_def bitwise_xor_U16_def
  bitwise_left_shift_U16_def bitwise_right_shift_U16_def
  compare_equal_def compare_less_def compare_greater_def
  compare_less_equal_def compare_greater_equal_def

lemmas c_arithmetic =
  c_mul_u16_def c_div_u16_def c_div_i16_def c_shl_u16_def c_shr_u16_def

lemma execute_alu:
  assumes "\<And>a b. alu opc a b = Some (r a b)"
  shows "execute_op opc = bind pop_u16 (\<lambda>b. bind pop_u16 (\<lambda>a. alu_step (r a b)))"
proof -
  have r: "r = (\<lambda>a b. the (alu opc a b))" using assms by (intro ext) simp
  have "alu opc 0 0 \<noteq> None" using assms by simp
  then show ?thesis
    unfolding r
    by (cases opc)
      (simp_all add: alu_def execute_op_def alu_instructions c_arithmetic alu_step_simps bind_if
        int_max_less sint_eq_0_u16 signed_divide_int_def push_bit_eq_mult drop_bit_eq_div
        cong: if_cong)
qed

lemma alu_length: "alu opc a b = Some (r a b) \<Longrightarrow> r a b = Inr v \<Longrightarrow> length v \<le> 2"
  by (cases opc) (auto simp: alu_def split: if_splits)

lemma execute_alu_enough:
  assumes "live_opstack s" and "\<And>a b. alu opc a b = Some (r a b)"
    and ops: "operands s = xs @ rev (bytes_of_u16 a) @ rev (bytes_of_u16 b)"
  shows "case r a b of
      Inl u \<Rightarrow> \<exists>t. execute_op opc s = Inl (Undefined u, t) \<and> same_but_opstack s t
    | Inr v \<Rightarrow> \<exists>t. execute_op opc s = Inr ((), t) \<and> live_opstack t
        \<and> operands t = xs @ rev v \<and> opstack_capacity t = opstack_capacity s
        \<and> same_but_opstack s t"
proof -
  obtain t where t: "execute_op opc s = alu_step (r a b) t" "live_opstack t" "operands t = xs"
      "same_but_opstack s t" "opstack_capacity t = opstack_capacity s"
    using pop_pop_then [OF assms(1) ops, of "\<lambda>a b. alu_step (r a b)"]
    unfolding execute_alu [OF assms(2)] by blast
  show ?thesis
  proof (cases "r a b")
    case (Inl u)
    with t show ?thesis by (auto simp: alu_step_def st_simps)
  next
    case (Inr v)
    have "length v \<le> 2" using assms(2) [of a b] Inr by (rule alu_length)
    then have "length (operands t) + length v \<le> opstack_capacity t"
      using opstack_lifo.used_bound [OF assms(1)] ops t(3,5) by simp
    from opstack_lifo.push_room [OF t(2) this] Inr t show ?thesis
      by (auto simp: alu_step_def intro: opstack_lifo.same_trans)
  qed
qed

lemma execute_alu_underflow:
  assumes "live_opstack s" and "\<And>a b. alu opc a b = Some (r a b)" and "length (operands s) < 4"
  shows "\<exists>t. execute_op opc s = Inl (ExitFailure, t)"
  using pop_pop_underflow [OF assms(1,3), of "\<lambda>a b. alu_step (r a b)"]
  unfolding execute_alu [OF assms(2)] by blast

section \<open>A concrete machine\<close>

text \<open>A machine whose operand stack of 16 bytes holds the 16-bit values 7 and 65535, whose
  call stack of 16 bytes is empty, running at the start of a program.\<close>

definition demo_cpu :: "u8 list \<Rightarrow> u8 list \<Rightarrow> cpu" where
  "demo_cpu ops prog = \<lparr>out = [], malloc_ok = (\<lambda>_. True), mallocs = 10, dynamic_memory_usage = 0,
     stacks = [1 \<mapsto> \<lparr>stk_data = take 16 (ops @ replicate 16 0), stk_size = 16,
                      sp = of_nat (length ops), bp = 0\<rparr>,
               2 \<mapsto> \<lparr>stk_data = replicate 16 0, stk_size = 16, sp = 0, bp = 0\<rparr>],
     messages = Map.empty, queues = Map.empty, tasks = Map.empty, nodes = Map.empty, nextId = 0,
     port_regs = (\<lambda>_. 0),
     port_banks = [3 \<mapsto> \<lparr>ports = [Some DDRB, Some PORTB, Some PINB], bank_size = 3\<rparr>],
     servers = Map.empty, env_socket = 3, env_getfl = 0, env_setfl = 0, env_bind = 0,
     env_listen = 0, env_accept = (\<lambda>_. WouldBlock), accepts = 0,
     env_time = (\<lambda>_. (0, 0)), env_filetime = (\<lambda>_. (0, 0)), clock_reads = 0,
     cpu_task_tree_root = Null, cpu_task_tree_current_node = Null, cpu_program = prog,
     cpu_opstack = Ptr 1, cpu_stack = Ptr 2, cpu_port_bank = Ptr 3, cpu_message_queues = Null,
     cpu_server = Null, cpu_program_size = of_nat (length prog), cpu_ip = 0,
     cpu_data_address = of_nat (length prog), cpu_tasks_number = 0,
     f32_add = (\<lambda>a b. a), f32_sub = (\<lambda>a b. a), f32_mul = (\<lambda>a b. a), f32_div = (\<lambda>a b. a)\<rparr>"

lemma operands_demo_cpu [simp]:
  assumes "length ops \<le> 16"
  shows "operands (demo_cpu ops prog) = ops" and "live_opstack (demo_cpu ops prog)"
  using assms
  by (simp_all add: demo_cpu_def operands_def opstack_addr_def stack_at_def contents_def
      unat_of_nat live_opstack_def live_stack_def stack_ok_def stack_wf_def)

section \<open>Properties\<close>

text \<open>C9: every two-operand instruction on 16-bit values (the unsigned and signed
  arithmetic, the bitwise and shift operations and the five comparisons) does what the table
  \<open>alu\<close> says. With two operands \<open>a\<close>, \<open>b\<close> on top, it replaces them by the bytes of
  the result and touches nothing else, or stops with the table's undefined behaviour (a
  product or shifted value above \<open>INT_MAX\<close>, a shift by 32 or more, a division by zero);
  with fewer than four bytes on the operand stack it ends the process.\<close>

theorem alu_instruction_refines:
  assumes "live_opstack s" and "\<And>a b. alu opc a b = Some (r a b)"
  shows "(\<forall>xs a b. operands s = xs @ rev (bytes_of_u16 a) @ rev (bytes_of_u16 b) \<longrightarrow>
           (case r a b of
              Inl u \<Rightarrow> \<exists>t. execute_op opc s = Inl (Undefined u, t) \<and> same_but_opstack s t
            | Inr v \<Rightarrow> \<exists>t. execute_op opc s = Inr ((), t) \<and> live_opstack t
                \<and> operands t = xs @ rev v \<and> same_but_opstack s t))
       \<and> (length (operands s) < 4 \<longrightarrow> (\<exists>t. execute_op opc s = Inl (ExitFailure, t)))"
  using execute_alu_enough [OF assms] execute_alu_underflow [OF assms]
  by (fastforce split: sum.splits)

text \<open>The sum of 7 and 65535 wraps to 6, their unsigned product is computed, and the
  product of 65535 with itself is undefined.\<close>

theorem alu_instruction_refines_witness:
  "(\<exists>t. execute_op OP_ADD_U16 (demo_cpu [0, 7, 255, 255] []) = Inr ((), t) \<and> operands t = [0, 6])
   \<and> (\<exists>t. execute_op OP_MUL_U16 (demo_cpu [255, 255, 255, 255] []) = Inl (Undefined SignedOverflow, t))
   \<and> (\<exists>t. execute_op OP_COMPARE_LT (demo_cpu [255, 255] []) = Inl (ExitFailure, t))"
proof -
  have add: "\<And>a b. alu OP_ADD_U16 a b = Some (Inr (wrap16 (uint a + uint b)))"
    and lt: "\<And>a b. alu OP_COMPARE_LT a b = Some (Inr [if sint a < sint b then 1 else 0])"
    and mul: "\<And>a b. alu OP_MUL_U16 a b = Some (if 2 ^ 31 \<le> uint a * uint b
        then Inl SignedOverflow else Inr (wrap16 (uint a * uint b)))"
    by (simp_all add: alu_def)
  let ?m = "demo_cpu [0, 7, 255, 255] []" and ?n = "demo_cpu [255, 255, 255, 255] []"
    and ?k = "demo_cpu [255, 255] []"
  have l: "live_opstack ?m" "live_opstack ?n" "live_opstack ?k" by simp_all
  have m: "operands ?m = [] @ rev (bytes_of_u16 7) @ rev (bytes_of_u16 65535)"
    and n: "operands ?n = [] @ rev (bytes_of_u16 65535) @ rev (bytes_of_u16 65535)"
    and k: "length (operands ?k) < 4"
    by (simp_all add: bytes_of_u16_def)
  from conjunct1 [OF alu_instruction_refines [OF l(1) add], rule_format, OF m]
  have "\<exists>t. execute_op OP_ADD_U16 ?m = Inr ((), t) \<and> operands t = [0, 6]"
    by (auto simp: bytes_of_u16_def)
  moreover from conjunct1 [OF alu_instruction_refines [OF l(2) mul], rule_format, OF n]
  have "\<exists>t. execute_op OP_MUL_U16 ?n = Inl (Undefined SignedOverflow, t)"
    by auto
  moreover from conjunct2 [OF alu_instruction_refines [OF l(3) lt], rule_format, OF k]
  have "\<exists>t. execute_op OP_COMPARE_LT ?k = Inl (ExitFailure, t)" .
  ultimately show ?thesis by blast
qed

end
