(* ===== verification/Control_Spec.thy ===== *)
theory Control_Spec
  imports Alu_Spec
begin

text \<open>
  Fetch, literals, jumps, and the call frames (src/cpu.c and src/instructions.c). A frame on
  the call stack is the return address, the caller's base pointer, and the callee's locals
  from its own base pointer on.
\<close>

section \<open>Fetch\<close>

lemma cpu_fetch_inside:
  assumes "cpu_ip s < cpu_program_size s" and "unat (cpu_ip s) + n \<le> length (cpu_program s)"
  shows "cpu_fetch_data n s =
    Inr (Some (take n (drop (unat (cpu_ip s)) (cpu_program s))), s\<lparr>cpu_ip := cpu_ip s + of_nat n\<rparr>)"
  using assms by (simp add: cpu_fetch_data_def st_simps)

lemma cpu_fetch_outside:
  assumes "cpu_program_size s \<le> cpu_ip s"
  shows "cpu_fetch_data n s = Inr (None, s\<lparr>out := out s @
    [Printf ''cpu_fetch_data: out of program memory\<newline>'' []]\<rparr>)"
  using assms by (simp add: cpu_fetch_data_def st_simps)

text \<open>\<open>code_at s bs\<close>: the next bytes of the program are \<open>bs\<close>, inside its size.\<close>

definition code_at :: "'z cpu_scheme \<Rightarrow> u8 list \<Rightarrow> bool" where
  "code_at s bs \<longleftrightarrow> take (length bs) (drop (unat (cpu_ip s)) (cpu_program s)) = bs
     \<and> unat (cpu_ip s) + length bs \<le> unat (cpu_program_size s)
     \<and> length (cpu_program s) = unat (cpu_program_size s)"

lemma fetch_code:
  assumes "code_at s (bs @ cs)" and "bs \<noteq> []"
  shows "cpu_fetch_data (length bs) s = Inr (Some bs, s\<lparr>cpu_ip := cpu_ip s + of_nat (length bs)\<rparr>)"
    and "code_at (s\<lparr>cpu_ip := cpu_ip s + of_nat (length bs)\<rparr>) cs"
proof -
  let ?p = "drop (unat (cpu_ip s)) (cpu_program s)"
  have take_all: "take (length (bs @ cs)) ?p = bs @ cs"
    and len: "unat (cpu_ip s) + length (bs @ cs) \<le> unat (cpu_program_size s)"
    and size: "length (cpu_program s) = unat (cpu_program_size s)"
    using assms(1) by (simp_all add: code_at_def)
  have bs: "take (length bs) ?p = bs"
    using arg_cong [OF take_all, of "take (length bs)"] by simp
  have cs: "take (length cs) (drop (length bs) ?p) = cs"
    using arg_cong [OF take_all, of "drop (length bs)"] by (simp add: drop_take add.commute)
  have lt: "cpu_ip s < cpu_program_size s"
    using assms(2) len by (simp add: word_less_nat_alt length_greater_0_conv [symmetric]
        del: length_greater_0_conv)
  show "cpu_fetch_data (length bs) s = Inr (Some bs, s\<lparr>cpu_ip := cpu_ip s + of_nat (length bs)\<rparr>)"
    using cpu_fetch_inside [OF lt, of "length bs"] len size bs by simp
  have "unat (of_nat (length bs) :: u16) = length bs"
    using len by (intro length_of_u16 [of bs "cpu_program_size s"]) simp
  then have "unat (cpu_ip s + of_nat (length bs)) = unat (cpu_ip s) + length bs"
    using len unat_u16_less [of "cpu_program_size s"]
      unat_u16_add [of "cpu_ip s" "of_nat (length bs)"] by simp
  then show "code_at (s\<lparr>cpu_ip := cpu_ip s + of_nat (length bs)\<rparr>) cs"
    using len size cs by (simp add: code_at_def add.commute)
qed

text \<open>An instruction is an opcode byte and its operand; \<open>run_instruction\<close> fetches the opcode
  and executes it behind that byte.\<close>

lemma run_instruction_code:
  assumes "code_at s (b # cs)"
  shows "run_instruction s = bind (cpu_execute b) (\<lambda>_. return b) (s\<lparr>cpu_ip := cpu_ip s + 1\<rparr>)"
    and "code_at (s\<lparr>cpu_ip := cpu_ip s + 1\<rparr>) cs"
  using fetch_code [of s "[b]" cs] assms
  by (simp_all add: run_instruction_def st_simps)

lemma bytes_of_u16_not_Nil [simp]: "bytes_of_u16 w \<noteq> []"
  by (simp add: bytes_of_u16_def)

lemma fetch_u16_code:
  assumes "code_at s (bytes_of_u16 w @ cs)"
  shows "fetch_u16 s = Inr (Some w, s\<lparr>cpu_ip := cpu_ip s + 2\<rparr>)"
  using fetch_code(1) [OF assms] by (simp add: fetch_u16_def st_simps)

lemma operands_ip [simp]:
  "operands (s\<lparr>cpu_ip := i\<rparr>) = operands s" "live_opstack (s\<lparr>cpu_ip := i\<rparr>) = live_opstack s"
  "opstack_capacity (s\<lparr>cpu_ip := i\<rparr>) = opstack_capacity s"
  by (simp_all add: operands_def opstack_addr_def stack_at_def live_opstack_def live_stack_def
      opstack_capacity_def)

section \<open>Call frames\<close>

text \<open>The running task's call stack.\<close>

definition callstack :: "nat \<Rightarrow> 'z cpu_scheme \<Rightarrow> stack \<Rightarrow> bool" where
  "callstack a s k \<longleftrightarrow> cpu_stack s = Ptr a \<and> stacks s a = Some k \<and> stack_ok k"

text \<open>The stack after \<open>call_address\<close> was executed with instruction pointer \<open>ip\<close>.\<close>

definition with_frame :: "u16 \<Rightarrow> stack \<Rightarrow> stack" where
  "with_frame ip k = (pushed (bytes_of_u16 (bp k)) (pushed (bytes_of_u16 ip) k))\<lparr>bp := sp k + 4\<rparr>"

lemma with_frame_facts:
  assumes "stack_ok k" and "unat (sp k) + 4 \<le> unat (stk_size k)"
  shows "unat (sp (with_frame ip k)) = unat (sp k) + 4"
    and "bp (with_frame ip k) = sp k + 4" and "sp (with_frame ip k) = sp k + 4"
    and "stk_size (with_frame ip k) = stk_size k"
    and "contents (with_frame ip k) =
      contents k @ rev (bytes_of_u16 ip) @ rev (bytes_of_u16 (bp k))"
    and "stack_ok (with_frame ip k)"
proof -
  let ?k1 = "pushed (bytes_of_u16 ip) k" and ?k2 = "pushed (bytes_of_u16 (bp k)) (pushed (bytes_of_u16 ip) k)"
  have r1: "unat (sp k) + length (bytes_of_u16 ip) \<le> unat (stk_size k)" using assms(2) by simp
  note ok1 = stack_ok_pushed [OF assms(1) r1] and c1 = contents_pushed [OF assms(1) r1]
    and sp1 = sp_pushed [OF r1]
  have r2: "unat (sp ?k1) + length (bytes_of_u16 (bp k)) \<le> unat (stk_size ?k1)"
    using sp1 assms(2) by simp
  note ok2 = stack_ok_pushed [OF ok1 r2] and c2 = contents_pushed [OF ok1 r2]
    and sp2 = sp_pushed [OF r2]
  show "unat (sp (with_frame ip k)) = unat (sp k) + 4"
    using sp1 sp2 by (simp add: with_frame_def)
  show "bp (with_frame ip k) = sp k + 4" "stk_size (with_frame ip k) = stk_size k"
    by (simp_all add: with_frame_def)
  show "sp (with_frame ip k) = sp k + 4" by (simp add: with_frame_def)
  show "contents (with_frame ip k) = contents k @ rev (bytes_of_u16 ip) @ rev (bytes_of_u16 (bp k))"
    using c1 c2 by (simp add: with_frame_def contents_def)
  show "stack_ok (with_frame ip k)"
    using ok2 by (simp add: with_frame_def stack_ok_def stack_wf_def)
qed

lemma call_address_room:
  assumes "callstack a s k" and "unat (sp k) + 4 \<le> unat (stk_size k)"
  shows "call_address address s =
    Inr ((), s\<lparr>cpu_ip := address, stacks := (stacks s)(a \<mapsto> with_frame (cpu_ip s) k)\<rparr>)"
proof -
  let ?k1 = "pushed (bytes_of_u16 (cpu_ip s)) k"
  have k: "cpu_stack s = Ptr a" "stacks s a = Some k" "stack_ok k"
    using assms(1) by (simp_all add: callstack_def)
  have r1: "unat (sp k) + length (bytes_of_u16 (cpu_ip s)) \<le> unat (stk_size k)"
    using assms(2) by simp
  let ?t = "s\<lparr>stacks := (stacks s)(a \<mapsto> ?k1), cpu_ip := address\<rparr>"
  have push1: "stack_push_data (Ptr a) (bytes_of_u16 (cpu_ip s)) 2 s
      = Inr ((), s\<lparr>stacks := (stacks s)(a \<mapsto> ?k1)\<rparr>)"
    using stack_push_data_room [OF k(2,3) r1] by simp
  have r2: "unat (sp ?k1) + length (bytes_of_u16 (bp k)) \<le> unat (stk_size ?k1)"
    using sp_pushed [OF r1] assms(2) by simp
  have push2: "stack_push_data (Ptr a) (bytes_of_u16 (bp k)) 2 ?t
      = Inr ((), ?t\<lparr>stacks := (stacks ?t)(a \<mapsto> pushed (bytes_of_u16 (bp k)) ?k1)\<rparr>)"
    using stack_push_data_room [of ?t a ?k1 "bytes_of_u16 (bp k)"] stack_ok_pushed [OF k(3) r1] r2
    by simp
  show ?thesis
    using k(1,2) push1 push2
    by (simp add: call_address_def stack_push_u16_def call_stack_def set_call_stack_def st_simps
        with_frame_def add.assoc)
qed

lemma ret_frame:
  assumes "cpu_stack s = Ptr a" and "stacks s a = Some k" and "stack_wf k"
    and "bp k \<le> stk_size k"
    and "take (unat (bp k)) (stk_data k) = xs @ rev (bytes_of_u16 ip) @ rev (bytes_of_u16 base)"
  shows "ret s = Inr ((), s\<lparr>cpu_ip := ip,
    stacks := (stacks s)(a \<mapsto> k\<lparr>sp := of_nat (length xs), bp := base\<rparr>)\<rparr>)"
proof -
  let ?k1 = "k\<lparr>sp := bp k\<rparr>" and ?s1 = "s\<lparr>stacks := (stacks s)(a \<mapsto> k\<lparr>sp := bp k\<rparr>)\<rparr>"
  have ok1: "stack_ok ?k1" using assms(3,4) by (simp add: stack_ok_def stack_wf_def word_le_nat_alt)
  have c1: "contents ?k1 = xs @ rev (bytes_of_u16 ip) @ rev (bytes_of_u16 base)"
    using assms(5) by (simp add: contents_def)
  have len: "unat (bp k) = length xs + 4" using length_contents [OF ok1] c1 by simp
  then have le1: "2 \<le> sp ?k1" by (simp add: word_le_nat_alt)
  have pop1: "stack_pop_data (Ptr a) 2 ?s1 = Inr (bytes_of_u16 base,
      ?s1\<lparr>stacks := (stacks ?s1)(a \<mapsto> popped 2 ?k1)\<rparr>)"
    using stack_pop_data_enough [of ?s1 a ?k1 2] ok1 le1 c1 len by simp
  let ?k2 = "(popped 2 ?k1)\<lparr>bp := base\<rparr>"
  have sp2: "unat (sp ?k2) = length xs + 2"
    using unat_u16_sub [OF le1] len by simp
  have ok2: "stack_ok ?k2"
    using stack_ok_popped [OF ok1 le1] by (simp add: stack_ok_def stack_wf_def)
  have c2: "contents ?k2 = xs @ rev (bytes_of_u16 ip)"
  proof -
    have "contents ?k2 = contents (popped 2 ?k1)" by (simp add: contents_def)
    also have "\<dots> = take (length xs + 2) (contents ?k1)"
      using contents_popped [OF ok1 le1] len by simp
    finally show ?thesis unfolding c1 by simp
  qed
  have le2: "2 \<le> sp ?k2" using sp2 by (simp add: word_le_nat_alt)
  let ?s2 = "s\<lparr>stacks := (stacks s)(a \<mapsto> ?k2)\<rparr>"
  have pop2: "stack_pop_data (Ptr a) 2 ?s2 = Inr (bytes_of_u16 ip,
      ?s2\<lparr>stacks := (stacks ?s2)(a \<mapsto> popped 2 ?k2)\<rparr>)"
    using stack_pop_data_enough [of ?s2 a ?k2 2] ok2 le2 c2 sp2 by simp
  have "unat (sp ?k2 - 2) = length xs" using unat_u16_sub [OF le2] sp2 by simp
  then have "sp ?k2 - 2 = of_nat (length xs)" by (metis of_nat_unat ucast_id)
  then have k3: "popped 2 ?k2 = k\<lparr>sp := of_nat (length xs), bp := base\<rparr>"
    by (simp add: popped_def)
  show ?thesis
    using assms(1,2) pop1 pop2 k3
    by (simp add: ret_def call_stack_def set_call_stack_def stack_pop_u16_def st_simps)
qed

text \<open>A call that does not fit prints the overflow message and ends the process; what was on the
  stack is still there.\<close>

lemma call_address_full:
  assumes k: "cpu_stack s = Ptr a" "stacks s a = Some k" and wf: "stack_wf k"
    and full: "unat (stk_size k) < unat (sp k) + 4" and small: "unat (sp k) + 4 < 65536"
  shows "\<exists>t es k'. call_address address s = Inl (ExitFailure, t)
    \<and> out t = out s @ Printf ''stack_write_bend_data_at: stackoverflow\<newline>'' [] # es
    \<and> stacks t a = Some k' \<and> take (unat (sp k)) (stk_data k') = take (unat (sp k)) (stk_data k)"
proof (cases "unat (sp k) + 2 \<le> unat (stk_size k)")
  case False
  with stack_push_data_full [of s a k 2 "bytes_of_u16 (cpu_ip s)"] k wf small obtain evs where
    "stack_push_data (Ptr a) (bytes_of_u16 (cpu_ip s)) 2 s = Inl (ExitFailure, s\<lparr>out := out s @
       Printf ''stack_write_bend_data_at: stackoverflow\<newline>'' [] # evs\<rparr>)" by auto
  then show ?thesis using k by (auto simp: call_address_def stack_push_u16_def st_simps)
next
  case True
  then have ok: "stack_ok k" using wf by (simp add: stack_ok_def)
  let ?k1 = "pushed (bytes_of_u16 (cpu_ip s)) k"
  let ?t = "s\<lparr>stacks := (stacks s)(a \<mapsto> ?k1), cpu_ip := address\<rparr>"
  have r1: "unat (sp k) + length (bytes_of_u16 (cpu_ip s)) \<le> unat (stk_size k)"
    using True by simp
  have push1: "stack_push_data (Ptr a) (bytes_of_u16 (cpu_ip s)) 2 s
      = Inr ((), s\<lparr>stacks := (stacks s)(a \<mapsto> ?k1)\<rparr>)"
    using stack_push_data_room [OF k(2) ok r1] by simp
  have wf1: "stack_wf ?k1" using stack_ok_pushed [OF ok r1] by (simp add: stack_ok_def)
  have full1: "unat (stk_size ?k1) < unat (sp ?k1) + unat (2 :: u16)"
    and small1: "unat (sp ?k1) + unat (2 :: u16) < 65536"
    using sp_pushed [OF r1] full small by simp_all
  have "take (unat (sp k)) (contents ?k1) = contents k"
    unfolding contents_pushed [OF ok r1] using length_contents [OF ok] by simp
  then have below: "take (unat (sp k)) (stk_data ?k1) = take (unat (sp k)) (stk_data k)"
    using sp_pushed [OF r1] by (simp add: contents_def min_def)
  have "stacks ?t a = Some ?k1" by simp
  from stack_push_data_full [OF this wf1 full1 small1, of "bytes_of_u16 (bp k)"] obtain evs where
    "stack_push_data (Ptr a) (bytes_of_u16 (bp k)) 2 ?t = Inl (ExitFailure, ?t\<lparr>out := out ?t @
       Printf ''stack_write_bend_data_at: stackoverflow\<newline>'' [] # evs\<rparr>)" by blast
  with k push1 below show ?thesis
    by (auto simp: call_address_def stack_push_u16_def call_stack_def st_simps)
qed

section \<open>Instructions with an operand in the program\<close>

lemma opcode_of_control:
  "opcode_of 2 = Some OP_JUMP" "opcode_of 3 = Some OP_POP_JUMP_IF_FALSE"
  "opcode_of 9 = Some OP_CALL" "opcode_of 10 = Some OP_RETURN"
  "opcode_of 14 = Some OP_PUSHL_U16" "opcode_of 26 = Some OP_PUSHL_I16"
  by (simp_all add: opcode_of_def nth_opt_def opcodes_def)

lemma callstack_ip [simp]: "callstack a (s\<lparr>cpu_ip := i\<rparr>) k = callstack a s k"
  by (simp add: callstack_def)

lemma same_but_opstack_ip [simp]:
  "same_but_opstack (s\<lparr>cpu_ip := i\<rparr>) t \<Longrightarrow> cpu_ip t = i"
  by (auto simp: same_but_opstack_def same_but_stack_def)

lemma run_with_u16:
  assumes "code_at s (b # bytes_of_u16 w @ cs)" and "opcode_of b = Some opc"
    and "execute_op opc = bind (bind fetch_u16 the_init) m"
  shows "run_instruction s = bind (m w) (\<lambda>_. return b) (s\<lparr>cpu_ip := cpu_ip s + 3\<rparr>)"
proof -
  have "code_at (s\<lparr>cpu_ip := cpu_ip s + 1\<rparr>) (bytes_of_u16 w @ cs)"
    by (rule run_instruction_code(2) [OF assms(1)])
  from fetch_u16_code [OF this]
  show ?thesis
    unfolding run_instruction_code(1) [OF assms(1)]
    by (simp add: cpu_execute_def assms(2,3) st_simps add.assoc)
qed

lemma run_call:
  assumes "code_at s (9 # bytes_of_u16 w @ cs)"
  shows "run_instruction s = bind (call_address w) (\<lambda>_. return 9) (s\<lparr>cpu_ip := cpu_ip s + 3\<rparr>)"
  by (rule run_with_u16 [OF assms opcode_of_control(3)]) (simp add: execute_op_def call_def)

lemma literal_run:
  fixes s :: "'z cpu_scheme"
  assumes "code_at s (b # bytes_of_u16 w @ cs)" and "b = 14 \<or> b = 26"
  shows "run_instruction s = bind (push_u16 w) (\<lambda>_. return b) (s\<lparr>cpu_ip := cpu_ip s + 3\<rparr>)"
    and "code_at (s\<lparr>cpu_ip := cpu_ip s + 3\<rparr>) cs"
proof -
  obtain opc where opc: "opcode_of b = Some opc"
      "(execute_op opc :: ('z cpu_scheme, unit) st) = bind (bind fetch_u16 the_init) push_u16"
    using assms(2) by (auto simp: opcode_of_control execute_op_def push_literal_U16_def
        push_literal_I16_def)
  show "run_instruction s = bind (push_u16 w) (\<lambda>_. return b) (s\<lparr>cpu_ip := cpu_ip s + 3\<rparr>)"
    by (rule run_with_u16 [OF assms(1) opc])
  have "code_at (s\<lparr>cpu_ip := cpu_ip s + 1\<rparr>) (bytes_of_u16 w @ cs)"
    by (rule run_instruction_code(2) [OF assms(1)])
  from fetch_code(2) [OF this] show "code_at (s\<lparr>cpu_ip := cpu_ip s + 3\<rparr>) cs"
    by (simp add: add.assoc)
qed

lemma code_at_same:
  assumes "same_but_opstack s t" and "code_at s cs"
  shows "code_at t cs"
proof -
  have "cpu_program t = cpu_program s" "cpu_program_size t = cpu_program_size s"
    "cpu_ip t = cpu_ip s"
    using assms(1) by (auto simp: same_but_opstack_def same_but_stack_def)
  with assms(2) show ?thesis by (simp add: code_at_def)
qed

lemma literal_room:
  assumes "code_at s (b # bytes_of_u16 w @ cs)" and "b = 14 \<or> b = 26" and "live_opstack s"
    and "length (operands s) + 2 \<le> opstack_capacity s"
  shows "\<exists>t. run_instruction s = Inr (b, t) \<and> live_opstack t
    \<and> operands t = operands s @ rev (bytes_of_u16 w) \<and> code_at t cs
    \<and> opstack_capacity t = opstack_capacity s
    \<and> same_but_opstack (s\<lparr>cpu_ip := cpu_ip s + 3\<rparr>) t"
proof -
  let ?s = "s\<lparr>cpu_ip := cpu_ip s + 3\<rparr>"
  have live: "live_opstack ?s" using assms(3) by simp
  from opstack_lifo.push_room [OF live, of "bytes_of_u16 w"] assms(4) obtain t where
    t: "opstack_push (bytes_of_u16 w) 2 ?s = Inr ((), t)" "live_opstack t"
      "operands t = operands s @ rev (bytes_of_u16 w)" "same_but_opstack ?s t"
      "opstack_capacity t = opstack_capacity s"
    by auto
  with literal_run [OF assms(1,2)] code_at_same [OF t(4)] show ?thesis
    by (simp add: push_u16_def st_simps)
qed

section \<open>Properties\<close>

text \<open>The literal instructions of both 16-bit types. Behind the opcode they read the
  two bytes of the value, put them on the operand stack and advance the instruction pointer
  by three; nothing else changes. Without room for two bytes they end the process.\<close>

lemma literal_instruction:
  fixes s :: "'z cpu_scheme"
  assumes "code_at s (b # bytes_of_u16 w @ cs)" and "b = 14 \<or> b = 26" and "live_opstack s"
  shows "if length (operands s) + 2 \<le> opstack_capacity s
    then \<exists>t. run_instruction s = Inr (b, t) \<and> live_opstack t
           \<and> operands t = operands s @ rev (bytes_of_u16 w) \<and> code_at t cs
           \<and> same_but_opstack (s\<lparr>cpu_ip := cpu_ip s + 3\<rparr>) t
    else opstack_capacity s < 65534 \<longrightarrow> (\<exists>t. run_instruction s = Inl (ExitFailure, t))"
proof (cases "length (operands s) + 2 \<le> opstack_capacity s")
  case True
  with literal_room [OF assms True] show ?thesis by auto
next
  case False
  have live: "live_opstack (s\<lparr>cpu_ip := cpu_ip s + 3\<rparr>)" using assms(3) by simp
  have "length (operands s) \<le> opstack_capacity s" by (rule opstack_lifo.used_bound [OF assms(3)])
  with False opstack_lifo.push_full [OF live, of "bytes_of_u16 w"] literal_run(1) [OF assms(1,2)]
  show ?thesis by (cases "opstack_capacity s < 65534") (auto simp: push_u16_def st_simps)
qed

lemma demo_code [simp]:
  "bs \<noteq> [] \<Longrightarrow> length prog < 65536 \<Longrightarrow> prog = bs @ cs \<Longrightarrow> code_at (demo_cpu ops prog) bs"
proof -
  assume prog: "length prog < 65536" "prog = bs @ cs"
  then have "unat (of_nat (length prog) :: u16) = length prog" by (simp only: unat_of_nat) simp
  with prog(2) show ?thesis by (simp add: code_at_def demo_cpu_def)
qed

lemma demo_cpu_simps [simp]:
  "length ops \<le> 16 \<Longrightarrow> opstack_capacity (demo_cpu ops prog) = 16"
  "cpu_ip (demo_cpu ops prog) = 0" "cpu_program (demo_cpu ops prog) = prog"
  "cpu_program_size (demo_cpu ops prog) = of_nat (length prog)"
  "callstack 2 (demo_cpu ops prog) \<lparr>stk_data = replicate 16 0, stk_size = 16, sp = 0, bp = 0\<rparr>"
  by (simp_all add: demo_cpu_def opstack_capacity_def stack_at_def opstack_addr_def callstack_def
      stack_ok_def stack_wf_def)

lemma literal_instruction_witness:
  "(\<exists>t. run_instruction (demo_cpu [] [14, 2, 1]) = Inr (14, t) \<and> operands t = [1, 2])
   \<and> (\<exists>t. run_instruction (demo_cpu (replicate 16 5) [26, 2, 1]) = Inl (ExitFailure, t))"
proof -
  have b: "bytes_of_u16 258 = [2, 1]" by (simp add: bytes_of_u16_def)
  have c: "code_at (demo_cpu [] [14, 2, 1]) (14 # bytes_of_u16 258 @ [])"
    and d: "code_at (demo_cpu (replicate 16 5) [26, 2, 1]) (26 # bytes_of_u16 258 @ [])"
    unfolding b by (rule demo_code [where cs = "[]"]; simp)+
  show ?thesis
    using literal_instruction [OF c] literal_instruction [OF d] by (auto simp: b)
qed

text \<open>The two jumps. \<open>OP_JUMP\<close> sets the instruction pointer to its operand and changes
  nothing else. \<open>OP_POP_JUMP_IF_FALSE\<close> pops one byte: on 0 it jumps, on 1 it goes on behind
  its operand; a byte that is neither, which a value that is no comparison result can leave
  there, is undefined as a \<open>bool\<close>; on an empty operand stack the process ends.\<close>

lemma jump_instructions:
  fixes s :: "'z cpu_scheme"
  assumes "live_opstack s" and "code_at s (b # bytes_of_u16 w @ cs)"
  shows "(b = 2 \<longrightarrow> run_instruction s = Inr (2, s\<lparr>cpu_ip := w\<rparr>))
    \<and> (b = 3 \<and> operands s = [] \<longrightarrow> (\<exists>t. run_instruction s = Inl (ExitFailure, t)))
    \<and> (\<forall>xs v. b = 3 \<and> operands s = xs @ [v] \<longrightarrow> (\<exists>t. operands t = xs \<and> live_opstack t
        \<and> same_but_opstack (s\<lparr>cpu_ip := cpu_ip s + 3\<rparr>) t
        \<and> run_instruction s = (if v = 0 then Inr (3, t\<lparr>cpu_ip := w\<rparr>)
            else if v = 1 then Inr (3, t) else Inl (Undefined BadBool, t))))"
proof (intro conjI impI allI)
  assume b: "b = 2"
  have "(execute_op OP_JUMP :: ('z cpu_scheme, unit) st)
      = bind (bind fetch_u16 the_init) (\<lambda>address. modify (\<lambda>s. s\<lparr>cpu_ip := address\<rparr>))"
    by (simp add: execute_op_def jump_def)
  from run_with_u16 [OF assms(2) [unfolded b] opcode_of_control(1) this]
  show "run_instruction s = Inr (2, s\<lparr>cpu_ip := w\<rparr>)" by (simp add: st_simps)
next
  let ?s = "s\<lparr>cpu_ip := cpu_ip s + 3\<rparr>"
  have live: "live_opstack ?s" using assms(1) by simp
  have run: "run_instruction s = bind (bind pop_bool (\<lambda>result.
      if \<not> result then modify (\<lambda>s. s\<lparr>cpu_ip := w\<rparr>) else return ())) (\<lambda>_. return 3) ?s"
    if "b = 3"
  proof -
    have "code_at (s\<lparr>cpu_ip := cpu_ip s + 1\<rparr>) (bytes_of_u16 w @ cs)"
      by (rule run_instruction_code(2) [OF assms(2)])
    from fetch_u16_code [OF this] that show ?thesis
      unfolding run_instruction_code(1) [OF assms(2)]
      by (simp add: cpu_execute_def opcode_of_control execute_op_def pop_jump_if_false_def
          st_simps add.assoc split: sum.split)
  qed
  {
    assume b: "b = 3 \<and> operands s = []"
    from opstack_lifo.pop_underflow [OF live, of 1] b
    obtain t where "opstack_pop 1 ?s = Inl (ExitFailure, t)" by auto
    with run b show "\<exists>t. run_instruction s = Inl (ExitFailure, t)"
      by (simp add: pop_bool_def st_simps)
  next
    fix xs v
    assume b: "b = 3 \<and> operands s = xs @ [v]"
    from opstack_lifo.pop_enough [OF live, of xs "[v]"] b
    obtain t where t: "opstack_pop 1 ?s = Inr ([v], t)" "live_opstack t" "operands t = xs"
        "same_but_opstack ?s t" by auto
    with run b show "\<exists>t. operands t = xs \<and> live_opstack t \<and> same_but_opstack ?s t
        \<and> run_instruction s = (if v = 0 then Inr (3, t\<lparr>cpu_ip := w\<rparr>)
            else if v = 1 then Inr (3, t) else Inl (Undefined BadBool, t))"
      by (intro exI [of _ t]) (simp add: pop_bool_def bool_of_bytes_def st_simps)
  }
qed

lemma jump_instructions_witness:
  "run_instruction (demo_cpu [] [2, 7, 0]) = Inr (2, (demo_cpu [] [2, 7, 0])\<lparr>cpu_ip := 7\<rparr>)
   \<and> (\<exists>t. run_instruction (demo_cpu [5, 0] [3, 7, 0]) = Inr (3, t) \<and> cpu_ip t = 7 \<and> operands t = [5])
   \<and> (\<exists>t. run_instruction (demo_cpu [5, 9] [3, 7, 0]) = Inl (Undefined BadBool, t))"
proof -
  have w: "bytes_of_u16 7 = [7, 0]" by (simp add: bytes_of_u16_def)
  have c: "code_at (demo_cpu [] [2, 7, 0]) (2 # bytes_of_u16 7 @ [])"
    and d: "code_at (demo_cpu [5, 0] [3, 7, 0]) (3 # bytes_of_u16 7 @ [])"
    and e: "code_at (demo_cpu [5, 9] [3, 7, 0]) (3 # bytes_of_u16 7 @ [])"
    unfolding w by (rule demo_code [where cs = "[]"]; simp)+
  have "run_instruction (demo_cpu [] [2, 7, 0]) = Inr (2, (demo_cpu [] [2, 7, 0])\<lparr>cpu_ip := 7\<rparr>)"
    using jump_instructions [OF _ c] by simp
  moreover have "\<exists>t. run_instruction (demo_cpu [5, 0] [3, 7, 0]) = Inr (3, t) \<and> cpu_ip t = 7 \<and> operands t = [5]"
  proof -
    from jump_instructions [OF _ d] obtain t where
      "operands t = [5]" "run_instruction (demo_cpu [5, 0] [3, 7, 0]) = Inr (3, t\<lparr>cpu_ip := 7\<rparr>)"
      by fastforce
    then show ?thesis by (intro exI [of _ "t\<lparr>cpu_ip := 7\<rparr>"]) simp
  qed
  moreover have "\<exists>t. run_instruction (demo_cpu [5, 9] [3, 7, 0]) = Inl (Undefined BadBool, t)"
    using jump_instructions [OF _ e] by fastforce
  ultimately show ?thesis by blast
qed

text \<open>A run that leaves the program. When the instruction pointer is at or past the end,
  the fetch prints its message and leaves the opcode variable as it was, so the machine goes
  on with an indeterminate opcode; it does not stop by itself.\<close>

lemma fetch_past_end:
  assumes "cpu_program_size s \<le> cpu_ip s"
  shows "run_instruction s = Inl (Undefined Uninitialised, s\<lparr>out := out s @
    [Printf ''cpu_fetch_data: out of program memory\<newline>'' []]\<rparr>)"
  using cpu_fetch_outside [OF assms, of 1] by (simp add: run_instruction_def st_simps)

lemma fetch_past_end_witness:
  "run_instruction (demo_cpu [] []) = Inl (Undefined Uninitialised, (demo_cpu [] [])\<lparr>out :=
     [Printf ''cpu_fetch_data: out of program memory\<newline>'' []]\<rparr>)"
proof -
  have "out (demo_cpu [] []) = []" by (simp add: demo_cpu_def)
  with fetch_past_end [of "demo_cpu [] []"] show ?thesis by simp
qed

text \<open>C11: a call and its return. \<open>OP_CALL\<close> jumps to its operand and pushes a frame of four
  bytes: the address behind the call and the caller's base pointer. Whatever the callee does
  above the frame (locals, deeper calls, any value of \<open>sp\<close>), an \<open>OP_RETURN\<close> that finds the
  frame's bytes and the base pointer in place continues behind the call, with the caller's
  \<open>sp\<close> and \<open>bp\<close>.\<close>

theorem call_then_return:
  fixes s u :: "'z cpu_scheme"
  assumes "code_at s (9 # bytes_of_u16 w @ cs)" and "callstack a s k"
    and "unat (sp k) + 4 \<le> unat (stk_size k)"
  shows "run_instruction s = Inr (9, s\<lparr>cpu_ip := w,
            stacks := (stacks s)(a \<mapsto> with_frame (cpu_ip s + 3) k)\<rparr>)
    \<and> (cpu_stack u = Ptr a \<and> stacks u a = Some k' \<and> stack_wf k' \<and> stk_size k' = stk_size k
        \<and> bp k' = bp (with_frame (cpu_ip s + 3) k)
        \<and> take (unat (bp k')) (stk_data k') = contents (with_frame (cpu_ip s + 3) k)
      \<longrightarrow> execute_op OP_RETURN u = Inr ((), u\<lparr>cpu_ip := cpu_ip s + 3,
            stacks := (stacks u)(a \<mapsto> k'\<lparr>sp := sp k, bp := bp k\<rparr>)\<rparr>))"
proof (intro conjI impI)
  let ?s = "s\<lparr>cpu_ip := cpu_ip s + 3\<rparr>"
  have k: "callstack a ?s k" using assms(2) by simp
  show "run_instruction s = Inr (9, s\<lparr>cpu_ip := w,
      stacks := (stacks s)(a \<mapsto> with_frame (cpu_ip s + 3) k)\<rparr>)"
    using run_call [OF assms(1)] call_address_room [OF k assms(3), of w] by (simp add: st_simps)
next
  assume u: "cpu_stack u = Ptr a \<and> stacks u a = Some k' \<and> stack_wf k' \<and> stk_size k' = stk_size k
        \<and> bp k' = bp (with_frame (cpu_ip s + 3) k)
        \<and> take (unat (bp k')) (stk_data k') = contents (with_frame (cpu_ip s + 3) k)"
  have ok: "stack_ok k" using assms(2) by (simp add: callstack_def)
  note f = with_frame_facts [OF ok assms(3), of "cpu_ip s + 3"]
  have u': "cpu_stack u = Ptr a" "stacks u a = Some k'" "stack_wf k'"
    "take (unat (bp k')) (stk_data k')
      = contents k @ rev (bytes_of_u16 (cpu_ip s + 3)) @ rev (bytes_of_u16 (bp k))"
    using u unfolding f(5) by blast+
  have le: "bp k' \<le> stk_size k'" using u f(1,2,3,4,6) by (simp add: word_le_nat_alt stack_ok_def)
  have "of_nat (length (contents k)) = sp k"
    using length_contents [OF ok] by (metis of_nat_unat ucast_id)
  then show "execute_op OP_RETURN u = Inr ((), u\<lparr>cpu_ip := cpu_ip s + 3,
      stacks := (stacks u)(a \<mapsto> k'\<lparr>sp := sp k, bp := bp k\<rparr>)\<rparr>)"
    using ret_frame [OF u'(1-3) le u'(4)] by (simp add: execute_op_def)
qed

text \<open>A call at address 0 to address 4 on an empty call stack, and the return right after it.\<close>

theorem call_then_return_witness:
  "\<exists>t k'. run_instruction (demo_cpu [] [9, 4, 0]) = Inr (9, t) \<and> cpu_ip t = 4
     \<and> execute_op OP_RETURN t = Inr ((), t\<lparr>cpu_ip := 3,
         stacks := (stacks t)(2 \<mapsto> k'\<lparr>sp := 0, bp := 0\<rparr>)\<rparr>)"
proof -
  let ?s = "demo_cpu [] [9, 4, 0]"
    and ?k = "\<lparr>stk_data = replicate 16 0, stk_size = 16, sp = 0, bp = 0\<rparr> :: stack"
  let ?k' = "with_frame (cpu_ip ?s + 3) ?k"
  let ?t = "?s\<lparr>cpu_ip := 4, stacks := (stacks ?s)(2 \<mapsto> ?k')\<rparr>"
  have c: "code_at ?s (9 # bytes_of_u16 4 @ [])"
    by (rule demo_code [where cs = "[]"]; simp add: bytes_of_u16_def)
  have k: "callstack 2 ?s ?k" by simp
  have ok: "stack_ok ?k" by (simp add: stack_ok_def stack_wf_def)
  have room: "unat (sp ?k) + 4 \<le> unat (stk_size ?k)" by simp
  note f = with_frame_facts [OF ok room, of "cpu_ip ?s + 3"]
  have stack: "cpu_stack ?t = Ptr 2" by (simp add: demo_cpu_def)
  have data: "take (unat (bp ?k')) (stk_data ?k') = contents ?k'"
    using f(2,3) by (simp add: contents_def)
  have wf: "stack_wf ?k'" using f(6) by (simp add: stack_ok_def)
  have "run_instruction ?s = Inr (9, ?t)"
    and "execute_op OP_RETURN ?t = Inr ((), ?t\<lparr>cpu_ip := cpu_ip ?s + 3,
      stacks := (stacks ?t)(2 \<mapsto> ?k'\<lparr>sp := sp ?k, bp := bp ?k\<rparr>)\<rparr>)"
    using call_then_return [OF c k room, of ?t ?k'] stack data wf f(4) by simp_all
  then show ?thesis
    by (intro exI [of _ ?t] exI [of _ ?k']) simp
qed

end
