(* ===== verification/Opcode_Spec.thy ===== *)
theory Opcode_Spec
  imports Run_C
begin

text \<open>
  The numbering of the opcodes (src/instructions.h) and what the dispatch of src/cpu.c does
  with a byte: the 51 numbers 0 to 50 are in bijection with the opcodes, every other byte is
  reported and skipped. Opcodes are ordered by their number.
\<close>

section \<open>Numbers\<close>

definition opcode_number :: "opcode \<Rightarrow> u8" where
  "opcode_number x = of_nat (length (takeWhile (\<lambda>y. y \<noteq> x) opcodes))"

lemma length_takeWhile_nth:
  "distinct xs \<Longrightarrow> i < length xs \<Longrightarrow> length (takeWhile (\<lambda>y. y \<noteq> xs ! i) xs) = i"
proof (induction xs arbitrary: i)
  case (Cons x xs)
  then show ?case by (cases i) auto
qed simp

lemma length_opcodes [simp]: "length opcodes = 51"
  by (simp add: opcodes_def)

lemma distinct_opcodes: "distinct opcodes"
  by (simp add: opcodes_def)

lemma set_opcodes: "x \<in> set opcodes"
  by (cases x) (simp_all add: opcodes_def)

lemma opcode_number_nth: "i < 51 \<Longrightarrow> opcode_number (opcodes ! i) = of_nat i"
  using length_takeWhile_nth [OF distinct_opcodes, of i] by (simp add: opcode_number_def)

lemma opcode_of_number [simp]: "opcode_of (opcode_number x) = Some x"
proof -
  obtain i where "i < 51" "opcodes ! i = x"
    using set_opcodes [of x] by (auto simp: in_set_conv_nth)
  with opcode_number_nth [of i] show ?thesis
    by (auto simp: opcode_of_def nth_opt_def unat_of_nat)
qed

lemma opcode_of_Some: "opcode_of b = Some x \<longleftrightarrow> b = opcode_number x"
proof
  assume "opcode_of b = Some x"
  then have "unat b < 51" "opcodes ! unat b = x"
    by (auto simp: opcode_of_def nth_opt_def split: if_splits)
  with opcode_number_nth [of "unat b"] show "b = opcode_number x" by simp
qed simp

lemma opcode_of_None: "opcode_of b = None \<longleftrightarrow> 51 \<le> b"
  by (auto simp: opcode_of_def nth_opt_def word_le_nat_alt)

section \<open>The order of the opcodes\<close>

instantiation opcode :: linorder
begin

definition less_eq_opcode :: "opcode \<Rightarrow> opcode \<Rightarrow> bool" where
  "x \<le> y \<longleftrightarrow> opcode_number x \<le> opcode_number y"

definition less_opcode :: "opcode \<Rightarrow> opcode \<Rightarrow> bool" where
  "x < y \<longleftrightarrow> opcode_number x < opcode_number y"

instance
proof
  fix x y :: opcode
  assume "x \<le> y" "y \<le> x"
  then have "opcode_number x = opcode_number y" by (simp add: less_eq_opcode_def)
  then show "x = y" by (metis opcode_of_number option.inject)
qed (auto simp: less_eq_opcode_def less_opcode_def)

end

lemma opcode_number_eq [simp]: "opcode_number x = opcode_number y \<longleftrightarrow> x = y"
  by (metis opcode_of_number option.inject)

section \<open>Property\<close>

text \<open>The dispatch of a byte. A byte selects the instruction \<open>x\<close> exactly when it is the
  number of \<open>x\<close>, the numbers are those of the enumeration from \<open>OP_HALT\<close> = 0 to
  \<open>OP_NOT_U16\<close> = 50 in its order, and a byte from 51 on prints \<open>unknown opcode\<close> and
  changes nothing else: the machine goes on with the next byte.\<close>

lemma opcode_dispatch:
  "(opcode_of b = Some x \<longleftrightarrow> b = opcode_number x)
   \<and> opcode_number OP_HALT = 0 \<and> opcode_number OP_NOT_U16 = 50 \<and> sorted opcodes
   \<and> cpu_execute b s = (if b \<le> 50 then execute_op (opcodes ! unat b) s
       else Inr ((), s\<lparr>out := out s @ [Printf ''unknown opcode %d\<newline>'' [AInt (uint b)]]\<rparr>))"
proof (intro conjI opcode_of_Some)
  show "opcode_number OP_HALT = 0" "opcode_number OP_NOT_U16 = 50"
    by (simp_all add: opcode_number_def opcodes_def)
  show "sorted opcodes"
    unfolding sorted_iff_nth_mono
    by (simp add: less_eq_opcode_def opcode_number_nth word_le_nat_alt unat_of_nat)
  show "cpu_execute b s = (if b \<le> 50 then execute_op (opcodes ! unat b) s
       else Inr ((), s\<lparr>out := out s @ [Printf ''unknown opcode %d\<newline>'' [AInt (uint b)]]\<rparr>))"
  proof (cases "b \<le> 50")
    case True
    then have "opcode_of b = Some (opcodes ! unat b)"
      by (simp add: opcode_of_def nth_opt_def word_le_nat_alt)
    with True show ?thesis by (simp add: cpu_execute_def)
  next
    case False
    then have "opcode_of b = None" by (simp add: opcode_of_None word_le_nat_alt)
    with False show ?thesis by (simp add: cpu_execute_def st_simps)
  qed
qed

end
