(* ===== verification/Straight_Spec.thy ===== *)
theory Straight_Spec
  imports Control_Spec Opcode_Spec
begin

text \<open>
  Straight-line code against an abstract stack machine. The code of an expression is a
  sequence of literals and two-operand instructions; the abstract machine runs it on a list
  of typed values, with no bytes, stack pointers or program counter. The simulation covers
  the results and the undefined operations.
\<close>

section \<open>The abstract machine\<close>

datatype val = Word u16 | Flag bool

datatype instr = Lit u16 | Alu opcode

fun val_of_bytes :: "u8 list \<Rightarrow> val" where
  "val_of_bytes [b] = Flag (b = 1)"
| "val_of_bytes bs = Word (u16_of_bytes bs)"

text \<open>One instruction on the values, the top first. \<open>None\<close>: the operands have another shape.\<close>

fun astep :: "instr \<Rightarrow> val list \<Rightarrow> (ub + val list) option" where
  "astep (Lit w) vs = Some (Inr (Word w # vs))"
| "astep (Alu opc) (Word b # Word a # vs) = (case alu opc a b of
     None \<Rightarrow> None
   | Some (Inl u) \<Rightarrow> Some (Inl u)
   | Some (Inr bs) \<Rightarrow> Some (Inr (val_of_bytes bs # vs)))"
| "astep (Alu opc) _ = None"

fun arun :: "instr list \<Rightarrow> val list \<Rightarrow> (ub + val list) option" where
  "arun [] vs = Some (Inr vs)"
| "arun (i # is) vs = (case astep i vs of
     None \<Rightarrow> None
   | Some (Inl u) \<Rightarrow> Some (Inl u)
   | Some (Inr ws) \<Rightarrow> arun is ws)"

section \<open>Its representation\<close>

fun assemble :: "instr \<Rightarrow> u8 list" where
  "assemble (Lit w) = opcode_number OP_PUSHL_U16 # bytes_of_u16 w"
| "assemble (Alu opc) = [opcode_number opc]"

fun val_bytes :: "val \<Rightarrow> u8 list" where
  "val_bytes (Word w) = bytes_of_u16 w"
| "val_bytes (Flag b) = bytes_of_bool b"

text \<open>The operand stack's bytes, oldest first.\<close>

definition values_image :: "val list \<Rightarrow> u8 list" where
  "values_image vs = concat (map (\<lambda>v. rev (val_bytes v)) (rev vs))"

definition literals :: "instr list \<Rightarrow> nat" where
  "literals is = length (filter (\<lambda>i. case i of Lit _ \<Rightarrow> True | Alu _ \<Rightarrow> False) is)"

lemma values_image_Cons [simp]: "values_image (v # vs) = values_image vs @ rev (val_bytes v)"
  by (simp add: values_image_def)

lemma opcode_number_PUSHL [simp]: "opcode_number OP_PUSHL_U16 = 14"
  by (simp add: opcode_number_def opcodes_def)

lemma alu_result:
  assumes "alu opc a b = Some (Inr bs)"
  shows "rev (val_bytes (val_of_bytes bs)) = rev bs"
proof -
  from assms have "bs \<in> range bytes_of_u16 \<or> bs = [1] \<or> bs = [0]"
    by (cases opc) (auto simp: alu_def split: if_splits)
  moreover have "val_of_bytes (bytes_of_u16 w) = Word w" for w
  proof -
    have "u16_of_bytes (bytes_of_u16 w) = w" by simp
    then show ?thesis by (simp add: bytes_of_u16_def)
  qed
  ultimately show ?thesis by (auto simp: bytes_of_bool_def)
qed

section \<open>One instruction\<close>

lemma run_cycles_next:
  "run_instruction s = Inr (opc, t) \<Longrightarrow> opcode_of opc \<noteq> Some OP_ASYNC_RETURN \<Longrightarrow>
   run_cycles (Suc n) s = run_cycles n t"
  by (simp add: st_simps)

lemma run_cycles_stop:
  "run_instruction s = Inl e \<Longrightarrow> run_cycles (Suc n) s = Inl e"
  by (simp add: st_simps)

text \<open>What the machine does on one instruction, in the form the induction needs.\<close>

definition simulated :: "nat \<Rightarrow> u8 list \<Rightarrow> u8 list \<Rightarrow> nat \<Rightarrow> 'z cpu_scheme \<Rightarrow> ub + val list \<Rightarrow> bool"
where
  "simulated n xs cs sz s r \<longleftrightarrow> (case r of
     Inl u \<Rightarrow> \<exists>t. \<forall>m. run_cycles (n + m) s = Inl (Undefined u, t)
   | Inr vs \<Rightarrow> \<exists>t. (\<forall>m. run_cycles (n + m) s = run_cycles m t)
       \<and> live_opstack t \<and> operands t = xs @ values_image vs \<and> code_at t cs
       \<and> opstack_capacity t = opstack_capacity s
       \<and> same_but_opstack (s\<lparr>cpu_ip := cpu_ip s + of_nat sz\<rparr>) t)"

lemma simulate_literal:
  assumes "code_at s (assemble (Lit w) @ cs)" and "live_opstack s"
    and "operands s = xs @ values_image vs" and "length (operands s) + 2 \<le> opstack_capacity s"
  shows "simulated 1 xs cs 3 s (Inr (Word w # vs))"
proof -
  have "code_at s (14 # bytes_of_u16 w @ cs)" using assms(1) by simp
  from literal_room [OF this _ assms(2,4)] obtain t where
    t: "run_instruction s = Inr (14, t)" "live_opstack t"
      "operands t = operands s @ rev (bytes_of_u16 w)" "code_at t cs"
      "opstack_capacity t = opstack_capacity s"
      "same_but_opstack (s\<lparr>cpu_ip := cpu_ip s + 3\<rparr>) t" by auto
  have "\<forall>m. run_cycles (Suc m) s = run_cycles m t"
    using run_cycles_next [OF t(1)] by (simp add: opcode_of_control)
  with t assms(3) show ?thesis by (auto simp: simulated_def)
qed

lemma alu_not_async: "alu opc a b = Some r \<Longrightarrow> opc \<noteq> OP_ASYNC_RETURN"
  by (auto simp: alu_def)

text \<open>Whether an opcode has an entry in the table does not depend on the operands.\<close>

lemma alu_total: "alu opc a b \<noteq> None \<Longrightarrow> alu opc c d \<noteq> None"
  by (cases opc) (simp_all add: alu_def)

lemma simulate_alu:
  assumes "code_at s (assemble (Alu opc) @ cs)" and "live_opstack s"
    and "operands s = xs @ values_image (Word b # Word a # vs)"
    and "astep (Alu opc) (Word b # Word a # vs) = Some r"
  shows "simulated 1 xs cs 1 s r"
proof -
  let ?s = "s\<lparr>cpu_ip := cpu_ip s + 1\<rparr>" and ?r = "\<lambda>a b. the (alu opc a b)"
  have code: "code_at s (opcode_number opc # cs)" using assms(1) by simp
  have some: "alu opc a b = Some (?r a b)" using assms(4) by (cases "alu opc a b") simp_all
  then have all: "\<And>a b. alu opc a b = Some (?r a b)"
    using alu_total [of opc a b] by (metis option.collapse option.distinct(1))
  have run: "run_instruction s = bind (execute_op opc) (\<lambda>_. return (opcode_number opc)) ?s"
    using run_instruction_code(1) [OF code] by (simp add: cpu_execute_def)
  have live: "live_opstack ?s" using assms(2) by simp
  have ops: "operands ?s = (xs @ values_image vs) @ rev (bytes_of_u16 a) @ rev (bytes_of_u16 b)"
    using assms(3) by simp
  note result = execute_alu_enough [OF live all ops]
  have code': "code_at ?s cs" by (rule run_instruction_code(2) [OF code])
  show ?thesis
  proof (cases "?r a b")
    case (Inl u)
    with some assms(4) have r: "r = Inl u" by simp
    from result Inl obtain t where "execute_op opc ?s = Inl (Undefined u, t)" by auto
    with run have "run_instruction s = Inl (Undefined u, t)" by (simp add: st_simps)
    from run_cycles_stop [OF this] show ?thesis by (auto simp: simulated_def r)
  next
    case (Inr bs)
    with some assms(4) have r: "r = Inr (val_of_bytes bs # vs)" by simp
    from result Inr obtain t where t: "execute_op opc ?s = Inr ((), t)" "live_opstack t"
      "operands t = (xs @ values_image vs) @ rev bs" "opstack_capacity t = opstack_capacity s"
      "same_but_opstack ?s t" by auto
    with run have "run_instruction s = Inr (opcode_number opc, t)" by (simp add: st_simps)
    from run_cycles_next [OF this] alu_not_async [OF some]
    have "\<forall>m. run_cycles (Suc m) s = run_cycles m t" by simp
    with t r alu_result [of opc a b bs] some Inr code_at_same [OF t(5) code'] show ?thesis
      by (auto simp: simulated_def)
  qed
qed

section \<open>Sequences\<close>

definition code_of :: "instr list \<Rightarrow> u8 list" where
  "code_of is = concat (map assemble is)"

definition code_size :: "instr \<Rightarrow> nat" where
  "code_size i = length (assemble i)"

lemma same_but_opstack_move:
  assumes "same_but_opstack (s\<lparr>cpu_ip := i\<rparr>) t" and "same_but_opstack (t\<lparr>cpu_ip := j\<rparr>) u"
  shows "same_but_opstack (s\<lparr>cpu_ip := j\<rparr>) u"
proof -
  let ?a = "opstack_addr s"
  obtain k where k: "t = s\<lparr>cpu_ip := i, stacks := (stacks s)(?a \<mapsto> k)\<rparr>"
      "stk_size k = stk_size (stack_at ?a s)" "bp k = bp (stack_at ?a s)"
    using assms(1) by (auto simp: same_but_opstack_def same_but_stack_def opstack_addr_def
        stack_at_def)
  then have "same_but_opstack (s\<lparr>cpu_ip := j\<rparr>) (t\<lparr>cpu_ip := j\<rparr>)"
    by (auto simp: same_but_opstack_def same_but_stack_def opstack_addr_def stack_at_def
        intro!: exI [of _ k])
  from opstack_lifo.same_trans [OF this assms(2)] show ?thesis .
qed

lemma simulated_then:
  fixes s :: "'z cpu_scheme"
  assumes "simulated n xs cs' p s (Inr ws)"
    and "\<And>t :: 'z cpu_scheme. live_opstack t \<Longrightarrow> operands t = xs @ values_image ws \<Longrightarrow> code_at t cs' \<Longrightarrow>
      opstack_capacity t = opstack_capacity s \<Longrightarrow> simulated k xs cs q t r"
  shows "simulated (n + k) xs cs (p + q) s r"
proof -
  obtain t where t: "\<forall>m. run_cycles (n + m) s = run_cycles m t" "live_opstack t"
      "operands t = xs @ values_image ws" "code_at t cs'" "opstack_capacity t = opstack_capacity s"
      "same_but_opstack (s\<lparr>cpu_ip := cpu_ip s + of_nat p\<rparr>) t"
    using assms(1) by (auto simp: simulated_def)
  have ip: "cpu_ip t = cpu_ip s + of_nat p" by (rule same_but_opstack_ip [OF t(6)])
  have "simulated k xs cs q t r" by (rule assms(2) [OF t(2-5)])
  with t(1,5) same_but_opstack_move [OF t(6)] show ?thesis
    by (auto simp: simulated_def ip add.assoc split: sum.splits)
qed

lemma simulated_stop:
  assumes "simulated n xs cs p s (Inl u)"
  shows "simulated (n + k) xs cs' q s (Inl u)"
proof -
  from assms obtain t where "\<And>m. run_cycles (n + m) s = Inl (Undefined u, t)"
    by (auto simp: simulated_def)
  from this [of "k + m" for m] show ?thesis by (auto simp: simulated_def add.assoc)
qed

lemma simulate_instr:
  assumes "code_at s (assemble i @ cs)" and "live_opstack s" and "operands s = xs @ values_image vs"
    and "length (operands s) + 2 * literals [i] \<le> opstack_capacity s" and "astep i vs = Some r"
  shows "simulated 1 xs cs (code_size i) s r"
proof (cases i)
  case (Lit w)
  with assms simulate_literal [of s w cs xs vs] show ?thesis
    by (auto simp: literals_def code_size_def)
next
  case (Alu opc)
  with assms(5) obtain a b us where vs: "vs = Word b # Word a # us"
    by (cases "(i, vs)" rule: astep.cases) auto
  with Alu assms simulate_alu [of s opc cs xs b a us r] show ?thesis
    by (simp add: code_size_def)
qed

text \<open>A step that is not a literal does not make the operands longer.\<close>

lemma astep_length:
  assumes "astep i vs = Some (Inr ws)"
  shows "length (values_image ws) \<le> length (values_image vs) + 2 * literals [i]"
proof (cases "(i, vs)" rule: astep.cases)
  case (1 w us)
  with assms show ?thesis by (auto simp: literals_def)
next
  case (2 opc b a us)
  with assms obtain bs where bs: "alu opc a b = Some (Inr bs)" "ws = val_of_bytes bs # us"
    by (auto split: option.splits sum.splits)
  have "length (val_bytes (val_of_bytes bs)) \<le> 2" by (cases "val_of_bytes bs") simp_all
  with 2 bs show ?thesis by simp
qed (use assms in auto)

lemma simulate_run:
  assumes "code_at s (code_of is @ cs)" and "live_opstack s" and "operands s = xs @ values_image vs"
    and "length (operands s) + 2 * literals is \<le> opstack_capacity s" and "arun is vs = Some r"
  shows "simulated (length is) xs cs (length (code_of is)) s r"
  using assms
proof (induction "is" arbitrary: s vs)
  case Nil
  have "same_but_opstack s s"
    using Nil.prems(2) same_but_stack_refl by (auto simp: live_opstack_def same_but_opstack_def)
  moreover have "r = Inr vs" using Nil.prems(5) by simp
  ultimately show ?case using Nil.prems(1-3) by (auto simp: simulated_def code_of_def)
next
  case (Cons i "is")
  have code: "code_at s (assemble i @ code_of is @ cs)" using Cons.prems(1) by (simp add: code_of_def)
  have lit: "literals (i # is) = literals [i] + literals is" by (simp add: literals_def)
  obtain r1 where r1: "astep i vs = Some r1" using Cons.prems(5) by (auto split: option.splits)
  have one: "simulated 1 xs (code_of is @ cs) (code_size i) s r1"
    using Cons.prems(4) lit by (intro simulate_instr [OF code Cons.prems(2,3) _ r1]) simp
  show ?case
  proof (cases r1)
    case (Inl u)
    with Cons.prems(5) r1 simulated_stop [OF one [unfolded Inl]] show ?thesis by simp
  next
    case (Inr ws)
    have r: "arun is ws = Some r" using Cons.prems(5) r1 Inr by simp
    have "length (values_image ws) \<le> length (values_image vs) + 2 * literals [i]"
      using r1 Inr by (simp add: astep_length)
    then have room: "length (xs @ values_image ws) + 2 * literals is \<le> opstack_capacity s"
      using Cons.prems(3,4) lit by simp
    have "simulated (1 + length is) xs cs (code_size i + length (code_of is)) s r"
    proof (rule simulated_then [OF one [unfolded Inr]])
      fix t :: "'a cpu_scheme"
      assume "live_opstack t" "operands t = xs @ values_image ws" "code_at t (code_of is @ cs)"
        "opstack_capacity t = opstack_capacity s"
      with Cons.IH [of t ws] room r
      show "simulated (length is) xs cs (length (code_of is)) t r" by simp
    qed
    then show ?thesis by (simp add: code_of_def code_size_def)
  qed
qed

section \<open>Property\<close>

text \<open>Straight-line code computes what the abstract stack machine computes. When the
  next bytes of the program are the code of a sequence of 16-bit literals and two-operand
  instructions, the operand stack holds the abstract machine's values on top, and there is
  room for the literals, then running one cycle per instruction leaves exactly the abstract
  result on the operand stack, the instruction pointer behind the code and everything else
  unchanged; and where the abstract machine meets an undefined operation, the run stops
  there with the same one, however many cycles were granted.\<close>

lemma straight_line_refines:
  assumes "code_at s (code_of is @ cs)" and "live_opstack s"
    and "operands s = xs @ values_image vs"
    and "length (operands s) + 2 * literals is \<le> opstack_capacity s"
    and "arun is vs = Some r"
  shows "case r of
      Inl u \<Rightarrow> \<exists>t. \<forall>m. run_cycles (length is + m) s = Inl (Undefined u, t)
    | Inr ws \<Rightarrow> \<exists>t. (\<forall>m. run_cycles (length is + m) s = run_cycles m t)
        \<and> operands t = xs @ values_image ws \<and> live_opstack t \<and> code_at t cs
        \<and> same_but_opstack (s\<lparr>cpu_ip := cpu_ip s + of_nat (length (code_of is))\<rparr>) t"
  using simulate_run [OF assms] by (auto simp: simulated_def split: sum.splits)

text \<open>The code of (2 + 3) * 4 < 7, and a division by zero.\<close>

lemma straight_line_refines_witness:
  "(\<exists>t. run_cycles 7 (demo_cpu [] (code_of
       [Lit 2, Lit 3, Alu OP_ADD_U16, Lit 4, Alu OP_MUL_U16, Lit 7, Alu OP_COMPARE_LT]))
       = Inr ((), t) \<and> operands t = [0])
   \<and> (\<exists>t. run_cycles 255 (demo_cpu [] (code_of [Lit 2, Lit 0, Alu OP_DIV_U16]))
       = Inl (Undefined DivByZero, t))"
proof
  let ?is = "[Lit 2, Lit 3, Alu OP_ADD_U16, Lit 4, Alu OP_MUL_U16, Lit 7, Alu OP_COMPARE_LT]"
  let ?s = "demo_cpu [] (code_of ?is)"
  have code: "code_at ?s (code_of ?is @ [])"
    by (rule demo_code [where cs = "[]"]; simp add: code_of_def)
  have vals: "values_image [] = []" "values_image [Flag False] = [0]"
    by (simp_all add: values_image_def bytes_of_bool_def)
  have run: "arun ?is [] = Some (Inr [Flag False])"
    by (simp add: alu_def bytes_of_u16_def u16_of_bytes_def)
  have room: "length (operands ?s) + 2 * literals ?is \<le> opstack_capacity ?s"
    by (simp add: literals_def)
  from straight_line_refines [OF code _ _ room run, of "[]"] obtain t where
    t: "\<forall>m. run_cycles (7 + m) ?s = run_cycles m t" "operands t = [0]"
    by (auto simp: vals bytes_of_bool_def eval_nat_numeral simp del: run_cycles.simps)
  from t(1) [rule_format, of 0] t(2)
  show "\<exists>t. run_cycles 7 ?s = Inr ((), t) \<and> operands t = [0]"
    by (simp add: return_def del: run_cycles.simps(2))
next
  let ?is = "[Lit 2, Lit 0, Alu OP_DIV_U16]"
  let ?s = "demo_cpu [] (code_of ?is)"
  have code: "code_at ?s (code_of ?is @ [])"
    by (rule demo_code [where cs = "[]"]; simp add: code_of_def)
  have nil: "values_image [] = []" by (simp add: values_image_def)
  have run: "arun ?is [] = Some (Inl DivByZero)" by (simp add: alu_def)
  have room: "length (operands ?s) + 2 * literals ?is \<le> opstack_capacity ?s"
    by (simp add: literals_def)
  from straight_line_refines [OF code _ _ room run, of "[]"] obtain t where
    t: "\<forall>m. run_cycles (3 + m) ?s = Inl (Undefined DivByZero, t)"
    by (auto simp: nil eval_nat_numeral simp del: run_cycles.simps)
  from t [rule_format, of 252]
  show "\<exists>t. run_cycles 255 ?s = Inl (Undefined DivByZero, t)"
    by (simp del: run_cycles.simps)
qed

end
