(* ===== verification/Locals_Spec.thy ===== *)
theory Locals_Spec
  imports Control_Spec
begin

text \<open>
  Local variables (src/instructions.c: \<open>allocate_local\<close>, \<open>push_local\<close>, \<open>pop_local\<close> and the
  older \<open>var\<close>/\<open>del\<close> instructions): values in the call stack at an offset from the base
  pointer, moved to and from the operand stack by instructions that take the size and the
  offset as operands.
\<close>

section \<open>Two 16-bit operands and the call stack\<close>

lemma same_but_opstack_callstack:
  assumes "same_but_opstack s t" and "a \<noteq> opstack_addr s"
  shows "stacks t a = stacks s a" and "cpu_stack t = cpu_stack s"
    and "callstack a t k = callstack a s k"
  using assms by (auto simp: same_but_opstack_def same_but_stack_def callstack_def)

lemma stack_read_written:
  assumes "stacks s a = Some k" and "stack_ok k" and "length v = unat n"
    and "unat address + unat n \<le> unat (stk_size k)"
  shows "n \<le> sp (written v (unat address) k)"
    and "stack_ok (written v (unat address) k)"
    and "rev (take (unat n) (drop (unat address) (stk_data (written v (unat address) k)))) = v"
    and "stk_size (written v (unat address) k) = stk_size k"
    and "bp (written v (unat address) k) = bp k"
    and "i < unat address \<or> unat address + unat n \<le> i \<Longrightarrow>
           stk_data (written v (unat address) k) ! i = stk_data k ! i"
proof -
  let ?k = "written v (unat address) k" and ?m = "max (unat address + unat n) (unat (sp k))"
  have len: "length (stk_data k) = unat (stk_size k)" and sp: "unat (sp k) \<le> unat (stk_size k)"
    using assms(2) by (auto simp: stack_ok_def stack_wf_def)
  have "?m < 65536" using assms(4) sp unat_u16_less [of "stk_size k"] by (auto simp: max_def)
  then have sp': "unat (sp ?k) = ?m"
    by (simp add: written_def assms(3) unat_of_nat)
  show "n \<le> sp ?k" by (simp add: word_le_nat_alt sp')
  have len': "length (stk_data ?k) = unat (stk_size k)" and size': "stk_size ?k = stk_size k"
    using assms(3,4) len by (simp_all add: written_def)
  then show "stack_ok ?k" "stk_size ?k = stk_size k"
    unfolding stack_ok_def stack_wf_def sp' len' size' using assms(4) sp by simp_all
  show "rev (take (unat n) (drop (unat address) (stk_data ?k))) = v"
    using assms(3,4) len by (simp add: written_def)
  show "bp ?k = bp k" by (simp add: written_def)
  show "i < unat address \<or> unat address + unat n \<le> i \<Longrightarrow> stk_data ?k ! i = stk_data k ! i"
    using assms(3,4) len by (auto simp: written_def nth_append)
qed

lemma pop_local_steps:
  fixes s :: "'z cpu_scheme"
  assumes "live_opstack s" and "length v = unat n"
    and "operands s = xs @ rev v @ rev (bytes_of_u16 n) @ rev (bytes_of_u16 address)"
  shows "\<exists>t. live_opstack t \<and> operands t = xs \<and> same_but_opstack s t
    \<and> opstack_capacity t = opstack_capacity s
    \<and> execute_op OP_POP_LOCAL s = (if unat n > sizeof_ptr then Inl (Undefined OutOfBounds, t)
       else bind (gets cpu_stack) (\<lambda>p. bind (deref stacks p) (\<lambda>k.
              stack_write_bend_data_at p v n (bp k + address))) t)"
proof -
  let ?m = "\<lambda>sz address. bind (opstack_pop sz) (\<lambda>v.
     if unat sz > sizeof_ptr then undef OutOfBounds
     else bind (gets cpu_stack) (\<lambda>p. bind (deref stacks p) (\<lambda>k.
       stack_write_bend_data_at p v sz (bp k + address)))) :: ('z cpu_scheme, unit) st"
  have ops: "operands s = (xs @ rev v) @ rev (bytes_of_u16 n) @ rev (bytes_of_u16 address)"
    using assms(3) by simp
  have "of_nat (length v) = n" by (simp add: assms(2))
  obtain t where t: "execute_op OP_POP_LOCAL s = ?m n address t" "live_opstack t"
      "operands t = xs @ rev v" "opstack_capacity t = opstack_capacity s" "same_but_opstack s t"
    using pop_pop_then [OF assms(1) ops, of ?m]
    by (auto simp: execute_op_def pop_local_def)
  from opstack_lifo.pop_enough [OF t(2,3)] obtain u where
    u: "opstack_pop n t = Inr (v, u)" "live_opstack u" "operands u = xs"
      "opstack_capacity u = opstack_capacity s" "same_but_opstack t u"
    using t(4) by (auto simp: assms(2))
  with t(1) opstack_lifo.same_trans [OF t(5) u(5)] show ?thesis
    by (intro exI [of _ u]) (simp add: st_simps)
qed

lemma push_local_steps:
  fixes s :: "'z cpu_scheme"
  assumes "live_opstack s"
    and "operands s = xs @ rev (bytes_of_u16 n) @ rev (bytes_of_u16 address)"
    and "callstack a s k" and "a \<noteq> opstack_addr s" and "n \<le> sp k"
    and "unat (bp k + address) + unat n \<le> unat (stk_size k)"
  shows "\<exists>t. live_opstack t \<and> operands t = xs \<and> same_but_opstack s t
    \<and> opstack_capacity t = opstack_capacity s
    \<and> execute_op OP_PUSH_LOCAL s = (if unat n > sizeof_ptr then Inl (Undefined OutOfBounds, t)
       else opstack_push (rev (take (unat n) (drop (unat (bp k + address)) (stk_data k)))) n t)"
proof -
  let ?m = "\<lambda>sz address. bind (gets cpu_stack) (\<lambda>p. bind (deref stacks p) (\<lambda>k.
     bind (stack_read_data_at p sz (bp k + address)) (\<lambda>v.
     if unat sz > sizeof_ptr then undef OutOfBounds else opstack_push v sz)))
       :: ('z cpu_scheme, unit) st"
  obtain t where t: "execute_op OP_PUSH_LOCAL s = ?m n address t" "live_opstack t"
      "operands t = xs" "opstack_capacity t = opstack_capacity s" "same_but_opstack s t"
    using pop_pop_then [OF assms(1,2), of ?m]
    by (auto simp: execute_op_def push_local_def)
  have k: "callstack a t k" using same_but_opstack_callstack(3) [OF t(5) assms(4)] assms(3) by simp
  then have k': "cpu_stack t = Ptr a" "stacks t a = Some k"
    and len: "length (stk_data k) = unat (stk_size k)"
    by (simp_all add: callstack_def stack_ok_def stack_wf_def)
  have "stack_read_bend_data_at (Ptr a) n (bp k + address) t =
      Inr (rev (take (unat n) (drop (unat (bp k + address)) (stk_data k))), t)"
    using stack_read_inside [OF k'(2) assms(5)] assms(6) len by simp
  with t k' show ?thesis
    by (intro exI [of _ t]) (simp add: st_simps stack_read_data_at_def)
qed

section \<open>Properties\<close>

text \<open>A local variable holds what was stored in it. \<open>OP_POP_LOCAL\<close> takes the offset, the
  size and then that many bytes from the operand stack and writes them in the call stack at
  \<open>bp\<close> plus the offset; the base pointer and all bytes outside the variable stay. An
  \<open>OP_PUSH_LOCAL\<close> of the same size and offset, executed in any later state whose call stack
  is that one, puts the value back on the operand stack. This is for values of at most eight
  bytes: the intermediate buffer is a pointer variable, and a larger value overruns it.\<close>

lemma local_variable_roundtrip:
  fixes s :: "'z cpu_scheme"
  assumes "live_opstack s" and "length v = unat n"
    and "operands s = xs @ rev v @ rev (bytes_of_u16 n) @ rev (bytes_of_u16 address)"
    and "callstack a s k" and "a \<noteq> opstack_addr s"
    and "unat (bp k + address) + unat n \<le> unat (stk_size k)"
  shows "if unat n \<le> 8
    then \<exists>t k'. execute_op OP_POP_LOCAL s = Inr ((), t) \<and> live_opstack t \<and> operands t = xs
      \<and> callstack a t k' \<and> bp k' = bp k \<and> stk_size k' = stk_size k
      \<and> (\<forall>i. i < unat (bp k + address) \<or> unat (bp k + address) + unat n \<le> i
           \<longrightarrow> stk_data k' ! i = stk_data k ! i)
      \<and> (\<forall>(u :: 'z cpu_scheme) ys. live_opstack u \<and> callstack a u k' \<and> a \<noteq> opstack_addr u
           \<and> operands u = ys @ rev (bytes_of_u16 n) @ rev (bytes_of_u16 address)
           \<and> length ys + unat n \<le> opstack_capacity u
           \<longrightarrow> (\<exists>w. execute_op OP_PUSH_LOCAL u = Inr ((), w) \<and> live_opstack w
                 \<and> operands w = ys @ rev v \<and> same_but_opstack u w))
    else \<exists>t. execute_op OP_POP_LOCAL s = Inl (Undefined OutOfBounds, t)"
proof (cases "unat n \<le> 8")
  case False
  with pop_local_steps [OF assms(1-3)] show ?thesis by (auto simp: sizeof_ptr_def)
next
  case True
  obtain t where t: "live_opstack t" "operands t = xs" "same_but_opstack s t"
      "execute_op OP_POP_LOCAL s = bind (gets cpu_stack) (\<lambda>p. bind (deref stacks p) (\<lambda>k.
              stack_write_bend_data_at p v n (bp k + address))) t"
    using pop_local_steps [OF assms(1-3)] True by (auto simp: sizeof_ptr_def)
  have k: "callstack a t k" using same_but_opstack_callstack(3) [OF t(3) assms(5)] assms(4) by simp
  then have k': "cpu_stack t = Ptr a" "stacks t a = Some k" "stack_ok k"
    by (simp_all add: callstack_def)
  let ?k = "written v (unat (bp k + address)) k"
  let ?t = "t\<lparr>stacks := (stacks t)(a \<mapsto> ?k)\<rparr>"
  note w = stack_read_written [OF k'(2,3) assms(2,6)]
  have run: "execute_op OP_POP_LOCAL s = Inr ((), ?t)"
    using stack_write_inside [OF k'(2,3) assms(2,6)] t(4) k' by (simp add: st_simps)
  have addr: "opstack_addr t \<noteq> a" using same_but_opstack_addr [OF t(3)] assms(5) by simp
  then have live: "live_opstack ?t" and ops: "operands ?t = xs"
    using t(1,2) by (simp_all add: live_opstack_def live_stack_def operands_def opstack_addr_def
        stack_at_def fun_upd_other)
  have kt: "callstack a ?t ?k" using k'(1) w(2) by (simp add: callstack_def)
  have again: "\<exists>w. execute_op OP_PUSH_LOCAL u = Inr ((), w) \<and> live_opstack w
      \<and> operands w = ys @ rev v \<and> same_but_opstack u w"
    if u: "live_opstack u" "callstack a u ?k" "a \<noteq> opstack_addr u"
      "operands u = ys @ rev (bytes_of_u16 n) @ rev (bytes_of_u16 address)"
      "length ys + unat n \<le> opstack_capacity u" for u :: "'z cpu_scheme" and ys
  proof -
    have bnd: "unat (bp ?k + address) + unat n \<le> unat (stk_size ?k)"
      using assms(6) w(4,5) by simp
    from push_local_steps [OF u(1,4,2,3) w(1) bnd] True w(3,5) obtain r where
      r: "live_opstack r" "operands r = ys" "same_but_opstack u r"
        "opstack_capacity r = opstack_capacity u"
        "execute_op OP_PUSH_LOCAL u = opstack_push v (of_nat (length v)) r"
      by (auto simp: sizeof_ptr_def assms(2))
    from opstack_lifo.push_room [OF r(1), of v] r u(5) assms(2) show ?thesis
      by (auto intro: opstack_lifo.same_trans)
  qed
  show ?thesis
    unfolding if_P [OF True]
    using run live ops kt w(4,5,6) again
    by (intro exI [of _ ?t] exI [of _ ?k]) blast
qed

text \<open>One byte stored at offset 3, and nine bytes that overrun the buffer.\<close>

lemma local_variable_roundtrip_example:
  "(\<exists>t k'. execute_op OP_POP_LOCAL (demo_cpu [5, 0, 1, 0, 3] []) = Inr ((), t) \<and> operands t = []
      \<and> callstack 2 t k' \<and> bp k' = 0 \<and> stk_data k' ! 4 = 0)
   \<and> (\<exists>t. execute_op OP_POP_LOCAL (demo_cpu (replicate 9 1 @ [0, 9, 0, 3]) [])
       = Inl (Undefined OutOfBounds, t))"
proof -
  let ?k = "\<lparr>stk_data = replicate 16 0, stk_size = 16, sp = 0, bp = 0\<rparr> :: stack"
  let ?s = "demo_cpu [5, 0, 1, 0, 3] []" and ?u = "demo_cpu (replicate 9 1 @ [0, 9, 0, 3]) []"
  have bytes: "bytes_of_u16 1 = [1, 0]" "bytes_of_u16 3 = [3, 0]" "bytes_of_u16 9 = [9, 0]"
    by (simp_all add: bytes_of_u16_def)
  have addr: "2 \<noteq> opstack_addr ?s" "2 \<noteq> opstack_addr ?u"
    by (simp_all add: demo_cpu_def opstack_addr_def)
  have s: "operands ?s = [] @ rev [5] @ rev (bytes_of_u16 1) @ rev (bytes_of_u16 3)"
    and u: "operands ?u = [] @ rev (replicate 9 1) @ rev (bytes_of_u16 9) @ rev (bytes_of_u16 3)"
    by (simp_all add: bytes)
  have l: "length [5 :: u8] = unat (1 :: u16)" "length (replicate 9 (1 :: u8)) = unat (9 :: u16)"
    by simp_all
  have b: "unat (bp ?k + 3) + unat (1 :: u16) \<le> unat (stk_size ?k)"
    "unat (bp ?k + 3) + unat (9 :: u16) \<le> unat (stk_size ?k)" by simp_all
  have small: "unat (1 :: u16) \<le> 8" "\<not> unat (9 :: u16) \<le> 8" by simp_all
  have other: "(4 :: nat) < unat (bp ?k + 3) \<or> unat (bp ?k + 3) + unat (1 :: u16) \<le> 4" by simp
  have vals: "stk_data ?k ! 4 = 0" "bp ?k = 0" by simp_all
  from local_variable_roundtrip [OF operands_demo_cpu(2) l(1) s demo_cpu_simps(5) addr(1) b(1)]
  have "\<exists>t k'. execute_op OP_POP_LOCAL ?s = Inr ((), t) \<and> operands t = []
      \<and> callstack 2 t k' \<and> bp k' = 0 \<and> stk_data k' ! 4 = 0"
    unfolding if_P [OF small(1)] using other vals by fastforce
  moreover
  from local_variable_roundtrip [OF operands_demo_cpu(2) l(2) u demo_cpu_simps(5) addr(2) b(2)]
  have "\<exists>t. execute_op OP_POP_LOCAL ?u = Inl (Undefined OutOfBounds, t)"
    unfolding if_not_P [OF small(2)] by simp
  ultimately show ?thesis by blast
qed

text \<open>The two ways to drop a 16-bit value. With fewer than two bytes on the operand stack
  \<open>OP_POP_U16\<close> ends the process; \<open>OP_POP_I16\<close> only subtracts 2 from the 16-bit stack
  pointer, which wraps to 65534 or 65535 and so points far outside the stack's array, and the
  machine goes on with an operand stack that is no longer well-formed.\<close>

lemma pop_I16_unchecked:
  assumes "live_opstack s" and "length (operands s) < 2" and "opstack_capacity s < 65534"
  shows "(\<exists>t. execute_op OP_POP_U16 s = Inl (ExitFailure, t))
    \<and> (\<exists>t. execute_op OP_POP_I16 s = Inr ((), t) \<and> \<not> live_opstack t
         \<and> unat (sp (stack_at (opstack_addr t) t)) = 65534 + length (operands s))"
proof
  from opstack_lifo.pop_underflow [OF assms(1,2)]
  show "\<exists>t. execute_op OP_POP_U16 s = Inl (ExitFailure, t)"
    by (auto simp: execute_op_def pop_U16_def pop2_bind st_simps)
next
  have p: "cpu_opstack s = Ptr (opstack_addr s)" and "live_stack (opstack_addr s) s"
    using assms(1) by (auto simp: live_opstack_def)
  then obtain k where k: "stacks s (opstack_addr s) = Some k" "stack_ok k"
    "stack_at (opstack_addr s) s = k" by (elim live_stackE)
  have len: "length (operands s) = unat (sp k)"
    using k by (simp add: operands_def length_contents)
  with assms(2) consider "unat (sp k) = 0" | "unat (sp k) = 1" by linarith
  then have sp: "unat (sp k - 2) = 65534 + unat (sp k)"
  proof cases
    case 1
    then have "sp k = 0" by (simp add: word_unat_eq_iff)
    then show ?thesis by simp
  next
    case 2
    then have "sp k = 1" by (simp add: word_unat_eq_iff)
    then have "sp k - 2 = 65535" by simp
    with 2 show ?thesis by simp
  qed
  let ?t = "s\<lparr>stacks := (stacks s)(opstack_addr s \<mapsto> k\<lparr>sp := sp k - 2\<rparr>)\<rparr>"
  have "execute_op OP_POP_I16 s = Inr ((), ?t)"
    by (simp add: execute_op_def pop_I16_def sp_sub_def st_simps p k)
  moreover have "opstack_addr ?t = opstack_addr s" by (simp add: opstack_addr_def)
  moreover have "unat (stk_size k) < 65534"
    using assms(3) k(3) by (simp add: opstack_capacity_def)
  ultimately show "\<exists>t. execute_op OP_POP_I16 s = Inr ((), t) \<and> \<not> live_opstack t
      \<and> unat (sp (stack_at (opstack_addr t) t)) = 65534 + length (operands s)"
    using sp len
    by (intro exI [of _ ?t]) (simp add: live_opstack_def live_stack_def stack_at_def stack_ok_def)
qed

lemma pop_I16_unchecked_witness:
  "(\<exists>t. execute_op OP_POP_U16 (demo_cpu [] []) = Inl (ExitFailure, t))
   \<and> (\<exists>t. execute_op OP_POP_I16 (demo_cpu [] []) = Inr ((), t) \<and> \<not> live_opstack t)"
  using pop_I16_unchecked [of "demo_cpu [] []"] by auto

text \<open>The allocation of locals is not checked either. \<open>OP_ALLOC_LOCAL\<close> takes a size from
  the operand stack, skips its operand in the program, and adds the size to the call stack's
  16-bit \<open>sp\<close>. The call stack stays well-formed exactly when the 16-bit sum is within it; when
  the sum wraps below the old \<open>sp\<close>, it is, and live frames lie above the stack pointer.\<close>

lemma allocate_local_unchecked:
  assumes "live_opstack s" and "operands s = xs @ rev (bytes_of_u16 n)"
    and "callstack a s k" and "a \<noteq> opstack_addr s" and "cpu_ip s < cpu_program_size s"
    and "unat (cpu_ip s) + 2 \<le> length (cpu_program s)"
  shows "\<exists>t. execute_op OP_ALLOC_LOCAL s = Inr ((), t) \<and> operands t = xs
    \<and> cpu_ip t = cpu_ip s + 2 \<and> stacks t a = Some (k\<lparr>sp := sp k + n\<rparr>)
    \<and> (callstack a t (k\<lparr>sp := sp k + n\<rparr>) \<longleftrightarrow> unat (sp k + n) \<le> unat (stk_size k))
    \<and> (65536 \<le> unat (sp k) + unat n \<longrightarrow> unat (sp k + n) < unat (sp k))"
proof -
  obtain t where t: "opstack_pop 2 s = Inr (bytes_of_u16 n, t)" "live_opstack t" "operands t = xs"
      "same_but_opstack s t"
    using opstack_u16.pop_typed [OF assms(1,2)] by auto
  have same: "cpu_ip t = cpu_ip s" "cpu_program t = cpu_program s"
    "cpu_program_size t = cpu_program_size s"
    using t(4) by (auto simp: same_but_opstack_def same_but_stack_def)
  have k: "cpu_stack t = Ptr a" "stacks t a = Some k" "stack_ok k"
    using same_but_opstack_callstack(3) [OF t(4) assms(4)] assms(3) by (auto simp: callstack_def)
  let ?t = "t\<lparr>cpu_ip := cpu_ip s + 2\<rparr>"
  let ?u = "?t\<lparr>stacks := (stacks t)(a \<mapsto> k\<lparr>sp := sp k + n\<rparr>)\<rparr>"
  have fetch: "cpu_fetch_data 2 t = Inr (Some (take 2 (drop (unat (cpu_ip s)) (cpu_program s))), ?t)"
    using cpu_fetch_inside [of t 2] assms(5,6) same by simp
  have run: "execute_op OP_ALLOC_LOCAL s = Inr ((), ?u)"
    using t(1) fetch k
    by (simp add: execute_op_def allocate_local_def pop2_bind fetch_u16_def sp_add_def st_simps)
  have "opstack_addr ?u \<noteq> a" using same_but_opstack_addr [OF t(4)] assms(4) by (simp add: opstack_addr_def)
  then have ops: "operands ?u = xs"
    using t(3) by (simp add: operands_def opstack_addr_def stack_at_def)
  have wrap: "65536 \<le> unat (sp k) + unat n \<Longrightarrow> unat (sp k + n) < unat (sp k)"
    using unat_u16_add_wrap [of "sp k" n] unat_u16_less [of n] by linarith
  have "callstack a ?u (k\<lparr>sp := sp k + n\<rparr>) \<longleftrightarrow> unat (sp k + n) \<le> unat (stk_size k)"
    using k by (simp add: callstack_def stack_ok_def stack_wf_def)
  with run ops wrap show ?thesis by (intro exI [of _ ?u]) auto
qed

lemma allocate_local_unchecked_witness:
  "\<exists>t. execute_op OP_ALLOC_LOCAL (demo_cpu [1, 0] [0, 0]) = Inr ((), t)
     \<and> \<not> callstack 2 t (\<lparr>stk_data = replicate 16 0, stk_size = 16, sp = 256, bp = 0\<rparr>)"
proof -
  let ?s = "demo_cpu [1, 0] [0, 0]"
    and ?k = "\<lparr>stk_data = replicate 16 0, stk_size = 16, sp = 0, bp = 0\<rparr> :: stack"
  have ops: "operands ?s = [] @ rev (bytes_of_u16 256)" by (simp add: bytes_of_u16_def)
  have addr: "2 \<noteq> opstack_addr ?s" by (simp add: demo_cpu_def opstack_addr_def)
  have "live_opstack ?s" "cpu_ip ?s < cpu_program_size ?s"
    "unat (cpu_ip ?s) + 2 \<le> length (cpu_program ?s)" by simp_all
  from allocate_local_unchecked [OF this(1) ops demo_cpu_simps(5) addr this(2,3)]
  show ?thesis by auto
qed

end
