(* ===== verification/Print_Spec.thy ===== *)
theory Print_Spec
  imports Control_Spec
begin

text \<open>
  The print system call (src/builtin.c, \<open>builtin_print\<close>): a format string in the data area of
  the program and arguments on the operand stack, the first argument on top. A format is
  described by its pieces: what the characters are, which bytes each piece takes from the
  operand stack, and which \<open>printf\<close> call it makes.
\<close>

section \<open>Formats and their arguments\<close>

datatype piece =
  Plain u8      \<comment> \<open>an ordinary character\<close>
| Unsigned u16  \<comment> \<open>percent u\<close>
| Signed u16    \<comment> \<open>percent i\<close>
| Float f32     \<comment> \<open>percent f\<close>
| Character u8  \<comment> \<open>percent s: one character, not a string\<close>
| Other u8      \<comment> \<open>percent and any other byte\<close>

fun piece_ok :: "piece \<Rightarrow> bool" where
  "piece_ok (Plain c) \<longleftrightarrow> c \<noteq> 0 \<and> c \<noteq> 37"
| "piece_ok (Other c) \<longleftrightarrow> c \<notin> {117, 105, 102, 115}"
| "piece_ok _ \<longleftrightarrow> True"

fun piece_format :: "piece \<Rightarrow> u8 list" where
  "piece_format (Plain c) = [c]"
| "piece_format (Unsigned _) = [37, 117]"
| "piece_format (Signed _) = [37, 105]"
| "piece_format (Float _) = [37, 102]"
| "piece_format (Character _) = [37, 115]"
| "piece_format (Other c) = [37, c]"

fun piece_arg :: "piece \<Rightarrow> u8 list" where
  "piece_arg (Unsigned w) = rev (bytes_of_u16 w)"
| "piece_arg (Signed w) = rev (bytes_of_u16 w)"
| "piece_arg (Float x) = rev (bytes_of_f32 x)"
| "piece_arg (Character c) = [c]"
| "piece_arg _ = []"

fun piece_event :: "piece \<Rightarrow> event" where
  "piece_event (Plain c) = Printf ''%c'' [AInt (sint c)]"
| "piece_event (Unsigned w) = Printf ''%hu'' [AInt (uint w)]"
| "piece_event (Signed w) = Printf ''%hi'' [AInt (sint w)]"
| "piece_event (Float x) = Printf ''%.2f'' [AF32 x]"
| "piece_event (Character c) = Printf ''%c'' [AInt (uint c)]"
| "piece_event (Other c) = Printf ''%%%c'' [AInt (sint c)]"

definition format_of :: "piece list \<Rightarrow> u8 list" where
  "format_of ps = concat (map piece_format ps)"

text \<open>The operand bytes of the arguments, those of the first piece on top.\<close>

definition args_of :: "piece list \<Rightarrow> u8 list" where
  "args_of ps = concat (map piece_arg (rev ps))"

lemma args_of_Cons: "args_of (p # ps) = args_of ps @ piece_arg p"
  by (simp add: args_of_def)

section \<open>One piece\<close>

lemma operands_out [simp]:
  "operands (s\<lparr>out := e\<rparr>) = operands s" "live_opstack (s\<lparr>out := e\<rparr>) = live_opstack s"
  "opstack_capacity (s\<lparr>out := e\<rparr>) = opstack_capacity s" "opstack_addr (s\<lparr>out := e\<rparr>) = opstack_addr s"
  by (simp_all add: operands_def opstack_addr_def stack_at_def live_opstack_def live_stack_def
      opstack_capacity_def)

text \<open>\<open>t\<close> is \<open>s\<close> after some output and pops.\<close>

definition printed :: "event list \<Rightarrow> 'z cpu_scheme \<Rightarrow> 'z cpu_scheme \<Rightarrow> bool" where
  "printed es s t \<longleftrightarrow> same_but_opstack (s\<lparr>out := out s @ es\<rparr>) t"

lemma same_but_opstack_out:
  assumes "same_but_opstack s t"
  shows "out t = out s" and "same_but_opstack (s\<lparr>out := e\<rparr>) (t\<lparr>out := e\<rparr>)"
proof -
  let ?a = "opstack_addr s"
  obtain k where k: "t = s\<lparr>stacks := (stacks s)(?a \<mapsto> k)\<rparr>"
      "stk_size k = stk_size (stack_at ?a s)" "bp k = bp (stack_at ?a s)"
    using assms by (auto simp: same_but_opstack_def same_but_stack_def)
  then show "out t = out s" by simp
  from k show "same_but_opstack (s\<lparr>out := e\<rparr>) (t\<lparr>out := e\<rparr>)"
    by (auto simp: same_but_opstack_def same_but_stack_def opstack_addr_def stack_at_def
        intro!: exI [of _ k])
qed

lemma printed_then:
  assumes "printed es s t" and "printed fs t u"
  shows "printed (es @ fs) s u"
proof -
  have "out t = out s @ es" 
    using same_but_opstack_out(1) [of "s\<lparr>out := out s @ es\<rparr>" t] assms(1) by (simp add: printed_def)
  then have "same_but_opstack (t\<lparr>out := out s @ es @ fs\<rparr>) u" using assms(2) by (simp add: printed_def)
  moreover have "same_but_opstack (s\<lparr>out := out s @ es @ fs\<rparr>) (t\<lparr>out := out s @ es @ fs\<rparr>)"
    using same_but_opstack_out(2) [of "s\<lparr>out := out s @ es\<rparr>" t] assms(1) by (simp add: printed_def)
  ultimately show ?thesis unfolding printed_def by (auto intro: opstack_lifo.same_trans)
qed

lemma popped_then_printed:
  assumes "same_but_opstack s t" and "out u = out t @ [e]" and "u = t\<lparr>out := out u\<rparr>"
  shows "printed [e] s u"
  using same_but_opstack_out [OF assms(1)] assms(2,3)
  unfolding printed_def by metis

lemma print_piece:
  assumes "live_opstack s" and "operands s = xs @ piece_arg p" and "piece_ok p"
  shows "\<exists>t. print_format (piece_format p @ cs) s = print_format cs t
    \<and> live_opstack t \<and> operands t = xs \<and> printed [piece_event p] s t"
proof -
  have no_arg: ?thesis if "piece_arg p = []"
    "print_format (piece_format p @ cs) s = print_format cs (s\<lparr>out := out s @ [piece_event p]\<rparr>)"
  proof -
    have "printed [piece_event p] s (s\<lparr>out := out s @ [piece_event p]\<rparr>)"
      using assms(1) same_but_stack_refl [of "opstack_addr s" "s\<lparr>out := out s @ [piece_event p]\<rparr>"]
      by (auto simp: printed_def same_but_opstack_def live_opstack_def live_stack_def stack_at_def)
    with that assms show ?thesis by auto
  qed
  have arg: ?thesis
    if conv: "piece_arg p = rev bs" and run: "\<And>t. opstack_pop (of_nat (length bs)) s = Inr (bs, t) \<Longrightarrow>
      print_format (piece_format p @ cs) s = print_format cs (t\<lparr>out := out t @ [piece_event p]\<rparr>)" for bs
  proof -
    from opstack_lifo.pop_enough [OF assms(1), of xs "rev bs"] assms(2) conv obtain t where
      t: "opstack_pop (of_nat (length bs)) s = Inr (bs, t)" "live_opstack t" "operands t = xs"
        "same_but_opstack s t" by auto
    have "printed [piece_event p] s (t\<lparr>out := out t @ [piece_event p]\<rparr>)"
      by (rule popped_then_printed [OF t(4)]) simp_all
    with run [OF t(1)] t show ?thesis by auto
  qed
  show ?thesis
  proof (cases p)
    case (Plain c)
    with assms(3) show ?thesis by (intro no_arg) (simp_all add: st_simps)
  next
    case (Unsigned w)
    then show ?thesis
      by (intro arg [of "bytes_of_u16 w"]) (simp_all add: st_simps print_conversion_def pop_u16_def)
  next
    case (Signed w)
    then show ?thesis
      by (intro arg [of "bytes_of_u16 w"]) (simp_all add: st_simps print_conversion_def pop_u16_def)
  next
    case (Float x)
    then show ?thesis
      by (intro arg [of "bytes_of_f32 x"]) (simp_all add: st_simps print_conversion_def pop_f32_def)
  next
    case (Character c)
    then show ?thesis
      by (intro arg [of "[c]"]) (simp_all add: st_simps print_conversion_def)
  next
    case (Other c)
    with assms(3) show ?thesis by (intro no_arg) (simp_all add: st_simps print_conversion_def)
  qed
qed

lemma print_pieces:
  assumes "live_opstack s" and "operands s = xs @ args_of ps" and "\<forall>p \<in> set ps. piece_ok p"
  shows "\<exists>t. print_format (format_of ps @ cs) s = print_format cs t
    \<and> live_opstack t \<and> operands t = xs \<and> printed (map piece_event ps) s t"
  using assms
proof (induction ps arbitrary: s)
  case Nil
  then have "printed [] s s"
    using same_but_stack_refl [of "opstack_addr s" s]
    by (auto simp: printed_def same_but_opstack_def live_opstack_def)
  with Nil show ?case by (auto simp: format_of_def args_of_def)
next
  case (Cons p ps)
  from print_piece [of s "xs @ args_of ps" p "format_of ps @ cs"] Cons.prems obtain t where
    t: "print_format (piece_format p @ format_of ps @ cs) s = print_format (format_of ps @ cs) t"
      "live_opstack t" "operands t = xs @ args_of ps" "printed [piece_event p] s t"
    by (auto simp: args_of_Cons)
  from Cons.IH [OF t(2,3)] Cons.prems(3) obtain u where
    u: "print_format (format_of ps @ cs) t = print_format cs u" "live_opstack u" "operands u = xs"
      "printed (map piece_event ps) t u" by auto
  have "printed (map piece_event (p # ps)) s u" using printed_then [OF t(4) u(4)] by simp
  with t(1) u(1-3) show ?case by (auto simp: format_of_def)
qed

section \<open>The program's data area\<close>

text \<open>\<open>data_at s address bs\<close>: from the data address \<open>address\<close> on, the program holds \<open>bs\<close>
  up to its end. Addresses below the number of ports are ports, so the data area starts at
  that number.\<close>

definition data_at :: "'z cpu_scheme \<Rightarrow> u16 \<Rightarrow> u8 list \<Rightarrow> bool" where
  "data_at s address bs \<longleftrightarrow> (\<exists>b bank. cpu_port_bank s = Ptr b \<and> port_banks s b = Some bank
     \<and> 0 \<le> uint (cpu_data_address s) + uint address - uint (bank_size bank)
     \<and> uint (cpu_data_address s) + uint address - uint (bank_size bank) \<le> int (length (cpu_program s))
     \<and> drop (nat (uint (cpu_data_address s) + uint address - uint (bank_size bank)))
         (cpu_program s) = bs)"

lemma data_pointer_at: "data_at s address bs \<Longrightarrow> data_pointer address s = Inr (bs, s)"
  by (auto simp: data_at_def data_pointer_def st_simps program_suffix_def)

lemma data_at_same: "same_but_opstack s t \<Longrightarrow> data_at t address bs = data_at s address bs"
  by (auto simp: same_but_opstack_def same_but_stack_def data_at_def)

section \<open>Property\<close>

text \<open>C36: the print system call. With the address of a format on top of the operand stack and
  the arguments below it, it pops the arguments of the conversions from first to last and
  makes one \<open>printf\<close> call per piece of the format, in order; nothing but the output and the
  operand stack changes. It stops at a NUL that is not behind a percent sign (\<open>Other 0\<close> is
  an allowed piece: after a percent sign the NUL is printed and the loop goes on past the
  string), and a format with no such NUL is read past the end of the program.\<close>

theorem print_formats:
  assumes "live_opstack s" and "operands s = xs @ args_of ps @ rev (bytes_of_u16 address)"
    and "\<forall>p \<in> set ps. piece_ok p" and "data_at s address (format_of ps @ rest)"
  shows "\<exists>t. operands t = xs \<and> live_opstack t \<and> printed (map piece_event ps) s t
    \<and> builtin_print s = (case rest of
         [] \<Rightarrow> Inl (Undefined OutOfBounds, t)
       | c # cs \<Rightarrow> (if c = 0 then Inr ((), t) else print_format (c # cs) t))"
proof -
  from opstack_u16.pop_typed [of s "xs @ args_of ps" address] assms(1,2) obtain t where
    t: "opstack_pop 2 s = Inr (bytes_of_u16 address, t)" "live_opstack t"
      "operands t = xs @ args_of ps" "same_but_opstack s t" by auto
  from print_pieces [OF t(2,3) assms(3), of rest] obtain u where
    u: "print_format (format_of ps @ rest) t = print_format rest u" "live_opstack u"
      "operands u = xs" "printed (map piece_event ps) t u" by auto
  have "builtin_print s = print_format rest u"
    using t(1) u(1) data_pointer_at [of t] data_at_same [OF t(4)] assms(4)
    by (simp add: builtin_print_def pop2_bind st_simps)
  moreover have "printed (map piece_event ps) s u"
    using t(4) u(4) same_but_opstack_out [OF t(4)] opstack_lifo.same_trans
    by (fastforce simp: printed_def)
  ultimately show ?thesis using u(2,3) by (intro exI [of _ u]) (auto simp: st_simps split: list.split)
qed

text \<open>The format \<open>"%u!"\<close> with argument 7.\<close>

theorem print_formats_witness:
  "\<exists>t. builtin_print ((demo_cpu [0, 7, 0, 3] [37, 117, 33, 0])\<lparr>cpu_data_address := 0\<rparr>) = Inr ((), t)
     \<and> operands t = [] \<and> out t = [Printf ''%hu'' [AInt 7], Printf ''%c'' [AInt 33]]"
proof -
  let ?s = "(demo_cpu [0, 7, 0, 3] [37, 117, 33, 0])\<lparr>cpu_data_address := 0\<rparr>"
  let ?ps = "[Unsigned 7, Plain 33]"
  have s: "live_opstack ?s" "operands ?s = [] @ args_of ?ps @ rev (bytes_of_u16 3)"
    "\<forall>p \<in> set ?ps. piece_ok p" "data_at ?s 3 (format_of ?ps @ [0])"
    using operands_demo_cpu [of "[0, 7, 0, 3]" "[37, 117, 33, 0]"]
    by (simp_all add: live_opstack_def live_stack_def stack_at_def operands_def opstack_addr_def
        bytes_of_u16_def args_of_def format_of_def data_at_def)
      (simp_all add: demo_cpu_def)
  have out: "out ?s = []" by (simp add: demo_cpu_def)
  from print_formats [OF s] obtain t where
    "operands t = []" "printed (map piece_event ?ps) ?s t" "builtin_print ?s = Inr ((), t)"
    by auto
  with same_but_opstack_out(1) [of "?s\<lparr>out := out ?s @ map piece_event ?ps\<rparr>" t] out show ?thesis
    by (intro exI [of _ t]) (simp add: printed_def)
qed

end
