(* ===== verification/Ports_Spec.thy ===== *)
theory Ports_Spec
  imports Print_Spec
begin

text \<open>
  The address space of \<open>push_U16\<close> and \<open>pop_address_U16\<close> (src/instructions.c): the first
  addresses are the ports of the bank, the ones above are the program's data.
\<close>

section \<open>The bank of a running machine\<close>

text \<open>What \<open>port_bank_create(3)\<close> builds.\<close>

definition host_bank :: port_bank where
  "host_bank = \<lparr>ports = [Some DDRB, Some PORTB, Some PINB], bank_size = 3\<rparr>"

definition port_number :: "u16 \<Rightarrow> port" where
  "port_number w = (if w = 0 then DDRB else if w = 1 then PORTB else PINB)"

definition has_bank :: "'z cpu_scheme \<Rightarrow> bool" where
  "has_bank s \<longleftrightarrow> (\<exists>b. cpu_port_bank s = Ptr b \<and> port_banks s b = Some host_bank)"

lemma port_bank_create_host:
  assumes "malloc_ok s (mallocs s)" and "malloc_ok s (Suc (mallocs s))"
  shows "\<exists>t. port_bank_create 3 s = Inr (Ptr (mallocs s), t)
    \<and> port_banks t (mallocs s) = Some host_bank"
  using assms
proof -
  have "replicate 3 (None :: port option) = [None, None, None]"
    by (simp add: numeral_3_eq_3)
  with assms show ?thesis
    by (simp add: port_bank_create_def map_ports_def put_bank_def st_simps host_bank_def)
qed

lemma u16_less_3: "w < (3 :: u16) \<Longrightarrow> w = 0 \<or> w = 1 \<or> w = 2"
proof -
  assume "w < 3"
  then have "unat w < 3" by (simp add: word_less_nat_alt)
  then have "unat w = 0 \<or> unat w = 1 \<or> unat w = 2" by linarith
  then show ?thesis by (simp add: word_unat_eq_iff)
qed

lemma port_access:
  assumes "w < 3" and "port_banks s b = Some host_bank"
  shows "port_bank_get_address (Ptr b) (ucast w) s = Inr (port_regs s (port_number w), s)"
    and "port_bank_set_address (Ptr b) (ucast w) v s
      = Inr ((), s\<lparr>port_regs := (port_regs s)(port_number w := v)\<rparr>)"
  using u16_less_3 [OF assms(1)] assms(2)
  by (auto simp: port_bank_get_address_def port_bank_set_address_def port_of_address_def
      st_simps host_bank_def nth_opt_def port_number_def)

lemma has_bank_same [simp]:
  "has_bank (s\<lparr>cpu_ip := i\<rparr>) = has_bank s"
  "same_but_opstack s t \<Longrightarrow> has_bank t = has_bank s"
  by (auto simp: has_bank_def same_but_opstack_def same_but_stack_def)

lemma data_at_ip [simp]: "data_at (s\<lparr>cpu_ip := i\<rparr>) address bs = data_at s address bs"
  by (simp add: data_at_def)

text \<open>The value of \<open>push_U16\<close>: a port register, or one byte of the data.\<close>

definition cell :: "'z cpu_scheme \<Rightarrow> u16 \<Rightarrow> u8 \<Rightarrow> bool" where
  "cell s w v \<longleftrightarrow> (if w < 3 then v = port_regs s (port_number w) else \<exists>bs. data_at s w (v # bs))"

lemma push_U16_run:
  fixes s :: "'z cpu_scheme"
  assumes "code_at s (22 # bytes_of_u16 w @ cs)" and "has_bank s" and "cell s w v"
  shows "run_instruction s =
    bind (push_u16 (ucast v)) (\<lambda>_. return 22) (s\<lparr>cpu_ip := cpu_ip s + 3\<rparr>)"
proof -
  let ?s = "s\<lparr>cpu_ip := cpu_ip s + 3\<rparr>"
  obtain b where b: "cpu_port_bank s = Ptr b" "port_banks s b = Some host_bank"
    using assms(2) by (auto simp: has_bank_def)
  have "opcode_of 22 = Some OP_PUSH_U16" by (simp add: opcode_of_def nth_opt_def opcodes_def)
  from run_with_u16 [OF assms(1) this] have run: "run_instruction s =
      bind (bind (gets cpu_port_bank) (\<lambda>pb. bind (deref port_banks pb) (\<lambda>b.
        bind (if w < ucast (bank_size b)
           then bind (port_bank_get_address pb (ucast w)) (\<lambda>v. return (ucast v))
           else bind (data_pointer w) (\<lambda>bs.
                bind (in_bounds (nth_opt bs 0)) (\<lambda>v. return (ucast v))))
        push_u16))) (\<lambda>_. return 22) ?s"
    by (simp add: execute_op_def push_U16_def)
  have size: "ucast (bank_size host_bank) = (3 :: u16)" by (simp add: host_bank_def)
  show ?thesis
  proof (cases "w < 3")
    case True
    with port_access(1) [OF True, of ?s b] b assms(3) run size show ?thesis
      by (simp add: st_simps cell_def)
  next
    case False
    with assms(3) obtain bs where "data_at ?s w (v # bs)" by (auto simp: cell_def)
    from data_pointer_at [OF this] False b run size show ?thesis
      by (simp add: st_simps nth_opt_def)
  qed
qed

section \<open>Properties\<close>

text \<open>C37: reading an address. \<open>OP_PUSH_U16\<close> below 3 pushes the port register of that number,
  from 3 on one byte of the program's data, in both cases extended with a zero byte: of a
  16-bit constant in the data area only the low byte is read.\<close>

theorem push_U16_reads_one_byte:
  assumes "code_at s (22 # bytes_of_u16 w @ cs)" and "has_bank s" and "cell s w v"
    and "live_opstack s" and "length (operands s) + 2 \<le> opstack_capacity s"
  shows "\<exists>t. run_instruction s = Inr (22, t) \<and> live_opstack t
    \<and> operands t = operands s @ [0, v] \<and> same_but_opstack (s\<lparr>cpu_ip := cpu_ip s + 3\<rparr>) t"
proof -
  have bytes: "rev (bytes_of_u16 (ucast v)) = [0, v]"
    by (auto simp: bytes_of_u16_def bit_simps intro!: bit_word_eqI)
      (use bit_imp_le_length [of v] in fastforce)
  have "live_opstack (s\<lparr>cpu_ip := cpu_ip s + 3\<rparr>)" using assms(4) by simp
  from opstack_lifo.push_room [OF this, of "bytes_of_u16 (ucast v)"] assms(5) obtain t where
    "opstack_push (bytes_of_u16 (ucast v)) 2 (s\<lparr>cpu_ip := cpu_ip s + 3\<rparr>) = Inr ((), t)"
    "live_opstack t" "operands t = operands s @ [0, v]"
    "same_but_opstack (s\<lparr>cpu_ip := cpu_ip s + 3\<rparr>) t"
    unfolding bytes by auto
  with push_U16_run [OF assms(1-3)] show ?thesis by (simp add: push_u16_def st_simps)
qed

theorem push_U16_reads_one_byte_witness:
  "\<exists>t. run_instruction ((demo_cpu [] [22, 3, 0, 52, 18])\<lparr>cpu_data_address := 3\<rparr>) = Inr (22, t)
     \<and> operands t = [0, 52]"
proof -
  let ?s = "(demo_cpu [] [22, 3, 0, 52, 18])\<lparr>cpu_data_address := 3\<rparr>"
  have "bytes_of_u16 3 = [3, 0]" by (simp add: bytes_of_u16_def)
  moreover have "code_at (demo_cpu [] [22, 3, 0, 52, 18]) [22, 3, 0]"
    by (rule demo_code [where cs = "[52, 18]"]; simp)
  ultimately have c: "code_at ?s (22 # bytes_of_u16 3 @ [])" by (simp add: code_at_def)
  have b: "has_bank ?s" "cell ?s 3 52"
    by (simp_all add: has_bank_def demo_cpu_def host_bank_def cell_def data_at_def)
  have ops: "live_opstack ?s" "operands ?s = []" "opstack_capacity ?s = 16"
    using operands_demo_cpu [of "[]" "[22, 3, 0, 52, 18]"]
      demo_cpu_simps(1) [of "[]" "[22, 3, 0, 52, 18]"]
    by (simp_all add: live_opstack_def live_stack_def stack_at_def operands_def opstack_addr_def
        opstack_capacity_def)
  from push_U16_reads_one_byte [OF c b ops(1)] ops show ?thesis by auto
qed

text \<open>Writing an address. \<open>OP_POPA_U16\<close> pops a 16-bit value and stores its low byte in the
  port register of the address, leaving the other ports alone, so that a later
  \<open>OP_PUSH_U16\<close> of that address reads the low byte; an address that is not a port is
  reported and ends the process: program data cannot be written.\<close>

lemma pop_address_writes_ports:
  fixes s :: "'z cpu_scheme"
  assumes "code_at s (21 # bytes_of_u16 w @ cs)" and "has_bank s" and "live_opstack s"
    and "operands s = xs @ rev (bytes_of_u16 v)"
  shows "if w < 3
    then \<exists>t. run_instruction s = Inr (21, t) \<and> live_opstack t \<and> operands t = xs
      \<and> cpu_ip t = cpu_ip s + 3 \<and> code_at t cs
      \<and> port_regs t = (port_regs s)(port_number w := ucast v) \<and> cell t w (ucast v)
    else \<exists>t. run_instruction s = Inl (ExitFailure, t)
      \<and> out t = out s @ [Printf ''ERROR: invalid cpu address\<newline>'' []]"
proof -
  let ?s = "s\<lparr>cpu_ip := cpu_ip s + 3\<rparr>"
  have op: "opcode_of 21 = Some OP_POPA_U16" by (simp add: opcode_of_def nth_opt_def opcodes_def)
  have code: "code_at (s\<lparr>cpu_ip := cpu_ip s + 1\<rparr>) (bytes_of_u16 w @ cs)"
    by (rule run_instruction_code(2) [OF assms(1)])
  have code': "code_at ?s cs" using fetch_code(2) [OF code] by (simp add: add.assoc)
  have "live_opstack ?s" "operands ?s = xs @ rev (bytes_of_u16 v)" using assms(3,4) by simp_all
  from opstack_u16.pop_typed [OF this] obtain t where
    t: "opstack_pop 2 ?s = Inr (bytes_of_u16 v, t)" "live_opstack t" "operands t = xs"
      "same_but_opstack ?s t" by auto
  have "has_bank t" using t(4) assms(2) by simp
  then obtain b where b: "cpu_port_bank t = Ptr b" "port_banks t b = Some host_bank"
    by (auto simp: has_bank_def)
  have size: "ucast (bank_size host_bank) = (3 :: u16)" by (simp add: host_bank_def)
  have regs: "port_regs t = port_regs s" "out t = out s"
    using t(4) by (auto simp: same_but_opstack_def same_but_stack_def)
  have run: "run_instruction s = bind (if w < 3 then port_bank_set_address (Ptr b) (ucast w) (ucast v)
       else seq (vmprintf ''ERROR: invalid cpu address\<newline>'' []) exit_failure) (\<lambda>_. return 21) t"
    unfolding run_instruction_code(1) [OF assms(1)]
    using fetch_u16_code [OF code] t(1) b size
    by (simp add: cpu_execute_def op execute_op_def pop_address_U16_def pop2_bind st_simps add.assoc
        cong: if_cong)
  show ?thesis
  proof (cases "w < 3")
    case True
    let ?t = "t\<lparr>port_regs := (port_regs s)(port_number w := ucast v)\<rparr>"
    have "run_instruction s = Inr (21, ?t)"
      using run True port_access(2) [OF True b(2)] regs by (simp add: st_simps)
    moreover have "operands ?t = xs" "live_opstack ?t"
      using t(2,3) by (simp_all add: live_opstack_def live_stack_def stack_at_def operands_def
          opstack_addr_def)
    moreover have "code_at ?t cs" using code_at_same [OF t(4) code'] by (simp add: code_at_def)
    ultimately show ?thesis
      using True same_but_opstack_ip [OF t(4)] by (simp add: cell_def)
  next
    case False
    with run regs show ?thesis by (simp add: st_simps)
  qed
qed

lemma pop_address_writes_ports_witness:
  "(\<exists>t. run_instruction (demo_cpu [2, 1] [21, 1, 0]) = Inr (21, t) \<and> port_regs t PORTB = 1
      \<and> port_regs t DDRB = 0)
   \<and> (\<exists>t. run_instruction (demo_cpu [2, 1] [21, 3, 0]) = Inl (ExitFailure, t))"
proof -
  let ?s = "demo_cpu [2, 1] [21, 1, 0]" and ?u = "demo_cpu [2, 1] [21, 3, 0]"
  have w: "bytes_of_u16 1 = [1, 0]" "bytes_of_u16 3 = [3, 0]" by (simp_all add: bytes_of_u16_def)
  have c: "code_at ?s (21 # bytes_of_u16 1 @ [])" "code_at ?u (21 # bytes_of_u16 3 @ [])"
    unfolding w by (rule demo_code [where cs = "[]"]; simp)+
  have b: "has_bank ?s" "has_bank ?u" by (simp_all add: has_bank_def demo_cpu_def host_bank_def)
  have ops: "operands ?s = [] @ rev (bytes_of_u16 513)" "operands ?u = [] @ rev (bytes_of_u16 513)"
    by (simp_all add: bytes_of_u16_def)
  have zero: "port_regs ?s = (\<lambda>_. 0)" by (simp add: demo_cpu_def)
  have low: "(ucast (513 :: u16) :: u8) = 1" by simp
  have "\<exists>t. run_instruction ?s = Inr (21, t) \<and> port_regs t PORTB = 1 \<and> port_regs t DDRB = 0"
    using pop_address_writes_ports [OF c(1) b(1) _ ops(1)] low
    by (auto simp: zero port_number_def fun_upd_apply)
  moreover have "\<exists>t. run_instruction ?u = Inl (ExitFailure, t)"
    using pop_address_writes_ports [OF c(2) b(2) _ ops(2)] by auto
  ultimately show ?thesis by blast
qed

end
