(* ===== verification/Messaging_Spec.thy ===== *)
theory Messaging_Spec
  imports Messaging_C Interfaces
begin

text \<open>
  Inboxes and delivery (src/messaging.c). An inbox is a linked list with a head, a tail and a
  count; its abstract value is the list of the addresses of its messages, oldest first. A
  delivery refines the contract \<open>bounded_fifo\<close>. What follows the last message is not part of
  the abstraction: \<open>message_create\<close> leaves its \<open>next\<close> indeterminate.
\<close>

section \<open>The contract of an inbox\<close>

locale bounded_fifo =
  fixes put :: "'m \<Rightarrow> ('s, bool) st"
    and items :: "'s \<Rightarrow> 'm list"
    and bound :: nat
    and ok :: "'s \<Rightarrow> bool"
    and ready :: "'s \<Rightarrow> 'm \<Rightarrow> bool"
  assumes put_room: "ok s \<Longrightarrow> ready s m \<Longrightarrow> length (items s) < bound \<Longrightarrow>
      \<exists>t. put m s = Inr (True, t) \<and> ok t \<and> items t = items s @ [m]
        \<and> (\<forall>m'. ready s m' \<longrightarrow> m' \<noteq> m \<longrightarrow> ready t m')"
    and put_full: "ok s \<Longrightarrow> ready s m \<Longrightarrow> bound \<le> length (items s) \<Longrightarrow>
      \<exists>t. put m s = Inr (False, t) \<and> ok t \<and> items t = items s
        \<and> (\<forall>m'. ready s m' \<longrightarrow> ready t m')"
begin

text \<open>Putting a list of items one after the other; the results say which were accepted.\<close>

primrec put_all :: "'m list \<Rightarrow> ('s, bool list) st" where
  "put_all [] = return []"
| "put_all (m # ms) = bind (put m) (\<lambda>b. bind (put_all ms) (\<lambda>bs. return (b # bs)))"

text \<open>The first ones are kept in their order, as many as fit, and the others are refused.\<close>

lemma put_all_keeps_order:
  assumes "ok s" and "\<forall>m \<in> set ms. ready s m" and "distinct ms" and "length (items s) \<le> bound"
  shows "\<exists>t. put_all ms s = Inr (map (\<lambda>i. i < bound - length (items s)) [0..<length ms], t)
    \<and> ok t \<and> items t = items s @ take (bound - length (items s)) ms"
  using assms
proof (induction ms arbitrary: s)
  case Nil
  then show ?case by (simp add: st_simps)
next
  case (Cons m ms)
  show ?case
  proof (cases "length (items s) < bound")
    case True
    from put_room [OF Cons.prems(1) _ True, of m] Cons.prems(2) obtain t where
      t: "put m s = Inr (True, t)" "ok t" "items t = items s @ [m]"
        "\<forall>m'. ready s m' \<longrightarrow> m' \<noteq> m \<longrightarrow> ready t m'" by auto
    have "\<forall>x \<in> set ms. ready t x" using t(4) Cons.prems(2,3) by auto
    from Cons.IH [OF t(2) this] Cons.prems(3) True t(3) obtain u where
      u: "put_all ms t = Inr (map (\<lambda>i. i < bound - Suc (length (items s))) [0..<length ms], u)"
        "ok u" "items u = items s @ [m] @ take (bound - Suc (length (items s))) ms" by auto
    have "map (\<lambda>i. i < bound - length (items s)) [0..<length (m # ms)]
        = True # map (\<lambda>i. i < bound - Suc (length (items s))) [0..<length ms]"
      using True by (simp add: upt_conv_Cons map_Suc_upt [symmetric] del: upt_Suc) auto
    moreover have "take (bound - length (items s)) (m # ms)
        = m # take (bound - Suc (length (items s))) ms"
      using True by (simp add: take_Cons' Suc_diff_Suc)
    ultimately show ?thesis using t(1) u by (simp add: st_simps)
  next
    case False
    from put_full [OF Cons.prems(1), of m] Cons.prems(2) False obtain t where
      t: "put m s = Inr (False, t)" "ok t" "items t = items s"
        "\<forall>m'. ready s m' \<longrightarrow> ready t m'" by auto
    from Cons.IH [OF t(2)] Cons.prems(2-4) t(3,4) False obtain u where
      "put_all ms t = Inr (map (\<lambda>i. False) [0..<length ms], u)" "ok u" "items u = items s" by auto
    moreover have "map (\<lambda>i. i < bound - length (items s)) [0..<length (m # ms)]
        = False # map (\<lambda>i. False) [0..<length ms]"
      using False by (simp add: map_replicate_const)
    ultimately show ?thesis using t(1) False by (simp add: st_simps)
  qed
qed

end

section \<open>Inboxes in the heap\<close>

text \<open>The first \<open>n\<close> messages from \<open>p\<close> on.\<close>

fun follow :: "(nat \<Rightarrow> message option) \<Rightarrow> nat \<Rightarrow> ptr \<Rightarrow> nat list" where
  "follow h 0 p = []"
| "follow h (Suc n) (Ptr a) = a # (case h a of None \<Rightarrow> [] | Some m \<Rightarrow> follow h n (m_next m))"
| "follow h (Suc n) p = []"

text \<open>\<open>linked h p ms e\<close>: from \<open>p\<close> on there are the messages \<open>ms\<close>, and \<open>e\<close> follows the last.\<close>

fun linked :: "(nat \<Rightarrow> message option) \<Rightarrow> ptr \<Rightarrow> nat list \<Rightarrow> ptr \<Rightarrow> bool" where
  "linked h p [] e \<longleftrightarrow> p = e"
| "linked h p (a # as) e \<longleftrightarrow> p = Ptr a \<and> (\<exists>m. h a = Some m \<and> linked h (m_next m) as e)"

text \<open>An inbox that holds the messages \<open>ms\<close>.\<close>

definition inbox_of :: "message_queue \<Rightarrow> (nat \<Rightarrow> message option) \<Rightarrow> nat list \<Rightarrow> bool" where
  "inbox_of q h ms \<longleftrightarrow> unat (q_count q) = length ms \<and> distinct ms
     \<and> (if ms = [] then q_head q = Null
        else q_tail q = Ptr (last ms) \<and> (\<exists>e. linked h (q_head q) ms e))"

definition inbox_items :: "nat \<Rightarrow> 'z msg_heap_scheme \<Rightarrow> nat list" where
  "inbox_items a s = (case queues s a of None \<Rightarrow> []
     | Some q \<Rightarrow> follow (messages s) (unat (q_count q)) (q_head q))"

lemma linked_append:
  "linked h p (as @ bs) e \<longleftrightarrow> (\<exists>q. linked h p as q \<and> linked h q bs e)"
  by (induction as arbitrary: p) auto

lemma follow_linked: "linked h p ms e \<Longrightarrow> follow h (length ms) p = ms"
  by (induction ms arbitrary: p) auto

lemma linked_live: "linked h p ms e \<Longrightarrow> a \<in> set ms \<Longrightarrow> h a \<noteq> None"
  by (induction ms arbitrary: p) auto

text \<open>Writing an object outside a chain does not change the chain.\<close>

lemma linked_other: "a \<notin> set ms \<Longrightarrow> linked (h(a := x)) p ms e = linked h p ms e"
  by (induction ms arbitrary: p) auto

lemma inbox_items_eq:
  assumes "queues s a = Some q" and "inbox_of q (messages s) ms"
  shows "inbox_items a s = ms"
  using assms by (cases ms) (auto simp: inbox_items_def inbox_of_def dest!: follow_linked)

text \<open>Linking a message behind the last one.\<close>

lemma linked_extend:
  assumes "linked h p (ms @ [l]) e" and "distinct (ms @ [l])" and "h l = Some x"
    and "h m = Some y" and "m \<notin> set (ms @ [l])"
  shows "linked (h(l \<mapsto> x\<lparr>m_next := Ptr m\<rparr>)) p (ms @ [l] @ [m]) (m_next y)"
  using assms by (auto simp: linked_append linked_other)

lemma linked_end: "linked h p (ms @ [m]) e \<Longrightarrow> h m = Some y \<Longrightarrow> e = m_next y"
  by (auto simp: linked_append)

section \<open>Delivery to an inbox\<close>

text \<open>All fields of the messages but the links.\<close>

definition unlinked :: "(nat \<Rightarrow> message option) \<Rightarrow> nat \<Rightarrow> message option" where
  "unlinked h a = map_option (\<lambda>m. m\<lparr>m_next := Null\<rparr>) (h a)"

lemma unlinked_update:
  "h a = Some x \<Longrightarrow> unlinked (h(a \<mapsto> x\<lparr>m_next := p\<rparr>)) = unlinked h"
  by (rule ext) (auto simp: unlinked_def fun_upd_apply)

lemma enqueue_appends:
  assumes "queues s a = Some q" and "inbox_of q (messages s) ms" and "length ms < 65535"
    and "messages s m = Some y" and "m \<notin> set ms"
  shows "\<exists>t q'. enqueue (Ptr a) (Ptr m) s = Inr ((), t) \<and> queues t = (queues s)(a \<mapsto> q')
    \<and> inbox_of q' (messages t) (ms @ [m]) \<and> q_next q' = q_next q \<and> q_task_id q' = q_task_id q
    \<and> unlinked (messages t) = unlinked (messages s) \<and> (\<forall>b. b \<notin> set ms \<longrightarrow> messages t b = messages s b)
    \<and> t = s\<lparr>messages := messages t, queues := queues t\<rparr>"
proof -
  have count: "unat (q_count q + 1) = Suc (length ms)"
    using assms(2,3) by (simp add: inbox_of_def unat_u16_add)
  show ?thesis
  proof (cases ms rule: rev_cases)
    case Nil
    with assms(2) have "q_head q = Null" by (simp add: inbox_of_def)
    moreover have "linked (messages s) (Ptr m) [m] (m_next y)" using assms(4) by simp
    then have ex: "Ex (linked (messages s) (Ptr m) [m])" by (rule exI)
    ultimately show ?thesis
      using assms(1) count Nil
      by (intro exI [of _ "s\<lparr>queues := (queues s)(a \<mapsto>
            q\<lparr>q_head := Ptr m, q_tail := Ptr m, q_count := q_count q + 1\<rparr>)\<rparr>"]
          exI [of _ "q\<lparr>q_head := Ptr m, q_tail := Ptr m, q_count := q_count q + 1\<rparr>"])
        (simp add: enqueue_def put_queue_def st_simps inbox_of_def ex)
  next
    case (snoc ns l)
    then obtain e where e: "linked (messages s) (q_head q) (ns @ [l]) e" and tail: "q_tail q = Ptr l"
      using assms(2) by (auto simp: inbox_of_def)
    obtain x where x: "messages s l = Some x"
      using linked_live [OF e, of l] by auto
    have head: "\<exists>b. q_head q = Ptr b" using e by (cases ns) auto
    let ?h = "(messages s)(l \<mapsto> x\<lparr>m_next := Ptr m\<rparr>)"
    let ?q = "q\<lparr>q_tail := Ptr m, q_count := q_count q + 1\<rparr>"
    let ?t = "s\<lparr>messages := ?h, queues := (queues s)(a \<mapsto> ?q)\<rparr>"
    have "distinct (ns @ [l])" "m \<notin> set (ns @ [l])"
      using assms(2,5) snoc by (simp_all add: inbox_of_def)
    from linked_extend [OF e this(1) x assms(4) this(2)]
    have chain: "linked ?h (q_head q) (ms @ [m]) (m_next y)" using snoc by simp
    have "enqueue (Ptr a) (Ptr m) s = Inr ((), ?t)"
      using assms(1) head x tail
      by (auto simp: enqueue_def put_queue_def put_message_def st_simps)
    moreover have "inbox_of ?q ?h (ms @ [m])"
      using chain count assms(2,5) by (auto simp: inbox_of_def)
    ultimately show ?thesis
      using unlinked_update [of "messages s" l x] x snoc
      by (intro exI [of _ ?t] exI [of _ ?q]) simp
  qed
qed

section \<open>The list of inboxes\<close>

text \<open>\<open>queue_list h p as\<close>: the inboxes from \<open>p\<close> on are \<open>as\<close>, up to NULL.\<close>

fun queue_list :: "(nat \<Rightarrow> message_queue option) \<Rightarrow> ptr \<Rightarrow> nat list \<Rightarrow> bool" where
  "queue_list h p [] \<longleftrightarrow> p = Null"
| "queue_list h p (a # as) \<longleftrightarrow> p = Ptr a \<and> (\<exists>q. h a = Some q \<and> queue_list h (q_next q) as)"

lemma queue_list_update:
  assumes "h a = Some q" and "q_next q' = q_next q"
  shows "queue_list (h(a \<mapsto> q')) p as = queue_list h p as"
  using assms by (induction as arbitrary: p) (auto simp: fun_upd_apply)

lemma queue_list_live: "queue_list h p as \<Longrightarrow> a \<in> set as \<Longrightarrow> h a \<noteq> None"
  by (induction as arbitrary: p) auto

text \<open>The inbox a message is delivered to: the first with the destination's task id.\<close>

definition inbox_for :: "(nat \<Rightarrow> message_queue option) \<Rightarrow> u16 \<Rightarrow> nat list \<Rightarrow> nat option" where
  "inbox_for h dst as = find (\<lambda>a. case h a of None \<Rightarrow> False | Some q \<Rightarrow> q_task_id q = dst) as"

lemma deliver_loop_none:
  assumes "queue_list (queues s) p as" and "length as < n" and "messages s m = Some y"
    and "inbox_for (queues s) (m_task_dst y) as = None"
  shows "deliver_loop n p (Ptr m) s = Inr (False, s\<lparr>
    out := out s @ [Printf ''task %d not found\<newline>'' [AInt (uint (m_task_dst y))]],
    dynamic_memory_usage := dynamic_memory_usage s - m_payload_size y - sizeof_Message,
    messages := (messages s)(m := None)\<rparr>)"
  using assms
proof (induction as arbitrary: p n)
  case Nil
  then obtain k where "n = Suc k" by (cases n) auto
  with Nil show ?case by (simp add: st_simps message_free_def)
next
  case (Cons a as)
  then obtain k where "n = Suc k" by (cases n) auto
  with Cons show ?case by (auto simp: st_simps inbox_for_def split: if_splits)
qed

lemma deliver_loop_some:
  assumes "queue_list (queues s) p as" and "length as < n" and "messages s m = Some y"
    and "inbox_for (queues s) (m_task_dst y) as = Some a" and "queues s a = Some q"
  shows "deliver_loop n p (Ptr m) s =
    (if q_count q \<ge> TASK_MESSAGE_QUEUE_SIZE
     then Inr (False, s\<lparr>out := out s @
            [Printf ''task %d inbox is full\<newline>'' [AInt (uint (m_task_dst y))]]\<rparr>)
     else bind (enqueue (Ptr a) (Ptr m)) (\<lambda>_. return True) s)"
  using assms
proof (induction as arbitrary: p n)
  case (Cons b as)
  then obtain k where n: "n = Suc k" by (cases n) auto
  obtain r where r: "p = Ptr b" "queues s b = Some r" "queue_list (queues s) (q_next r) as"
    using Cons.prems(1) by auto
  show ?case
  proof (cases "q_task_id r = m_task_dst y")
    case True
    with Cons.prems(4) r have "a = b" by (simp add: inbox_for_def)
    with True r n Cons.prems(3,5) show ?thesis by (simp add: st_simps split: sum.split)
  next
    case False
    with Cons.prems(4) r have "inbox_for (queues s) (m_task_dst y) as = Some a"
      by (simp add: inbox_for_def)
    from Cons.IH [OF r(3) _ Cons.prems(3) this Cons.prems(5), of k] False r n Cons.prems(2,3)
    show ?thesis by (simp add: st_simps)
  qed
qed (simp add: inbox_for_def)

text \<open>A machine's inboxes are what \<open>deliver_local\<close> needs: a list that ends in NULL, no longer
  than the number of allocations.\<close>

definition inboxes :: "'z msg_heap_scheme \<Rightarrow> ptr \<Rightarrow> nat list \<Rightarrow> bool" where
  "inboxes s p as \<longleftrightarrow> queue_list (queues s) p as \<and> length as \<le> mallocs s"

definition inbox_ok :: "nat \<Rightarrow> 'z msg_heap_scheme \<Rightarrow> bool" where
  "inbox_ok a s \<longleftrightarrow> (\<exists>q. queues s a = Some q \<and> inbox_of q (messages s) (inbox_items a s))"

lemma inbox_okI: "queues s a = Some q \<Longrightarrow> inbox_of q (messages s) ms \<Longrightarrow>
    inbox_ok a s \<and> inbox_items a s = ms"
  using inbox_items_eq [of s a q ms] by (auto simp: inbox_ok_def)

lemma deliver_to_room:
  assumes "inboxes s p as" and "messages s m = Some y"
    and "inbox_for (queues s) (m_task_dst y) as = Some a" and "inbox_ok a s"
    and "m \<notin> set (inbox_items a s)" and "length (inbox_items a s) < 4"
  shows "\<exists>t. deliver_local p (Ptr m) s = Inr (True, t) \<and> inbox_ok a t
    \<and> inbox_items a t = inbox_items a s @ [m] \<and> inboxes t p as
    \<and> (\<forall>b. map_option q_task_id (queues t b) = map_option q_task_id (queues s b))
    \<and> (\<forall>b. b \<noteq> a \<longrightarrow> queues t b = queues s b)
    \<and> unlinked (messages t) = unlinked (messages s)
    \<and> (\<forall>b. b \<notin> set (inbox_items a s) \<longrightarrow> messages t b = messages s b)
    \<and> t = s\<lparr>messages := messages t, queues := queues t\<rparr>"
proof -
  obtain q where q: "queues s a = Some q" "inbox_of q (messages s) (inbox_items a s)"
    using assms(4) by (auto simp: inbox_ok_def)
  have list: "queue_list (queues s) p as" "length as < Suc (mallocs s)"
    using assms(1) by (auto simp: inboxes_def)
  have "\<not> TASK_MESSAGE_QUEUE_SIZE \<le> q_count q"
    using q(2) assms(6) by (simp add: inbox_of_def TASK_MESSAGE_QUEUE_SIZE_def word_le_nat_alt)
  with deliver_loop_some [OF list assms(2,3) q(1)]
  have run: "deliver_local p (Ptr m) s = bind (enqueue (Ptr a) (Ptr m)) (\<lambda>_. return True) s"
    by (simp add: deliver_local_def st_simps)
  from enqueue_appends [OF q _ assms(2,5)] assms(6) obtain t q' where
    t: "enqueue (Ptr a) (Ptr m) s = Inr ((), t)" "queues t = (queues s)(a \<mapsto> q')"
      "inbox_of q' (messages t) (inbox_items a s @ [m])" "q_next q' = q_next q"
      "q_task_id q' = q_task_id q" "unlinked (messages t) = unlinked (messages s)"
      "\<forall>b. b \<notin> set (inbox_items a s) \<longrightarrow> messages t b = messages s b"
      "t = s\<lparr>messages := messages t, queues := queues t\<rparr>" by auto
  have "mallocs t = mallocs s" by (subst t(8)) simp
  with list queue_list_update [of "queues s" a q q' p as] q(1) t(4) have "inboxes t p as" by (simp add: inboxes_def t(2))
  moreover have "queues t a = Some q'" by (simp add: t(2))
  from inbox_okI [OF this t(3)] have "inbox_ok a t" "inbox_items a t = inbox_items a s @ [m]"
    by simp_all
  moreover have "\<forall>b. map_option q_task_id (queues t b) = map_option q_task_id (queues s b)"
    using q(1) t(5) by (simp add: t(2) fun_upd_apply)
  moreover have "\<forall>b. b \<noteq> a \<longrightarrow> queues t b = queues s b" by (simp add: t(2))
  ultimately show ?thesis using run t(1,6-8) by (intro exI [of _ t]) (simp add: st_simps)
qed

lemma deliver_to_full:
  assumes "inboxes s p as" and "messages s m = Some y"
    and "inbox_for (queues s) (m_task_dst y) as = Some a" and "inbox_ok a s"
    and "4 \<le> length (inbox_items a s)"
  shows "deliver_local p (Ptr m) s = Inr (False, s\<lparr>out := out s @
    [Printf ''task %d inbox is full\<newline>'' [AInt (uint (m_task_dst y))]]\<rparr>)"
proof -
  obtain q where q: "queues s a = Some q" "inbox_of q (messages s) (inbox_items a s)"
    using assms(4) by (auto simp: inbox_ok_def)
  have list: "queue_list (queues s) p as" "length as < Suc (mallocs s)"
    using assms(1) by (auto simp: inboxes_def)
  have "TASK_MESSAGE_QUEUE_SIZE \<le> q_count q"
    using q(2) assms(5) by (simp add: inbox_of_def TASK_MESSAGE_QUEUE_SIZE_def word_le_nat_alt)
  with deliver_loop_some [OF list assms(2,3) q(1)] show ?thesis
    by (simp add: deliver_local_def st_simps)
qed

text \<open>A new message object does not change an inbox.\<close>

lemma inbox_ok_fresh:
  assumes "inbox_ok a s" and "queues t = queues s" and "messages t = (messages s)(m \<mapsto> y)"
    and "m \<notin> set (inbox_items a s)"
  shows "inbox_ok a t \<and> inbox_items a t = inbox_items a s"
proof -
  obtain q where q: "queues s a = Some q" "inbox_of q (messages s) (inbox_items a s)"
    using assms(1) by (auto simp: inbox_ok_def)
  have "inbox_of q (messages t) (inbox_items a s)"
    using q(2) assms(3,4) by (auto simp: inbox_of_def linked_other split: if_splits)
  with q(1) assms(2) show ?thesis by (intro inbox_okI [of t a q]) simp_all
qed

section \<open>Delivery implements the contract\<close>

definition deliverable :: "ptr \<Rightarrow> nat list \<Rightarrow> nat \<Rightarrow> u16 \<Rightarrow> 'z msg_heap_scheme \<Rightarrow> bool" where
  "deliverable p as a dst s \<longleftrightarrow> inboxes s p as \<and> inbox_for (queues s) dst as = Some a \<and> inbox_ok a s"

definition addressed :: "nat \<Rightarrow> u16 \<Rightarrow> 'z msg_heap_scheme \<Rightarrow> nat \<Rightarrow> bool" where
  "addressed a dst s m \<longleftrightarrow> (case messages s m of None \<Rightarrow> False | Some y \<Rightarrow> m_task_dst y = dst)
     \<and> m \<notin> set (inbox_items a s)"

lemma inbox_for_cong:
  assumes "\<forall>b. map_option q_task_id (g b) = map_option q_task_id (h b)"
  shows "inbox_for g dst as = inbox_for h dst as"
proof -
  have "(case g b of None \<Rightarrow> False | Some q \<Rightarrow> q_task_id q = dst)
      = (case h b of None \<Rightarrow> False | Some q \<Rightarrow> q_task_id q = dst)" for b
    using assms [rule_format, of b] by (cases "g b"; cases "h b") auto
  then show ?thesis by (simp add: inbox_for_def)
qed

lemma unlinked_dst:
  assumes "unlinked g = unlinked h"
  shows "(case g m of None \<Rightarrow> False | Some y \<Rightarrow> m_task_dst y = dst)
    = (case h m of None \<Rightarrow> False | Some y \<Rightarrow> m_task_dst y = dst)"
proof -
  have "map_option m_task_dst (unlinked g m) = map_option m_task_dst (unlinked h m)"
    using assms by simp
  then have "map_option m_task_dst (g m) = map_option m_task_dst (h m)"
    by (simp add: unlinked_def option.map_comp comp_def)
  then show ?thesis by (cases "g m"; cases "h m") auto
qed

interpretation inbox_fifo: bounded_fifo "\<lambda>m. deliver_local p (Ptr m)" "inbox_items a" 4
  "deliverable p as a dst" "addressed a dst"
  for p as a dst
proof
  fix s :: "'z msg_heap_scheme" and m :: nat
  assume s: "deliverable p as a dst s" and m: "addressed a dst s m"
    and room: "length (inbox_items a s) < 4"
  from m obtain y where y: "messages s m = Some y" "m_task_dst y = dst" "m \<notin> set (inbox_items a s)"
    by (auto simp: addressed_def split: option.splits)
  from deliver_to_room [of s p as m y a] s y room obtain t where
    t: "deliver_local p (Ptr m) s = Inr (True, t)" "inbox_ok a t"
      "inbox_items a t = inbox_items a s @ [m]" "inboxes t p as"
      "\<forall>b. map_option q_task_id (queues t b) = map_option q_task_id (queues s b)"
      "unlinked (messages t) = unlinked (messages s)"
    by (auto simp: deliverable_def)
  have "deliverable p as a dst t"
    using s t(2,4) inbox_for_cong [OF t(5), of dst as] by (simp add: deliverable_def)
  moreover have "\<forall>m'. addressed a dst s m' \<longrightarrow> m' \<noteq> m \<longrightarrow> addressed a dst t m'"
    using unlinked_dst [OF t(6)] t(3) by (simp add: addressed_def)
  ultimately show "\<exists>t. deliver_local p (Ptr m) s = Inr (True, t) \<and> deliverable p as a dst t
      \<and> inbox_items a t = inbox_items a s @ [m]
      \<and> (\<forall>m'. addressed a dst s m' \<longrightarrow> m' \<noteq> m \<longrightarrow> addressed a dst t m')"
    using t(1,3) by blast
next
  fix s :: "'z msg_heap_scheme" and m :: nat
  assume s: "deliverable p as a dst s" and m: "addressed a dst s m"
    and full: "4 \<le> length (inbox_items a s)"
  from m obtain y where y: "messages s m = Some y" "m_task_dst y = dst"
    by (auto simp: addressed_def split: option.splits)
  from deliver_to_full [of s p as m y a] s y full
  show "\<exists>t. deliver_local p (Ptr m) s = Inr (False, t) \<and> deliverable p as a dst t
      \<and> inbox_items a t = inbox_items a s \<and> (\<forall>m'. addressed a dst s m' \<longrightarrow> addressed a dst t m')"
    by (auto simp: deliverable_def inboxes_def inbox_ok_def inbox_items_def addressed_def)
qed

text \<open>Deliveries one after the other; the results say which messages were accepted.\<close>

fun deliver_all :: "ptr \<Rightarrow> nat list \<Rightarrow> ('z msg_heap_scheme, bool list) st" where
  "deliver_all p [] = return []"
| "deliver_all p (m # ms) =
     bind (deliver_local p (Ptr m)) (\<lambda>b. bind (deliver_all p ms) (\<lambda>bs. return (b # bs)))"

lemma deliver_all_eq: "inbox_fifo.put_all p ms = deliver_all p ms"
  by (induction ms) simp_all

section \<open>A concrete heap\<close>

definition demo_message :: "u16 \<Rightarrow> u8 list \<Rightarrow> message" where
  "demo_message dst bs = \<lparr>m_next = Indet, m_payload = Some bs, m_vm_src = 1, m_vm_dst = 1,
     m_task_src = 0, m_task_dst = dst, m_seq = 0, m_payload_size = of_nat (length bs), m_crc = 0,
     m_frag_id = 0, m_frag_total = 0\<rparr>"

text \<open>Two inboxes, of tasks 0 and 1, at addresses 1 and 2, and messages for task 1 at 10 to 15
  and for task 7 at 20.\<close>

definition demo_msgs :: msg_heap where
  "demo_msgs = \<lparr>out = [], malloc_ok = (\<lambda>_. True), mallocs = 30, dynamic_memory_usage = 500,
     stacks = Map.empty,
     messages = [10 \<mapsto> demo_message 1 [1], 11 \<mapsto> demo_message 1 [2], 12 \<mapsto> demo_message 1 [3],
       13 \<mapsto> demo_message 1 [4], 14 \<mapsto> demo_message 1 [5], 20 \<mapsto> demo_message 7 [6]],
     queues = [1 \<mapsto> \<lparr>q_next = Ptr 2, q_task_id = 0, q_head = Null, q_tail = Null, q_count = 0\<rparr>,
       2 \<mapsto> \<lparr>q_next = Null, q_task_id = 1, q_head = Null, q_tail = Null, q_count = 0\<rparr>]\<rparr>"

lemma demo_msgs_ok:
  "deliverable (Ptr 1) [1, 2] 2 1 demo_msgs" "inbox_items 2 demo_msgs = []"
  "\<forall>m \<in> {10, 11, 12, 13, 14}. addressed 2 1 demo_msgs m"
  by (simp_all add: deliverable_def addressed_def inboxes_def inbox_for_def inbox_ok_def
      inbox_items_def inbox_of_def demo_msgs_def demo_message_def fun_upd_apply)

section \<open>Properties\<close>

text \<open>C17: the outcomes of \<open>deliver_local\<close>. The message goes to the first inbox of its
  destination task. With fewer than four messages there, it becomes the last one, and all
  other inboxes and all fields of all messages but the links stay; with four, the delivery
  is refused, and the message stays allocated although no inbox holds it; without such an
  inbox, the message is freed.\<close>

theorem deliver_local_outcome:
  assumes "inboxes s p as" and "messages s m = Some y"
    and "\<forall>a. inbox_for (queues s) (m_task_dst y) as = Some a \<longrightarrow>
           inbox_ok a s \<and> m \<notin> set (inbox_items a s)"
  shows "case inbox_for (queues s) (m_task_dst y) as of
      None \<Rightarrow> \<exists>t. deliver_local p (Ptr m) s = Inr (False, t) \<and> messages t = (messages s)(m := None)
        \<and> queues t = queues s
        \<and> dynamic_memory_usage t = dynamic_memory_usage s - m_payload_size y - sizeof_Message
    | Some a \<Rightarrow> if length (inbox_items a s) < 4
        then \<exists>t. deliver_local p (Ptr m) s = Inr (True, t) \<and> inbox_ok a t
          \<and> inbox_items a t = inbox_items a s @ [m] \<and> inboxes t p as
          \<and> (\<forall>b. b \<noteq> a \<longrightarrow> queues t b = queues s b)
          \<and> unlinked (messages t) = unlinked (messages s)
        else deliver_local p (Ptr m) s = Inr (False, s\<lparr>out := out s @
          [Printf ''task %d inbox is full\<newline>'' [AInt (uint (m_task_dst y))]]\<rparr>)"
proof (cases "inbox_for (queues s) (m_task_dst y) as")
  case None
  have "queue_list (queues s) p as" "length as < Suc (mallocs s)"
    using assms(1) by (auto simp: inboxes_def)
  from deliver_loop_none [OF this assms(2) None] None show ?thesis
    by (simp add: deliver_local_def st_simps)
next
  case (Some a)
  with assms deliver_to_room [OF assms(1,2) Some] deliver_to_full [OF assms(1,2) Some]
  show ?thesis by auto
qed

theorem deliver_local_outcome_witness:
  "(\<exists>t. deliver_local (Ptr 1) (Ptr 10) demo_msgs = Inr (True, t) \<and> inbox_items 2 t = [10])
   \<and> (\<exists>t. deliver_local (Ptr 1) (Ptr 20) demo_msgs = Inr (False, t) \<and> messages t 20 = None
        \<and> dynamic_memory_usage t = 467)"
proof -
  have ib: "inboxes demo_msgs (Ptr 1) [1, 2]" and ok: "inbox_ok 2 demo_msgs"
    and box: "inbox_for (queues demo_msgs) 1 [1, 2] = Some 2"
    and none: "inbox_for (queues demo_msgs) 7 [1, 2] = None"
    using demo_msgs_ok by (simp_all add: deliverable_def)
      (simp add: inbox_for_def demo_msgs_def fun_upd_apply)
  have m: "messages demo_msgs 10 = Some (demo_message 1 [1])"
    "messages demo_msgs 20 = Some (demo_message 7 [6])" "dynamic_memory_usage demo_msgs = 500"
    by (simp_all add: demo_msgs_def)
  have dst: "m_task_dst (demo_message d bs) = d"
    "m_payload_size (demo_message d bs) = of_nat (length bs)" for d bs
    by (simp_all add: demo_message_def)
  from deliver_local_outcome [OF ib m(1)] have
    "\<exists>t. deliver_local (Ptr 1) (Ptr 10) demo_msgs = Inr (True, t) \<and> inbox_items 2 t = [10]"
    using ok demo_msgs_ok(2) by (auto simp: dst box simp del: One_nat_def)
  moreover from deliver_local_outcome [OF ib m(2)] have
    "\<exists>t. deliver_local (Ptr 1) (Ptr 20) demo_msgs = Inr (False, t) \<and> messages t 20 = None
        \<and> dynamic_memory_usage t = 467"
    by (auto simp: dst none m(3) sizeof_Message_def simp del: One_nat_def)
  ultimately show ?thesis by blast
qed

text \<open>C18: an inbox keeps the messages in the order of their delivery. Messages for the same
  task delivered one after the other are appended in that order as long as there are fewer
  than four; the ones after that are refused, whatever their content.\<close>

theorem deliveries_keep_order:
  assumes "deliverable p as a dst s" and "\<forall>m \<in> set ms. addressed a dst s m"
    and "distinct ms" and "length (inbox_items a s) \<le> 4"
  shows "\<exists>t. deliver_all p ms s
        = Inr (map (\<lambda>i. i < 4 - length (inbox_items a s)) [0..<length ms], t)
    \<and> deliverable p as a dst t
    \<and> inbox_items a t = inbox_items a s @ take (4 - length (inbox_items a s)) ms"
  using inbox_fifo.put_all_keeps_order [OF assms] by (simp add: deliver_all_eq)

theorem deliveries_keep_order_witness:
  "\<exists>t. deliver_all (Ptr 1) [12, 10, 14, 11, 13] demo_msgs
      = Inr ([True, True, True, True, False], t) \<and> inbox_items 2 t = [12, 10, 14, 11]"
  using deliveries_keep_order [OF demo_msgs_ok(1), of "[12, 10, 14, 11, 13]"] demo_msgs_ok(2,3)
  by (auto simp: upt_rec simp del: deliver_all.simps)

end
