(* ===== verification/Wire_Spec.thy ===== *)
theory Wire_Spec
  imports Messaging_Spec
begin

text \<open>
  The wire format of messages and the release of messages (src/messaging.c:
  \<open>message_serialize\<close>, \<open>message_deserialize\<close>, \<open>message_free\<close>, \<open>message_queue_free\<close>).
\<close>

section \<open>The header\<close>

definition header :: "message \<Rightarrow> u8 list" where
  "header msg = bytes_of_u16 (m_vm_src msg) @ bytes_of_u16 (m_vm_dst msg)
     @ bytes_of_u16 (m_task_src msg) @ bytes_of_u16 (m_task_dst msg)
     @ bytes_of_u16 (m_seq msg) @ bytes_of_u16 (m_payload_size msg)
     @ bytes_of_u16 (m_crc msg) @ [m_frag_id msg, m_frag_total msg]"

text \<open>A message whose payload has the recorded size and whose serialised form has a size
  that fits in 16 bits.\<close>

definition message_ok :: "message \<Rightarrow> bool" where
  "message_ok m \<longleftrightarrow> (case m_payload m of None \<Rightarrow> m_payload_size m = 0
     | Some bs \<Rightarrow> length bs = unat (m_payload_size m))
     \<and> 16 + unat (m_payload_size m) < 65536"

definition payload :: "message \<Rightarrow> u8 list" where
  "payload m = (case m_payload m of None \<Rightarrow> [] | Some bs \<Rightarrow> bs)"

lemma length_header [simp]: "length (header m) = 16"
  by (simp add: header_def)

lemma u16_of_bytes_append [simp]: "u16_of_bytes (bytes_of_u16 w @ bs) = w"
proof -
  have "u16_of_bytes (bytes_of_u16 w @ bs) = u16_of_bytes (bytes_of_u16 w)"
    by (simp add: u16_of_bytes_def bytes_of_u16_def)
  then show ?thesis by simp
qed

lemma drop_bytes_of_u16 [simp]:
  "drop (Suc (Suc n)) (bytes_of_u16 w @ bs) = drop n bs"
  by (simp add: bytes_of_u16_def)

text \<open>The fields \<open>message_deserialize\<close> reads.\<close>

definition parsed :: "u8 list \<Rightarrow> message" where
  "parsed buffer = \<lparr>m_next = Null, m_payload = None,
     m_vm_src = u16_of_bytes buffer, m_vm_dst = u16_of_bytes (drop 2 buffer),
     m_task_src = u16_of_bytes (drop 4 buffer), m_task_dst = u16_of_bytes (drop 6 buffer),
     m_seq = u16_of_bytes (drop 8 buffer), m_payload_size = u16_of_bytes (drop 10 buffer),
     m_crc = u16_of_bytes (drop 12 buffer),
     m_frag_id = buffer ! 14, m_frag_total = buffer ! 15\<rparr>"

lemma header_nth:
  "(header m @ bs) ! 14 = m_frag_id m" "(header m @ bs) ! 15 = m_frag_total m"
  by (simp_all add: header_def bytes_of_u16_def)

lemma parsed_header:
  "parsed (header m @ bs) = m\<lparr>m_next := Null, m_payload := None\<rparr>"
proof -
  have "parsed (header m @ bs) = \<lparr>m_next = Null, m_payload = None, m_vm_src = m_vm_src m,
    m_vm_dst = m_vm_dst m, m_task_src = m_task_src m, m_task_dst = m_task_dst m,
    m_seq = m_seq m, m_payload_size = m_payload_size m, m_crc = m_crc m,
    m_frag_id = m_frag_id m, m_frag_total = m_frag_total m\<rparr>"
    unfolding parsed_def header_nth by (simp add: header_def eval_nat_numeral)
  then show ?thesis by simp
qed

text \<open>The payload's memory may be longer than its recorded size.\<close>

lemma message_serialize_prefix:
  assumes "16 + unat (m_payload_size m) < 65536" and "malloc_ok s (mallocs s)"
    and "case m_payload m of None \<Rightarrow> m_payload_size m = 0 | Some bs \<Rightarrow> unat (m_payload_size m) \<le> length bs"
  shows "message_serialize m s =
    Inr ((Some (header m @ take (unat (m_payload_size m)) (payload m)), 16 + unat (m_payload_size m)),
    s\<lparr>mallocs := Suc (mallocs s),
      dynamic_memory_usage := dynamic_memory_usage s + (16 + m_payload_size m)\<rparr>)"
proof -
  have size: "unat (of_nat (16 + unat (m_payload_size m)) :: u16) = 16 + unat (m_payload_size m)"
    using assms(1) by (simp only: unat_of_nat) simp
  have word: "(of_nat (16 + unat (m_payload_size m)) :: u16) = 16 + m_payload_size m" by simp
  have zero: "m_payload_size m > 0 \<longleftrightarrow> m_payload_size m \<noteq> 0" by (simp add: word_neq_0_conv)
  show ?thesis
    unfolding message_serialize_def Let_def header_def [symmetric] size
    using assms
    by (cases "m_payload m") (auto simp: st_simps payload_def word zero)
qed

lemma message_serialize_ok:
  assumes "message_ok m" and "malloc_ok s (mallocs s)"
  shows "message_serialize m s = Inr ((Some (header m @ payload m), 16 + unat (m_payload_size m)),
    s\<lparr>mallocs := Suc (mallocs s),
      dynamic_memory_usage := dynamic_memory_usage s + (16 + m_payload_size m)\<rparr>)"
  using assms message_serialize_prefix [of m s]
  by (auto simp: message_ok_def payload_def split: option.splits)

lemma message_deserialize_parsed:
  assumes "16 \<le> length buffer" and "malloc_ok s (mallocs s)" and "malloc_ok s (Suc (mallocs s))"
  shows "message_deserialize buffer (length buffer) s = (let a = mallocs s; m = parsed buffer;
      t = s\<lparr>mallocs := Suc a, dynamic_memory_usage := dynamic_memory_usage s + sizeof_Message,
            messages := (messages s)(a \<mapsto> m)\<rparr> in
    if m_payload_size m > 0 \<and> 16 + unat (m_payload_size m) \<le> length buffer
    then Inr (Ptr a, t\<lparr>mallocs := Suc (Suc a),
        dynamic_memory_usage := dynamic_memory_usage t + m_payload_size m,
        messages := (messages s)(a \<mapsto> m\<lparr>m_payload :=
          Some (take (unat (m_payload_size m)) (drop 16 buffer))\<rparr>)\<rparr>)
    else Inr (Ptr a, t))"
  unfolding message_deserialize_def parsed_def [symmetric]
  using assms by (auto simp: st_simps put_message_def Let_def)

section \<open>Releasing a list of messages\<close>

definition sizes :: "(nat \<Rightarrow> message option) \<Rightarrow> nat list \<Rightarrow> u16" where
  "sizes h ms = sum_list (map (\<lambda>a. m_payload_size (the (h a)) + sizeof_Message) ms)"

definition without :: "nat list \<Rightarrow> 'z msg_heap_scheme \<Rightarrow> 'z msg_heap_scheme" where
  "without ms s = s\<lparr>dynamic_memory_usage := dynamic_memory_usage s - sizes (messages s) ms,
     messages := messages s |` (- set ms)\<rparr>"

lemma message_free_apply:
  assumes "messages s a = Some m"
  shows "message_free (Ptr a) s = Inr ((), without [a] s)"
proof -
  have "(messages s)(a := None) = messages s |` (- {a})"
    by (rule ext) (simp add: restrict_map_def fun_upd_apply)
  with assms show ?thesis
    by (simp add: message_free_def st_simps without_def sizes_def diff_diff_eq)
qed

lemma without_Cons:
  assumes "a \<notin> set ms"
  shows "without ms (without [a] s) = without (a # ms) s"
proof -
  have "messages s |` (- {a}) |` (- set ms) = messages s |` (- set (a # ms))"
    by (rule ext) (simp add: restrict_map_def)
  moreover have "sizes (messages s |` (- {a})) ms = sizes (messages s) ms"
    unfolding sizes_def using assms
    by (intro arg_cong [where f = sum_list] map_cong) (auto simp: restrict_map_def)
  moreover have "sizes (messages s) (a # ms) = sizes (messages s) [a] + sizes (messages s) ms"
    by (simp add: sizes_def)
  ultimately show ?thesis by (simp add: without_def diff_diff_eq)
qed

lemma linked_without:
  assumes "a \<notin> set ms"
  shows "linked (messages (without [a] s)) p ms e = linked (messages s) p ms e"
proof -
  have "messages (without [a] s) = (messages s)(a := None)"
    by (rule ext) (simp add: without_def restrict_map_def fun_upd_apply)
  with linked_other [OF assms] show ?thesis by simp
qed

lemma free_messages_linked:
  assumes "linked (messages s) p ms e" and "distinct ms" and "length ms \<le> n"
  shows "free_messages n p s = free_messages (n - length ms) e (without ms s)"
  using assms
proof (induction ms arbitrary: p n s)
  case Nil
  have "messages s |` UNIV = messages s" by (rule ext) simp
  with Nil show ?case by (simp add: without_def sizes_def)
next
  case (Cons a ms)
  then obtain k m where k: "n = Suc k" "p = Ptr a" "messages s a = Some m"
    "linked (messages s) (m_next m) ms e" by (cases n) auto
  have new: "a \<notin> set ms" using Cons.prems(2) by simp
  have "free_messages n p s = free_messages k (m_next m) (without [a] s)"
    using k message_free_apply [OF k(3)] by (simp add: st_simps)
  also have "\<dots> = free_messages (k - length ms) e (without ms (without [a] s))"
    using k(1,4) Cons.prems linked_without [OF new, of s] by (intro Cons.IH) simp_all
  finally show ?case using k(1) by (simp add: without_Cons [OF new])
qed

section \<open>Properties\<close>

text \<open>C30: the wire format. What \<open>message_serialize\<close> writes for a message whose payload has the
  recorded size is read back by \<open>message_deserialize\<close>: a new message with the same header
  fields, the same payload (NULL for an empty one) and a NULL link.\<close>

theorem wire_roundtrip:
  assumes "message_ok m" and "\<forall>i < 3. malloc_ok s (mallocs s + i)"
  shows "\<exists>t. bind (message_serialize m) (\<lambda>(buffer, n). message_deserialize (the buffer) n) s
      = Inr (Ptr (Suc (mallocs s)), t)
    \<and> messages t = (messages s)(Suc (mallocs s) \<mapsto> m\<lparr>m_next := Null, m_payload :=
        (if m_payload_size m = 0 then None else Some (payload m))\<rparr>)
    \<and> dynamic_memory_usage t = dynamic_memory_usage s + (16 + m_payload_size m)
        + (sizeof_Message + m_payload_size m)"
proof -
  let ?s = "s\<lparr>mallocs := Suc (mallocs s),
      dynamic_memory_usage := dynamic_memory_usage s + (16 + m_payload_size m)\<rparr>"
  have ok: "malloc_ok s (mallocs s)" "malloc_ok ?s (mallocs ?s)" "malloc_ok ?s (Suc (mallocs ?s))"
    using assms(2) [rule_format, of 0] assms(2) [rule_format, of 1] assms(2) [rule_format, of 2]
    by simp_all
  have len: "length (payload m) = unat (m_payload_size m)"
    using assms(1) by (auto simp: message_ok_def payload_def split: option.splits)
  then have n: "length (header m @ payload m) = 16 + unat (m_payload_size m)" by simp
  have pos: "m_payload_size m > 0 \<longleftrightarrow> m_payload_size m \<noteq> 0" by (simp add: word_neq_0_conv)
  have "16 \<le> length (header m @ payload m)" by simp
  from message_deserialize_parsed [OF this ok(2,3)]
  show ?thesis
    using message_serialize_ok [OF assms(1) ok(1)] len
    by (auto simp: st_simps n parsed_header pos Let_def)
qed

theorem wire_roundtrip_witness:
  "\<exists>t. bind (message_serialize (demo_message 1 [7, 8])) (\<lambda>(buffer, n).
      message_deserialize (the buffer) n) demo_msgs = Inr (Ptr 31, t)
    \<and> map_option payload (messages t 31) = Some [7, 8]"
proof -
  have "message_ok (demo_message 1 [7, 8])" "\<forall>i < 3. malloc_ok demo_msgs (mallocs demo_msgs + i)"
    "mallocs demo_msgs = 30" "payload (demo_message 1 [7, 8]) = [7, 8]"
    "m_payload_size (demo_message 1 [7, 8]) \<noteq> 0"
    by (simp_all add: message_ok_def demo_message_def demo_msgs_def payload_def)
  with wire_roundtrip [of "demo_message 1 [7, 8]" demo_msgs] show ?thesis
    by (auto simp: payload_def)
qed

text \<open>What the receiver makes of a message it got only the first \<open>n\<close> bytes of (it reads at
  most 128). With less than a header it makes nothing. With a header and an incomplete
  payload, it makes a message without payload that still has the full payload size, so that
  its release takes that size off the memory counter although it was never added.\<close>

lemma truncated_message:
  assumes "message_ok m" and "n < 16 + unat (m_payload_size m)"
    and "malloc_ok s (mallocs s)" and "malloc_ok s (Suc (mallocs s))"
  shows "if n < 16 then message_deserialize (take n (header m @ payload m)) n s = Inr (Null, s)
    else \<exists>t u. message_deserialize (take n (header m @ payload m)) n s = Inr (Ptr (mallocs s), t)
      \<and> messages t (mallocs s) = Some (m\<lparr>m_next := Null, m_payload := None\<rparr>)
      \<and> message_free (Ptr (mallocs s)) t = Inr ((), u)
      \<and> dynamic_memory_usage u = dynamic_memory_usage s - m_payload_size m"
proof (cases "n < 16")
  case True
  then show ?thesis by (simp add: message_deserialize_def st_simps)
next
  case False
  have len: "length (payload m) = unat (m_payload_size m)"
    using assms(1) by (auto simp: message_ok_def payload_def split: option.splits)
  let ?b = "header m @ take (n - 16) (payload m)"
  have b: "take n (header m @ payload m) = ?b" using False by simp
  have n: "length ?b = n" using False assms(2) len by simp
  let ?m = "m\<lparr>m_next := Null, m_payload := None\<rparr>"
  let ?t = "s\<lparr>mallocs := Suc (mallocs s),
    dynamic_memory_usage := dynamic_memory_usage s + sizeof_Message,
    messages := (messages s)(mallocs s \<mapsto> ?m)\<rparr>"
  have "16 \<le> length ?b" using False n by simp
  note run = message_deserialize_parsed [OF this assms(3,4), unfolded n parsed_header Let_def]
  have "\<not> (0 < m_payload_size ?m \<and> 16 + unat (m_payload_size ?m) \<le> n)" using assms(2) by simp
  from run [unfolded if_not_P [OF this]]
  have "message_deserialize ?b n s = Inr (Ptr (mallocs s), ?t)" .
  moreover have "messages ?t (mallocs s) = Some ?m" by simp
  from message_free_apply [OF this]
  have "message_free (Ptr (mallocs s)) ?t = Inr ((), without [mallocs s] ?t)" .
  moreover have "dynamic_memory_usage (without [mallocs s] ?t) = dynamic_memory_usage s - m_payload_size m"
    by (simp add: without_def sizes_def)
  ultimately show ?thesis using False unfolding b by auto
qed

lemma truncated_message_example:
  "\<exists>t u. message_deserialize (take 17 (header (demo_message 1 [7, 8]) @ [7, 8])) 17 demo_msgs
        = Inr (Ptr 30, t)
      \<and> message_free (Ptr 30) t = Inr ((), u) \<and> dynamic_memory_usage u = 498"
proof -
  have m: "message_ok (demo_message 1 [7, 8])" "17 < 16 + unat (m_payload_size (demo_message 1 [7, 8]))"
    "malloc_ok demo_msgs (mallocs demo_msgs)" "malloc_ok demo_msgs (Suc (mallocs demo_msgs))"
    and vals: "mallocs demo_msgs = 30" "payload (demo_message 1 [7, 8]) = [7, 8]"
    "dynamic_memory_usage demo_msgs - m_payload_size (demo_message 1 [7, 8]) = 498"
    by (simp_all add: message_ok_def demo_message_def demo_msgs_def payload_def)
  from truncated_message [OF m] show ?thesis
    unfolding vals by auto
qed

text \<open>The release of an inbox. When NULL follows the last message, \<open>message_queue_free\<close>
  frees exactly the messages of the inbox and the inbox itself, and takes their sizes off
  the memory counter. When the last message was made by \<open>message_create\<close>, which does not
  assign its link, the loop goes on to an indeterminate pointer.\<close>

lemma message_queue_free_outcome:
  assumes "queues s a = Some q" and "linked (messages s) (q_head q) ms e" and "distinct ms"
    and "length ms \<le> mallocs s" and "e = Null \<or> e = Indet"
  shows "if e = Null
    then \<exists>t. message_queue_free (Ptr a) s = Inr ((), t) \<and> queues t = (queues s)(a := None)
      \<and> messages t = messages s |` (- set ms)
      \<and> dynamic_memory_usage t
          = dynamic_memory_usage s - sizes (messages s) ms - sizeof_MessageQueue
    else \<exists>t. message_queue_free (Ptr a) s = Inl (Undefined Uninitialised, t)"
proof -
  have "length ms \<le> Suc (mallocs s)" using assms(4) by simp
  note loop = free_messages_linked [OF assms(2,3) this]
  have "Suc (mallocs s) - length ms = Suc (mallocs s - length ms)"
    using assms(4) by (simp add: Suc_diff_le)
  with loop assms(1,5) show ?thesis
    by (auto simp: message_queue_free_def st_simps without_def)
qed

lemma message_queue_free_outcome_witness:
  "(\<exists>t. message_queue_free (Ptr 2) demo_msgs = Inr ((), t) \<and> dynamic_memory_usage t = 460)
   \<and> (\<exists>t. message_queue_free (Ptr 2) (demo_msgs\<lparr>queues := [2 \<mapsto> \<lparr>q_next = Null, q_task_id = 1,
        q_head = Ptr 10, q_tail = Ptr 10, q_count = 1\<rparr>]\<rparr>) = Inl (Undefined Uninitialised, t))"
proof
  let ?q = "\<lparr>q_next = Null, q_task_id = 1, q_head = Null, q_tail = Null, q_count = 0\<rparr>"
  have "queues demo_msgs 2 = Some ?q" "linked (messages demo_msgs) (q_head ?q) [] Null"
    by (simp_all add: demo_msgs_def)
  from message_queue_free_outcome [OF this]
  show "\<exists>t. message_queue_free (Ptr 2) demo_msgs = Inr ((), t) \<and> dynamic_memory_usage t = 460"
    by (auto simp: sizes_def demo_msgs_def sizeof_MessageQueue_def)
next
  let ?q = "\<lparr>q_next = Null, q_task_id = 1, q_head = Ptr 10, q_tail = Ptr 10, q_count = 1\<rparr>"
  let ?s = "demo_msgs\<lparr>queues := [2 \<mapsto> ?q]\<rparr>"
  have "queues ?s 2 = Some ?q" "linked (messages ?s) (q_head ?q) [10] Indet"
    "length [10 :: nat] \<le> mallocs ?s"
    by (simp_all add: demo_msgs_def demo_message_def)
  from message_queue_free_outcome [OF this(1,2) _ this(3)]
  show "\<exists>t. message_queue_free (Ptr 2) ?s = Inl (Undefined Uninitialised, t)" by simp
qed

end
