(* ===== verification/Tree_Spec.thy ===== *)
theory Tree_Spec
  imports Run_C
begin

text \<open>
  The task tree of src/tasktree.c against a plain tree: what the traversal visits and in which
  order, and what adding and removing a child do.
\<close>

section \<open>The abstract tree\<close>

text \<open>A tree of node addresses.\<close>

datatype tree = Node (node_addr: nat) (kids: "tree list")

fun preorder :: "tree \<Rightarrow> nat list" where
  "preorder (Node a ts) = a # concat (map preorder ts)"

text \<open>The heap represents the tree: the first \<open>childCount\<close> entries of the array of a node are
  the children, in order.\<close>

fun tree_at :: "(nat \<Rightarrow> node option) \<Rightarrow> tree \<Rightarrow> bool" where
  "tree_at h (Node a ts) \<longleftrightarrow> (case h a of None \<Rightarrow> False
     | Some n \<Rightarrow> unat (childCount n) = length ts \<and> length ts \<le> length (children n)
         \<and> take (length ts) (children n) = map (\<lambda>t. Ptr (node_addr t)) ts)
     \<and> (\<forall>t \<in> set ts. tree_at h t)"

lemma preorder_root: "node_addr t \<in> set (preorder t)"
  by (cases t) simp

lemma tree_at_cong:
  "(\<And>a. a \<in> set (preorder t) \<Longrightarrow> g a = h a) \<Longrightarrow> tree_at g t = tree_at h t"
proof (induction t)
  case (Node a ts)
  have "tree_at g t = tree_at h t" if "t \<in> set ts" for t
    using that Node.prems by (intro Node.IH) auto
  then show ?case using Node.prems [of a] by simp
qed

lemma tree_at_other: "a \<notin> set (preorder t) \<Longrightarrow> tree_at (h(a := x)) t = tree_at h t"
  by (rule tree_at_cong) (auto simp: fun_upd_apply)

lemma tree_at_kid:
  assumes "tree_at h (Node a ts)" and "i < length ts"
  shows "\<exists>n. h a = Some n \<and> i < unat (childCount n)
    \<and> nth_opt (children n) i = Some (Ptr (node_addr (ts ! i))) \<and> tree_at h (ts ! i)"
proof -
  obtain n where n: "h a = Some n" "unat (childCount n) = length ts"
      "length ts \<le> length (children n)"
      "take (length ts) (children n) = map (\<lambda>t. Ptr (node_addr t)) ts"
    using assms(1) by (auto split: option.splits)
  have "children n ! i = take (length ts) (children n) ! i" using assms(2) by simp
  also have "\<dots> = Ptr (node_addr (ts ! i))" unfolding n(4) using assms(2) by simp
  finally have "nth_opt (children n) i = Some (Ptr (node_addr (ts ! i)))"
    using assms(2) n(3) by (simp add: nth_opt_def)
  with n assms show ?thesis by auto
qed

lemma tree_at_count:
  "tree_at h (Node a ts) \<Longrightarrow> \<exists>n. h a = Some n \<and> unat (childCount n) = length ts"
  by (auto split: option.splits)

section \<open>Traversal\<close>

text \<open>The calls of \<open>process\<close> one after the other.\<close>

fun run_all :: "(ptr \<Rightarrow> ('s, unit) st) \<Rightarrow> nat list \<Rightarrow> ('s, unit) st" where
  "run_all f [] = return ()"
| "run_all f (a # as) = seq (f (Ptr a)) (run_all f as)"

lemma run_all_append: "run_all f (as @ bs) = seq (run_all f as) (run_all f bs)"
proof (induction as)
  case Nil
  show ?case by (rule ext) (simp add: st_simps split: sum.splits)
next
  case (Cons a as)
  then show ?case by (simp add: seq_assoc)
qed

text \<open>On states that satisfy \<open>I\<close>, which it keeps, \<open>f\<close> leaves the tree alone when it is called for
  a node in \<open>A\<close>.\<close>

definition leaves_nodes ::
  "('z tree_heap_scheme \<Rightarrow> bool) \<Rightarrow> nat set \<Rightarrow> (ptr \<Rightarrow> ('z tree_heap_scheme, unit) st) \<Rightarrow> bool" where
  "leaves_nodes I A f \<longleftrightarrow>
     (\<forall>a \<in> A. \<forall>s t. I s \<longrightarrow> f (Ptr a) s = Inr ((), t) \<longrightarrow> I t \<and> nodes t = nodes s)"

definition keeps_nodes :: "(ptr \<Rightarrow> ('z tree_heap_scheme, unit) st) \<Rightarrow> bool" where
  "keeps_nodes f \<longleftrightarrow> (\<forall>p s t. f p s = Inr ((), t) \<longrightarrow> nodes t = nodes s)"

lemma keeps_leaves: "keeps_nodes f \<Longrightarrow> leaves_nodes (\<lambda>_. True) A f"
  by (auto simp: keeps_nodes_def leaves_nodes_def)

lemma run_all_leaves_nodes:
  assumes "leaves_nodes I A f" and "set as \<subseteq> A" and "I s" and "run_all f as s = Inr ((), t)"
  shows "I t \<and> nodes t = nodes s"
  using assms(2-)
proof (induction as arbitrary: s)
  case (Cons a as)
  then obtain u where u: "f (Ptr a) s = Inr ((), u)" "run_all f as u = Inr ((), t)"
    by (auto simp: st_simps split: sum.splits)
  with Cons.prems assms(1) have "I u \<and> nodes u = nodes s" by (auto simp: leaves_nodes_def)
  with Cons.IH [of u] Cons.prems u(2) show ?case by auto
qed (simp add: st_simps)

text \<open>The fuel is enough for both functions, in steps of two per node.\<close>

lemma dfs_fuel:
  assumes "leaves_nodes I A f"
  shows "I s \<Longrightarrow> set (preorder t) \<subseteq> A \<Longrightarrow> tree_at (nodes s) t \<Longrightarrow> 2 * length (preorder t) \<le> n \<Longrightarrow>
      task_tree_traverse_dfs n (Ptr (node_addr t)) f s = run_all f (preorder t) s"
    and "I s \<Longrightarrow> set (concat (map preorder (drop i ts))) \<subseteq> A \<Longrightarrow>
      tree_at (nodes s) (Node a ts) \<Longrightarrow> i \<le> length ts \<Longrightarrow>
      2 * length (concat (map preorder (drop i ts))) < n \<Longrightarrow>
      traverse_children n (Ptr a) i f s = run_all f (concat (map preorder (drop i ts))) s"
proof (induction n arbitrary: s t a ts i)
  case 0
  {
    case 1
    then show ?case by (cases t) simp
  next
    case 2
    then show ?case by simp
  }
next
  case (Suc n)
  {
    case 1
    obtain a ts where t: "t = Node a ts" by (cases t) auto
    show ?case
    proof (cases "f (Ptr a) s")
      case (Inl e)
      then show ?thesis by (simp add: t st_simps)
    next
      case (Inr r)
      obtain u where u: "f (Ptr a) s = Inr ((), u)" using Inr by (cases r) auto
      then have "I u" "nodes u = nodes s" using assms 1(1,2) by (auto simp: leaves_nodes_def t)
      with 1 t Suc.IH(2) [of u 0 ts a] show ?thesis
        by (simp add: u st_simps del: tree_at.simps)
    qed
  next
    case 2
    show ?case
    proof (cases "i < length ts")
      case False
      with 2 obtain m where "nodes s a = Some m" "\<not> i < unat (childCount m)"
        using tree_at_count by fastforce
      with False 2 show ?thesis by (simp add: st_simps)
    next
      case True
      from tree_at_kid [OF 2(3) True] obtain m where
        m: "nodes s a = Some m" "i < unat (childCount m)"
          "nth_opt (children m) i = Some (Ptr (node_addr (ts ! i)))" "tree_at (nodes s) (ts ! i)"
        by blast
      have drop: "drop i ts = ts ! i # drop (Suc i) ts" using True by (simp add: Cons_nth_drop_Suc)
      have sub: "set (preorder (ts ! i)) \<subseteq> A" "set (concat (map preorder (drop (Suc i) ts))) \<subseteq> A"
        using 2(2) unfolding drop by auto
      have pos: "0 < length (preorder (ts ! i))" by (cases "ts ! i") simp
      have "length (concat (map preorder (drop i ts))) = length (preorder (ts ! i))
          + length (concat (map preorder (drop (Suc i) ts)))" unfolding drop by simp
      with pos 2(5) have less: "2 * length (concat (map preorder (drop (Suc i) ts))) < n" by linarith
      have kid: "task_tree_traverse_dfs n (Ptr (node_addr (ts ! i))) f s
          = run_all f (preorder (ts ! i)) s"
        using 2(5) drop by (intro Suc.IH(1) [OF 2(1) sub(1) m(4)]) simp
      have rest: "traverse_children n (Ptr a) (Suc i) f u
          = run_all f (concat (map preorder (drop (Suc i) ts))) u" if "I u" "nodes u = nodes s" for u
        using that 2(3) True less by (intro Suc.IH(2) [OF _ sub(2)]) simp_all
      show ?thesis
      proof (cases "run_all f (preorder (ts ! i)) s")
        case (Inl e)
        then show ?thesis using m kid by (simp add: drop run_all_append st_simps)
      next
        case (Inr r)
        obtain u where u: "run_all f (preorder (ts ! i)) s = Inr ((), u)" using Inr by (cases r) auto
        with run_all_leaves_nodes [OF assms sub(1) 2(1) u] rest [of u] m kid show ?thesis
          by (simp add: drop run_all_append st_simps)
      qed
    qed
  }
qed

section \<open>Adding a child\<close>

fun add_kid :: "nat \<Rightarrow> nat \<Rightarrow> tree \<Rightarrow> tree" where
  "add_kid a c (Node b ts) = Node b (map (add_kid a c) ts @ (if a = b then [Node c []] else []))"

lemma add_kid_root [simp]: "node_addr (add_kid a c t) = node_addr t"
  by (cases t) simp

lemma add_kid_other: "a \<notin> set (preorder t) \<Longrightarrow> add_kid a c t = t"
  by (induction t) (auto intro: map_idI)

text \<open>A node's array has the recorded capacity, which can be doubled.\<close>

definition node_ok :: "node \<Rightarrow> bool" where
  "node_ok n \<longleftrightarrow> length (children n) = unat (childCapacity n)
     \<and> unat (childCount n) \<le> unat (childCapacity n) \<and> unat (childCapacity n) < 32768"

definition extended :: "nat \<Rightarrow> node \<Rightarrow> node \<Rightarrow> bool" where
  "extended c n n' \<longleftrightarrow> unat (childCount n') = Suc (unat (childCount n))
     \<and> unat (childCount n') \<le> length (children n')
     \<and> take (unat (childCount n')) (children n')
        = take (unat (childCount n)) (children n) @ [Ptr c]"

lemma tree_at_add_kid:
  assumes "tree_at h t" and "distinct (preorder t)" and "a \<in> set (preorder t)"
    and "c \<notin> set (preorder t)" and "h a = Some n" and "extended c n n'"
    and "childCount new = 0"
  shows "tree_at (h(c \<mapsto> new, a \<mapsto> n')) (add_kid a c t)"
  using assms(1-4)
proof (induction t)
  case (Node b ts)
  let ?h = "h(c \<mapsto> new, a \<mapsto> n')"
  have ac: "a \<noteq> c" using Node.prems(3,4) by auto
  have other: "tree_at ?h (add_kid a c t) \<and> add_kid a c t = t"
    if "t \<in> set ts" "a \<notin> set (preorder t)" for t
  proof -
    have "c \<notin> set (preorder t)" using that(1) Node.prems(4) by auto
    then have "tree_at ?h t = tree_at h t" using that(2) by (simp add: tree_at_other)
    then show ?thesis using that Node.prems(1) add_kid_other by auto
  qed
  show ?case
  proof (cases "a = b")
    case True
    have kid: "add_kid a c t = t \<and> tree_at ?h t" if "t \<in> set ts" for t
    proof -
      have "a \<notin> set (preorder t)" using that Node.prems(2) True by auto
      from other [OF that this] show ?thesis by metis
    qed
    then have "map (add_kid a c) ts = ts" by (intro map_idI) auto
    moreover have "tree_at ?h (Node c [])" using ac assms(7) by (simp add: fun_upd_apply)
    ultimately show ?thesis
      using True assms(5,6) Node.prems(1) kid by (auto simp: extended_def)
  next
    case False
    have cb: "c \<noteq> b" using Node.prems(4) by auto
    have "tree_at ?h (add_kid a c t)" if "t \<in> set ts" for t
    proof (cases "a \<in> set (preorder t)")
      case True
      have "distinct (preorder t)"
        using that Node.prems(2) by (auto simp: distinct_concat_iff)
      with True that Node.prems(1,4) show ?thesis by (intro Node.IH) auto
    next
      case False
      from other [OF that this] show ?thesis by (rule conjunct1)
    qed
    with False cb Node.prems(1) show ?thesis by (auto simp: comp_def split: option.splits)
  qed
qed

definition new_node :: "int \<Rightarrow> ptr \<Rightarrow> ptr \<Rightarrow> node" where
  "new_node i parent task = \<lparr>n_id = word_of_int i, children = [], childCount = 0,
     childCapacity = 0, n_parent = parent, n_task = task\<rparr>"

text \<open>The parent after the array has been made large enough.\<close>

definition grown :: "node \<Rightarrow> node" where
  "grown n = (if childCount n = childCapacity n
     then let cap = (if childCapacity n = 0 then 2 else childCapacity n * 2)
          in n\<lparr>childCapacity := cap, children := grow_children cap (children n)\<rparr>
     else n)"

lemma grown_facts:
  assumes "node_ok n"
  shows "childCount (grown n) = childCount n"
    and "unat (childCount n) < length (children (grown n))"
    and "take (unat (childCount n)) (children (grown n)) = take (unat (childCount n)) (children n)"
proof -
  have double: "unat (childCapacity n * 2) = unat (childCapacity n) * 2"
    using assms by (simp add: node_ok_def unat_mult_lem [THEN iffD1])
  show "childCount (grown n) = childCount n" by (simp add: grown_def Let_def)
  show "unat (childCount n) < length (children (grown n))"
    and "take (unat (childCount n)) (children (grown n)) = take (unat (childCount n)) (children n)"
    using assms double
    by (auto simp: grown_def Let_def node_ok_def grow_children_def word_unat_eq_iff)
qed

text \<open>The parent with the new child at the end.\<close>

definition with_kid :: "nat \<Rightarrow> node \<Rightarrow> node" where
  "with_kid c n = (grown n)\<lparr>children := (children (grown n))[unat (childCount n) := Ptr c],
     childCount := childCount n + 1\<rparr>"

lemma with_kid_fields [simp]:
  "n_task (with_kid c n) = n_task n" "n_id (with_kid c n) = n_id n" "n_parent (with_kid c n) = n_parent n"
  "childCount (with_kid c n) = childCount n + 1"
  by (simp_all add: with_kid_def grown_def Let_def)

text \<open>The array is at most twice as long as needed, so it can grow again while there are few
  children.\<close>

definition roomy :: "node \<Rightarrow> bool" where
  "roomy n \<longleftrightarrow> node_ok n \<and> unat (childCapacity n) \<le> 2 * unat (childCount n) + 2"

lemma roomy_with_kid:
  assumes "roomy n" and "unat (childCount n) < 100"
  shows "roomy (with_kid c n)"
proof -
  have double: "unat (childCapacity n * 2) = unat (childCapacity n) * 2"
    using assms by (simp add: roomy_def node_ok_def unat_mult_lem [THEN iffD1])
  have count: "unat (childCount n + 1) = Suc (unat (childCount n))"
    using assms(2) by (simp add: unat_u16_add)
  show ?thesis
    using assms double count
    by (auto simp: roomy_def node_ok_def with_kid_def grown_def grow_children_def Let_def word_unat_eq_iff)
qed

lemma add_child_heap:
  assumes "nodes s a = Some n" and "node_ok n" and "a \<noteq> mallocs s"
    and "malloc_ok s (mallocs s)" and "malloc_ok s (Suc (mallocs s))" and "nextId s < 2147483647"
  shows "\<exists>u n'. task_tree_add_child (Ptr a) task s = Inr (Ptr (mallocs s), u)
    \<and> nodes u = (nodes s)(mallocs s \<mapsto> new_node (nextId s) (Ptr a) task, a \<mapsto> n')
    \<and> extended (mallocs s) n n' \<and> n_task n' = n_task n \<and> n_id n' = n_id n
    \<and> n_parent n' = n_parent n \<and> nextId u = nextId s + 1 \<and> n' = with_kid (mallocs s) n"
proof -
  let ?c = "mallocs s"
  let ?n = "(grown n)\<lparr>children := (children (grown n))[unat (childCount n) := Ptr ?c],
    childCount := childCount n + 1\<rparr>"
  have kid: "?n = with_kid ?c n" by (simp add: with_kid_def)
  note g = grown_facts [OF assms(2)]
  have count: "unat (childCount n + 1) = Suc (unat (childCount n))"
    using assms(2) by (simp add: node_ok_def unat_u16_add)
  have "extended ?c n ?n"
    using g(2,3) by (simp add: extended_def count take_Suc_conv_app_nth)
  moreover have "n_task ?n = n_task n" "n_id ?n = n_id n" "n_parent ?n = n_parent n"
    by (simp_all add: grown_def Let_def)
  moreover have "\<exists>u. task_tree_add_child (Ptr a) task s = Inr (Ptr ?c, u)
      \<and> nodes u = (nodes s)(?c \<mapsto> new_node (nextId s) (Ptr a) task, a \<mapsto> ?n)
      \<and> nextId u = nextId s + 1"
  proof (cases "childCount n = childCapacity n")
    case False
    then have "grown n = n" by (simp add: grown_def)
    with assms(1,3-6) g(2) False show ?thesis
      by (simp add: task_tree_add_child_def task_tree_create_node_def put_node_def st_simps
          new_node_def)
  next
    case True
    define cap where "cap = (if childCapacity n = 0 then 2 else childCapacity n * 2)"
    have "grown n = n\<lparr>childCapacity := cap, children := grow_children cap (children n)\<rparr>"
      using True by (simp add: grown_def cap_def Let_def)
    with assms(1,3-6) g(2) True show ?thesis
      by (simp add: task_tree_add_child_def task_tree_create_node_def put_node_def st_simps
          new_node_def cap_def [symmetric] del: if_split)
  qed
  ultimately show ?thesis using kid by blast
qed

section \<open>Removing a leaf\<close>

lemma message_free_nodes:
  "message_free p (s :: 'z tree_heap_scheme) = Inr ((), t) \<Longrightarrow> nodes t = nodes s \<and> mallocs t = mallocs s"
  by (cases p) (auto simp: message_free_def st_simps split: option.splits)

lemma free_messages_nodes:
  "free_messages n p (s :: 'z tree_heap_scheme) = Inr ((), t) \<Longrightarrow>
   nodes t = nodes s \<and> mallocs t = mallocs s"
proof (induction n arbitrary: p s)
  case (Suc n)
  from Suc.prems show ?case
    by (cases p) (auto simp: st_simps split: option.splits sum.splits
        dest!: message_free_nodes Suc.IH)
qed (simp add: st_simps)

lemma stack_free_nodes:
  "stack_free p (s :: 'z tree_heap_scheme) = Inr ((), t) \<Longrightarrow> nodes t = nodes s \<and> mallocs t = mallocs s"
  by (cases p) (auto simp: stack_free_def st_simps split: option.splits)

lemma message_queue_free_nodes:
  "message_queue_free p (s :: 'z tree_heap_scheme) = Inr ((), t) \<Longrightarrow>
   nodes t = nodes s \<and> mallocs t = mallocs s"
  by (cases p) (auto simp: message_queue_free_def st_simps split: option.splits sum.splits
      dest!: free_messages_nodes simp del: free_messages.simps)

lemma task_free_nodes:
  "task_free p (s :: 'z tree_heap_scheme) = Inr ((), t) \<Longrightarrow> nodes t = nodes s \<and> mallocs t = mallocs s"
  by (cases p) (auto simp: task_free_def st_simps split: option.splits sum.splits
      dest!: stack_free_nodes message_queue_free_nodes)

lemma shift_left_drops:
  "i + Suc k \<le> length xs \<Longrightarrow>
   \<exists>ys. shift_left k i xs = Some ys \<and> length ys = length xs
     \<and> take (i + k) ys = take i xs @ take k (drop (Suc i) xs)"
proof (induction k arbitrary: i xs)
  case 0
  then show ?case by simp
next
  case (Suc k)
  let ?xs = "xs[i := xs ! Suc i]"
  from Suc.IH [of "Suc i" ?xs] Suc.prems obtain ys where
    ys: "shift_left k (Suc i) ?xs = Some ys" "length ys = length xs"
      "take (Suc i + k) ys = take (Suc i) ?xs @ take k (drop (Suc (Suc i)) ?xs)" by auto
  have "take (Suc i) ?xs = take i xs @ [xs ! Suc i]"
    using Suc.prems by (simp add: take_Suc_conv_app_nth)
  moreover have "take (Suc k) (drop (Suc i) xs) = xs ! Suc i # take k (drop (Suc (Suc i)) xs)"
    using Suc.prems by (simp add: Cons_nth_drop_Suc [symmetric])
  ultimately show ?case using ys Suc.prems by auto
qed

lemma task_tree_free_leaf:
  assumes "nodes s c = Some n" and "childCount n = 0" and "task_free (n_task n) s = Inr ((), t)"
  shows "task_tree_free (Suc (Suc k)) (Ptr c) s = Inr ((), t\<lparr>nodes := (nodes s)(c := None),
    dynamic_memory_usage := dynamic_memory_usage t - sizeof_TaskTreeNode\<rparr>)"
  using assms task_free_nodes [OF assms(3)] by (simp add: st_simps)

lemma remove_child_from_leaf:
  assumes "nodes s a = Some p" and "j \<le> i" and "i < unat (childCount p)"
    and "unat (childCount p) \<le> length (children p)" and "i - j < k"
    and "\<And>l. j \<le> l \<Longrightarrow> l < i \<Longrightarrow> \<exists>b m. children p ! l = Ptr b \<and> nodes s b = Some m \<and> n_id m \<noteq> n_id n"
    and "children p ! i = Ptr c" and "nodes s c = Some n" and "childCount n = 0" and "c \<noteq> a"
    and "task_free (n_task n) s = Inr ((), t)"
  shows "\<exists>u p'. remove_child_from k (Ptr a) (n_id n) j s = Inr ((), u)
    \<and> nodes u = (nodes s)(c := None, a \<mapsto> p') \<and> unat (childCount p') = unat (childCount p) - 1
    \<and> length (children p') = length (children p)
    \<and> take (unat (childCount p')) (children p') =
        take i (children p) @ drop (Suc i) (take (unat (childCount p)) (children p))"
  using assms(2,5,6)
proof (induction "i - j" arbitrary: j k)
  case 0
  then have ij: "j = i" by simp
  obtain m where k: "k = Suc m" using 0 by (cases k) auto
  let ?t = "t\<lparr>nodes := (nodes s)(c := None),
    dynamic_memory_usage := dynamic_memory_usage t - sizeof_TaskTreeNode\<rparr>"
  have "tree_fuel s = Suc (Suc (Suc (3 * mallocs s)))" by (simp add: tree_fuel_def)
  with task_tree_free_leaf [OF assms(8,9,11)]
  have free: "task_tree_free (tree_fuel s) (Ptr c) s = Inr ((), ?t)" by simp
  from shift_left_drops [of i "unat (childCount p) - 1 - i" "children p"] assms(3,4) obtain ys where
    ys: "shift_left (unat (childCount p) - 1 - i) i (children p) = Some ys"
      "length ys = length (children p)"
      "take (unat (childCount p) - 1) ys =
        take i (children p) @ take (unat (childCount p) - 1 - i) (drop (Suc i) (children p))"
    by auto
  let ?p = "p\<lparr>children := ys, childCount := childCount p - 1\<rparr>"
  have "1 \<le> childCount p" using assms(3) by (simp add: word_le_nat_alt)
  from unat_u16_sub [OF this] have count: "unat (childCount ?p) = unat (childCount p) - 1" by simp
  have "remove_child_from k (Ptr a) (n_id n) j s = Inr ((), ?t\<lparr>nodes := (nodes ?t)(a \<mapsto> ?p)\<rparr>)"
    using assms(1,3,4,7,8,10) free ys(1)
    by (simp add: k ij st_simps nth_opt_def put_node_def fun_upd_other)
  with ys count show ?case
    by (intro exI [of _ "?t\<lparr>nodes := (nodes ?t)(a \<mapsto> ?p)\<rparr>"] exI [of _ ?p])
      (simp add: drop_take)
next
  case (Suc d)
  then have ji: "j < i" by simp
  obtain m where k: "k = Suc m" using Suc by (cases k) auto
  obtain b x where x: "children p ! j = Ptr b" "nodes s b = Some x" "n_id x \<noteq> n_id n"
    using Suc.prems(3) [of j] ji by auto
  have "remove_child_from k (Ptr a) (n_id n) j s = remove_child_from m (Ptr a) (n_id n) (Suc j) s"
    using x ji assms(1,3,4) by (simp add: k st_simps nth_opt_def)
  moreover have "d = i - Suc j" "Suc j \<le> i" "i - Suc j < m" using Suc.hyps(2) Suc.prems(2) k by auto
  from Suc.hyps(1) [OF this] Suc.prems(3)
  have "\<exists>u p'. remove_child_from m (Ptr a) (n_id n) (Suc j) s = Inr ((), u)
    \<and> nodes u = (nodes s)(c := None, a \<mapsto> p') \<and> unat (childCount p') = unat (childCount p) - 1
    \<and> length (children p') = length (children p)
    \<and> take (unat (childCount p')) (children p') =
        take i (children p) @ drop (Suc i) (take (unat (childCount p)) (children p))" by simp
  ultimately show ?case by simp
qed

lemma remove_leaf:
  assumes "tree_at (nodes s) (Node a ts)" and "distinct (preorder (Node a ts))"
    and "i < length ts" and "ts ! i = Node c []" and "nodes s c = Some n" and "n_parent n = Ptr a"
    and "\<forall>l < i. \<forall>m. nodes s (node_addr (ts ! l)) = Some m \<longrightarrow> n_id m \<noteq> n_id n"
    and "task_free (n_task n) s = Inr ((), t)"
  shows "\<exists>u. task_tree_remove_child (Ptr c) s = Inr ((), u) \<and> nodes u c = None
    \<and> tree_at (nodes u) (Node a (take i ts @ drop (Suc i) ts))"
proof -
  obtain p where p: "nodes s a = Some p" "unat (childCount p) = length ts"
      "length ts \<le> length (children p)"
      "take (length ts) (children p) = map (\<lambda>t. Ptr (node_addr t)) ts"
    using assms(1) by (auto split: option.splits)
  have kid: "children p ! l = Ptr (node_addr (ts ! l))" "tree_at (nodes s) (ts ! l)"
    if "l < length ts" for l
  proof -
    have "children p ! l = take (length ts) (children p) ! l" using that by simp
    then show "children p ! l = Ptr (node_addr (ts ! l))" using p(4) that by simp
    show "tree_at (nodes s) (ts ! l)" using assms(1) that by simp
  qed
  have ci: "children p ! i = Ptr c" using kid(1) [OF assms(3)] assms(4) by simp
  have zero: "childCount n = 0" using kid(2) [OF assms(3)] assms(4,5) by (simp add: word_unat_eq_iff)
  have "c \<in> set (concat (map preorder ts))" using assms(3,4) nth_mem [OF assms(3)] by force
  then have ca: "c \<noteq> a" using assms(2) by auto
  have ids: "\<exists>b m. children p ! l = Ptr b \<and> nodes s b = Some m \<and> n_id m \<noteq> n_id n" if "l < i" for l
  proof -
    obtain b us where b: "ts ! l = Node b us" by (cases "ts ! l") auto
    from kid(2) [of l] that assms(3) obtain m where "nodes s b = Some m"
      by (auto simp: b split: option.splits)
    with kid(1) [of l] that assms(3,7) show ?thesis by (auto simp: b)
  qed
  obtain u p' where u: "remove_child_from (Suc (unat (childCount p))) (Ptr a) (n_id n) 0 s = Inr ((), u)"
      "nodes u = (nodes s)(c := None, a \<mapsto> p')" "unat (childCount p') = unat (childCount p) - 1"
      "length (children p') = length (children p)"
      "take (unat (childCount p')) (children p') =
        take i (children p) @ drop (Suc i) (take (unat (childCount p)) (children p))"
    using remove_child_from_leaf [OF p(1), of 0 i "Suc (unat (childCount p))" n c t]
      assms(3,5,8) p(2,3) ids ci zero ca by auto
  have run: "task_tree_remove_child (Ptr c) s = Inr ((), u)"
    using assms(5,6) p(1) u(1)
    by (simp add: task_tree_remove_child_def st_simps del: remove_child_from.simps)
  have gone: "nodes u c = None" using u(2) ca by (simp add: fun_upd_apply)
  let ?ts = "take i ts @ drop (Suc i) ts"
  have "take i (children p) = take i (take (length ts) (children p))" using assms(3) by simp
  then have "take (unat (childCount p')) (children p') = map (\<lambda>t. Ptr (node_addr t)) ?ts"
    unfolding u(5) p(2) p(4) by (simp add: take_map drop_map)
  moreover have "tree_at (nodes u) t'" if "t' \<in> set ?ts" for t'
  proof -
    have "ts = take i ts @ ts ! i # drop (Suc i) ts" using assms(3) by (rule id_take_nth_drop)
    with assms(2,4) have "distinct (a # concat (map preorder (take i ts)) @ c #
        concat (map preorder (drop (Suc i) ts)))"
      by (metis concat.simps concat_append list.simps(8,9) map_append preorder.simps append_Cons append_Nil)
    then have new: "c \<notin> set (preorder t')" "a \<notin> set (preorder t')" using that by auto
    have "t' \<in> set ts" using that by (auto dest: in_set_takeD in_set_dropD)
    with assms(1) have "tree_at (nodes s) t'" by simp
    with new show ?thesis by (simp add: u(2) tree_at_other)
  qed
  ultimately have "tree_at (nodes u) (Node a ?ts)"
    using u(2,3,4) p(2,3) assms(3) by simp
  with run gone show ?thesis by blast
qed

section \<open>A concrete tree\<close>

text \<open>A root at address 1 with two leaves at 2 and 3; the task of the leaf at 2 is complete.\<close>

definition demo_node :: "u16 \<Rightarrow> ptr list \<Rightarrow> ptr \<Rightarrow> ptr \<Rightarrow> node" where
  "demo_node i cs parent task = \<lparr>n_id = i, children = cs, childCount = of_nat (length cs),
     childCapacity = of_nat (length cs), n_parent = parent, n_task = task\<rparr>"

definition demo_task :: task where
  "demo_task = \<lparr>t_opstack = Ptr 20, t_stack = Ptr 21, t_inbox = Ptr 22, t_id = 1, t_ip = 0,
     t_message_handler_address = 0, t_active = 0\<rparr>"

definition empty_stack :: "u16 \<Rightarrow> stack" where
  "empty_stack n = \<lparr>stk_data = replicate (unat n) 0, stk_size = n, sp = 0, bp = 0\<rparr>"

definition demo_tree :: tree_heap where
  "demo_tree = \<lparr>out = [], malloc_ok = (\<lambda>_. True), mallocs = 30, dynamic_memory_usage = 1000,
     stacks = [20 \<mapsto> empty_stack 16, 21 \<mapsto> empty_stack 16], messages = Map.empty,
     queues = [22 \<mapsto> \<lparr>q_next = Null, q_task_id = 1, q_head = Null, q_tail = Null, q_count = 0\<rparr>],
     tasks = [12 \<mapsto> demo_task],
     nodes = [1 \<mapsto> demo_node 0 [Ptr 2, Ptr 3] Null (Ptr 11), 2 \<mapsto> demo_node 1 [] (Ptr 1) (Ptr 12),
       3 \<mapsto> demo_node 2 [] (Ptr 1) (Ptr 13)],
     nextId = 3\<rparr>"

lemma demo_tree_nodes [simp]:
  "nodes demo_tree 1 = Some (demo_node 0 [Ptr 2, Ptr 3] Null (Ptr 11))"
  "nodes demo_tree (Suc 0) = Some (demo_node 0 [Ptr 2, Ptr 3] Null (Ptr 11))"
  "nodes demo_tree 2 = Some (demo_node 1 [] (Ptr 1) (Ptr 12))"
  "nodes demo_tree 3 = Some (demo_node 2 [] (Ptr 1) (Ptr 13))"
  "mallocs demo_tree = 30" "nextId demo_tree = 3" "malloc_ok demo_tree n"
  by (simp_all add: demo_tree_def)

lemma demo_tree_at: "tree_at (nodes demo_tree) (Node 1 [Node 2 [], Node 3 []])"
  by (simp add: demo_node_def)

section \<open>Properties\<close>

text \<open>C19: the traversal is the preorder. As long as the processing function leaves the tree
  alone, \<open>task_tree_traverse_dfs\<close> calls it on every node of the tree exactly once, a node
  before its children and the children from first to last; the order of its effects, and
  where it stops, are those of the plain sequence of calls. Two units of fuel per node are
  enough.\<close>

theorem traversal_is_preorder:
  assumes "tree_at (nodes s) t" and "keeps_nodes f" and "2 * length (preorder t) \<le> n"
  shows "task_tree_traverse_dfs n (Ptr (node_addr t)) f s = run_all f (preorder t) s"
  by (rule dfs_fuel(1) [OF keeps_leaves [OF assms(2)] _ subset_UNIV assms(1,3)]) simp

theorem traversal_is_preorder_witness:
  "task_tree_traverse_dfs 6 (Ptr 1) (\<lambda>p. vmprintf ''node'' [AInt (int (addr_of_ptr p))]) demo_tree
     = Inr ((), demo_tree\<lparr>out := [Printf ''node'' [AInt 1], Printf ''node'' [AInt 2],
         Printf ''node'' [AInt 3]]\<rparr>)"
proof -
  let ?f = "\<lambda>p. vmprintf ''node'' [AInt (int (addr_of_ptr p))] :: (tree_heap, unit) st"
  have keeps: "keeps_nodes ?f" by (simp add: keeps_nodes_def st_simps)
  have fuel: "2 * length (preorder (Node 1 [Node 2 [], Node 3 []])) \<le> 6" by simp
  have "out demo_tree = []" by (simp add: demo_tree_def)
  with traversal_is_preorder [OF demo_tree_at keeps fuel] show ?thesis
    by (simp add: st_simps)
qed

text \<open>C20: adding a child. For a node of the tree whose array is consistent, and with memory for
  the node and the array, \<open>task_tree_add_child\<close> returns a fresh node that holds the task, has
  the given parent, no children and the next id, and the tree afterwards is the tree with a
  leaf appended behind that parent's children, whether or not the array had to grow.\<close>

theorem add_child_appends:
  assumes "tree_at (nodes s) t" and "distinct (preorder t)" and "a \<in> set (preorder t)"
    and "mallocs s \<notin> set (preorder t)" and "nodes s a = Some n" and "node_ok n"
    and "malloc_ok s (mallocs s)" and "malloc_ok s (Suc (mallocs s))" and "nextId s < 2147483647"
  shows "\<exists>u. task_tree_add_child (Ptr a) task s = Inr (Ptr (mallocs s), u)
    \<and> tree_at (nodes u) (add_kid a (mallocs s) t)
    \<and> nodes u (mallocs s) = Some (new_node (nextId s) (Ptr a) task) \<and> nextId u = nextId s + 1"
proof -
  have ac: "a \<noteq> mallocs s" using assms(3,4) by auto
  obtain u n' where u: "task_tree_add_child (Ptr a) task s = Inr (Ptr (mallocs s), u)"
      "nodes u = (nodes s)(mallocs s \<mapsto> new_node (nextId s) (Ptr a) task, a \<mapsto> n')"
      "extended (mallocs s) n n'" "nextId u = nextId s + 1"
    using add_child_heap [OF assms(5,6) ac assms(7-9), of task] by blast
  have "tree_at (nodes u) (add_kid a (mallocs s) t)"
    unfolding u(2) by (rule tree_at_add_kid [OF assms(1-5) u(3)]) (simp add: new_node_def)
  with u ac show ?thesis by auto
qed

theorem add_child_appends_witness:
  "\<exists>u. task_tree_add_child (Ptr 1) (Ptr 14) demo_tree = Inr (Ptr 30, u)
     \<and> tree_at (nodes u) (Node 1 [Node 2 [], Node 3 [], Node 30 []])"
proof -
  let ?t = "Node 1 [Node 2 [], Node 3 []]"
  have "distinct (preorder ?t)" "1 \<in> set (preorder ?t)" "mallocs demo_tree \<notin> set (preorder ?t)"
    "nodes demo_tree 1 = Some (demo_node 0 [Ptr 2, Ptr 3] Null (Ptr 11))"
    "node_ok (demo_node 0 [Ptr 2, Ptr 3] Null (Ptr 11))" "malloc_ok demo_tree (mallocs demo_tree)"
    "malloc_ok demo_tree (Suc (mallocs demo_tree))" "nextId demo_tree < 2147483647"
    by (simp_all add: node_ok_def demo_node_def)
  from add_child_appends [OF demo_tree_at this, of "Ptr 14"]
  show ?thesis by (auto simp del: tree_at.simps)
qed

text \<open>C21: removing a leaf. When the node's task can be freed and no earlier sibling has its id,
  \<open>task_tree_remove_child\<close> frees the node and takes it out of its parent's array: the other
  children keep their order and their subtrees.\<close>

theorem remove_child_drops_leaf:
  assumes "tree_at (nodes s) (Node a ts)" and "distinct (preorder (Node a ts))"
    and "i < length ts" and "ts ! i = Node c []" and "nodes s c = Some n" and "n_parent n = Ptr a"
    and "\<forall>l < i. \<forall>m. nodes s (node_addr (ts ! l)) = Some m \<longrightarrow> n_id m \<noteq> n_id n"
    and "task_free (n_task n) s = Inr ((), t)"
  shows "\<exists>u. task_tree_remove_child (Ptr c) s = Inr ((), u) \<and> nodes u c = None
    \<and> tree_at (nodes u) (Node a (take i ts @ drop (Suc i) ts))"
  by (rule remove_leaf [OF assms])

theorem remove_child_drops_leaf_witness:
  "\<exists>u. task_tree_remove_child (Ptr 2) demo_tree = Inr ((), u) \<and> nodes u 2 = None
     \<and> tree_at (nodes u) (Node 1 [Node 3 []])"
proof -
  let ?ts = "[Node 2 [], Node 3 []]" and ?n = "demo_node 1 [] (Ptr 1) (Ptr 12)"
  have "\<exists>t. task_free (n_task ?n) demo_tree = Inr ((), t)"
    by (simp add: demo_node_def task_free_def stack_free_def message_queue_free_def st_simps
        demo_tree_def demo_task_def empty_stack_def)
  then obtain t where t: "task_free (n_task ?n) demo_tree = Inr ((), t)" by blast
  have h: "distinct (preorder (Node 1 ?ts))" "0 < length ?ts" "?ts ! 0 = Node 2 []"
    "nodes demo_tree 2 = Some ?n" "n_parent ?n = Ptr 1"
    "\<forall>l < 0. \<forall>m. nodes demo_tree (node_addr (?ts ! l)) = Some m \<longrightarrow> n_id m \<noteq> n_id ?n"
    by (simp_all add: demo_node_def)
  from remove_child_drops_leaf [OF demo_tree_at h t] show ?thesis
    by (auto simp del: tree_at.simps)
qed

end
