(* ===== verification/Heap_Spec.thy ===== *)
theory Heap_Spec
  imports Control_Spec
begin

text \<open>
  Predicates that the machine keeps. A program that starts in a state with \<open>I\<close> returns in states
  with \<open>I\<close>, or the process stops in a state with \<open>I\<close> or \<open>E\<close>. What each kind of object keeps while
  it exists is stated here, and the locale \<open>heap_laws\<close>: a predicate closed under the changes of
  state that the C code makes while it runs is kept by every function of the machine but
  \<open>HALT\<close>, in the states it returns and in the states in which it stops.
\<close>

section \<open>Keeping a predicate\<close>

definition maintains :: "('s \<Rightarrow> bool) \<Rightarrow> ('s \<Rightarrow> bool) \<Rightarrow> ('s, 'a) st \<Rightarrow> bool" where
  "maintains I E m \<longleftrightarrow> (\<forall>s. I s \<longrightarrow> (case m s of Inl (w, t) \<Rightarrow> I t \<or> E t | Inr (x, t) \<Rightarrow> I t))"

abbreviation keeps :: "('s \<Rightarrow> bool) \<Rightarrow> ('s, 'a) st \<Rightarrow> bool" where
  "keeps I \<equiv> maintains I I"

text \<open>The same, with a property of the returned value.\<close>

definition hands_back :: "('s \<Rightarrow> bool) \<Rightarrow> ('s \<Rightarrow> bool) \<Rightarrow> ('s, 'a) st \<Rightarrow> ('a \<Rightarrow> bool) \<Rightarrow> bool" where
  "hands_back I E m Q \<longleftrightarrow> (\<forall>s. I s \<longrightarrow> (case m s of Inl (w, t) \<Rightarrow> I t \<or> E t | Inr (x, t) \<Rightarrow> I t \<and> Q x))"

named_theorems keeps_intros \<open>which programs keep a predicate\<close>

lemma maintainsI: "(\<And>s. I s \<Longrightarrow> case m s of Inl (w, t) \<Rightarrow> I t \<or> E t | Inr (x, t) \<Rightarrow> I t) \<Longrightarrow> maintains I E m"
  by (simp add: maintains_def)

lemma keeps_def: "keeps I m \<longleftrightarrow> (\<forall>s. I s \<longrightarrow> (case m s of Inl (w, t) \<Rightarrow> I t | Inr (x, t) \<Rightarrow> I t))"
  by (auto simp: maintains_def split: sum.splits)

lemma keepsI: "(\<And>s. I s \<Longrightarrow> case m s of Inl (w, t) \<Rightarrow> I t | Inr (x, t) \<Rightarrow> I t) \<Longrightarrow> keeps I m"
  by (simp add: keeps_def)

lemma hands_backI:
  "(\<And>s. I s \<Longrightarrow> case m s of Inl (w, t) \<Rightarrow> I t \<or> E t | Inr (x, t) \<Rightarrow> I t \<and> Q x) \<Longrightarrow> hands_back I E m Q"
  by (simp add: hands_back_def)

lemma hands_back_bind:
  assumes "hands_back I E m Q" and "\<And>x. Q x \<Longrightarrow> hands_back I E (f x) R"
  shows "hands_back I E (bind m f) R"
proof (rule hands_backI)
  fix s assume "I s"
  with assms(1) have "case m s of Inl (w, t) \<Rightarrow> I t \<or> E t | Inr (x, t) \<Rightarrow> I t \<and> Q x" by (simp add: hands_back_def)
  with assms(2) show "case bind m f s of Inl (w, t) \<Rightarrow> I t \<or> E t | Inr (x, t) \<Rightarrow> I t \<and> R x"
    by (cases "m s") (auto simp: bind_def hands_back_def)
qed

lemma hands_back_maintains: "hands_back I E m (\<lambda>_. True) = maintains I E m"
  by (auto simp: hands_back_def maintains_def split: sum.splits)

lemma hands_back_after: "maintains I E m \<Longrightarrow> (\<And>x. hands_back I E (f x) R) \<Longrightarrow> hands_back I E (bind m f) R"
  using hands_back_bind [of I E m "\<lambda>_. True" f R] by (simp add: hands_back_maintains)

lemma hands_back_seq: "maintains I E m \<Longrightarrow> hands_back I E n R \<Longrightarrow> hands_back I E (seq m n) R"
  unfolding seq_def by (rule hands_back_after)

lemma hands_back_return: "R x \<Longrightarrow> hands_back I E (return x) R"
  by (simp add: hands_back_def return_def)

lemma hands_back_stop: "hands_back I E (stop_with w) R"
  by (simp add: hands_back_def stop_with_def)

lemma hands_back_if: "(c \<Longrightarrow> hands_back I E m R) \<Longrightarrow> (\<not> c \<Longrightarrow> hands_back I E n R) \<Longrightarrow> hands_back I E (if c then m else n) R"
  by simp

lemma keeps_hands_back: "hands_back I E m Q \<Longrightarrow> (\<And>x. Q x \<Longrightarrow> maintains I E (f x)) \<Longrightarrow> maintains I E (bind m f)"
  using hands_back_bind [of I E m Q f "\<lambda>_. True"] by (simp add: hands_back_maintains)

lemma keeps_return [keeps_intros]: "maintains I E (return x)"
  by (simp add: maintains_def return_def)

lemma keeps_stop [keeps_intros]: "maintains I E (stop_with w)"
  by (simp add: maintains_def stop_with_def)

lemma keeps_gets [keeps_intros]: "maintains I E (gets f)"
  by (simp add: maintains_def gets_def)

lemma keeps_bind [keeps_intros]: "maintains I E m \<Longrightarrow> (\<And>x. maintains I E (f x)) \<Longrightarrow> maintains I E (bind m f)"
  using keeps_hands_back [of I E m "\<lambda>_. True" f] by (simp add: hands_back_maintains)

lemma keeps_seq [keeps_intros]: "maintains I E m \<Longrightarrow> maintains I E n \<Longrightarrow> maintains I E (seq m n)"
  by (simp add: seq_def keeps_bind)

lemma keeps_if [keeps_intros]: "maintains I E m \<Longrightarrow> maintains I E n \<Longrightarrow> maintains I E (if c then m else n)"
  by simp

lemma keeps_option [keeps_intros]:
  "maintains I E m \<Longrightarrow> (\<And>x. maintains I E (f x)) \<Longrightarrow> maintains I E (case v of None \<Rightarrow> m | Some x \<Rightarrow> f x)"
  by (cases v) simp_all

lemma keeps_let [keeps_intros]: "(\<And>x. maintains I E (f x)) \<Longrightarrow> maintains I E (Let v f)"
  by (simp add: Let_def)

lemma keeps_the_init [keeps_intros]: "maintains I E (the_init v)"
  by (simp add: the_init_def keeps_intros)

lemma keeps_in_bounds [keeps_intros]: "maintains I E (in_bounds v)"
  by (simp add: in_bounds_def keeps_intros)

lemma keeps_deref [keeps_intros]: "maintains I E (deref h p)"
  by (cases p) (auto simp: maintains_def st_simps split: option.splits)

lemma keeps_is_null [keeps_intros]: "maintains I E (is_null p)"
  by (cases p) (simp_all add: st_simps keeps_intros)

lemma keeps_bool_of_bytes [keeps_intros]: "maintains I E (bool_of_bytes bs)"
  unfolding bool_of_bytes_def by (intro keeps_intros)

lemma keeps_modify: "(\<And>s. I s \<Longrightarrow> I (f s)) \<Longrightarrow> maintains I E (modify f)"
  by (simp add: maintains_def modify_def)

text \<open>Reading an object and then going on in the same state.\<close>

lemma keeps_deref_then:
  assumes "\<And>s a x. I s \<Longrightarrow> p = Ptr a \<Longrightarrow> h s a = Some x \<Longrightarrow>
      case f x s of Inl (w, t) \<Rightarrow> I t \<or> E t | Inr (r, t) \<Rightarrow> I t"
  shows "maintains I E (bind (deref h p) f)"
proof (rule maintainsI)
  fix s assume s: "I s"
  show "case bind (deref h p) f s of Inl (w, t) \<Rightarrow> I t \<or> E t | Inr (r, t) \<Rightarrow> I t"
  proof (cases p)
    case (Ptr a)
    with s assms show ?thesis by (cases "h s a") (simp_all add: st_simps)
  qed (use s in \<open>simp_all add: st_simps\<close>)
qed

lemma seq_then:
  assumes "case m s of Inl (w, t) \<Rightarrow> I t \<or> E t | Inr (x, t) \<Rightarrow> J t"
    and "\<And>t. J t \<Longrightarrow> case n t of Inl (w, u) \<Rightarrow> I u \<or> E u | Inr (x, u) \<Rightarrow> I u"
  shows "case seq m n s of Inl (w, t) \<Rightarrow> I t \<or> E t | Inr (x, t) \<Rightarrow> I t"
  using assms by (cases "m s") (auto simp: seq_apply)

lemma maintainsD:
  "maintains I E m \<Longrightarrow> I s \<Longrightarrow> case m s of Inl (w, t) \<Rightarrow> I t \<or> E t | Inr (x, t) \<Rightarrow> I t"
  by (simp add: maintains_def)

section \<open>What objects keep\<close>

text \<open>How an object may change while it exists. A stack keeps its size; a message keeps all but
  its link; an inbox keeps its owner and a link to the next inbox, and its count stays within
  four; a task keeps its stacks, inbox, id and handler; a node keeps its id, parent and task.\<close>

definition same_stack :: "stack \<Rightarrow> stack \<Rightarrow> bool" where
  "same_stack k k' \<longleftrightarrow> stk_size k' = stk_size k \<and> length (stk_data k') = length (stk_data k)"

definition same_message :: "message \<Rightarrow> message \<Rightarrow> bool" where
  "same_message m m' \<longleftrightarrow> m'\<lparr>m_next := m_next m\<rparr> = m"

definition same_queue :: "message_queue \<Rightarrow> message_queue \<Rightarrow> bool" where
  "same_queue q q' \<longleftrightarrow> q_task_id q' = q_task_id q \<and> (q_next q = Null \<or> q_next q' = q_next q)
     \<and> q_count q' \<le> max TASK_MESSAGE_QUEUE_SIZE (q_count q)"

definition same_task :: "task \<Rightarrow> task \<Rightarrow> bool" where
  "same_task k k' \<longleftrightarrow> k'\<lparr>t_ip := t_ip k, t_active := t_active k\<rparr> = k"

definition same_node :: "node \<Rightarrow> node \<Rightarrow> bool" where
  "same_node n n' \<longleftrightarrow> n_id n' = n_id n \<and> n_parent n' = n_parent n \<and> n_task n' = n_task n"

lemma same_refl [simp]:
  "same_stack k k" "same_message m m" "same_queue q q" "same_task t t" "same_node n n"
  by (simp_all add: same_stack_def same_message_def same_queue_def same_task_def same_node_def)

lemma same_trans:
  "same_stack k k' \<Longrightarrow> same_stack k' k'' \<Longrightarrow> same_stack k k''"
  "same_message m m' \<Longrightarrow> same_message m' m'' \<Longrightarrow> same_message m m''"
  "same_queue q q' \<Longrightarrow> same_queue q' q'' \<Longrightarrow> same_queue q q''"
  "same_task t t' \<Longrightarrow> same_task t' t'' \<Longrightarrow> same_task t t''"
  "same_node n n' \<Longrightarrow> same_node n' n'' \<Longrightarrow> same_node n n''"
proof -
  show "same_message m m' \<Longrightarrow> same_message m' m'' \<Longrightarrow> same_message m m''"
    by (cases m, cases m', cases m'') (simp add: same_message_def)
  show "same_task t t' \<Longrightarrow> same_task t' t'' \<Longrightarrow> same_task t t''"
    by (cases t, cases t', cases t'') (simp add: same_task_def)
  show "same_queue q q' \<Longrightarrow> same_queue q' q'' \<Longrightarrow> same_queue q q''"
    by (auto simp: same_queue_def le_max_iff_disj)
qed (auto simp: same_stack_def same_node_def)

text \<open>From the heap \<open>g\<close> to the heap \<open>h\<close>: an object below the address \<open>n\<close> was there before and has
  changed as \<open>R\<close> says; it may have been released, and does not come back.\<close>

definition evolves :: "('o \<Rightarrow> 'o \<Rightarrow> bool) \<Rightarrow> nat \<Rightarrow> (nat \<Rightarrow> 'o option) \<Rightarrow> (nat \<Rightarrow> 'o option) \<Rightarrow> bool" where
  "evolves R n g h \<longleftrightarrow> (\<forall>a y. a < n \<longrightarrow> h a = Some y \<longrightarrow> (\<exists>x. g a = Some x \<and> R x y))"

lemma evolves_refl [simp]: "(\<And>x. R x x) \<Longrightarrow> evolves R n h h"
  by (auto simp: evolves_def)

lemma evolves_put:
  assumes "evolves R n g h" and "h a = Some x" and "R x y" and "\<And>u v w. R u v \<Longrightarrow> R v w \<Longrightarrow> R u w"
  shows "evolves R n g (h(a \<mapsto> y))"
  unfolding evolves_def
proof (intro allI impI)
  fix b z assume b: "b < n" "(h(a \<mapsto> y)) b = Some z"
  show "\<exists>x. g b = Some x \<and> R x z"
  proof (cases "b = a")
    case True
    with assms(1,2) b obtain w where "g b = Some w" "R w x" unfolding evolves_def by metis
    with assms(3,4) b True show ?thesis by auto
  qed (use assms(1) b in \<open>auto simp: evolves_def\<close>)
qed

lemma evolves_new: "evolves R n g h \<Longrightarrow> n \<le> a \<Longrightarrow> evolves R n g (h(a \<mapsto> y))"
  by (auto simp: evolves_def fun_upd_apply split: if_splits)

lemma evolves_free: "evolves R n g h \<Longrightarrow> evolves R n g (h(a := None))"
  by (auto simp: evolves_def fun_upd_apply split: if_splits)

text \<open>A call leaves the inboxes alone.\<close>

lemma call_address_queues:
  fixes s t :: "'z cpu_scheme"
  assumes "call_address address s = Inr ((), t)"
  shows "queues t = queues s"
proof -
  have push: "queues v = queues u" if "stack_push_data p x n u = Inr ((), v)" for p x n u and v :: "'z cpu_scheme"
  proof (cases p)
    case (Ptr a)
    then show ?thesis
      using that
      by (cases "stacks u a") (auto simp: stack_push_data_def stack_push_bend_data_def stack_write_bend_data_at_def
          exit_failure_def put_stack_def Let_def in_bounds_def st_simps split: option.splits if_splits sum.splits)
  qed (use that in \<open>simp_all add: stack_push_data_def stack_push_bend_data_def st_simps\<close>)
  show ?thesis
  proof (cases "cpu_stack s")
    case (Ptr a)
    obtain u where u: "stack_push_data (cpu_stack s) (bytes_of_u16 (cpu_ip s)) 2 s = Inr ((), u)"
      using assms by (auto simp: call_address_def stack_push_u16_def st_simps split: sum.splits)
    obtain k where k: "call_stack (u\<lparr>cpu_ip := address\<rparr>) = Inr (k, u\<lparr>cpu_ip := address\<rparr>)"
      using assms u
      by (cases "cpu_stack u") (auto simp: call_address_def stack_push_u16_def call_stack_def st_simps split: option.splits)
    obtain v where v: "stack_push_data (cpu_stack u) (bytes_of_u16 (bp k)) 2 (u\<lparr>cpu_ip := address\<rparr>) = Inr ((), v)"
      using assms u k by (auto simp: call_address_def stack_push_u16_def st_simps split: sum.splits)
    have "queues t = queues v"
      using assms u k v
      by (cases "cpu_stack v") (auto simp: call_address_def stack_push_u16_def call_stack_def set_call_stack_def st_simps
          split: option.splits)
    with push [OF u] push [OF v] show ?thesis by simp
  qed (use assms in \<open>simp_all add: call_address_def stack_push_u16_def stack_push_data_def stack_push_bend_data_def st_simps\<close>)
qed

section \<open>The contract of an invariant\<close>

locale heap_laws =
  fixes I E :: "'z cpu_scheme \<Rightarrow> bool"
    and base :: nat
  assumes I_base: "I s \<Longrightarrow> base \<le> mallocs s"
    and I_out: "I s \<Longrightarrow> I (s\<lparr>out := out s @ [e]\<rparr>)"
    and I_mallocs: "I s \<Longrightarrow> I (s\<lparr>mallocs := Suc (mallocs s)\<rparr>)"
    and I_usage: "I s \<Longrightarrow> I (s\<lparr>dynamic_memory_usage := w\<rparr>)"
    and I_stack: "I s \<Longrightarrow> stacks s a = Some k \<Longrightarrow> same_stack k k' \<Longrightarrow> I (s\<lparr>stacks := (stacks s)(a \<mapsto> k')\<rparr>)"
    and I_stack_new: "I s \<Longrightarrow> base \<le> a \<Longrightarrow> a < mallocs s \<Longrightarrow> length (stk_data k) = unat (stk_size k) \<Longrightarrow>
      I (s\<lparr>stacks := (stacks s)(a \<mapsto> k)\<rparr>)"
    and I_stack_free: "I s \<Longrightarrow> I (s\<lparr>stacks := (stacks s)(a := None)\<rparr>)"
    and I_message: "I s \<Longrightarrow> messages s a = Some m \<Longrightarrow> same_message m m' \<Longrightarrow>
      I (s\<lparr>messages := (messages s)(a \<mapsto> m')\<rparr>)"
    and I_message_new: "I s \<Longrightarrow> base \<le> a \<Longrightarrow> I (s\<lparr>messages := (messages s)(a \<mapsto> m)\<rparr>)"
    and I_message_free: "I s \<Longrightarrow> I (s\<lparr>messages := (messages s)(a := None)\<rparr>)"
    and I_queue: "I s \<Longrightarrow> queues s a = Some q \<Longrightarrow> same_queue q q' \<Longrightarrow> I (s\<lparr>queues := (queues s)(a \<mapsto> q')\<rparr>)"
    and I_queue_new: "I s \<Longrightarrow> base \<le> a \<Longrightarrow> q_count q = 0 \<Longrightarrow> I (s\<lparr>queues := (queues s)(a \<mapsto> q)\<rparr>)"
    and I_queue_free: "I s \<Longrightarrow> I (s\<lparr>queues := (queues s)(a := None)\<rparr>)"
    and I_task: "I s \<Longrightarrow> tasks s a = Some t \<Longrightarrow> same_task t t' \<Longrightarrow> I (s\<lparr>tasks := (tasks s)(a \<mapsto> t')\<rparr>)"
    and I_task_new: "I s \<Longrightarrow> base \<le> a \<Longrightarrow> I (s\<lparr>tasks := (tasks s)(a \<mapsto> t)\<rparr>)"
    and I_task_free: "I s \<Longrightarrow> I (s\<lparr>tasks := (tasks s)(a := None)\<rparr>)"
    and I_node: "I s \<Longrightarrow> nodes s a = Some n \<Longrightarrow> same_node n n' \<Longrightarrow> I (s\<lparr>nodes := (nodes s)(a \<mapsto> n')\<rparr>)"
    and I_node_new: "I s \<Longrightarrow> base \<le> a \<Longrightarrow> I (s\<lparr>nodes := (nodes s)(a \<mapsto> n)\<rparr>)"
    and I_node_free: "I s \<Longrightarrow> I (s\<lparr>nodes := (nodes s)(a := None)\<rparr>)"
    and I_nextId: "I s \<Longrightarrow> I (s\<lparr>nextId := i\<rparr>)"
    and I_port_regs: "I s \<Longrightarrow> I (s\<lparr>port_regs := r\<rparr>)"
    and I_accepts: "I s \<Longrightarrow> I (s\<lparr>accepts := j\<rparr>)"
    and I_clock: "I s \<Longrightarrow> I (s\<lparr>clock_reads := j\<rparr>)"
    and I_ip: "I s \<Longrightarrow> I (s\<lparr>cpu_ip := ip\<rparr>)"
    and I_opstack: "I s \<Longrightarrow> I (s\<lparr>cpu_opstack := p\<rparr>)"
    and I_callstack: "I s \<Longrightarrow> I (s\<lparr>cpu_stack := p\<rparr>)"
    and I_current: "I s \<Longrightarrow> I (s\<lparr>cpu_task_tree_current_node := p\<rparr>)"
    and I_tasks_number: "I s \<Longrightarrow> cpu_tasks_number s \<noteq> MAX_TASKS \<Longrightarrow>
      I (s\<lparr>cpu_tasks_number := cpu_tasks_number s + 1\<rparr>)"
begin

lemmas laws = I_base I_out I_mallocs I_usage I_stack I_stack_new I_stack_free I_message I_message_new
  I_message_free I_queue I_queue_new I_queue_free I_task I_task_new I_task_free I_node I_node_new I_node_free
  I_nextId I_port_regs I_accepts I_clock I_ip I_opstack I_callstack I_current I_tasks_number

lemma emit [keeps_intros]: "maintains I E (emit e)"
  unfolding emit_def by (intro keeps_modify I_out)

lemma vmprintf [keeps_intros]: "maintains I E (vmprintf f xs)"
  unfolding vmprintf_def by (rule emit)

lemma exit_failure [keeps_intros]: "maintains I E exit_failure"
  unfolding exit_failure_def by (rule keeps_stop)

lemma c_malloc [keeps_intros]: "maintains I E c_malloc"
  by (rule maintainsI) (simp add: c_malloc_apply I_mallocs)

lemma vmmalloc [keeps_intros]: "maintains I E (vmmalloc n)"
  unfolding vmmalloc_def by (intro keeps_intros keeps_modify I_usage)

lemma vmcalloc [keeps_intros]: "maintains I E (vmcalloc c n)"
  unfolding vmcalloc_def by (intro keeps_intros keeps_modify I_usage)

lemma vmfree: "(\<And>s. I s \<Longrightarrow> I (f s)) \<Longrightarrow> maintains I E (vmfree f n)"
  unfolding vmfree_def by (intro keeps_intros keeps_modify I_usage)

text \<open>A new object is at an address from \<open>base\<close> on.\<close>

definition fresh :: "ptr \<Rightarrow> bool" where
  "fresh p \<longleftrightarrow> p = Null \<or> (\<exists>a. p = Ptr a \<and> base \<le> a)"

lemma fresh_malloc: "hands_back I E (vmmalloc n) fresh" "hands_back I E (vmcalloc c n) fresh"
  using I_base by (auto intro!: hands_backI I_mallocs simp: st_simps fresh_def I_usage [OF I_mallocs, simplified])

lemma get_memory_usage [keeps_intros]: "maintains I E get_memory_usage"
  unfolding get_memory_usage_def by (intro keeps_intros)

text \<open>Stacks.\<close>

lemma print_cells [keeps_intros]: "maintains I E (print_cells c i bs)"
  by (induction bs arbitrary: i) (simp_all add: keeps_intros)

lemma stack_print [keeps_intros]: "maintains I E (stack_print p)"
  unfolding stack_print_def by (intro keeps_intros)

lemma stack_error_print [keeps_intros]: "maintains I E (stack_error_print m)"
  unfolding stack_error_print_def by (intro keeps_intros)

lemma update_stack: 
  assumes "\<And>k. length (stk_data (f k)) = length (stk_data k)" and "\<And>k. stk_size (f k) = stk_size k"
  shows "maintains I E (bind (deref stacks p) (\<lambda>k. put_stack p (f k)))"
  by (cases p) (auto simp: maintains_def st_simps assms same_stack_def intro!: I_stack split: option.splits)

lemma bend_write_length:
  "bend_write v n address i data = Some data' \<Longrightarrow> length data' = length data"
proof (induction v n address i data rule: bend_write.induct)
  case (1 v n address i data)
  then show ?case by (subst (asm) (2) bend_write.simps) (auto split: if_splits)
qed

lemma stack_write [keeps_intros]: "maintains I E (stack_write_bend_data_at p v n address)"
proof (rule maintainsI)
  fix s assume s: "I s"
  have print: "case seq (vmprintf f xs) (seq (stack_print p) exit_failure) s of
      Inl (w, t) \<Rightarrow> I t \<or> E t | Inr (x, t) \<Rightarrow> I t" for f xs
  proof -
    have "maintains I E (seq (vmprintf f xs) (seq (stack_print p) exit_failure))" by (intro keeps_intros)
    with s show ?thesis by (auto simp: maintains_def)
  qed
  show "case stack_write_bend_data_at p v n address s of Inl (w, t) \<Rightarrow> I t \<or> E t | Inr (x, t) \<Rightarrow> I t"
  proof (cases p)
    case (Ptr a)
    show ?thesis
    proof (cases "stacks s a")
      case (Some k)
      show ?thesis
      proof (cases "bend_write v (unat n) (unat address) 0 (stk_data k)")
        case None
        with Some Ptr s print show ?thesis
          by (auto simp: stack_write_bend_data_at_def bind_apply deref_Ptr Let_def st_simps)
      next
        case (Some d)
        note d = this
        from bend_write_length [OF d] have len: "length d = length (stk_data k)" .
        have "I (s\<lparr>stacks := (stacks s)(a \<mapsto> k\<lparr>stk_data := d, sp := x\<rparr>)\<rparr>)" for x
          using s \<open>stacks s a = Some k\<close> len by (intro I_stack) (auto simp: same_stack_def)
        with d \<open>stacks s a = Some k\<close> Ptr print show ?thesis
          by (auto simp: stack_write_bend_data_at_def bind_apply deref_Ptr Let_def in_bounds_simps
              return_apply put_stack_apply)
      qed
    qed (use Ptr s in \<open>simp add: stack_write_bend_data_at_def st_simps\<close>)
  qed (use s in \<open>simp_all add: stack_write_bend_data_at_def st_simps\<close>)
qed

lemma stack_pop [keeps_intros]: "maintains I E (stack_pop_data p n)"
proof (rule maintainsI)
  fix s assume s: "I s"
  have print: "case seq (vmprintf f xs) (seq (stack_print p) exit_failure) s of
      Inl (w, t) \<Rightarrow> I t \<or> E t | Inr (x, t) \<Rightarrow> I t" for f xs
  proof -
    have "maintains I E (seq (vmprintf f xs) (seq (stack_print p) exit_failure))" by (intro keeps_intros)
    with s show ?thesis by (auto simp: maintains_def)
  qed
  show "case stack_pop_data p n s of Inl (w, t) \<Rightarrow> I t \<or> E t | Inr (x, t) \<Rightarrow> I t"
  proof (cases p)
    case (Ptr a)
    show ?thesis
    proof (cases "stacks s a")
      case (Some k)
      have "I (s\<lparr>stacks := (stacks s)(a \<mapsto> k\<lparr>sp := sp k - n\<rparr>)\<rparr>)"
        using s Some by (intro I_stack) (auto simp: same_stack_def)
      with Some Ptr print show ?thesis
        by (auto simp: stack_pop_data_def stack_pop_bend_data_def bind_apply deref_Ptr Let_def
            seq_apply in_bounds_def stop_with_apply return_apply put_stack_apply split: option.splits)
    qed (use Ptr s in \<open>simp add: stack_pop_data_def stack_pop_bend_data_def st_simps\<close>)
  qed (use s in \<open>simp_all add: stack_pop_data_def stack_pop_bend_data_def st_simps\<close>)
qed

lemma stack_push [keeps_intros]: "maintains I E (stack_push_data p v n)"
  unfolding stack_push_data_def stack_push_bend_data_def by (intro keeps_intros)

lemma stack_read [keeps_intros]: "maintains I E (stack_read_bend_data_at p n address)"
  unfolding stack_read_bend_data_at_def by (intro keeps_intros)

lemma stack_reads [keeps_intros]:
  "maintains I E (stack_read_data_at p n address)" "maintains I E (stack_read_U16 p address)"
  "maintains I E (stack_read_I16 p address)" "maintains I E (stack_read_F32 p address)"
  unfolding stack_read_data_at_def stack_read_U16_def stack_read_I16_def stack_read_F32_def
  by (intro keeps_intros)+

lemma sp_moves [keeps_intros]: "maintains I E (sp_add p n)" "maintains I E (sp_sub p n)"
  unfolding sp_add_def sp_sub_def by (rule update_stack; simp)+

lemma stack_free [keeps_intros]: "maintains I E (stack_free p)"
  unfolding stack_free_def by (intro keeps_intros vmfree I_stack_free)

lemma stack_create [keeps_intros]: "maintains I E (stack_create n)"
proof (rule maintainsI)
  fix s assume s: "I s"
  let ?t = "s\<lparr>mallocs := Suc (mallocs s), dynamic_memory_usage := dynamic_memory_usage s + sizeof_Stack\<rparr>"
  let ?u = "?t\<lparr>mallocs := Suc (mallocs ?t), dynamic_memory_usage := dynamic_memory_usage ?t + n\<rparr>"
  have t: "I ?t" "I (s\<lparr>mallocs := Suc (mallocs s)\<rparr>)" using I_usage [OF I_mallocs [OF s]] I_mallocs [OF s] by simp_all
  have u: "I ?u" "I (?t\<lparr>mallocs := Suc (mallocs ?t)\<rparr>)" 
    using I_usage [OF I_mallocs [OF t(1)]] I_mallocs [OF t(1)] by simp_all
  have new: "I (?u\<lparr>stacks := (stacks ?u)(mallocs s \<mapsto>
      \<lparr>stk_data = replicate (unat n) 0, stk_size = n, sp = 0, bp = 0\<rparr>)\<rparr>)"
    by (rule I_stack_new [OF u(1)]) (use I_base [OF s] in simp_all)
  have err: "I (v\<lparr>out := out v @ [e]\<rparr>)" if "I v" for v e by (rule I_out [OF that])
  show "case stack_create n s of Inl (w, t) \<Rightarrow> I t \<or> E t | Inr (x, t) \<Rightarrow> I t"
    using new err [OF t(2)] err [OF u(2)]
    by (simp add: stack_create_def stack_error_print_def st_simps)
qed

text \<open>Messages and inboxes.\<close>

lemma put_fresh_message: "fresh p \<Longrightarrow> p \<noteq> Null \<Longrightarrow> maintains I E (put_message p m)"
  unfolding put_message_def by (auto simp: fresh_def intro!: keeps_modify I_message_new)

lemma message_free [keeps_intros]: "maintains I E (message_free p)"
  unfolding message_free_def by (intro keeps_intros vmfree I_message_free)

lemma compute_crc [keeps_intros]: "maintains I E (compute_crc m)"
  unfolding compute_crc_def by (intro keeps_intros)

lemma message_create [keeps_intros]: "maintains I E (message_create a b c d bs n)"
  unfolding message_create_def
  by (rule keeps_hands_back [OF fresh_malloc(1)]) (auto intro!: keeps_intros put_fresh_message)

lemma message_queue_create: "hands_back I E (message_queue_create n) (\<lambda>p. fresh p \<and> p \<noteq> Null)"
proof -
  have "maintains I E (put_queue p \<lparr>q_next = Null, q_task_id = n, q_head = Null, q_tail = Null, q_count = 0\<rparr>)"
    if "fresh p" "p \<noteq> Null" for p
    using that unfolding put_queue_def by (auto simp: fresh_def intro!: keeps_modify I_queue_new)
  then show ?thesis
    unfolding message_queue_create_def
    by (intro hands_back_bind [OF fresh_malloc(1)] hands_back_if hands_back_seq hands_back_return keeps_intros)
      (simp_all add: exit_failure_def hands_back_stop)
qed

lemma free_messages [keeps_intros]: "maintains I E (free_messages n p)"
  by (induction n arbitrary: p) (auto intro!: keeps_intros)

lemma message_queue_free [keeps_intros]: "maintains I E (message_queue_free p)"
  unfolding message_queue_free_def by (intro keeps_intros vmfree I_queue_free)

text \<open>Only \<open>deliver_local\<close> appends to an inbox, after it has checked the count.\<close>

lemma enqueue_counted:
  assumes s: "I s" "queues s a = Some q" and room: "\<not> TASK_MESSAGE_QUEUE_SIZE \<le> q_count q"
  shows "case enqueue (Ptr a) p s of Inl (w, t) \<Rightarrow> I t \<or> E t | Inr (x, t) \<Rightarrow> I t"
proof -
  have count: "q_count q + 1 \<le> max TASK_MESSAGE_QUEUE_SIZE (q_count q)"
    using room unat_u16_add [of "q_count q" 1]
    by (simp add: TASK_MESSAGE_QUEUE_SIZE_def word_le_nat_alt max_def)
  have queue: "I (t\<lparr>queues := (queues t)(a \<mapsto> q')\<rparr>)"
    if "I t" "queues t = queues s" "q_next q' = q_next q" "q_task_id q' = q_task_id q" "q_count q' = q_count q + 1" for t q'
    using that s(2) count by (intro I_queue [of t a q]) (simp_all add: same_queue_def)
  show ?thesis
  proof (cases "q_head q")
    case Null
    with s(2) queue [OF s(1) refl] show ?thesis
      by (simp add: enqueue_def put_queue_def st_simps)
  next
    case (Ptr h)
    show ?thesis
    proof (cases "q_tail q")
      case (Ptr l)
      show ?thesis
      proof (cases "messages s l")
        case (Some m)
        have "I (s\<lparr>messages := (messages s)(l \<mapsto> m\<lparr>m_next := p\<rparr>)\<rparr>)"
          by (rule I_message [OF s(1) Some]) (simp add: same_message_def)
        from queue [OF this] Some Ptr \<open>q_head q = Ptr h\<close> s(2) show ?thesis
          by (simp add: enqueue_def put_queue_def put_message_def st_simps)
      qed (use Ptr \<open>q_head q = Ptr h\<close> s in \<open>simp add: enqueue_def st_simps\<close>)
    qed (use \<open>q_head q = Ptr h\<close> s in \<open>simp_all add: enqueue_def st_simps\<close>)
  qed (use s in \<open>simp add: enqueue_def st_simps\<close>)
qed

lemma deliver_loop [keeps_intros]: "maintains I E (deliver_loop n q m)"
proof (induction n arbitrary: q)
  case (Suc n)
  have null: "maintains I E (bind (deref messages m) (\<lambda>y.
      seq (vmprintf ''task %d not found\<newline>'' [AInt (uint (m_task_dst y))]) (seq (message_free m) (return False))))"
    by (intro keeps_intros)
  have deliver: "maintains I E (bind (deref queues q) (\<lambda>x. bind (deref messages m) (\<lambda>y.
      if q_task_id x = m_task_dst y
      then if q_count x \<ge> TASK_MESSAGE_QUEUE_SIZE
           then seq (vmprintf ''task %d inbox is full\<newline>'' [AInt (uint (m_task_dst y))]) (return False)
           else seq (enqueue q m) (return True)
      else deliver_loop n (q_next x) m)))"
  proof (rule keeps_deref_then)
    fix s a x assume s: "I s" "q = Ptr a" "queues s a = Some x"
    have full: "maintains I E (seq (vmprintf f xs) (return False))" for f xs by (intro keeps_intros)
    show "case bind (deref messages m) (\<lambda>y. if q_task_id x = m_task_dst y
        then if q_count x \<ge> TASK_MESSAGE_QUEUE_SIZE
             then seq (vmprintf ''task %d inbox is full\<newline>'' [AInt (uint (m_task_dst y))]) (return False)
             else seq (enqueue q m) (return True)
        else deliver_loop n (q_next x) m) s of Inl (w, t) \<Rightarrow> I t \<or> E t | Inr (r, t) \<Rightarrow> I t"
    proof (cases m)
      case (Ptr b)
      then show ?thesis
        using s maintainsD [OF Suc.IH s(1), of "q_next x"] maintainsD [OF full s(1)] enqueue_counted [OF s(1,3), of m]
        by (cases "messages s b") (auto simp: st_simps split: sum.splits simp del: deliver_loop.simps)
    qed (use s in \<open>simp_all add: st_simps\<close>)
  qed
  show ?case
    unfolding deliver_loop.simps by (rule keeps_bind [OF keeps_is_null], rule keeps_if [OF null deliver])
qed (simp add: keeps_intros)

lemma deliver_local [keeps_intros]: "maintains I E (deliver_local q m)"
  unfolding deliver_local_def by (intro keeps_intros)

lemma message_queue_send_message [keeps_intros]: "maintains I E (message_queue_send_message q a b bs n)"
  unfolding message_queue_send_message_def send_message_def send_remote_message_def
  by (intro keeps_intros)

lemma message_deserialize [keeps_intros]: "maintains I E (message_deserialize bs n)"
  unfolding message_deserialize_def
  by (rule keeps_if [OF keeps_return], rule keeps_hands_back [OF fresh_malloc(2)])
    (auto simp: Let_def intro!: keeps_intros put_fresh_message)

text \<open>Tasks and the task tree.\<close>

lemma task_create: "hands_back I E (task_create a b c d e) (\<lambda>p. fresh p \<and> p \<noteq> Null)"
proof -
  have "maintains I E (put_task p t)" if "fresh p" "p \<noteq> Null" for p t
    using that unfolding put_task_def by (auto simp: fresh_def intro!: keeps_modify I_task_new)
  then show ?thesis
    unfolding task_create_def
    by (rule_tac hands_back_bind [OF fresh_malloc(1)])
      (auto simp: exit_failure_def intro!: hands_back_if hands_back_seq hands_back_stop hands_back_return hands_back_after stack_create vmprintf)
qed

lemma task_free [keeps_intros]: "maintains I E (task_free p)"
  unfolding task_free_def by (intro keeps_intros vmfree I_task_free)

lemma put_fresh_node: "fresh p \<Longrightarrow> p \<noteq> Null \<Longrightarrow> maintains I E (put_node p n)"
  unfolding put_node_def by (auto simp: fresh_def intro!: keeps_modify I_node_new)

lemma task_tree_create_node: "hands_back I E (task_tree_create_node p) (\<lambda>p. fresh p \<and> p \<noteq> Null)"
proof -
  have "maintains I E (modify (\<lambda>s. s\<lparr>nextId := i\<rparr>))" for i by (intro keeps_modify I_nextId)
  then show ?thesis
    unfolding task_tree_create_node_def
    by (rule_tac hands_back_bind [OF fresh_malloc(1)])
      (auto simp: exit_failure_def intro!: hands_back_if hands_back_seq hands_back_stop hands_back_return hands_back_after put_fresh_node
        vmprintf keeps_gets)
qed

text \<open>Nodes that exist only change their array of children.\<close>

lemma node_children: "I s \<Longrightarrow> nodes s a = Some n \<Longrightarrow>
    I (s\<lparr>nodes := (nodes s)(a \<mapsto> n\<lparr>children := cs, childCount := i\<rparr>)\<rparr>)"
  by (rule I_node) (simp_all add: same_node_def)

lemma task_tree_add_child [keeps_intros]: "maintains I E (task_tree_add_child p q)"
proof -
  have parent: "maintains I E (bind (deref nodes c) (\<lambda>n. put_node c (n\<lparr>n_parent := p\<rparr>)))"
    if "fresh c \<and> c \<noteq> Null" for c
    using that by (intro keeps_intros put_fresh_node) simp_all
  have grow: "maintains I E (bind (deref nodes p) (\<lambda>n. if childCount n = childCapacity n
      then let cap = (if childCapacity n = 0 then 2 else childCapacity n * 2) in
        bind c_malloc (\<lambda>mem. if mem = Null
          then seq (vmprintf ''mem_alloc_failed: task child\<newline>'' []) exit_failure
          else put_node p (n\<lparr>childCapacity := cap, children := grow_children cap (children n)\<rparr>))
      else return ()))"
  proof (rule keeps_deref_then)
    fix s a n assume s: "I s" "p = Ptr a" "nodes s a = Some n"
    have "I (t\<lparr>nodes := (nodes t)(a \<mapsto> n\<lparr>childCapacity := cap, children := cs\<rparr>)\<rparr>)"
      if "I t" "nodes t = nodes s" for t cap cs
      using that s(3) by (intro I_node [of t a n]) (simp_all add: same_node_def)
    with s I_mallocs [OF s(1)] I_out [OF I_mallocs [OF s(1)]]
    show "case (if childCount n = childCapacity n
      then let cap = (if childCapacity n = 0 then 2 else childCapacity n * 2) in
        bind c_malloc (\<lambda>mem. if mem = Null
          then seq (vmprintf ''mem_alloc_failed: task child\<newline>'' []) exit_failure
          else put_node p (n\<lparr>childCapacity := cap, children := grow_children cap (children n)\<rparr>))
      else return ()) s of Inl (w, t) \<Rightarrow> I t \<or> E t | Inr (r, t) \<Rightarrow> I t"
      by (simp add: st_simps Let_def put_node_def)
  qed
  have add: "maintains I E (bind (deref nodes p) (\<lambda>n. if unat (childCount n) < length (children n)
      then seq (put_node p (n\<lparr>children := (children n)[unat (childCount n) := c], childCount := childCount n + 1\<rparr>)) (return c)
      else undef OutOfBounds))" for c
  proof (rule keeps_deref_then)
    fix s a n assume s: "I s" "p = Ptr a" "nodes s a = Some n"
    from node_children [OF s(1,3), where cs = "(children n)[unat (childCount n) := c]" and i = "childCount n + 1"] s
    show "case (if unat (childCount n) < length (children n)
      then seq (put_node p (n\<lparr>children := (children n)[unat (childCount n) := c], childCount := childCount n + 1\<rparr>)) (return c)
      else undef OutOfBounds) s of Inl (w, t) \<Rightarrow> I t \<or> E t | Inr (r, t) \<Rightarrow> I t"
      by (simp add: st_simps put_node_def)
  qed
  show ?thesis
    unfolding task_tree_add_child_def
    by (rule keeps_hands_back [OF task_tree_create_node]) (intro keeps_seq parent grow add)
qed

lemma task_tree_free [keeps_intros]:
  "maintains I E (task_tree_free n p)" "maintains I E (task_tree_free_from n p i)"
proof (induction n arbitrary: p i)
  case (Suc n)
  { case 1 show ?case by (auto intro!: keeps_intros vmfree I_node_free Suc.IH)
  next case 2 show ?case by (auto intro!: keeps_intros Suc.IH) }
qed (simp_all add: keeps_intros)

lemma remove_child_from [keeps_intros]: "maintains I E (remove_child_from n p nid i)"
proof (induction n arbitrary: i)
  case (Suc n)
  have shift: "maintains I E (bind (deref nodes p) (\<lambda>q. bind (in_bounds (shift_left (k q) i (children q))) (\<lambda>cs.
      put_node p (q\<lparr>children := cs, childCount := childCount q - 1\<rparr>))))" for k
  proof (rule keeps_deref_then)
    fix s a q assume s: "I s" "p = Ptr a" "nodes s a = Some q"
    from node_children [OF s(1,3), where i = "childCount q - 1"] s
    show "case bind (in_bounds (shift_left (k q) i (children q))) (\<lambda>cs.
        put_node p (q\<lparr>children := cs, childCount := childCount q - 1\<rparr>)) s of
      Inl (w, t) \<Rightarrow> I t \<or> E t | Inr (r, t) \<Rightarrow> I t"
      by (cases "shift_left (k q) i (children q)") (simp_all add: st_simps put_node_def)
  qed
  have found: "maintains I E (bind (gets tree_fuel) (\<lambda>f. seq (task_tree_free f c)
      (bind (deref nodes p) (\<lambda>q. bind (in_bounds (shift_left (unat (childCount q) - 1 - i) i (children q))) (\<lambda>cs.
        put_node p (q\<lparr>children := cs, childCount := childCount q - 1\<rparr>))))))" for c
    by (intro keeps_bind [OF keeps_gets] keeps_seq task_tree_free(1) shift)
  show ?case
    unfolding remove_child_from.simps
    by (rule keeps_bind [OF keeps_deref], rule keeps_if, rule keeps_bind [OF keeps_in_bounds],
        rule keeps_bind [OF keeps_deref], rule keeps_if, rule found, rule Suc, rule keeps_return)
qed (simp add: keeps_intros)

lemma task_tree_remove_child [keeps_intros]: "maintains I E (task_tree_remove_child p)"
  unfolding task_tree_remove_child_def by (intro keeps_intros)

lemma traverse [keeps_intros]:
  assumes "\<And>p. maintains I E (f p)"
  shows "maintains I E (task_tree_traverse_dfs n p f)" and "maintains I E (traverse_children n p i f)"
proof (induction n arbitrary: p i)
  case (Suc n)
  { case 1 show ?case by (auto intro!: keeps_intros Suc.IH assms)
  next case 2 show ?case by (auto intro!: keeps_intros Suc.IH) }
qed (simp_all add: keeps_intros)

text \<open>Ports, network and clock.\<close>

lemma ports [keeps_intros]:
  "maintains I E (port_of_address p a)" "maintains I E (port_bank_get_address p a)"
  "maintains I E (port_bank_set_address p a v)"
  unfolding port_bank_get_address_def port_bank_set_address_def port_of_address_def
  by (auto intro!: keeps_intros keeps_modify I_port_regs)

lemma server_receive_message [keeps_intros]: "maintains I E (server_receive_message p)"
  unfolding server_receive_message_def
  by (intro keeps_intros keeps_modify I_accepts) (auto split: accept_result.splits intro!: keeps_intros)

lemma clock [keeps_intros]: "maintains I E millis" "maintains I E (delay_ms n)"
  unfolding millis_def delay_ms_def by (auto intro!: keeps_intros keeps_modify I_clock)

text \<open>The processor and its instructions.\<close>

lemma cpu_fetch_data [keeps_intros]: "maintains I E (cpu_fetch_data n)"
  unfolding cpu_fetch_data_def by (intro keeps_intros keeps_modify I_ip)

text \<open>The new inbox is linked behind the last one, whose link is NULL.\<close>

lemma link_last_queue: "maintains I E (bind (last_queue n p) (\<lambda>l. bind (deref queues l) (\<lambda>q. put_queue l (q\<lparr>q_next := r\<rparr>))))"
proof (induction n arbitrary: p)
  case (Suc n)
  have "maintains I E (bind (deref queues p) (\<lambda>q. bind (bind (is_null (q_next q)) (\<lambda>null.
      if null then return p else last_queue n (q_next q))) (\<lambda>l. bind (deref queues l) (\<lambda>q. put_queue l (q\<lparr>q_next := r\<rparr>)))))"
  proof (rule keeps_deref_then)
    fix s a q assume s: "I s" "p = Ptr a" "queues s a = Some q"
    have "I (s\<lparr>queues := (queues s)(a \<mapsto> q\<lparr>q_next := r\<rparr>)\<rparr>)" if "q_next q = Null"
      using that by (intro I_queue [OF s(1,3)]) (simp add: same_queue_def)
    then show "case bind (bind (is_null (q_next q)) (\<lambda>null. if null then return p else last_queue n (q_next q)))
        (\<lambda>l. bind (deref queues l) (\<lambda>q. put_queue l (q\<lparr>q_next := r\<rparr>))) s of
      Inl (w, t) \<Rightarrow> I t \<or> E t | Inr (x, t) \<Rightarrow> I t"
    proof (cases "q_next q")
      case (Ptr b)
      then show ?thesis using maintainsD [OF Suc.IH s(1), of "Ptr b"] by (simp add: is_null_simps)
    qed (use s in \<open>simp_all add: st_simps put_queue_def\<close>)
  qed
  then show ?case by (simp add: bind_assoc)
qed (simp add: st_simps maintains_def)

lemma cpu_create_task_inbox: "fresh p \<and> p \<noteq> Null \<Longrightarrow> maintains I E (cpu_create_task_inbox p)"
proof -
  assume p: "fresh p \<and> p \<noteq> Null"
  have "maintains I E (put_task p t)" for t
    using p unfolding put_task_def by (auto simp: fresh_def intro!: keeps_modify I_task_new)
  then show ?thesis
    unfolding cpu_create_task_inbox_def
    by (intro keeps_bind keeps_deref keeps_hands_back [OF message_queue_create] keeps_seq keeps_gets link_last_queue)
qed

lemma count_task:
  assumes "maintains I E m"
  shows "maintains I E (bind (gets cpu_tasks_number) (\<lambda>n. if n = MAX_TASKS then vmprintf f xs
    else seq (modify (\<lambda>s. s\<lparr>cpu_tasks_number := cpu_tasks_number s + 1\<rparr>)) m))"
proof (rule maintainsI)
  fix s assume s: "I s"
  let ?t = "s\<lparr>cpu_tasks_number := cpu_tasks_number s + 1\<rparr>"
  have "case m ?t of Inl (w, t) \<Rightarrow> I t \<or> E t | Inr (x, t) \<Rightarrow> I t" if "cpu_tasks_number s \<noteq> MAX_TASKS"
    using assms I_tasks_number [OF s that] by (simp add: maintains_def)
  with s I_out [OF s] show "case bind (gets cpu_tasks_number) (\<lambda>n. if n = MAX_TASKS then vmprintf f xs
      else seq (modify (\<lambda>s. s\<lparr>cpu_tasks_number := cpu_tasks_number s + 1\<rparr>)) m) s of
        Inl (w, t) \<Rightarrow> I t \<or> E t | Inr (x, t) \<Rightarrow> I t"
    by (auto simp: st_simps split: sum.splits)
qed

lemma cpu_create_task [keeps_intros]: "maintains I E (cpu_create_task address)"
  unfolding cpu_create_task_def
  by (intro count_task keeps_intros keeps_hands_back [OF task_create] cpu_create_task_inbox)

lemma cpu_delete_task [keeps_intros]: "maintains I E (cpu_delete_task p)"
  unfolding cpu_delete_task_def by (intro keeps_intros)

lemma cpu_set_task_node [keeps_intros]: "maintains I E (cpu_set_task_node p)"
proof -
  have "maintains I E (bind (deref tasks q) (\<lambda>t. seq (put_task q (t\<lparr>t_active := 1\<rparr>))
      (modify (\<lambda>s. s\<lparr>cpu_ip := t_ip t, cpu_opstack := t_opstack t, cpu_stack := t_stack t,
         cpu_task_tree_current_node := p\<rparr>))))" for q
  proof (rule keeps_deref_then)
    fix s a t assume s: "I s" "q = Ptr a" "tasks s a = Some t"
    have "I (s\<lparr>tasks := (tasks s)(a \<mapsto> t\<lparr>t_active := 1\<rparr>)\<rparr>)"
      by (rule I_task [OF s(1,3)]) (simp add: same_task_def)
    from I_current [OF I_callstack [OF I_opstack [OF I_ip [OF this]]]] s(2)
    show "case seq (put_task q (t\<lparr>t_active := 1\<rparr>))
        (modify (\<lambda>s. s\<lparr>cpu_ip := t_ip t, cpu_opstack := t_opstack t, cpu_stack := t_stack t,
           cpu_task_tree_current_node := p\<rparr>)) s of Inl (w, t) \<Rightarrow> I t \<or> E t | Inr (x, t) \<Rightarrow> I t"
      by (simp add: st_simps put_task_def)
  qed
  then show ?thesis unfolding cpu_set_task_node_def by (rule keeps_bind [OF keeps_deref])
qed

lemma cpu_context_switch [keeps_intros]: "maintains I E (cpu_context_switch p)"
proof -
  have save: "maintains I E (bind (deref tasks q) (\<lambda>t. bind (gets cpu_ip) (\<lambda>ip.
      put_task q (t\<lparr>t_active := 0, t_ip := ip\<rparr>))))" for q
  proof (rule keeps_deref_then)
    fix s a t assume s: "I s" "q = Ptr a" "tasks s a = Some t"
    have "I (s\<lparr>tasks := (tasks s)(a \<mapsto> t\<lparr>t_active := 0, t_ip := cpu_ip s\<rparr>)\<rparr>)"
      by (rule I_task [OF s(1,3)]) (simp add: same_task_def)
    with s(2) show "case bind (gets cpu_ip) (\<lambda>ip. put_task q (t\<lparr>t_active := 0, t_ip := ip\<rparr>)) s of
        Inl (w, t) \<Rightarrow> I t \<or> E t | Inr (x, t) \<Rightarrow> I t"
      by (simp add: st_simps put_task_def)
  qed
  show ?thesis
    unfolding cpu_context_switch_def
    by (intro keeps_seq keeps_if keeps_return cpu_set_task_node save keeps_bind [OF keeps_gets]
        keeps_bind [OF keeps_deref [where h = nodes]] keeps_bind [OF keeps_is_null])
qed

lemma cpu_check_incoming_messages [keeps_intros]: "maintains I E cpu_check_incoming_messages"
  unfolding cpu_check_incoming_messages_def by (intro keeps_intros)

lemma operands [keeps_intros]:
  "maintains I E (opstack_pop n)" "maintains I E (opstack_push v n)" "maintains I E pop_u16" "maintains I E (push_u16 w)"
  "maintains I E pop_f32" "maintains I E (push_f32 x)" "maintains I E pop_bool" "maintains I E (push_bool b)"
  "maintains I E fetch_u16" "maintains I E (data_pointer address)"
  unfolding pop_u16_def push_u16_def pop_f32_def push_f32_def pop_bool_def push_bool_def
    opstack_pop_def opstack_push_def fetch_u16_def data_pointer_def
  by (auto intro!: keeps_intros)

lemma print_conversion [keeps_intros]: "maintains I E (print_conversion c)"
  unfolding print_conversion_def by (intro keeps_intros)

lemma print_format [keeps_intros]: "maintains I E (print_format bs)"
proof (induction bs rule: length_induct)
  case (1 bs)
  show ?case
  proof (cases bs)
    case (Cons c cs)
    have "maintains I E (print_format cs)" using 1 Cons by simp
    moreover have "maintains I E (case cs of [] \<Rightarrow> undef OutOfBounds
        | d # ds \<Rightarrow> seq (print_conversion d) (print_format ds))"
      using 1 Cons by (cases cs) (auto intro!: keeps_intros simp del: print_format.simps)
    ultimately show ?thesis unfolding Cons print_format.simps by (intro keeps_intros)
  qed (simp add: keeps_intros)
qed

lemma builtin_syscall [keeps_intros]: "maintains I E builtin_syscall"
  unfolding builtin_syscall_def builtin_print_def builtin_toggle_led_def builtin_print_opstack_def
    builtin_send_message_def builtin_push_memory_usage_def builtin_print_stack_def
  by (intro keeps_intros)

lemma call_stack [keeps_intros]:
  "maintains I E (stack_push_u16 w)" "maintains I E stack_pop_u16"
  unfolding stack_push_u16_def stack_pop_u16_def by (auto intro!: keeps_intros)

lemma update_call_stack:
  assumes "\<And>k. length (stk_data (f k)) = length (stk_data k)" and "\<And>k. stk_size (f k) = stk_size k"
  shows "maintains I E (bind call_stack (\<lambda>k. set_call_stack (f k)))"
proof (rule maintainsI)
  fix s assume s: "I s"
  show "case bind call_stack (\<lambda>k. set_call_stack (f k)) s of Inl (w, t) \<Rightarrow> I t \<or> E t | Inr (x, t) \<Rightarrow> I t"
    using s by (cases "cpu_stack s") (auto simp: call_stack_def set_call_stack_def st_simps assms
        same_stack_def intro!: I_stack split: option.splits)
qed

lemma call_address [keeps_intros]: "maintains I E (call_address address)"
proof -
  have "maintains I E (bind call_stack (\<lambda>k. stack_push_u16 (bp k)))"
    unfolding call_stack_def by (intro keeps_intros)
  moreover have "maintains I E (bind call_stack (\<lambda>k. set_call_stack (k\<lparr>bp := sp k\<rparr>)))"
    by (rule update_call_stack) simp_all
  moreover have "maintains I E (bind (gets cpu_ip) stack_push_u16)" by (intro keeps_intros)
  ultimately show ?thesis
    unfolding call_address_def by (intro keeps_seq keeps_modify I_ip)
qed

lemma ret [keeps_intros]: "maintains I E ret"
proof -
  have set: "maintains I E (bind call_stack (\<lambda>k. set_call_stack (k\<lparr>sp := bp k\<rparr>)))"
    "maintains I E (bind call_stack (\<lambda>k. set_call_stack (k\<lparr>bp := b\<rparr>)))" for b
    by (rule update_call_stack; simp)+
  show ?thesis
    unfolding ret_def by (intro keeps_seq keeps_bind set call_stack keeps_modify I_ip)
qed

lemmas control_instructions =
  delay_def jump_def pop_jump_if_false_def compare_equal_def compare_less_def
  compare_greater_def compare_less_equal_def compare_greater_equal_def call_def syscall_def
  async_call_def async_ret_def push_millis_def allocate_local_def push_local_def pop_local_def

lemmas value_instructions =
  push_literal_U16_def pop_U16_def top_U16_def add_U16_def subtract_U16_def multiply_U16_def
  divide_U16_def pop_address_U16_def push_U16_def push_literal_I16_def pop_I16_def top_I16_def
  add_I16_def subtract_I16_def multiply_I16_def divide_I16_def load_I16_def store_I16_def
  var_I16_def del_I16_def push_literal_F32_def pop_F32_def top_F32_def add_F32_def
  subtract_F32_def multiply_F32_def divide_F32_def bitwise_left_shift_U16_def
  bitwise_right_shift_U16_def bitwise_or_U16_def bitwise_xor_U16_def bitwise_and_U16_def
  bitwise_not_U16_def

lemma arithmetic [keeps_intros]:
  "maintains I E (c_mul_u16 a b)" "maintains I E (c_div_u16 a b)" "maintains I E (c_div_i16 a b)"
  "maintains I E (c_shl_u16 a b)" "maintains I E (c_shr_u16 a b)"
  unfolding c_mul_u16_def c_div_u16_def c_div_i16_def c_shl_u16_def c_shr_u16_def
  by (auto intro!: keeps_intros)

lemma jumps [keeps_intros]: "maintains I E (modify (\<lambda>s. s\<lparr>cpu_ip := address\<rparr>))"
  by (intro keeps_modify I_ip)

lemma running_op: "opc \<noteq> OP_HALT \<Longrightarrow> maintains I E (execute_op opc)"
  by (cases opc) (auto simp: execute_op_def control_instructions value_instructions
      intro!: keeps_intros)

lemma take_message:
  assumes "I t" and "queues t a = Some q" and "q_count q > 0"
  shows "case bind (deref messages x) (\<lambda>m. bind (deref queues (Ptr a)) (\<lambda>q'.
      put_queue (Ptr a) (q'\<lparr>q_head := m_next m, q_count := q_count q' - 1\<rparr>))) t of
    Inl (w, u) \<Rightarrow> I u \<or> E u | Inr (r, u) \<Rightarrow> I u"
proof -
  have "I (t\<lparr>queues := (queues t)(a \<mapsto> q\<lparr>q_head := h, q_count := q_count q - 1\<rparr>)\<rparr>)" for h
  proof (rule I_queue [OF assms(1,2)])
    have "q_count q - 1 \<le> q_count q"
      using assms(3) unat_u16_sub [of 1 "q_count q"] by (simp add: word_le_nat_alt word_less_nat_alt)
    then show "same_queue q (q\<lparr>q_head := h, q_count := q_count q - 1\<rparr>)"
      by (simp add: same_queue_def le_max_iff_disj)
  qed
  with assms(1,2) show ?thesis
    by (cases x) (auto simp: st_simps put_queue_def split: option.split)
qed

text \<open>One round of the loop over the inbox: the call of the handler, and the message taken.\<close>

lemma call_and_take:
  assumes s: "I s" "queues s a = Some q" "q_count q > 0" and loop: "maintains I E (process_inbox_loop n p)"
  shows "case bind current_task (\<lambda>k.
      seq (if t_message_handler_address k > 0 then call_address (t_message_handler_address k) else return ())
     (seq (bind (deref messages x) (\<lambda>m. bind (deref queues (Ptr a)) (\<lambda>q'.
        put_queue (Ptr a) (q'\<lparr>q_head := m_next m, q_count := q_count q' - 1\<rparr>))))
     (seq (message_free x) (process_inbox_loop n p)))) s of
    Inl (w, t) \<Rightarrow> I t \<or> E t | Inr (r, t) \<Rightarrow> I t"
proof -
  let ?call = "\<lambda>k. if t_message_handler_address k > 0 then call_address (t_message_handler_address k) else return ()"
    and ?take = "bind (deref messages x) (\<lambda>m. bind (deref queues (Ptr a)) (\<lambda>q'.
      put_queue (Ptr a) (q'\<lparr>q_head := m_next m, q_count := q_count q' - 1\<rparr>)))"
    and ?rest = "seq (message_free x) (process_inbox_loop n p)"
  have rest: "maintains I E ?rest" using loop by (intro keeps_intros)
  have step: "case seq (seq (?call k) ?take) ?rest s of Inl (w, t) \<Rightarrow> I t \<or> E t | Inr (r, t) \<Rightarrow> I t" for k
  proof (rule seq_then [OF seq_then [where J = "\<lambda>t. I t \<and> queues t = queues s"]])
    have "maintains I E (?call k)" by (intro keeps_intros)
    from maintainsD [OF this s(1)]
    show "case ?call k s of Inl (w, t) \<Rightarrow> I t \<or> E t | Inr (r, t) \<Rightarrow> I t \<and> queues t = queues s"
      using call_address_queues [of "t_message_handler_address k" s]
      by (cases "t_message_handler_address k > 0") (auto simp: return_apply split: sum.splits)
  qed (use take_message [OF _ _ s(3)] s(2) maintainsD [OF rest] in auto)
  have current: "case current_task s of Inl (w, t) \<Rightarrow> t = s | Inr (k, t) \<Rightarrow> t = s"
    by (cases "cpu_task_tree_current_node s")
      (auto simp: current_task_def st_simps deref_def split: option.splits ptr.splits)
  show ?thesis
  proof (cases "current_task s")
    case (Inl e)
    with current s(1) show ?thesis by (cases e) (simp add: bind_apply)
  next
    case (Inr r)
    with current obtain k where "current_task s = Inr (k, s)" by (cases r) simp
    with step [of k] show ?thesis by (simp only: bind_apply sum.case prod.case seq_assoc)
  qed
qed

lemma process_inbox_loop [keeps_intros]: "maintains I E (process_inbox_loop n p)"
proof (induction n)
  case (Suc n)
  show ?case
    unfolding process_inbox_loop.simps
  proof (rule keeps_deref_then)
    fix s a q assume s: "I s" "p = Ptr a" "queues s a = Some q"
    from call_and_take [OF s(1,3) _ Suc, of "q_head q"] s(1,2)
    show "case (if q_count q > 0 then let message = q_head q in bind current_task (\<lambda>t.
        seq (if t_message_handler_address t > 0 then call_address (t_message_handler_address t) else return ())
       (seq (bind (deref messages message) (\<lambda>m. bind (deref queues p) (\<lambda>q'.
          put_queue p (q'\<lparr>q_head := m_next m, q_count := q_count q' - 1\<rparr>))))
       (seq (message_free message) (process_inbox_loop n p)))) else return ()) s of
      Inl (w, t) \<Rightarrow> I t \<or> E t | Inr (r, t) \<Rightarrow> I t"
      by (auto simp: Let_def return_apply)
  qed
qed (simp add: keeps_intros)

lemma cpu_process_context_inbox [keeps_intros]: "maintains I E cpu_process_context_inbox"
  unfolding cpu_process_context_inbox_def current_task_def by (intro keeps_intros)

end

end
