(* ===== verification/Invariant_Spec.thy ===== *)
theory Invariant_Spec
  imports Heap_Spec
begin

text \<open>
  Invariants of the whole machine: \<open>HALT\<close>, the steps that the scheduler interleaves, and what no
  program can change, in the states the machine reaches and in those in which it stops.
\<close>

section \<open>The machine\<close>

text \<open>\<open>HALT\<close> also releases the bank of ports, and the process ends: then only \<open>E\<close> is left.\<close>

locale machine_invariant = run: heap_laws I E base + released: heap_laws E E base
  for I E :: "'z cpu_scheme \<Rightarrow> bool" and base :: nat +
  assumes I_E: "I s \<Longrightarrow> E s"
    and E_bank_free: "E s \<Longrightarrow> E (s\<lparr>port_banks := (port_banks s)(a := None)\<rparr>)"
begin

lemma cpu_free: "keeps E cpu_free"
  unfolding cpu_free_def port_bank_free_def by (intro keeps_intros released.vmfree E_bank_free)

lemma halt: "maintains I E halt"
proof (rule maintainsI)
  fix s assume "I s"
  have "keeps E halt"
    unfolding halt_def by (intro keeps_seq released.vmprintf cpu_free keeps_stop)
  then have "case halt s of Inl (w, t) \<Rightarrow> E t | Inr (x, t) \<Rightarrow> E t"
    unfolding keeps_def using I_E [OF \<open>I s\<close>] by blast
  moreover have "\<exists>w t. halt s = Inl (w, t)"
    by (auto simp: halt_def st_simps split: sum.split)
  ultimately show "case halt s of Inl (w, t) \<Rightarrow> I t \<or> E t | Inr (x, t) \<Rightarrow> I t" by auto
qed

lemma execute_op: "maintains I E (execute_op opc)"
  using run.running_op [of opc] halt by (cases "opc = OP_HALT") (auto simp: execute_op_def)

lemma run_instruction: "maintains I E run_instruction"
  unfolding run_instruction_def cpu_execute_def by (intro execute_op keeps_intros)

lemma run_cycles: "maintains I E (run_cycles n)"
  by (induction n) (auto intro!: keeps_intros run_instruction)

lemma cpu_run_cycle: "maintains I E (cpu_run_cycle p)"
  unfolding cpu_run_cycle_def by (intro keeps_intros run_cycles)

lemma cpu_run: "maintains I E (cpu_run fuel n)"
proof (induction n)
  case (Suc n)
  then show ?case unfolding cpu_run.simps cpu_round_def by (intro keeps_intros cpu_run_cycle)
qed (simp add: keeps_intros)

end

section \<open>What no program changes\<close>

text \<open>Between a state \<open>s0\<close> and a later one: the program, its size and data address, the server
  and the pointers to the bank, the root of the tree and the first inbox are the same; output
  only grows; at most four tasks are ever created and the count does not go down; the array
  of every stack has the stack's size; the objects of \<open>s0\<close> that still exist are the same but for
  the changes described above; no inbox holds more than four messages, unless it held as many
  in \<open>s0\<close>.\<close>

definition vm_inv :: "'z cpu_scheme \<Rightarrow> 'z cpu_scheme \<Rightarrow> bool" where
  "vm_inv s0 s \<longleftrightarrow>
     cpu_program s = cpu_program s0 \<and> cpu_program_size s = cpu_program_size s0
   \<and> cpu_data_address s = cpu_data_address s0 \<and> cpu_port_bank s = cpu_port_bank s0
   \<and> cpu_task_tree_root s = cpu_task_tree_root s0
   \<and> cpu_message_queues s = cpu_message_queues s0
   \<and> cpu_server s = cpu_server s0 \<and> servers s = servers s0
   \<and> (\<exists>es. out s = out s0 @ es)
   \<and> cpu_tasks_number s0 \<le> cpu_tasks_number s \<and> cpu_tasks_number s \<le> MAX_TASKS
   \<and> mallocs s0 \<le> mallocs s
   \<and> (\<forall>a k. stacks s a = Some k \<longrightarrow> a < mallocs s \<and> stack_wf k)
   \<and> evolves same_stack (mallocs s0) (stacks s0) (stacks s)
   \<and> evolves same_message (mallocs s0) (messages s0) (messages s)
   \<and> evolves same_queue (mallocs s0) (queues s0) (queues s)
   \<and> evolves same_task (mallocs s0) (tasks s0) (tasks s)
   \<and> evolves same_node (mallocs s0) (nodes s0) (nodes s)
   \<and> evolves (=) (mallocs s0) (port_banks s0) (port_banks s)
   \<and> (\<forall>a q. queues s a = Some q \<longrightarrow> q_count q \<le> TASK_MESSAGE_QUEUE_SIZE
       \<or> (\<exists>p. queues s0 a = Some p \<and> q_count q \<le> q_count p))"

text \<open>While the machine runs, the bank of ports is there and unchanged as well.\<close>

definition vm_running :: "'z cpu_scheme \<Rightarrow> 'z cpu_scheme \<Rightarrow> bool" where
  "vm_running s0 s \<longleftrightarrow> vm_inv s0 s \<and> port_banks s = port_banks s0"

lemma tasks_number_next:
  assumes "n \<le> MAX_TASKS" and "n \<noteq> MAX_TASKS"
  shows "n + 1 \<le> MAX_TASKS" and "m \<le> n \<Longrightarrow> m \<le> n + 1"
proof -
  have "unat n < 4" using assms by (auto simp: MAX_TASKS_def word_le_nat_alt word_unat_eq_iff)
  then have "unat (n + 1) = unat n + 1" by (simp add: unat_u16_add)
  with \<open>unat n < 4\<close> show "n + 1 \<le> MAX_TASKS" and "m \<le> n \<Longrightarrow> m \<le> n + 1"
    by (simp_all add: MAX_TASKS_def word_le_nat_alt)
qed

lemma vm_inv_later: "vm_inv s t \<Longrightarrow> vm_inv t t"
  by (auto simp: vm_inv_def)

interpretation inv: heap_laws "vm_inv s0" "vm_inv s0" "mallocs s0" for s0 :: "'z cpu_scheme"
proof
  fix s :: "'z cpu_scheme" and a and k k' :: stack
  assume "vm_inv s0 s" "stacks s a = Some k" "same_stack k k'"
  then show "vm_inv s0 (s\<lparr>stacks := (stacks s)(a \<mapsto> k')\<rparr>)"
    by (auto simp: vm_inv_def fun_upd_apply stack_wf_def same_stack_def
        intro!: evolves_put [where R = same_stack] intro: same_trans)
next
  fix s :: "'z cpu_scheme" and a q q'
  assume q: "vm_inv s0 s" "queues s a = Some q" "same_queue q q'"
  then have "evolves same_queue (mallocs s0) (queues s0) ((queues s)(a \<mapsto> q'))"
    by (intro evolves_put [of _ _ _ _ _ q]) (auto simp: vm_inv_def intro: same_trans)
  with q show "vm_inv s0 (s\<lparr>queues := (queues s)(a \<mapsto> q')\<rparr>)"
    by (fastforce simp: vm_inv_def fun_upd_apply same_queue_def max_def split: if_splits)
next
  fix s :: "'z cpu_scheme"
  assume "vm_inv s0 s" "cpu_tasks_number s \<noteq> MAX_TASKS"
  then show "vm_inv s0 (s\<lparr>cpu_tasks_number := cpu_tasks_number s + 1\<rparr>)"
    by (auto simp: vm_inv_def tasks_number_next)
next
  fix s :: "'z cpu_scheme"
  assume "vm_inv s0 s"
  then show "vm_inv s0 (s\<lparr>mallocs := Suc (mallocs s)\<rparr>)"
    by (fastforce simp: vm_inv_def)
qed (auto simp: vm_inv_def fun_upd_apply stack_wf_def intro: evolves_new evolves_free evolves_put same_trans)

interpretation vm: machine_invariant "vm_running s0" "vm_inv s0" "mallocs s0" for s0 :: "'z cpu_scheme"
proof
  fix s :: "'z cpu_scheme" and a
  assume "vm_inv s0 s"
  then show "vm_inv s0 (s\<lparr>port_banks := (port_banks s)(a := None)\<rparr>)"
    by (simp add: vm_inv_def evolves_free)
qed (auto simp: vm_running_def intro: inv.laws)

section \<open>Steps of the machine\<close>

text \<open>What the scheduler interleaves: the receipt of a message, a context switch, the delivery
  of the running task's messages, and one instruction.\<close>

inductive machine_step :: "'z cpu_scheme \<Rightarrow> 'z cpu_scheme \<Rightarrow> bool" where
  network: "cpu_check_incoming_messages s = Inr ((), t) \<Longrightarrow> machine_step s t"
| switch: "cpu_context_switch node s = Inr ((), t) \<Longrightarrow> machine_step s t"
| inbox: "cpu_process_context_inbox s = Inr ((), t) \<Longrightarrow> machine_step s t"
| instruction: "run_instruction s = Inr (opc, t) \<Longrightarrow> machine_step s t"

inductive_cases machine_stepE: "machine_step s t"

text \<open>\<open>leads m\<close>: the program \<open>m\<close> returns only in states that steps lead to.\<close>

definition leads :: "('z cpu_scheme, 'a) st \<Rightarrow> bool" where
  "leads m \<longleftrightarrow> (\<forall>s x t. m s = Inr (x, t) \<longrightarrow> machine_step\<^sup>*\<^sup>* s t)"

lemma leads_stop: "leads (stop_with w)"
  by (simp add: leads_def stop_with_def)

lemma leads_return: "leads (return x)"
  by (simp add: leads_def return_def)

lemma leads_bind: "leads m \<Longrightarrow> (\<And>x. leads (f x)) \<Longrightarrow> leads (bind m f)"
  unfolding leads_def by (fastforce simp: st_simps split: sum.splits intro: rtranclp_trans)

lemma leads_seq: "leads m \<Longrightarrow> leads n \<Longrightarrow> leads (seq m n)"
  unfolding seq_def by (rule leads_bind)

lemma leads_read:
  assumes "\<And>s x t. m s = Inr (x, t) \<Longrightarrow> t = s" and "\<And>x. leads (f x)"
  shows "leads (bind m f)"
  using assms unfolding leads_def by (fastforce simp: st_simps split: sum.splits)

lemma leads_is_null: "(\<And>b. leads (f b)) \<Longrightarrow> leads (bind (is_null p) f)"
  by (rule leads_read) (cases p; auto simp: st_simps)

lemma leads_in_bounds: "(\<And>x. leads (f x)) \<Longrightarrow> leads (bind (in_bounds v) f)"
  by (rule leads_read) (cases v; auto simp: st_simps)

lemma leads_deref: "(\<And>x. leads (f x)) \<Longrightarrow> leads (bind (deref h p) f)"
  by (rule leads_read) (cases p; auto simp: st_simps split: option.splits)

lemma leads_traverse:
  assumes "\<And>p. leads (f p)"
  shows "leads (task_tree_traverse_dfs n p f)" and "leads (traverse_children n p i f)"
proof (induction n arbitrary: p i)
  case (Suc n)
  { case 1 show ?case
      by (auto intro!: leads_is_null leads_return leads_seq Suc.IH assms)
  next
    case 2
    have "leads (if i < unat (childCount r)
        then bind (in_bounds (nth_opt (children r) i)) (\<lambda>c.
          seq (task_tree_traverse_dfs n c f) (traverse_children n p (Suc i) f))
        else return ())" for r
      by (auto intro!: leads_in_bounds leads_return leads_seq Suc.IH)
    then show ?case by (auto intro!: leads_deref) }
qed (simp_all add: leads_stop)

lemma leads_cycles: "leads (run_cycles n)"
proof (induction n)
  case (Suc n)
  have "leads run_instruction"
    by (auto simp: leads_def intro: machine_step.instruction)
  with Suc leads_return show ?case by (auto intro!: leads_bind)
qed (simp add: leads_return)

lemma leads_run_cycle: "leads (cpu_run_cycle p)"
proof -
  have "leads cpu_check_incoming_messages" "leads (cpu_context_switch p)"
    "leads cpu_process_context_inbox"
    by (auto simp: leads_def intro: machine_step.intros)
  then show ?thesis unfolding cpu_run_cycle_def by (intro leads_seq leads_cycles)
qed

lemma leads_round: "leads (cpu_round fuel)"
  unfolding cpu_round_def
  by (rule leads_read) (auto simp: st_simps intro: leads_traverse leads_run_cycle)

lemma leads_run: "leads (cpu_run fuel n)"
  by (induction n) (simp_all add: leads_return leads_seq leads_round)

lemma keepsD:
  assumes "maintains I E m" and "I s" and "m s = Inr (x, t)"
  shows "I t"
  using assms by (fastforce simp: maintains_def)

lemma machine_step_keeps:
  assumes "machine_step s t" and "vm_running s0 s"
  shows "vm_running s0 t"
  using assms
  by (auto elim!: machine_stepE intro: keepsD [OF vm.run.cpu_check_incoming_messages]
      keepsD [OF vm.run.cpu_context_switch] keepsD [OF vm.run.cpu_process_context_inbox]
      keepsD [OF vm.run_instruction])

section \<open>Property\<close>

text \<open>C10: what no program can do. Take a state with at most four tasks whose stacks are
  allocated and have arrays of their sizes, and two states \<open>t\<close> and \<open>u\<close>, the second after the
  first, that the machine reaches from it by receiving messages, switching tasks, delivering
  messages and executing instructions, whatever the program. Then in \<open>u\<close> the program, the
  server and the bank of ports are the objects they were in \<open>t\<close>, and the machine points to the
  same root of the tree and the same first inbox. The output of \<open>t\<close> is a prefix of the output of
  \<open>u\<close>, and at most four tasks were created. A stack, message, inbox, task or node of \<open>t\<close> that
  still exists has the size, the payload and ids, the owner, the stacks, inbox and handler, or
  the parent and task it had; a link from an inbox to the next one, once set, stays; a
  released object does not come back. No inbox holds more than four messages, unless it held
  as many in \<open>t\<close>. The rounds of \<open>cpu_run\<close> take only such steps. When a run stops, by an exit, an undefined
  operation or otherwise, all this still holds, except that \<open>HALT\<close> may have released the bank.\<close>

theorem machine_invariant_kept:
  assumes "vm_inv s s"
  shows "(\<forall>t u. machine_step\<^sup>*\<^sup>* s t \<and> machine_step\<^sup>*\<^sup>* t u \<longrightarrow> vm_running t u)
    \<and> (case cpu_run fuel n s of
         Inl (w, t) \<Rightarrow> vm_inv s t
       | Inr (x, t) \<Rightarrow> vm_running s t \<and> machine_step\<^sup>*\<^sup>* s t)"
proof
  have steps: "vm_running s t" if "machine_step\<^sup>*\<^sup>* s t" "vm_inv s s" for s t :: "'z cpu_scheme"
    using that(1) by induction (auto simp: that(2) vm_running_def [of s s] intro: machine_step_keeps)
  then show "\<forall>t u. machine_step\<^sup>*\<^sup>* s t \<and> machine_step\<^sup>*\<^sup>* t u \<longrightarrow> vm_running t u"
    using assms vm_inv_later unfolding vm_running_def by blast
  have start: "vm_running s s" using assms by (simp add: vm_running_def)
  from maintainsD [OF vm.cpu_run this] leads_run [of fuel n]
  show "case cpu_run fuel n s of
         Inl (w, t) \<Rightarrow> vm_inv s t
       | Inr (x, t) \<Rightarrow> vm_running s t \<and> machine_step\<^sup>*\<^sup>* s t"
    by (fastforce simp: leads_def vm_running_def split: sum.splits)
qed

text \<open>A machine with one literal instruction, after the instruction.\<close>

theorem machine_invariant_kept_witness:
  "\<exists>t. machine_step\<^sup>*\<^sup>* (demo_cpu [] [14, 2, 1]) t \<and> cpu_ip t = 3
     \<and> cpu_program t = [14, 2, 1] \<and> cpu_tasks_number t \<le> 4"
proof -
  let ?s = "demo_cpu [] [14, 2, 1]"
  have code: "code_at ?s (14 # bytes_of_u16 258 @ [])"
    by (rule demo_code [where cs = "[]"]; simp add: bytes_of_u16_def)
  obtain t where t: "run_instruction ?s = Inr (14, t)" "same_but_opstack (?s\<lparr>cpu_ip := 3\<rparr>) t"
    using literal_room [OF code] by auto
  then have step: "machine_step\<^sup>*\<^sup>* ?s t" by (blast intro: machine_step.instruction)
  have "vm_inv ?s ?s"
    by (auto simp: vm_inv_def demo_cpu_def fun_upd_apply stack_wf_def split: if_splits)
  with step machine_invariant_kept [of ?s] have "vm_inv ?s t" unfolding vm_running_def by blast
  moreover have "cpu_program ?s = [14, 2, 1]" by (simp add: demo_cpu_def)
  ultimately show ?thesis
    using step same_but_opstack_ip [OF t(2)] by (auto simp: vm_inv_def MAX_TASKS_def)
qed

end
