(* ===== verification/Boot_Spec.thy ===== *)
theory Boot_Spec
  imports Invariant_Spec Tree_Spec Messaging_Spec Ports_Spec Straight_Spec
begin

text \<open>
  Start-up (src/main.c: \<open>cpu_create\<close> and \<open>cpu_load_program\<close> before \<open>cpu_run\<close>), the first time
  slice, the release of the machine's objects by \<open>HALT\<close>, and the whole run of a straight-line
  program.
\<close>

section \<open>Start-up\<close>

text \<open>What \<open>main\<close> does before the endless loop.\<close>

definition boot :: "u8 list \<Rightarrow> u16 \<Rightarrow> u16 \<Rightarrow> ('z cpu_scheme, unit) st" where
  "boot prog program_size data_address =
     seq (vmprintf ''Starting VM\<newline>'' [])
    (seq (cpu_create port_banks_number)
         (cpu_load_program prog program_size data_address))"

lemma vm_main_boot: "vm_main prog n d fuel k = seq (boot prog n d) (cpu_run fuel k)"
  by (simp add: vm_main_def boot_def seq_assoc)

text \<open>A machine that was switched on: no object yet, and the allocator gives memory.\<close>

definition power_on :: "'z cpu_scheme \<Rightarrow> bool" where
  "power_on s \<longleftrightarrow> (\<forall>i. malloc_ok s i) \<and> stacks s = Map.empty \<and> nextId s = 0"

definition network_up :: "'z cpu_scheme \<Rightarrow> bool" where
  "network_up s \<longleftrightarrow> env_socket s \<noteq> -1 \<and> env_getfl s \<noteq> -1 \<and> env_setfl s \<noteq> -1
     \<and> 0 \<le> env_bind s \<and> 0 \<le> env_listen s"

text \<open>The root task, with the addresses of the allocations made from \<open>m\<close> on.\<close>

definition main_task :: "nat \<Rightarrow> task" where
  "main_task m = \<lparr>t_opstack = Ptr (m + 5), t_stack = Ptr (m + 7), t_inbox = Ptr (m + 10),
     t_id = 0, t_ip = 0, t_message_handler_address = 0, t_active = 0\<rparr>"

definition main_inbox :: message_queue where
  "main_inbox = \<lparr>q_next = Null, q_task_id = 0, q_head = Null, q_tail = Null, q_count = 0\<rparr>"

text \<open>What the start-up leaves as it was.\<close>

definition untouched :: "'z cpu_scheme \<Rightarrow> 'z cpu_scheme \<Rightarrow> bool" where
  "untouched s t \<longleftrightarrow> port_regs t = port_regs s \<and> clock_reads t = clock_reads s \<and> env_time t = env_time s
     \<and> f32_add t = f32_add s \<and> f32_sub t = f32_sub s \<and> f32_mul t = f32_mul s \<and> f32_div t = f32_div s
     \<and> malloc_ok t = malloc_ok s"

section \<open>The allocations, one function at a time\<close>

lemma port_bank_create_3:
  assumes "malloc_ok s (mallocs s)" and "malloc_ok s (Suc (mallocs s))"
  shows "port_bank_create port_banks_number s = Inr (Ptr (mallocs s), s\<lparr>mallocs := mallocs s + 2,
    dynamic_memory_usage := dynamic_memory_usage s + 40,
    port_banks := (port_banks s)(mallocs s \<mapsto> host_bank)\<rparr>)"
proof -
  have three: "replicate 3 None = [None, None, None :: port option]"
    by (simp add: numeral_3_eq_3)
  from assms show ?thesis
    by (simp add: port_bank_create_def map_ports_def put_bank_def st_simps host_bank_def
        port_banks_number_def sizeof_PortBank_def three)
qed

lemma server_create_result:
  assumes "malloc_ok s (mallocs s)"
  shows "\<exists>es ss. server_create port s = Inr (if network_up s then Ptr (mallocs s) else Null,
    s\<lparr>mallocs := Suc (mallocs s),
      dynamic_memory_usage := dynamic_memory_usage s + (if network_up s then 28 else 0),
      servers := ss, out := out s @ es\<rparr>) \<and> (network_up s \<longrightarrow> ss (mallocs s) \<noteq> None \<and> es = [])"
proof -
  let ?t = "projr (server_create port s)"
  have "server_create port s = Inr (if network_up s then Ptr (mallocs s) else Null,
    s\<lparr>mallocs := Suc (mallocs s),
      dynamic_memory_usage := dynamic_memory_usage s + (if network_up s then 28 else 0),
      servers := servers (snd ?t), out := out s @ drop (length (out s)) (out (snd ?t))\<rparr>)
    \<and> (network_up s \<longrightarrow> servers (snd ?t) (mallocs s) \<noteq> None
         \<and> drop (length (out s)) (out (snd ?t)) = [])"
    using assms
    by (simp add: server_create_def make_socket_non_blocking_def free_server_object_def
        server_free_def st_simps network_up_def sizeof_Server_def)
  then show ?thesis by blast
qed

lemma stack_create_result:
  assumes "malloc_ok s (mallocs s)" and "malloc_ok s (Suc (mallocs s))"
  shows "stack_create n s = Inr (Ptr (mallocs s), s\<lparr>mallocs := mallocs s + 2,
    dynamic_memory_usage := dynamic_memory_usage s + (16 + n),
    stacks := (stacks s)(mallocs s \<mapsto> empty_stack n)\<rparr>)"
  using assms
  by (simp add: stack_create_def st_simps sizeof_Stack_def empty_stack_def add.assoc)

lemma task_create_result:
  assumes "\<forall>i < 5. malloc_ok s (mallocs s + i)"
  shows "task_create i ip n k h s = Inr (Ptr (mallocs s), s\<lparr>mallocs := mallocs s + 5,
    dynamic_memory_usage := dynamic_memory_usage s + (64 + n + k),
    stacks := (stacks s)(mallocs s + 1 \<mapsto> empty_stack n, mallocs s + 3 \<mapsto> empty_stack k),
    tasks := (tasks s)(mallocs s \<mapsto> \<lparr>t_opstack = Ptr (mallocs s + 1),
      t_stack = Ptr (mallocs s + 3), t_inbox = Indet, t_id = ucast i, t_ip = ip,
      t_message_handler_address = h, t_active = 0\<rparr>)\<rparr>)"
proof -
  have ok: "malloc_ok s (mallocs s)" "malloc_ok s (Suc (mallocs s))" "malloc_ok s (mallocs s + 2)"
    "malloc_ok s (mallocs s + 3)" "malloc_ok s (mallocs s + 4)"
    using assms [rule_format, of 0] assms [rule_format, of 1] assms [rule_format, of 2]
      assms [rule_format, of 3] assms [rule_format, of 4] by simp_all
  let ?t = "s\<lparr>mallocs := Suc (mallocs s), dynamic_memory_usage := dynamic_memory_usage s + 32\<rparr>"
  let ?u = "?t\<lparr>mallocs := mallocs ?t + 2, dynamic_memory_usage := dynamic_memory_usage ?t + (16 + n),
    stacks := (stacks ?t)(mallocs ?t \<mapsto> empty_stack n)\<rparr>"
  have t: "stack_create n ?t = Inr (Ptr (Suc (mallocs s)), ?u)"
    using stack_create_result [of ?t n] ok by (simp add: numeral_2_eq_2)
  have u: "stack_create k ?u = Inr (Ptr (mallocs s + 3), ?u\<lparr>mallocs := mallocs ?u + 2,
      dynamic_memory_usage := dynamic_memory_usage ?u + (16 + k),
      stacks := (stacks ?u)(mallocs ?u \<mapsto> empty_stack k)\<rparr>)"
    using stack_create_result [of ?u k] ok by (simp add: eval_nat_numeral)
  show ?thesis
    using ok(1) t u
    by (simp add: task_create_def put_task_def st_simps sizeof_Task_def eval_nat_numeral
        algebra_simps)
qed

lemma create_node_result:
  assumes "malloc_ok s (mallocs s)" and "nextId s < 2147483647"
  shows "task_tree_create_node p s = Inr (Ptr (mallocs s), s\<lparr>mallocs := Suc (mallocs s),
    dynamic_memory_usage := dynamic_memory_usage s + 40, nextId := nextId s + 1,
    nodes := (nodes s)(mallocs s \<mapsto> new_node (nextId s) Null p)\<rparr>)"
  using assms
  by (simp add: task_tree_create_node_def put_node_def st_simps sizeof_TaskTreeNode_def new_node_def)

lemma queue_create_result:
  assumes "malloc_ok s (mallocs s)"
  shows "message_queue_create i s = Inr (Ptr (mallocs s), s\<lparr>mallocs := Suc (mallocs s),
    dynamic_memory_usage := dynamic_memory_usage s + 40,
    queues := (queues s)(mallocs s \<mapsto> main_inbox\<lparr>q_task_id := i\<rparr>)\<rparr>)"
  using assms
  by (simp add: message_queue_create_def put_queue_def st_simps sizeof_MessageQueue_def main_inbox_def)

lemma cpu_create_result:
  assumes "\<forall>i. malloc_ok s i"
  shows "\<exists>t. cpu_create port_banks_number s = Inr ((), t) \<and> mallocs t = mallocs s + 4
    \<and> dynamic_memory_usage t = dynamic_memory_usage s + (if network_up s then 140 else 112)
    \<and> cpu_server t = (if network_up s then Ptr (mallocs s + 3) else Null)
    \<and> cpu_port_bank t = Ptr (mallocs s + 1) \<and> port_banks t (mallocs s + 1) = Some host_bank
    \<and> cpu_ip t = 0 \<and> cpu_tasks_number t = 0
    \<and> stacks t = stacks s \<and> nodes t = nodes s \<and> tasks t = tasks s \<and> queues t = queues s
    \<and> nextId t = nextId s \<and> malloc_ok t = malloc_ok s
    \<and> env_accept t = env_accept s \<and> accepts t = accepts s
    \<and> (network_up s \<longrightarrow> servers t (mallocs s + 3) \<noteq> None \<and> out t = out s) \<and> untouched s t"
proof -
  let ?s = "s\<lparr>mallocs := Suc (mallocs s), dynamic_memory_usage := dynamic_memory_usage s + 72\<rparr>"
  let ?t = "?s\<lparr>mallocs := mallocs ?s + 2, dynamic_memory_usage := dynamic_memory_usage ?s + 40,
      port_banks := (port_banks ?s)(mallocs ?s \<mapsto> host_bank), cpu_port_bank := Ptr (mallocs ?s)\<rparr>"
  have bank: "port_bank_create port_banks_number ?s = Inr (Ptr (mallocs ?s), ?s\<lparr>
      mallocs := mallocs ?s + 2, dynamic_memory_usage := dynamic_memory_usage ?s + 40,
      port_banks := (port_banks ?s)(mallocs ?s \<mapsto> host_bank)\<rparr>)"
    by (rule port_bank_create_3) (use assms in simp_all)
  have up: "network_up ?t = network_up s" by (simp add: network_up_def)
  obtain es ss where server: "server_create SERVER_PORT ?t = Inr (if network_up s then Ptr (mallocs ?t) else Null,
    ?t\<lparr>mallocs := Suc (mallocs ?t),
      dynamic_memory_usage := dynamic_memory_usage ?t + (if network_up s then 28 else 0),
      servers := ss, out := out ?t @ es\<rparr>)" and ss: "network_up s \<Longrightarrow> ss (mallocs s + 3) \<noteq> None \<and> es = []"
    using server_create_result [of ?t SERVER_PORT] assms up by (auto simp: numeral_3_eq_3)
  show ?thesis
    using assms bank server ss
    by (simp add: cpu_create_def st_simps sizeof_CPU_def untouched_def)
qed

lemma cpu_load_result:
  assumes "\<forall>i. malloc_ok s i" and "nextId s < 2147483647"
  shows "\<exists>t. cpu_load_program prog n d s = Inr ((), t)
    \<and> cpu_program t = prog \<and> cpu_program_size t = n \<and> cpu_data_address t = d
    \<and> cpu_ip t = cpu_ip s \<and> cpu_tasks_number t = cpu_tasks_number s \<and> mallocs t = mallocs s + 7
    \<and> cpu_task_tree_root t = Ptr (mallocs s + 5)
    \<and> cpu_task_tree_current_node t = Ptr (mallocs s + 5)
    \<and> nodes t = (nodes s)(mallocs s + 5 \<mapsto> new_node (nextId s) Null (Ptr (mallocs s)))
    \<and> tasks t = (tasks s)(mallocs s \<mapsto> \<lparr>t_opstack = Ptr (mallocs s + 1),
        t_stack = Ptr (mallocs s + 3), t_inbox = Ptr (mallocs s + 6), t_id = 0, t_ip = 0,
        t_message_handler_address = 0, t_active = 0\<rparr>)
    \<and> stacks t = (stacks s)(mallocs s + 1 \<mapsto> empty_stack 1024, mallocs s + 3 \<mapsto> empty_stack 4096)
    \<and> cpu_message_queues t = Ptr (mallocs s + 6)
    \<and> queues t = (queues s)(mallocs s + 6 \<mapsto> main_inbox)
    \<and> cpu_server t = cpu_server s \<and> cpu_port_bank t = cpu_port_bank s \<and> port_banks t = port_banks s
    \<and> env_accept t = env_accept s \<and> accepts t = accepts s \<and> servers t = servers s
    \<and> dynamic_memory_usage t = dynamic_memory_usage s + 5264 \<and> out t = out s \<and> untouched s t
    \<and> nextId t = nextId s + 1"
proof -
  let ?s = "s\<lparr>cpu_program := prog, cpu_program_size := n, cpu_data_address := d\<rparr>"
  let ?k = "\<lparr>t_opstack = Ptr (mallocs s + 1), t_stack = Ptr (mallocs s + 3), t_inbox = Indet,
    t_id = 0, t_ip = 0, t_message_handler_address = 0, t_active = 0\<rparr>"
  let ?t = "?s\<lparr>mallocs := mallocs s + 5, dynamic_memory_usage := dynamic_memory_usage s + 5184,
    stacks := (stacks s)(mallocs s + 1 \<mapsto> empty_stack 1024, mallocs s + 3 \<mapsto> empty_stack 4096),
    tasks := (tasks s)(mallocs s \<mapsto> ?k)\<rparr>"
  let ?u = "?t\<lparr>mallocs := Suc (mallocs ?t), dynamic_memory_usage := dynamic_memory_usage ?t + 40,
    nextId := nextId ?t + 1,
    nodes := (nodes ?t)(mallocs ?t \<mapsto> new_node (nextId ?t) Null (Ptr (mallocs s)))\<rparr>"
  let ?v = "?u\<lparr>cpu_task_tree_root := Ptr (mallocs ?t), cpu_task_tree_current_node := Ptr (mallocs ?t)\<rparr>"
  have task: "task_create 0 0 TASK_OPSTACK_SIZE TASK_STACK_SIZE 0 ?s = Inr (Ptr (mallocs s), ?t)"
    using task_create_result [of ?s 0 0 TASK_OPSTACK_SIZE TASK_STACK_SIZE 0] assms(1)
    by (simp add: TASK_OPSTACK_SIZE_def TASK_STACK_SIZE_def)
  have node: "task_tree_create_node (Ptr (mallocs s)) ?t = Inr (Ptr (mallocs ?t), ?u)"
    by (rule create_node_result) (use assms in simp_all)
  have queue: "message_queue_create 0 ?v = Inr (Ptr (mallocs ?v), ?v\<lparr>mallocs := Suc (mallocs ?v),
      dynamic_memory_usage := dynamic_memory_usage ?v + 40,
      queues := (queues ?v)(mallocs ?v \<mapsto> main_inbox\<lparr>q_task_id := 0\<rparr>)\<rparr>)"
    by (rule queue_create_result) (use assms in simp_all)
  have inbox: "main_inbox\<lparr>q_task_id := 0\<rparr> = main_inbox" by (simp add: main_inbox_def)
  show ?thesis
    using task node queue
    by (simp add: cpu_load_program_def put_task_def st_simps inbox add.commute untouched_def)
qed

lemma boot_state:
  assumes "power_on s"
  shows "\<exists>t. boot prog n d s = Inr ((), t)
    \<and> cpu_program t = prog \<and> cpu_program_size t = n \<and> cpu_data_address t = d
    \<and> cpu_ip t = 0 \<and> cpu_tasks_number t = 0 \<and> mallocs t = mallocs s + 11
    \<and> cpu_task_tree_root t = Ptr (mallocs s + 9)
    \<and> cpu_task_tree_current_node t = Ptr (mallocs s + 9)
    \<and> nodes t (mallocs s + 9) = Some (new_node 0 Null (Ptr (mallocs s + 4)))
    \<and> tasks t (mallocs s + 4) = Some (main_task (mallocs s))
    \<and> stacks t = [mallocs s + 5 \<mapsto> empty_stack 1024, mallocs s + 7 \<mapsto> empty_stack 4096]
    \<and> cpu_message_queues t = Ptr (mallocs s + 10)
    \<and> queues t (mallocs s + 10) = Some main_inbox
    \<and> cpu_server t = (if network_up s then Ptr (mallocs s + 3) else Null) \<and> has_bank t
    \<and> env_accept t = env_accept s \<and> accepts t = accepts s
    \<and> (network_up s \<longrightarrow> servers t (mallocs s + 3) \<noteq> None
         \<and> out t = out s @ [Printf ''Starting VM\<newline>'' []]) \<and> untouched s t
    \<and> dynamic_memory_usage t = dynamic_memory_usage s + (if network_up s then 5404 else 5376) \<and> nextId t = 1"
proof -
  let ?s = "s\<lparr>out := out s @ [Printf ''Starting VM\<newline>'' []]\<rparr>"
  have s: "\<forall>i. malloc_ok ?s i" "stacks ?s = Map.empty" "nextId ?s = 0"
    and up: "network_up ?s = network_up s"
    using assms by (simp_all add: power_on_def network_up_def)
  obtain t where t: "cpu_create port_banks_number ?s = Inr ((), t)" "mallocs t = mallocs s + 4"
    "dynamic_memory_usage t = dynamic_memory_usage s + (if network_up s then 140 else 112)"
    "cpu_server t = (if network_up s then Ptr (mallocs s + 3) else Null)"
    "cpu_port_bank t = Ptr (mallocs s + 1)" "port_banks t (mallocs s + 1) = Some host_bank"
    "cpu_ip t = 0" "cpu_tasks_number t = 0" "stacks t = Map.empty" "nextId t = 0"
    "malloc_ok t = malloc_ok s" "env_accept t = env_accept s" "accepts t = accepts s"
    "network_up s \<longrightarrow> servers t (mallocs s + 3) \<noteq> None \<and> out t = out s @ [Printf ''Starting VM\<newline>'' []]"
    "untouched s t"
    using cpu_create_result [OF s(1)] s up by (auto simp: untouched_def)
  have t': "\<forall>i. malloc_ok t i" "nextId t < 2147483647" using t assms by (simp_all add: power_on_def)
  have m: "mallocs t + 1 = mallocs s + 5" "mallocs t + 3 = mallocs s + 7"
    "mallocs t + 5 = mallocs s + 9" "mallocs t + 6 = mallocs s + 10" "mallocs t + 7 = mallocs s + 11"
    using t(2) by simp_all
  note load = cpu_load_result [OF t', of prog n d, unfolded m, unfolded t(2,7,8,9,10),
      folded main_task_def]
  obtain u where u: "cpu_load_program prog n d t = Inr ((), u)"
      "cpu_program u = prog" "cpu_program_size u = n" "cpu_data_address u = d"
      "cpu_ip u = 0" "cpu_tasks_number u = 0" "mallocs u = mallocs s + 11"
      "cpu_task_tree_root u = Ptr (mallocs s + 9)"
      "cpu_task_tree_current_node u = Ptr (mallocs s + 9)"
      "nodes u = (nodes t)(mallocs s + 9 \<mapsto> new_node 0 Null (Ptr (mallocs s + 4)))"
      "tasks u = (tasks t)(mallocs s + 4 \<mapsto> main_task (mallocs s))"
      "stacks u = [mallocs s + 5 \<mapsto> empty_stack 1024, mallocs s + 7 \<mapsto> empty_stack 4096]"
      "cpu_message_queues u = Ptr (mallocs s + 10)"
      "queues u = (queues t)(mallocs s + 10 \<mapsto> main_inbox)"
      "cpu_server u = cpu_server t" "cpu_port_bank u = cpu_port_bank t" "port_banks u = port_banks t"
      "env_accept u = env_accept t" "accepts u = accepts t" "servers u = servers t"
      "dynamic_memory_usage u = dynamic_memory_usage t + 5264" "out u = out t" "untouched t u" "nextId u = 0 + 1"
    using load by (elim exE conjE) (rule that; assumption)
  have "boot prog n d s = Inr ((), u)"
    using t(1) u(1) by (simp add: boot_def st_simps)
  moreover have "has_bank u" using t(5,6) u(16,17) by (simp add: has_bank_def)
  moreover have "dynamic_memory_usage u = dynamic_memory_usage s + (if network_up s then 5404 else 5376)"
    using u(21) t(3) by simp
  moreover have "untouched s u" using t(15) u(23) by (simp add: untouched_def)
  ultimately show ?thesis using u t(4,12-14) by auto
qed

section \<open>The first time slice\<close>

text \<open>The facts about the machine when it executes its first instruction; \<open>m\<close> is the number of
  allocations before the start.\<close>

definition fresh_machine :: "nat \<Rightarrow> u8 list \<Rightarrow> u16 \<Rightarrow> u16 \<Rightarrow> 'z cpu_scheme \<Rightarrow> bool" where
  "fresh_machine m prog n d u \<longleftrightarrow>
     cpu_program u = prog \<and> cpu_program_size u = n \<and> cpu_data_address u = d \<and> cpu_ip u = 0
   \<and> cpu_tasks_number u = 0 \<and> has_bank u
   \<and> cpu_task_tree_root u = Ptr (m + 9) \<and> cpu_task_tree_current_node u = Ptr (m + 9)
   \<and> nodes u (m + 9) = Some (new_node 0 Null (Ptr (m + 4)))
   \<and> tasks u (m + 4) = Some ((main_task m)\<lparr>t_active := 1\<rparr>)
   \<and> cpu_opstack u = Ptr (m + 5) \<and> stacks u (m + 5) = Some (empty_stack 1024)
   \<and> cpu_stack u = Ptr (m + 7) \<and> stacks u (m + 7) = Some (empty_stack 4096)
   \<and> cpu_message_queues u = Ptr (m + 10) \<and> queues u (m + 10) = Some main_inbox
   \<and> mallocs u = m + 11 \<and> nextId u = 1"

lemma stack_ok_empty [simp]: "stack_ok (empty_stack n)" "contents (empty_stack n) = []"
  "stk_size (empty_stack n) = n" "sp (empty_stack n) = 0"
  by (simp_all add: empty_stack_def stack_ok_def stack_wf_def contents_def)

lemma fresh_machine_stacks:
  assumes "fresh_machine m prog n d u"
  shows "live_opstack u" and "operands u = []" and "opstack_capacity u = 1024"
    and "callstack (m + 7) u (empty_stack 4096)" and "m + 7 \<noteq> opstack_addr u"
    and "prog \<noteq> [] \<Longrightarrow> length prog = unat n \<Longrightarrow> code_at u prog"
  using assms
  by (simp_all add: fresh_machine_def live_opstack_def opstack_addr_def live_stack_def stack_at_def
      operands_def opstack_capacity_def callstack_def code_at_def)

lemma boot_slice:
  assumes "power_on s" and "network_up s" and "env_accept s (accepts s) = WouldBlock"
  shows "\<exists>t u. boot prog n d s = Inr ((), t)
    \<and> cpu_run_cycle (Ptr (mallocs s + 9)) t = run_cycles (unat CONTEXT_MAX_CYCLES) u
    \<and> fresh_machine (mallocs s) prog n d u \<and> cpu_task_tree_root t = Ptr (mallocs s + 9)
    \<and> dynamic_memory_usage u = dynamic_memory_usage s + 5404
    \<and> cpu_server u = Ptr (mallocs s + 3) \<and> servers u (mallocs s + 3) \<noteq> None
    \<and> env_accept u = env_accept s \<and> untouched s u \<and> out u = out s @ [Printf ''Starting VM\<newline>'' []]"
proof -
  obtain t where t: "boot prog n d s = Inr ((), t)" "cpu_program t = prog" "cpu_program_size t = n"
    "cpu_data_address t = d" "cpu_ip t = 0" "cpu_tasks_number t = 0"
    "cpu_task_tree_root t = Ptr (mallocs s + 9)"
    "cpu_task_tree_current_node t = Ptr (mallocs s + 9)"
    "nodes t (mallocs s + 9) = Some (new_node 0 Null (Ptr (mallocs s + 4)))"
    "tasks t (mallocs s + 4) = Some (main_task (mallocs s))"
    "stacks t = [mallocs s + 5 \<mapsto> empty_stack 1024, mallocs s + 7 \<mapsto> empty_stack 4096]"
    "cpu_message_queues t = Ptr (mallocs s + 10)" "queues t (mallocs s + 10) = Some main_inbox"
    "cpu_server t = Ptr (mallocs s + 3)" "has_bank t" "env_accept t = env_accept s"
    "accepts t = accepts s" "servers t (mallocs s + 3) \<noteq> None"
    "dynamic_memory_usage t = dynamic_memory_usage s + 5404" "untouched s t"
    "out t = out s @ [Printf ''Starting VM\<newline>'' []]" "mallocs t = mallocs s + 11" "nextId t = 1"
    using boot_state [OF assms(1), of prog n d] assms(2) by auto
  let ?k = "(main_task (mallocs s))\<lparr>t_active := 1\<rparr>"
  let ?u = "t\<lparr>accepts := Suc (accepts t), tasks := (tasks t)(mallocs s + 4 \<mapsto> ?k),
    cpu_opstack := Ptr (mallocs s + 5), cpu_stack := Ptr (mallocs s + 7)\<rparr>"
  have node: "n_task (new_node 0 Null (Ptr (mallocs s + 4))) = Ptr (mallocs s + 4)"
    by (simp add: new_node_def)
  have count: "q_count main_inbox = 0" by (simp add: main_inbox_def)
  have net: "cpu_check_incoming_messages t = Inr ((), t\<lparr>accepts := Suc (accepts t)\<rparr>)"
    using t(14,16-18) assms(3)
    by (auto simp: cpu_check_incoming_messages_def server_receive_message_def st_simps)
  have switch: "cpu_context_switch (Ptr (mallocs s + 9)) (t\<lparr>accepts := Suc (accepts t)\<rparr>) = Inr ((), ?u)"
    using t(5,8-10) node
    by (simp add: cpu_context_switch_def cpu_set_task_node_def put_task_def st_simps main_task_def)
  have fresh: "fresh_machine (mallocs s) prog n d ?u"
    using t(2-13,15,22,23) by (simp add: fresh_machine_def has_bank_def)
  have inbox: "cpu_process_context_inbox ?u = Inr ((), ?u)"
    using t(8,9,13) node count
    by (simp add: cpu_process_context_inbox_def current_task_def st_simps main_task_def)
  have "cpu_run_cycle (Ptr (mallocs s + 9)) t = run_cycles (unat CONTEXT_MAX_CYCLES) ?u"
    using net switch inbox by (simp add: cpu_run_cycle_def st_simps)
  with t(1,7,14,16,18-21) fresh show ?thesis
    by (intro exI [of _ t] exI [of _ ?u]) (simp add: untouched_def)
qed

section \<open>Halt\<close>

lemma free_empty_inbox:
  assumes "queues s a = Some q" and "q_head q = Null"
  shows "message_queue_free (Ptr a) s = Inr ((), s\<lparr>dynamic_memory_usage := dynamic_memory_usage s - 40,
    queues := (queues s)(a := None)\<rparr>)"
  using assms by (simp add: message_queue_free_def st_simps sizeof_MessageQueue_def)

lemma stack_free_apply:
  "stacks s a = Some k \<Longrightarrow> stack_free (Ptr a) s = Inr ((), s\<lparr>
     dynamic_memory_usage := dynamic_memory_usage s - stk_size k - 16,
     stacks := (stacks s)(a := None)\<rparr>)"
  by (simp add: stack_free_def st_simps sizeof_Stack_def)

lemma halt_single_task:
  assumes "cpu_task_tree_root s = Ptr r" and "nodes s r = Some (new_node i p (Ptr a))" and "has_bank s"
    and "tasks s a = Some k" and "t_opstack k = Ptr b" and "t_stack k = Ptr c" and "b \<noteq> c"
    and "t_inbox k = Ptr q" and "queues s q = Some x" and "q_head x = Null"
    and "stacks s b = Some x1" and "stacks s c = Some x2"
  shows "\<exists>t. execute_op OP_HALT s = Inl (ExitSuccess, t) \<and> out t = out s @ [Printf ''Exit\<newline>'' []]
    \<and> dynamic_memory_usage t = dynamic_memory_usage s - (19 + (stk_size x1 + 16) + (stk_size x2 + 16)
        + 40 + 32 + 40 + 72)"
proof -
  obtain g where g: "cpu_port_bank s = Ptr g" "port_banks s g = Some host_bank"
    using assms(3) by (auto simp: has_bank_def)
  let ?s = "s\<lparr>out := out s @ [Printf ''Exit\<newline>'' []]\<rparr>"
  let ?t = "?s\<lparr>dynamic_memory_usage := dynamic_memory_usage s - 19, port_banks := (port_banks s)(g := None)\<rparr>"
  have bank: "port_bank_free (Ptr g) ?s = Inr ((), ?t)"
    using g by (simp add: port_bank_free_def st_simps host_bank_def sizeof_PortBank_def diff_diff_eq)
  obtain k where fuel: "tree_fuel ?t = Suc (Suc k)" by (simp add: tree_fuel_def)
  let ?a = "?t\<lparr>dynamic_memory_usage := dynamic_memory_usage ?t - stk_size x1 - 16,
      stacks := (stacks ?t)(b := None)\<rparr>"
  let ?b = "?a\<lparr>dynamic_memory_usage := dynamic_memory_usage ?a - stk_size x2 - 16,
      stacks := (stacks ?a)(c := None)\<rparr>"
  have one: "stack_free (Ptr b) ?t = Inr ((), ?a)" by (rule stack_free_apply) (use assms in simp)
  have two: "stack_free (Ptr c) ?a = Inr ((), ?b)" by (rule stack_free_apply) (use assms in simp)
  have three: "message_queue_free (Ptr q) ?b = Inr ((), ?b\<lparr>dynamic_memory_usage := dynamic_memory_usage ?b - 40,
      queues := (queues ?b)(q := None)\<rparr>)" by (rule free_empty_inbox) (use assms in simp_all)
  have free: "\<exists>u. task_free (Ptr a) ?t = Inr ((), u) \<and> out u = out ?t
      \<and> dynamic_memory_usage u = dynamic_memory_usage ?t - (stk_size x1 + 16) - (stk_size x2 + 16) - 40 - 32"
    using assms(4-6,8) one two three
    by (simp add: task_free_def st_simps sizeof_Task_def diff_diff_eq)
  then obtain u where u: "task_free (Ptr a) ?t = Inr ((), u)" "out u = out ?t"
      "dynamic_memory_usage u = dynamic_memory_usage ?t - (stk_size x1 + 16) - (stk_size x2 + 16) - 40 - 32"
    by blast
  have "task_tree_free (Suc (Suc k)) (Ptr r) ?t = Inr ((), u\<lparr>nodes := (nodes ?t)(r := None),
      dynamic_memory_usage := dynamic_memory_usage u - sizeof_TaskTreeNode\<rparr>)"
    by (rule task_tree_free_leaf [where n = "new_node i p (Ptr a)"]) (use assms(2) u(1) in \<open>simp_all add: new_node_def\<close>)
  then have "execute_op OP_HALT s = Inl (ExitSuccess, u\<lparr>nodes := (nodes ?t)(r := None),
      dynamic_memory_usage := dynamic_memory_usage u - sizeof_TaskTreeNode - sizeof_CPU\<rparr>)"
    using bank g(1) assms(1) fuel
    by (simp add: execute_op_def halt_def cpu_free_def st_simps)
  with u(2,3) show ?thesis by (simp add: sizeof_TaskTreeNode_def sizeof_CPU_def diff_diff_eq algebra_simps)
qed

section \<open>Properties\<close>

text \<open>C27: start-up. Switched on with an allocator that gives memory, the machine loads the
  program and has one task: the tree is a single root, the list of inboxes holds the main
  task's empty inbox, the instruction pointer is 0, and the invariant of the machine holds.
  The objects take 5404 bytes of the counter, 28 fewer when the server could not be set up;
  in that case the first round follows the missing server's null pointer.\<close>

theorem start_up:
  assumes "power_on s"
  shows "\<exists>t. boot prog n d s = Inr ((), t) \<and> vm_inv t t \<and> cpu_program t = prog \<and> cpu_ip t = 0
    \<and> cpu_task_tree_root t = Ptr (mallocs s + 9) \<and> tree_at (nodes t) (Node (mallocs s + 9) [])
    \<and> inboxes t (cpu_message_queues t) [mallocs s + 10] \<and> inbox_ok (mallocs s + 10) t
    \<and> inbox_items (mallocs s + 10) t = []
    \<and> dynamic_memory_usage t = dynamic_memory_usage s + (if network_up s then 5404 else 5376)
    \<and> (\<not> network_up s \<longrightarrow>
        (\<exists>u. cpu_run (Suc fuel) (Suc k) t = Inl (Undefined NullDeref, u)))"
proof -
  obtain t where t: "boot prog n d s = Inr ((), t)" "cpu_program t = prog" "cpu_ip t = 0"
    "cpu_tasks_number t = 0" "mallocs t = mallocs s + 11"
    "cpu_task_tree_root t = Ptr (mallocs s + 9)"
    "nodes t (mallocs s + 9) = Some (new_node 0 Null (Ptr (mallocs s + 4)))"
    "stacks t = [mallocs s + 5 \<mapsto> empty_stack 1024, mallocs s + 7 \<mapsto> empty_stack 4096]"
    "cpu_message_queues t = Ptr (mallocs s + 10)" "queues t (mallocs s + 10) = Some main_inbox"
    "cpu_server t = (if network_up s then Ptr (mallocs s + 3) else Null)"
    "dynamic_memory_usage t = dynamic_memory_usage s + (if network_up s then 5404 else 5376)"
    using boot_state [OF assms, of prog n d] by auto
  have inv: "vm_inv t t"
    using t(4,5,8) by (auto simp: vm_inv_def MAX_TASKS_def empty_stack_def stack_wf_def fun_upd_apply
        split: if_splits)
  have tree: "tree_at (nodes t) (Node (mallocs s + 9) [])" using t(7) by (simp add: new_node_def)
  have empty: "inbox_of main_inbox (messages t) []" by (simp add: inbox_of_def main_inbox_def)
  have items: "inbox_ok (mallocs s + 10) t" "inbox_items (mallocs s + 10) t = []"
    using inbox_okI [OF t(10) empty] inbox_items_eq [OF t(10) empty] by auto
  have list: "inboxes t (cpu_message_queues t) [mallocs s + 10]"
    using t(5,9,10) by (simp add: inboxes_def main_inbox_def)
  have "\<exists>u. cpu_run (Suc fuel) (Suc k) t = Inl (Undefined NullDeref, u)" if "\<not> network_up s"
    using that t(6,11)
    by (simp add: cpu_round_def cpu_run_cycle_def cpu_check_incoming_messages_def
        server_receive_message_def st_simps)
  with t inv tree items list show ?thesis by blast
qed

text \<open>A machine before it is switched on; the server can or cannot be set up.\<close>

definition blank_cpu :: "int \<Rightarrow> cpu" where
  "blank_cpu socket = (demo_cpu [] [])\<lparr>stacks := Map.empty, port_banks := Map.empty,
     env_socket := socket\<rparr>"

lemma blank_cpu [simp]:
  "power_on (blank_cpu i)" "network_up (blank_cpu i) = (i \<noteq> -1)"
  "env_accept (blank_cpu i) k = WouldBlock" "mallocs (blank_cpu i) = 10"
  "dynamic_memory_usage (blank_cpu i) = 0"
  by (simp_all add: blank_cpu_def demo_cpu_def power_on_def network_up_def)

theorem start_up_witness:
  "(\<exists>t. boot [0] 1 1 (blank_cpu 3) = Inr ((), t) \<and> dynamic_memory_usage t = 5404
      \<and> tree_at (nodes t) (Node 19 []))
   \<and> (\<exists>t u. boot [0] 1 1 (blank_cpu (-1)) = Inr ((), t) \<and> dynamic_memory_usage t = 5376
      \<and> cpu_run 2 1 t = Inl (Undefined NullDeref, u))"
proof
  show "\<exists>t. boot [0] 1 1 (blank_cpu 3) = Inr ((), t) \<and> dynamic_memory_usage t = 5404
      \<and> tree_at (nodes t) (Node 19 [])"
    using start_up [of "blank_cpu 3" "[0]" 1 1] by (auto simp del: tree_at.simps)
  show "\<exists>t u. boot [0] 1 1 (blank_cpu (-1)) = Inr ((), t) \<and> dynamic_memory_usage t = 5376
      \<and> cpu_run 2 1 t = Inl (Undefined NullDeref, u)"
    using start_up [of "blank_cpu (-1)" "[0]" 1 1 1 0]
    by (auto simp: eval_nat_numeral simp del: tree_at.simps cpu_run.simps)
qed

text \<open>A whole run. The program is the code of a sequence of literals and two-operand
  instructions, with fewer than 255 of them and at most 512 literals, followed by \<open>HALT\<close>; no
  message arrives. Where the abstract stack machine computes values, the run reaches \<open>HALT\<close>
  in the first time slice with exactly these values on the operand stack, and the process
  exits with success; the memory counter ends 49 bytes above its value at the start (the
  28 of the server, and 21 of the port bank, which is created with one size and released
  with another). Where the abstract machine meets an undefined operation, so does the run.\<close>

lemma program_computes:
  fixes s :: cpu
  assumes "power_on s" and "network_up s" and "env_accept s (accepts s) = WouldBlock"
    and "prog = code_of is @ 0 # data" and "length prog = unat n"
    and "length is < 255" and "literals is \<le> 512" and "arun is [] = Some r"
  shows "case r of
      Inl u \<Rightarrow> \<exists>t. vm_main prog n d (Suc fuel) (Suc k) s = Inl (Undefined u, t)
    | Inr vs \<Rightarrow> \<exists>t h. vm_main prog n d (Suc fuel) (Suc k) s = Inl (ExitSuccess, t)
        \<and> execute_op OP_HALT h = Inl (ExitSuccess, t) \<and> operands h = values_image vs
        \<and> dynamic_memory_usage t = dynamic_memory_usage s + 49"
proof -
  obtain t u where boot: "boot prog n d s = Inr ((), t)"
      "cpu_run_cycle (Ptr (mallocs s + 9)) t = run_cycles (unat CONTEXT_MAX_CYCLES) u"
      "fresh_machine (mallocs s) prog n d u" "cpu_task_tree_root t = Ptr (mallocs s + 9)"
      "dynamic_memory_usage u = dynamic_memory_usage s + 5404"
    using boot_slice [OF assms(1-3), of prog n d] by blast
  have stop: "vm_main prog n d (Suc fuel) (Suc k) s = Inl e"
    if "run_cycles (unat CONTEXT_MAX_CYCLES) u = Inl e" for e
    using boot(1,2,4) that by (simp add: vm_main_boot cpu_round_def st_simps)
  define j where "j = 254 - length is"
  have j: "unat CONTEXT_MAX_CYCLES = length is + Suc j"
    using assms(6) by (simp add: CONTEXT_MAX_CYCLES_def j_def)
  note fresh = fresh_machine_stacks [OF boot(3)]
  have code: "code_at u (code_of is @ 0 # data)" using fresh(6) assms(4,5) by simp
  have "simulated (length is) [] (0 # data) (length (code_of is)) u r"
    by (rule simulate_run [OF code fresh(1) _ _ assms(8)])
      (use fresh(2,3) assms(7) in \<open>simp_all add: values_image_def\<close>)
  then show ?thesis
  proof (cases r)
    case (Inl e)
    with \<open>simulated _ _ _ _ u r\<close> obtain v where
      "\<forall>m. run_cycles (length is + m) u = Inl (Undefined e, v)"
      by (auto simp: simulated_def simp del: run_cycles.simps)
    then have "run_cycles (unat CONTEXT_MAX_CYCLES) u = Inl (Undefined e, v)" unfolding j by blast
    from stop [OF this] Inl show ?thesis by simp
  next
    case (Inr vs)
    then obtain v where v: "\<forall>m. run_cycles (length is + m) u = run_cycles m v" "live_opstack v"
        "operands v = values_image vs" "code_at v (0 # data)"
        "same_but_opstack (u\<lparr>cpu_ip := cpu_ip u + of_nat (length (code_of is))\<rparr>) v"
      using \<open>simulated _ _ _ _ u r\<close> by (auto simp: simulated_def simp del: run_cycles.simps)
    let ?m = "mallocs s" and ?h = "v\<lparr>cpu_ip := cpu_ip v + 1\<rparr>"
    have addr: "opstack_addr u = ?m + 5" "stack_at (?m + 5) u = empty_stack 1024"
      using boot(3) by (simp_all add: fresh_machine_def opstack_addr_def stack_at_def)
    obtain x where x: "v = u\<lparr>cpu_ip := cpu_ip u + of_nat (length (code_of is)),
        stacks := (stacks u)(?m + 5 \<mapsto> x)\<rparr>" "stk_size x = 1024"
      using v(5) addr by (auto simp: same_but_opstack_def same_but_stack_def opstack_addr_def stack_at_def)
    have "\<exists>t. execute_op OP_HALT ?h = Inl (ExitSuccess, t) \<and> out t = out ?h @ [Printf ''Exit\<newline>'' []]
      \<and> dynamic_memory_usage t = dynamic_memory_usage ?h - (19 + (stk_size x + 16)
          + (stk_size (empty_stack 4096) + 16) + 40 + 32 + 40 + 72)"
      by (rule halt_single_task [where a = "?m + 4" and b = "?m + 5" and c = "?m + 7" and q = "?m + 10"
            and r = "?m + 9" and k = "(main_task ?m)\<lparr>t_active := 1\<rparr>" and x = main_inbox
            and i = 0 and p = Null])
        (use boot(3) x in \<open>simp_all add: fresh_machine_def main_task_def main_inbox_def has_bank_def\<close>)
    then obtain w where w: "execute_op OP_HALT ?h = Inl (ExitSuccess, w)"
        "dynamic_memory_usage w = dynamic_memory_usage s + 49"
      using x boot(5) by auto
    have "run_instruction v = Inl (ExitSuccess, w)"
      using run_instruction_code(1) [OF v(4)] w(1)
      by (simp add: cpu_execute_def opcode_of_def nth_opt_def opcodes_def st_simps)
    then have "run_cycles (Suc j) v = Inl (ExitSuccess, w)" by (rule run_cycles_stop)
    with v(1) have "run_cycles (unat CONTEXT_MAX_CYCLES) u = Inl (ExitSuccess, w)"
      unfolding j by metis
    from stop [OF this] w v(3) Inr show ?thesis by auto
  qed
qed

text \<open>The program computes (2 + 3) * 4 < 7, and the one that divides by zero.\<close>

lemma program_computes_witness:
  "(\<exists>t h. vm_main [14, 2, 0, 14, 3, 0, 17, 14, 4, 0, 19, 14, 7, 0, 5, 0] 16 16 1 1 (blank_cpu 3)
        = Inl (ExitSuccess, t)
      \<and> execute_op OP_HALT h = Inl (ExitSuccess, t) \<and> operands h = [0]
      \<and> dynamic_memory_usage t = 49)
   \<and> (\<exists>t. vm_main [14, 2, 0, 14, 0, 0, 20, 0] 8 8 1 1 (blank_cpu 3) = Inl (Undefined DivByZero, t))"
proof
  let ?is = "[Lit 2, Lit 3, Alu OP_ADD_U16, Lit 4, Alu OP_MUL_U16, Lit 7, Alu OP_COMPARE_LT]"
  let ?p = "[14, 2, 0, 14, 3, 0, 17, 14, 4, 0, 19, 14, 7, 0, 5, 0] :: u8 list"
  have code: "?p = code_of ?is @ 0 # []"
    by (simp add: code_of_def opcode_number_def opcodes_def bytes_of_u16_def)
  have run: "arun ?is [] = Some (Inr [Flag False])"
    by (simp add: alu_def bytes_of_u16_def u16_of_bytes_def)
  have lits: "literals ?is \<le> 512" by (simp add: literals_def)
  have img: "values_image [] = []" by (simp add: values_image_def)
  from program_computes [OF _ _ _ code _ _ lits run, of "blank_cpu 3" 16 16 0 0]
  show "\<exists>t h. vm_main ?p 16 16 1 1 (blank_cpu 3) = Inl (ExitSuccess, t)
      \<and> execute_op OP_HALT h = Inl (ExitSuccess, t) \<and> operands h = [0]
      \<and> dynamic_memory_usage t = 49"
    by (simp add: img bytes_of_bool_def)
next
  let ?is = "[Lit 2, Lit 0, Alu OP_DIV_U16]"
  let ?p = "[14, 2, 0, 14, 0, 0, 20, 0] :: u8 list"
  have code: "?p = code_of ?is @ 0 # []"
    by (simp add: code_of_def opcode_number_def opcodes_def bytes_of_u16_def)
  have run: "arun ?is [] = Some (Inl DivByZero)" by (simp add: alu_def)
  have lits: "literals ?is \<le> 512" by (simp add: literals_def)
  from program_computes [OF _ _ _ code _ _ lits run, of "blank_cpu 3" 8 8 0 0]
  show "\<exists>t. vm_main ?p 8 8 1 1 (blank_cpu 3) = Inl (Undefined DivByZero, t)" by simp
qed

end
