(* ===== verification/Task_Spec.thy ===== *)
theory Task_Spec
  imports Boot_Spec
begin

text \<open>
  Tasks at work (src/cpu.c): the context switch saves and restores a task, the creation of a
  task by \<open>OP_ASYNC_CALL\<close>, the delivery of waiting messages to a task's handler, and the end
  of a task by \<open>OP_ASYNC_RETURN\<close>.
\<close>

section \<open>Context switch\<close>

text \<open>The node at \<open>c\<close> holds the task at \<open>a\<close>, whose fields are \<open>k\<close>.\<close>

definition node_task :: "'z tree_heap_scheme \<Rightarrow> nat \<Rightarrow> nat \<Rightarrow> task \<Rightarrow> bool" where
  "node_task s c a k \<longleftrightarrow> (case nodes s c of
     None \<Rightarrow> False | Some n \<Rightarrow> n_task n = Ptr a \<and> tasks s a = Some k)"

lemma node_task_iff:
  "node_task s c a k \<longleftrightarrow> (\<exists>n. nodes s c = Some n \<and> n_task n = Ptr a \<and> tasks s a = Some k)"
  by (auto simp: node_task_def split: option.splits)

text \<open>\<open>k\<close> is the running task: the machine works on its stacks.\<close>

definition running :: "'z cpu_scheme \<Rightarrow> nat \<Rightarrow> nat \<Rightarrow> task \<Rightarrow> bool" where
  "running s c a k \<longleftrightarrow> cpu_task_tree_current_node s = Ptr c \<and> node_task s c a k
     \<and> cpu_opstack s = t_opstack k \<and> cpu_stack s = t_stack k"

lemma switch_running:
  assumes "running s c a k" and "node_task s d b l"
  shows "cpu_context_switch (Ptr d) s = Inr ((), s\<lparr>
    tasks := (if a = b then (tasks s)(a \<mapsto> k\<lparr>t_ip := cpu_ip s, t_active := 1\<rparr>)
              else (tasks s)(a \<mapsto> k\<lparr>t_active := 0, t_ip := cpu_ip s\<rparr>, b \<mapsto> l\<lparr>t_active := 1\<rparr>)),
    cpu_ip := (if a = b then cpu_ip s else t_ip l),
    cpu_opstack := t_opstack l, cpu_stack := t_stack l, cpu_task_tree_current_node := Ptr d\<rparr>)"
  using assms
  by (auto simp: running_def node_task_def cpu_context_switch_def cpu_set_task_node_def
      put_task_def st_simps split: option.splits)

section \<open>Waiting messages\<close>

text \<open>The call stack after \<open>n\<close> calls in a row of the handler at \<open>h\<close>: the first returns to
  \<open>ip\<close>, each later one to \<open>h\<close>.\<close>

fun frames :: "nat \<Rightarrow> u16 \<Rightarrow> u16 \<Rightarrow> stack \<Rightarrow> stack" where
  "frames 0 ip h k = k"
| "frames (Suc n) ip h k = with_frame (if n = 0 then ip else h) (frames n ip h k)"

lemma frames_first: "frames n h h (with_frame ip k) = frames (Suc n) ip h k"
  by (induction n) simp_all

lemma frames_ok:
  assumes "stack_ok k" and "unat (sp k) + 4 * n \<le> unat (stk_size k)"
  shows "stack_ok (frames n ip h k) \<and> unat (sp (frames n ip h k)) = unat (sp k) + 4 * n
    \<and> stk_size (frames n ip h k) = stk_size k"
  using assms(2)
proof (induction n)
  case (Suc n)
  then have IH: "stack_ok (frames n ip h k)" "unat (sp (frames n ip h k)) = unat (sp k) + 4 * n"
    "stk_size (frames n ip h k) = stk_size k" by simp_all
  have "unat (sp (frames n ip h k)) + 4 \<le> unat (stk_size (frames n ip h k))"
    using IH Suc.prems by simp
  from with_frame_facts [OF IH(1) this] IH show ?case by simp
qed (simp add: assms(1))

text \<open>What the release of messages takes from the memory counter.\<close>

definition memory_of :: "(nat \<Rightarrow> message option) \<Rightarrow> nat list \<Rightarrow> u16" where
  "memory_of h ms = sum_list (map (\<lambda>m. case h m of None \<Rightarrow> 0 | Some y \<Rightarrow> m_payload_size y + 32) ms)"

lemma memory_of_other: "m \<notin> set ms \<Longrightarrow> memory_of (h(m := x)) ms = memory_of h ms"
  unfolding memory_of_def by (rule arg_cong [of _ _ sum_list], rule map_cong) (auto simp: fun_upd_apply)

text \<open>The machine after its handler calls.\<close>

definition called :: "nat \<Rightarrow> nat \<Rightarrow> u16 \<Rightarrow> stack \<Rightarrow> 'z cpu_scheme \<Rightarrow> 'z cpu_scheme" where
  "called b n h kk s = (if n = 0 \<or> h = 0 then s
     else s\<lparr>cpu_ip := h, stacks := (stacks s)(b \<mapsto> frames n (cpu_ip s) h kk)\<rparr>)"

lemma process_inbox_loop_runs:
  assumes "cpu_task_tree_current_node s = Ptr c" and "node_task s c a k" and "queues s q = Some x"
    and "unat (q_count x) = length ms" and "distinct ms" and "linked (messages s) (q_head x) ms e"
    and "callstack b s kk" and "unat (sp kk) + 4 * length ms \<le> unat (stk_size kk)"
  shows "process_inbox_loop (Suc (length ms)) (Ptr q) s =
    Inr ((), (called b (length ms) (t_message_handler_address k) kk s)\<lparr>
      messages := messages s |` (- set ms),
      queues := (queues s)(q \<mapsto> x\<lparr>q_head := e, q_count := 0\<rparr>),
      dynamic_memory_usage := dynamic_memory_usage s - memory_of (messages s) ms\<rparr>)"
  using assms
proof (induction ms arbitrary: s x kk)
  case Nil
  then have "q_head x = e" "q_count x = 0" by (simp_all add: word_unat_eq_iff)
  moreover from this have "x\<lparr>q_head := e, q_count := 0\<rparr> = x" by (cases x) simp
  then have "(queues s)(q \<mapsto> x\<lparr>q_head := e, q_count := 0\<rparr>) = queues s"
    using Nil(3) by (simp only:) (rule fun_upd_idem)
  ultimately show ?case
    using Nil by (simp add: st_simps called_def memory_of_def)
next
  case (Cons m ms)
  let ?h = "t_message_handler_address k"
  obtain n where n: "nodes s c = Some n" "n_task n = Ptr a" "tasks s a = Some k"
    using Cons.prems(2) by (auto simp: node_task_def split: option.splits)
  obtain y where y: "q_head x = Ptr m" "messages s m = Some y" "linked (messages s) (m_next y) ms e"
    using Cons.prems(6) by auto
  have pos: "q_count x > 0" and pred: "unat (q_count x - 1) = length ms"
    using Cons.prems(4) unat_u16_sub [of 1 "q_count x"] by (simp_all add: word_less_nat_alt word_le_nat_alt)
  let ?kk = "if ?h = 0 then kk else with_frame (cpu_ip s) kk"
  let ?x = "x\<lparr>q_head := m_next y, q_count := q_count x - 1\<rparr>"
  let ?t = "(called b 1 ?h kk s)\<lparr>queues := (queues s)(q \<mapsto> ?x),
     dynamic_memory_usage := dynamic_memory_usage s - m_payload_size y - 32,
     messages := (messages s)(m := None)\<rparr>"
  have k: "stack_ok kk" "stacks s b = Some kk" using Cons.prems(7) by (simp_all add: callstack_def)
  have room: "unat (sp kk) + 4 \<le> unat (stk_size kk)" using Cons.prems(8) by simp
  note f = with_frame_facts [OF k(1) room, of "cpu_ip s"]
  have step: "process_inbox_loop (Suc (length (m # ms))) (Ptr q) s
      = process_inbox_loop (Suc (length ms)) (Ptr q) ?t"
    using n y Cons.prems(1,3) pos call_address_room [OF Cons.prems(7) room, of ?h]
    by (subst process_inbox_loop.simps)
      (auto simp: current_task_def message_free_def put_queue_def st_simps called_def sizeof_Message_def
        word_gt_0 Let_def simp del: process_inbox_loop.simps)
  have "process_inbox_loop (Suc (length ms)) (Ptr q) ?t =
      Inr ((), (called b (length ms) ?h ?kk ?t)\<lparr>messages := messages ?t |` (- set ms),
      queues := (queues ?t)(q \<mapsto> ?x\<lparr>q_head := e, q_count := 0\<rparr>),
      dynamic_memory_usage := dynamic_memory_usage ?t - memory_of (messages ?t) ms\<rparr>)"
  proof (rule Cons.IH)
    show "unat (sp ?kk) + 4 * length ms \<le> unat (stk_size ?kk)"
      using Cons.prems(8) f(1,4) by simp
    show "callstack b ?t ?kk" using Cons.prems(7) f(6) by (simp add: callstack_def called_def)
    show "linked (messages ?t) (q_head ?x) ms e"
      using y(3) Cons.prems(5) by (simp add: linked_other)
  qed (use Cons.prems n pred in \<open>simp_all add: called_def node_task_def\<close>)
  moreover have "called b (length ms) ?h ?kk ?t = ?t\<lparr>cpu_ip := cpu_ip (called b (length (m # ms)) ?h kk s),
      stacks := stacks (called b (length (m # ms)) ?h kk s)\<rparr>"
    using frames_first [of "length ms" ?h "cpu_ip s" kk] by (auto simp: called_def)
  moreover have "messages ?t |` (- set ms) = messages s |` (- set (m # ms))"
    by (rule ext) (auto simp: restrict_map_def fun_upd_apply called_def)
  moreover have "dynamic_memory_usage ?t - memory_of (messages ?t) ms
      = dynamic_memory_usage s - memory_of (messages s) (m # ms)"
    using Cons.prems(5) y(2) by (simp add: memory_of_other) (simp add: memory_of_def)
  ultimately show ?case
    unfolding step by (simp add: called_def)
qed

section \<open>New tasks\<close>

lemma add_child_rest:
  assumes "task_tree_add_child p task s = Inr (r, u)"
  shows "u = s\<lparr>mallocs := mallocs u, dynamic_memory_usage := dynamic_memory_usage s + 40,
      nodes := nodes u, nextId := nextId u\<rparr> \<and> mallocs s < mallocs u"
  using assms
  by (cases p) (auto simp: task_tree_add_child_def task_tree_create_node_def put_node_def st_simps
      sizeof_TaskTreeNode_def Let_def split: option.splits if_splits)

lemma last_queue_last:
  assumes "queue_list h p (as @ [l])" and "h = queues s" and "length as < n"
  shows "last_queue n p s = Inr (Ptr l, s)"
  using assms
proof (induction as arbitrary: p n)
  case Nil
  then obtain k where "n = Suc k" by (cases n) auto
  with Nil show ?case by (auto simp: st_simps)
next
  case (Cons a as)
  then obtain k where n: "n = Suc k" by (cases n) auto
  obtain q where q: "p = Ptr a" "queues s a = Some q" "queue_list h (q_next q) (as @ [l])"
    using Cons.prems by auto
  obtain b where "q_next q = Ptr b" using q(3) by (cases as) auto
  with q Cons.IH [OF q(3) Cons.prems(2), of k] Cons.prems(3) n show ?case by (simp add: st_simps)
qed

lemma queue_list_other: "a \<notin> set as \<Longrightarrow> queue_list (h(a := x)) p as = queue_list h p as"
  by (induction as arbitrary: p) auto

lemma queue_list_extend:
  assumes "queue_list h p (as @ [l])" and "h l = Some q" and "distinct (as @ [l])"
    and "a \<notin> set (as @ [l])" and "q_next new = Null"
  shows "queue_list (h(a \<mapsto> new, l \<mapsto> q\<lparr>q_next := Ptr a\<rparr>)) p (as @ [l, a])"
  using assms
proof (induction as arbitrary: p)
  case (Cons b as)
  then have "queue_list h (q_next (the (h b))) (as @ [l])" "p = Ptr b" "h b \<noteq> None" by auto
  with Cons show ?case by auto
qed auto

text \<open>What a machine needs to create a task: memory, a consistent tree, its inboxes in a list
  and all its objects allocated.\<close>

definition can_spawn :: "nat list \<Rightarrow> tree \<Rightarrow> nat \<Rightarrow> 'z cpu_scheme \<Rightarrow> bool" where
  "can_spawn as t c s \<longleftrightarrow> (\<forall>i. malloc_ok s i) \<and> nextId s < 2147483647
     \<and> tree_at (nodes s) t \<and> distinct (preorder t) \<and> c \<in> set (preorder t)
     \<and> (\<forall>a \<in> set (preorder t). a < mallocs s)
     \<and> cpu_task_tree_current_node s = Ptr c \<and> (\<exists>n. nodes s c = Some n \<and> node_ok n)
     \<and> as \<noteq> [] \<and> distinct as \<and> inboxes s (cpu_message_queues s) as \<and> (\<forall>a \<in> set as. a < mallocs s)
     \<and> opstack_addr s < mallocs s"

definition spawned :: "nat \<Rightarrow> nat \<Rightarrow> u16 \<Rightarrow> u16 \<Rightarrow> u16 \<Rightarrow> task" where
  "spawned m q i address h = \<lparr>t_opstack = Ptr (m + 1), t_stack = Ptr (m + 3), t_inbox = Ptr q,
     t_id = i, t_ip = address, t_message_handler_address = h, t_active = 0\<rparr>"

lemma create_inbox_result:
  assumes "\<forall>i. malloc_ok s i" and "tasks s a = Some k" and "as \<noteq> []" and "distinct as"
    and "inboxes s (cpu_message_queues s) as" and "\<forall>b \<in> set as. b < mallocs s"
  shows "\<exists>t. cpu_create_task_inbox (Ptr a) s = Inr ((), t)
    \<and> tasks t = (tasks s)(a \<mapsto> k\<lparr>t_inbox := Ptr (mallocs s)\<rparr>)
    \<and> inboxes t (cpu_message_queues s) (as @ [mallocs s])
    \<and> queues t (mallocs s) = Some (main_inbox\<lparr>q_task_id := t_id k\<rparr>)
    \<and> (\<exists>q. queues s (last as) = Some q \<and> queues t
        = (queues s)(mallocs s \<mapsto> main_inbox\<lparr>q_task_id := t_id k\<rparr>, last as \<mapsto> q\<lparr>q_next := Ptr (mallocs s)\<rparr>))
    \<and> t = s\<lparr>mallocs := Suc (mallocs s), dynamic_memory_usage := dynamic_memory_usage s + 40,
        tasks := tasks t, queues := queues t\<rparr>"
proof -
  let ?m = "mallocs s" and ?new = "main_inbox\<lparr>q_task_id := t_id k\<rparr>"
  obtain bs l where as: "as = bs @ [l]" using assms(3) by (cases as rule: rev_cases) auto
  have list: "queue_list (queues s) (cpu_message_queues s) (bs @ [l])" "length as \<le> ?m"
    using assms(5) as by (simp_all add: inboxes_def)
  obtain q where q: "queues s l = Some q" using queue_list_live [OF list(1), of l] by auto
  have fresh: "?m \<notin> set (bs @ [l])" using assms(6) as by auto
  let ?s = "s\<lparr>mallocs := Suc ?m, dynamic_memory_usage := dynamic_memory_usage s + 40,
      queues := (queues s)(?m \<mapsto> ?new)\<rparr>"
  let ?u = "?s\<lparr>tasks := (tasks s)(a \<mapsto> k\<lparr>t_inbox := Ptr ?m\<rparr>)\<rparr>"
  have make: "message_queue_create (t_id k) s = Inr (Ptr ?m, ?s)"
    by (rule queue_create_result) (use assms(1) in simp)
  have list_u: "queue_list (queues ?u) (cpu_message_queues s) (bs @ [l])"
    using list(1) fresh by (simp add: queue_list_other)
  have final: "last_queue (Suc (Suc ?m)) (cpu_message_queues s) ?u = Inr (Ptr l, ?u)"
    by (rule last_queue_last [OF list_u]) (use list(2) as in simp_all)
  have lm: "l \<noteq> ?m" using fresh by auto
  let ?t = "?u\<lparr>queues := (queues s)(?m \<mapsto> ?new, l \<mapsto> q\<lparr>q_next := Ptr ?m\<rparr>)\<rparr>"
  have "cpu_create_task_inbox (Ptr a) s = Inr ((), ?t)"
    using make final assms(2) q lm
    by (simp add: cpu_create_task_inbox_def put_task_def put_queue_def st_simps
        del: last_queue.simps)
  moreover have "queue_list ((queues s)(?m \<mapsto> ?new, l \<mapsto> q\<lparr>q_next := Ptr ?m\<rparr>))
      (cpu_message_queues s) (bs @ [l, ?m])"
    by (rule queue_list_extend [OF list(1) q _ fresh]) (use assms(4) as in \<open>simp_all add: main_inbox_def\<close>)
  ultimately show ?thesis using list(2) as lm q by (intro exI [of _ ?t]) (simp add: inboxes_def)
qed

text \<open>A time slice without a message, from the network or in the inbox.\<close>

definition switched :: "nat \<Rightarrow> task \<Rightarrow> nat \<Rightarrow> nat \<Rightarrow> task \<Rightarrow> 'z cpu_scheme \<Rightarrow> 'z cpu_scheme" where
  "switched a k d b l s = s\<lparr>
    tasks := (if a = b then (tasks s)(a \<mapsto> k\<lparr>t_ip := cpu_ip s, t_active := 1\<rparr>)
              else (tasks s)(a \<mapsto> k\<lparr>t_active := 0, t_ip := cpu_ip s\<rparr>, b \<mapsto> l\<lparr>t_active := 1\<rparr>)),
    cpu_ip := (if a = b then cpu_ip s else t_ip l),
    cpu_opstack := t_opstack l, cpu_stack := t_stack l, cpu_task_tree_current_node := Ptr d\<rparr>"

lemma quiet_slice:
  assumes "cpu_server s = Ptr z" and "servers s z = Some sv" and "env_accept s (accepts s) = WouldBlock"
    and "running s c a k" and "node_task s d b l" and "t_inbox l = Ptr q" and "queues s q = Some x"
    and "q_count x = 0"
  shows "cpu_run_cycle (Ptr d) s
    = run_cycles (unat CONTEXT_MAX_CYCLES) (switched a k d b l (s\<lparr>accepts := Suc (accepts s)\<rparr>))"
proof -
  let ?s = "s\<lparr>accepts := Suc (accepts s)\<rparr>"
  have net: "cpu_check_incoming_messages s = Inr ((), ?s)"
    using assms(1-3) by (simp add: cpu_check_incoming_messages_def server_receive_message_def st_simps)
  have "running ?s c a k" "node_task ?s d b l"
    using assms(4,5) by (auto simp: running_def node_task_def split: option.splits)
  from switch_running [OF this]
  have switch: "cpu_context_switch (Ptr d) ?s = Inr ((), switched a k d b l ?s)"
    by (simp add: switched_def)
  have "cpu_process_context_inbox (switched a k d b l ?s) = Inr ((), switched a k d b l ?s)"
    using assms(4-8)
    by (auto simp: cpu_process_context_inbox_def current_task_def st_simps switched_def node_task_def
        running_def split: option.splits)
  with net switch show ?thesis by (simp add: cpu_run_cycle_def st_simps)
qed

text \<open>The machine \<open>u\<close> is \<open>s\<close> with the new task, for a running task whose node is \<open>n\<close> and whose
  operand stack is \<open>x\<close> after the instruction; \<open>l\<close> is the last inbox and \<open>q\<close> the new one.\<close>

definition task_added :: "'z cpu_scheme \<Rightarrow> stack \<Rightarrow> nat \<Rightarrow> ptr \<Rightarrow> node \<Rightarrow> nat \<Rightarrow> u16 \<Rightarrow> u16 \<Rightarrow> 'z cpu_scheme \<Rightarrow> bool"
where
  "task_added s x l c n q address h u \<longleftrightarrow> (let m = mallocs s; i = cpu_tasks_number s + 1 in
     m + 5 < q \<and> queues s l \<noteq> None
     \<and> u = s\<lparr>cpu_tasks_number := i, mallocs := Suc q, dynamic_memory_usage := dynamic_memory_usage s + 5264,
         stacks := (stacks s)(opstack_addr s \<mapsto> x, m + 1 \<mapsto> empty_stack 1024, m + 3 \<mapsto> empty_stack 4096),
         tasks := (tasks s)(m \<mapsto> spawned m q i address h), nextId := nextId s + 1,
         nodes := (nodes s)(m + 5 \<mapsto> new_node (nextId s) c (Ptr m), addr_of_ptr c \<mapsto> with_kid (m + 5) n),
         queues := (queues s)(q \<mapsto> main_inbox\<lparr>q_task_id := i\<rparr>,
           l \<mapsto> (the (queues s l))\<lparr>q_next := Ptr q\<rparr>)\<rparr>)"

lemma next_task_id:
  assumes "cpu_tasks_number s \<le> MAX_TASKS" and "cpu_tasks_number s \<noteq> MAX_TASKS"
  shows "ucast (ucast (cpu_tasks_number s + 1) :: u8) = cpu_tasks_number s + 1"
proof -
  have "unat (cpu_tasks_number s + 1) < 256"
    using tasks_number_next(1) [OF assms] by (simp add: MAX_TASKS_def word_le_nat_alt)
  then show ?thesis by (simp add: word_unat_eq_iff unsigned_ucast_eq unsigned_take_bit_eq take_bit_nat_eq_self)
qed

text \<open>The task's record and stacks, and its node.\<close>

lemma new_task_node:
  fixes s :: "'z cpu_scheme" and address h :: u16 and i :: u8
  assumes "can_spawn as t c s"
  defines "k \<equiv> \<lparr>t_opstack = Ptr (mallocs s + 1), t_stack = Ptr (mallocs s + 3), t_inbox = Indet, t_id = ucast i,
      t_ip = address, t_message_handler_address = h, t_active = 0\<rparr>"
  shows "\<exists>w y n. task_create i address TASK_OPSTACK_SIZE TASK_STACK_SIZE h s = Inr (Ptr (mallocs s), w)
    \<and> cpu_task_tree_current_node w = Ptr c
    \<and> task_tree_add_child (Ptr c) (Ptr (mallocs s)) w = Inr (Ptr (mallocs s + 5), y)
    \<and> nodes s c = Some n \<and> mallocs s + 5 < mallocs y \<and> tree_at (nodes y) (add_kid c (mallocs s + 5) t)
    \<and> y = s\<lparr>mallocs := mallocs y, dynamic_memory_usage := dynamic_memory_usage s + 5224,
        stacks := (stacks s)(mallocs s + 1 \<mapsto> empty_stack 1024, mallocs s + 3 \<mapsto> empty_stack 4096),
        tasks := (tasks s)(mallocs s \<mapsto> k), nextId := nextId s + 1,
        nodes := (nodes s)(mallocs s + 5 \<mapsto> new_node (nextId s) (Ptr c) (Ptr (mallocs s)), c \<mapsto> with_kid (mallocs s + 5) n)\<rparr>"
proof -
  let ?m = "mallocs s"
  let ?w = "s\<lparr>mallocs := ?m + 5, dynamic_memory_usage := dynamic_memory_usage s + 5184,
    stacks := (stacks s)(?m + 1 \<mapsto> empty_stack 1024, ?m + 3 \<mapsto> empty_stack 4096), tasks := (tasks s)(?m \<mapsto> k)\<rparr>"
  note spawn = assms(1) [unfolded can_spawn_def]
  obtain n where n: "nodes s c = Some n" "node_ok n" using spawn by blast
  have task: "task_create i address TASK_OPSTACK_SIZE TASK_STACK_SIZE h s = Inr (Ptr ?m, ?w)"
    using task_create_result [of s i address TASK_OPSTACK_SIZE TASK_STACK_SIZE h] spawn
    by (simp add: TASK_OPSTACK_SIZE_def TASK_STACK_SIZE_def k_def)
  have cm: "c \<noteq> ?m + 5" using spawn by force
  obtain y where y: "task_tree_add_child (Ptr c) (Ptr ?m) ?w = Inr (Ptr (?m + 5), y)"
      "nodes y = (nodes s)(?m + 5 \<mapsto> new_node (nextId s) (Ptr c) (Ptr ?m), c \<mapsto> with_kid (?m + 5) n)"
      "extended (?m + 5) n (with_kid (?m + 5) n)" "nextId y = nextId s + 1"
    using add_child_heap [of ?w c n "Ptr ?m"] spawn n cm by auto
  have y': "y = ?w\<lparr>mallocs := mallocs y, dynamic_memory_usage := dynamic_memory_usage ?w + 40,
      nodes := nodes y, nextId := nextId y\<rparr>" "?m + 5 < mallocs y"
    using add_child_rest [OF y(1)] by simp_all
  have tree: "tree_at (nodes y) (add_kid c (?m + 5) t)"
    unfolding y(2) using spawn n y(3) by (intro tree_at_add_kid) (auto simp: new_node_def)
  have "y = s\<lparr>mallocs := mallocs y, dynamic_memory_usage := dynamic_memory_usage s + 5224,
      stacks := stacks ?w, tasks := tasks ?w, nextId := nextId y, nodes := nodes y\<rparr>"
    by (subst y'(1)) simp
  with task y y'(2) tree n(1) spawn show ?thesis by (intro exI [of _ ?w] exI [of _ y] exI [of _ n]) simp
qed

lemma create_task_result:
  fixes s :: "'z cpu_scheme"
  assumes "live_opstack s" and "operands s = xs @ rev (bytes_of_u16 h)" and "can_spawn as t c s"
    and "cpu_tasks_number s \<le> MAX_TASKS" and "cpu_tasks_number s \<noteq> MAX_TASKS"
  shows "\<exists>u x n q. cpu_create_task address s = Inr ((), u) \<and> stack_ok x \<and> contents x = xs
    \<and> stk_size x = stk_size (stack_at (opstack_addr s) s)
    \<and> task_added s x (last as) (Ptr c) n q address h u \<and> nodes s c = Some n
    \<and> tree_at (nodes u) (add_kid c (mallocs s + 5) t)
    \<and> inboxes u (cpu_message_queues u) (as @ [q]) \<and> last as \<noteq> q"
proof -
  let ?m = "mallocs s" and ?i = "cpu_tasks_number s + 1" and ?a = "opstack_addr s"
  let ?s = "s\<lparr>cpu_tasks_number := ?i\<rparr>"
  note spawn = assms(3) [unfolded can_spawn_def] and i = next_task_id [OF assms(4,5)]
  have live: "live_opstack ?s" "operands ?s = xs @ rev (bytes_of_u16 h)"
    using assms(1,2) by (simp_all add: live_opstack_def opstack_addr_def live_stack_def stack_at_def operands_def)
  obtain v where v: "opstack_pop 2 ?s = Inr (bytes_of_u16 h, v)" "live_opstack v" "operands v = xs" "same_but_opstack ?s v"
    using opstack_lifo.pop_enough [OF live] by auto
  obtain x where x: "v = ?s\<lparr>stacks := (stacks s)(?a \<mapsto> x)\<rparr>" and size: "stk_size x = stk_size (stack_at ?a s)"
    using v(4) by (auto simp: same_but_opstack_def same_but_stack_def opstack_addr_def stack_at_def)
  have "can_spawn as t c v" using assms(3) by (simp add: can_spawn_def x opstack_addr_def inboxes_def)
  then obtain w y n where y: "task_create (ucast ?i) address TASK_OPSTACK_SIZE TASK_STACK_SIZE h v = Inr (Ptr (mallocs v), w)"
      "cpu_task_tree_current_node w = Ptr c"
      "task_tree_add_child (Ptr c) (Ptr (mallocs v)) w = Inr (Ptr (mallocs v + 5), y)"
      "nodes v c = Some n" "mallocs v + 5 < mallocs y" "tree_at (nodes y) (add_kid c (mallocs v + 5) t)"
      "y = v\<lparr>mallocs := mallocs y, dynamic_memory_usage := dynamic_memory_usage v + 5224,
        stacks := (stacks v)(mallocs v + 1 \<mapsto> empty_stack 1024, mallocs v + 3 \<mapsto> empty_stack 4096),
        tasks := (tasks v)(mallocs v \<mapsto> \<lparr>t_opstack = Ptr (mallocs v + 1), t_stack = Ptr (mallocs v + 3), t_inbox = Indet,
          t_id = ucast (ucast ?i :: u8), t_ip = address, t_message_handler_address = h, t_active = 0\<rparr>), nextId := nextId v + 1,
        nodes := (nodes v)(mallocs v + 5 \<mapsto> new_node (nextId v) (Ptr c) (Ptr (mallocs v)), c \<mapsto> with_kid (mallocs v + 5) n)\<rparr>"
    using new_task_node by metis
  define q where "q = mallocs y"
  let ?k = "\<lparr>t_opstack = Ptr (?m + 1), t_stack = Ptr (?m + 3), t_inbox = Indet, t_id = ?i, t_ip = address,
      t_message_handler_address = h, t_active = 0\<rparr>"
  have y_eq: "y = s\<lparr>cpu_tasks_number := ?i, mallocs := q, dynamic_memory_usage := dynamic_memory_usage s + 5224,
      stacks := (stacks s)(?a \<mapsto> x, ?m + 1 \<mapsto> empty_stack 1024, ?m + 3 \<mapsto> empty_stack 4096), tasks := (tasks s)(?m \<mapsto> ?k),
      nextId := nextId s + 1, nodes := (nodes s)(?m + 5 \<mapsto> new_node (nextId s) (Ptr c) (Ptr ?m), c \<mapsto> with_kid (?m + 5) n)\<rparr>"
    by (subst y(7)) (simp add: x i q_def)
  have later: "?m + 5 < q" using y(5) by (simp add: x q_def)
  have pre: "\<forall>i. malloc_ok y i" "tasks y ?m = Some ?k" "inboxes y (cpu_message_queues y) as" "\<forall>b \<in> set as. b < mallocs y"
    using spawn later by (auto simp: y_eq inboxes_def)
  obtain u where u: "cpu_create_task_inbox (Ptr ?m) y = Inr ((), u)" "tasks u = (tasks y)(?m \<mapsto> ?k\<lparr>t_inbox := Ptr q\<rparr>)"
      "inboxes u (cpu_message_queues y) (as @ [q])" "queues s (last as) \<noteq> None"
      "queues u = (queues s)(q \<mapsto> main_inbox\<lparr>q_task_id := ?i\<rparr>, last as \<mapsto> (the (queues s (last as)))\<lparr>q_next := Ptr q\<rparr>)"
      "u = y\<lparr>mallocs := Suc q, dynamic_memory_usage := dynamic_memory_usage y + 40, tasks := tasks u, queues := queues u\<rparr>"
    using create_inbox_result [OF pre(1,2) _ _ pre(3,4)] spawn by (auto simp: y_eq)
  have u_eq: "u = s\<lparr>cpu_tasks_number := ?i, mallocs := Suc q, dynamic_memory_usage := dynamic_memory_usage s + 5264,
      stacks := stacks y, tasks := tasks u, nextId := nextId s + 1, nodes := nodes y, queues := queues u\<rparr>"
    by (subst u(6)) (simp add: y_eq)
  have "cpu_create_task address s = Inr ((), u)"
    using assms(5) v(1) y(1-3) u(1) spawn by (simp add: cpu_create_task_def opstack_pop_def st_simps x)
  moreover have "stack_ok x" "contents x = xs"
    using v(2,3) by (auto simp: x live_opstack_def live_stack_def opstack_addr_def stack_at_def operands_def)
  moreover have "task_added s x (last as) (Ptr c) n q address h u"
    unfolding task_added_def Let_def using later u(4)
    by (subst u_eq) (simp add: u(2,5) y_eq spawned_def)
  moreover have "last as \<noteq> q" using spawn later by (metis last_in_set less_trans not_add_less1 not_less_iff_gr_or_eq)
  moreover have "nodes u = nodes y" "cpu_message_queues u = cpu_message_queues y" by (subst u_eq, simp add: y_eq)+
  ultimately show ?thesis using size y(4,6) u(3) by (auto simp: x)
qed

section \<open>Properties\<close>

text \<open>C12: the context switch saves the running task and restores the other. Switching from
  the task at \<open>a\<close> to the one at \<open>b\<close> stores the instruction pointer in the first, marks it
  inactive, and continues the second where it was saved, on its own stacks; nothing else of
  the machine changes. Whatever the machine does in between, as long as it leaves the first
  task's record and node alone, switching back restores exactly the instruction pointer and
  the stacks it had.\<close>

theorem context_switch_roundtrip:
  fixes s :: "'z cpu_scheme"
  assumes "running s c a k" and "node_task s d b l" and "a \<noteq> b"
  shows "\<exists>t. cpu_context_switch (Ptr d) s = Inr ((), t)
    \<and> running t d b (l\<lparr>t_active := 1\<rparr>) \<and> cpu_ip t = t_ip l
    \<and> tasks t a = Some (k\<lparr>t_active := 0, t_ip := cpu_ip s\<rparr>)
    \<and> t = s\<lparr>tasks := tasks t, cpu_ip := cpu_ip t, cpu_opstack := cpu_opstack t,
            cpu_stack := cpu_stack t, cpu_task_tree_current_node := cpu_task_tree_current_node t\<rparr>
    \<and> (\<forall>(u :: 'z cpu_scheme) l'. running u d b l' \<and> node_task u c a (k\<lparr>t_active := 0, t_ip := cpu_ip s\<rparr>) \<longrightarrow>
        (\<exists>v. cpu_context_switch (Ptr c) u = Inr ((), v)
          \<and> running v c a (k\<lparr>t_ip := cpu_ip s, t_active := 1\<rparr>)
          \<and> cpu_ip v = cpu_ip s \<and> cpu_opstack v = cpu_opstack s \<and> cpu_stack v = cpu_stack s
          \<and> tasks v b = Some (l'\<lparr>t_active := 0, t_ip := cpu_ip u\<rparr>)))"
proof -
  let ?k = "k\<lparr>t_active := 0, t_ip := cpu_ip s\<rparr>"
  let ?t = "s\<lparr>tasks := (tasks s)(a \<mapsto> ?k, b \<mapsto> l\<lparr>t_active := 1\<rparr>), cpu_ip := t_ip l,
    cpu_opstack := t_opstack l, cpu_stack := t_stack l, cpu_task_tree_current_node := Ptr d\<rparr>"
  have there: "cpu_context_switch (Ptr d) s = Inr ((), ?t)"
    using switch_running [OF assms(1,2)] assms(3) by simp
  have run: "running ?t d b (l\<lparr>t_active := 1\<rparr>)"
    using assms(2) by (auto simp: running_def node_task_def split: option.splits)
  have again: "\<exists>v. cpu_context_switch (Ptr c) u = Inr ((), v)
      \<and> running v c a (k\<lparr>t_ip := cpu_ip s, t_active := 1\<rparr>)
      \<and> cpu_ip v = cpu_ip s \<and> cpu_opstack v = cpu_opstack s \<and> cpu_stack v = cpu_stack s
      \<and> tasks v b = Some (l'\<lparr>t_active := 0, t_ip := cpu_ip u\<rparr>)"
    if "running u d b l' \<and> node_task u c a ?k" for u :: "'z cpu_scheme" and l'
    using that assms(1,3) switch_running [of u d b l' c a ?k]
    by (simp add: running_def) (auto simp: node_task_def split: option.splits)
  show ?thesis
    using there run again assms(3) by (intro exI [where x = ?t], intro conjI allI impI) simp_all
qed

text \<open>A machine with the tasks of a root (address 11) and of two leaves (12, 13), the root's
  running.\<close>

definition task_at :: "nat \<Rightarrow> u16 \<Rightarrow> u16 \<Rightarrow> task" where
  "task_at b i ip = \<lparr>t_opstack = Ptr b, t_stack = Ptr (b + 1), t_inbox = Ptr (b + 2), t_id = i,
     t_ip = ip, t_message_handler_address = 0, t_active = 0\<rparr>"

definition demo_tasks :: "u8 list \<Rightarrow> cpu" where
  "demo_tasks prog = (demo_cpu [] prog)\<lparr>
     stacks := (\<lambda>a. if a \<in> {20, 21, 23, 24, 26, 27} then Some (empty_stack 16) else None),
     queues := [22 \<mapsto> main_inbox\<lparr>q_next := Ptr 25\<rparr>, 25 \<mapsto> main_inbox\<lparr>q_next := Ptr 28, q_task_id := 1\<rparr>,
       28 \<mapsto> main_inbox\<lparr>q_task_id := 2\<rparr>],
     tasks := [11 \<mapsto> task_at 20 0 0, 12 \<mapsto> task_at 23 1 0, 13 \<mapsto> task_at 26 2 7],
     nodes := [1 \<mapsto> demo_node 0 [Ptr 2, Ptr 3] Null (Ptr 11), 2 \<mapsto> demo_node 1 [] (Ptr 1) (Ptr 12),
       3 \<mapsto> demo_node 2 [] (Ptr 1) (Ptr 13)],
     nextId := 3, mallocs := 30, cpu_tasks_number := 2, cpu_message_queues := Ptr 22,
     cpu_task_tree_root := Ptr 1, cpu_task_tree_current_node := Ptr 1,
     cpu_opstack := Ptr 20, cpu_stack := Ptr 21\<rparr>"

lemma demo_tasks_running:
  "running (demo_tasks prog) 1 11 (task_at 20 0 0)"
  "node_task (demo_tasks prog) 2 12 (task_at 23 1 0)"
  "node_task (demo_tasks prog) 3 13 (task_at 26 2 7)"
  by (simp_all add: running_def node_task_def demo_tasks_def task_at_def demo_node_def)

theorem context_switch_roundtrip_witness:
  "\<exists>t v. cpu_context_switch (Ptr 3) (demo_tasks []) = Inr ((), t) \<and> cpu_ip t = 7
     \<and> cpu_context_switch (Ptr 1) t = Inr ((), v) \<and> cpu_ip v = 0 \<and> cpu_opstack v = Ptr 20"
proof -
  have ip: "cpu_ip (demo_tasks []) = 0" "cpu_opstack (demo_tasks []) = Ptr 20"
    by (simp_all add: demo_tasks_def demo_cpu_def)
  obtain n where n: "nodes (demo_tasks []) 1 = Some n" "n_task n = Ptr 11"
    by (simp add: demo_tasks_def demo_node_def)
  let ?k = "(task_at 20 0 0)\<lparr>t_active := 0, t_ip := cpu_ip (demo_tasks [])\<rparr>"
  have "(11 :: nat) \<noteq> 13" by simp
  from context_switch_roundtrip [OF demo_tasks_running(1,3) this, of "[]"] obtain t where
    t: "cpu_context_switch (Ptr 3) (demo_tasks []) = Inr ((), t)"
      "running t 3 13 ((task_at 26 2 7)\<lparr>t_active := 1\<rparr>)" "cpu_ip t = t_ip (task_at 26 2 7)"
      "tasks t 11 = Some ?k"
      "t = (demo_tasks [])\<lparr>tasks := tasks t, cpu_ip := cpu_ip t, cpu_opstack := cpu_opstack t,
            cpu_stack := cpu_stack t, cpu_task_tree_current_node := cpu_task_tree_current_node t\<rparr>"
    and again: "\<forall>(u :: cpu) l'. running u 3 13 l' \<and> node_task u 1 11 ?k \<longrightarrow>
        (\<exists>v. cpu_context_switch (Ptr 1) u = Inr ((), v)
          \<and> running v 1 11 ((task_at 20 0 0)\<lparr>t_ip := cpu_ip (demo_tasks []), t_active := 1\<rparr>)
          \<and> cpu_ip v = cpu_ip (demo_tasks []) \<and> cpu_opstack v = cpu_opstack (demo_tasks [])
          \<and> cpu_stack v = cpu_stack (demo_tasks [])
          \<and> tasks v 13 = Some (l'\<lparr>t_active := 0, t_ip := cpu_ip u\<rparr>))"
    by (elim exE conjE) (rule that; assumption)
  have "nodes t = nodes (demo_tasks [])" by (subst t(5)) simp
  with n t(4) have "node_task t 1 11 ((task_at 20 0 0)\<lparr>t_active := 0, t_ip := cpu_ip (demo_tasks [])\<rparr>)"
    by (simp add: node_task_def)
  with again t(2) obtain v where "cpu_context_switch (Ptr 1) t = Inr ((), v)"
      "cpu_ip v = 0" "cpu_opstack v = Ptr 20" unfolding ip by blast
  with t(1,3) show ?thesis by (auto simp: task_at_def)
qed

text \<open>C14: messages reach the handler. At the start of a time slice every waiting message of the
  running task is taken from its inbox and released; for each of them the handler's address
  is called, without running it yet. A task without a handler only loses its messages. When
  \<open>n\<close> messages were waiting, the task continues at its handler, with \<open>n\<close> frames on its call
  stack; the messages' memory is given back to the counter, and the inbox is empty, its head
  left at the link of the last message.\<close>

theorem inbox_calls_handler:
  fixes s :: "'z cpu_scheme"
  assumes "cpu_task_tree_current_node s = Ptr c" and "node_task s c a k" and "t_inbox k = Ptr q"
    and "queues s q = Some x" and "unat (q_count x) = length ms" and "distinct ms"
    and "linked (messages s) (q_head x) ms e"
    and "callstack b s kk" and "unat (sp kk) + 4 * length ms \<le> unat (stk_size kk)"
  shows "\<exists>t. cpu_process_context_inbox s = Inr ((), t)
    \<and> (if ms = [] \<or> t_message_handler_address k = 0
       then cpu_ip t = cpu_ip s \<and> stacks t = stacks s
       else cpu_ip t = t_message_handler_address k
         \<and> stacks t = (stacks s)(b \<mapsto> frames (length ms) (cpu_ip s) (t_message_handler_address k) kk))
    \<and> queues t = (queues s)(q \<mapsto> x\<lparr>q_head := e, q_count := 0\<rparr>)
    \<and> messages t = messages s |` (- set ms)
    \<and> dynamic_memory_usage t = dynamic_memory_usage s - memory_of (messages s) ms
    \<and> t = s\<lparr>cpu_ip := cpu_ip t, stacks := stacks t, queues := queues t, messages := messages t,
         dynamic_memory_usage := dynamic_memory_usage t\<rparr>"
proof -
  obtain n where n: "nodes s c = Some n" "n_task n = Ptr a" "tasks s a = Some k"
    using assms(2) by (auto simp: node_task_def split: option.splits)
  have "cpu_process_context_inbox s = process_inbox_loop (Suc (length ms)) (Ptr q) s"
    using n assms(1,3-5)
    by (simp add: cpu_process_context_inbox_def current_task_def st_simps
        del: process_inbox_loop.simps)
  then show ?thesis
    unfolding process_inbox_loop_runs [OF assms(1,2,4-9)]
    by (auto simp: called_def)
qed

text \<open>Two messages wait for the root's task, whose handler is at 9.\<close>

definition demo_waiting :: "ptr \<Rightarrow> cpu" where
  "demo_waiting e = (demo_tasks [])\<lparr>
     tasks := [11 \<mapsto> (task_at 20 0 0)\<lparr>t_message_handler_address := 9\<rparr>],
     messages := [40 \<mapsto> (demo_message 0 [1, 2])\<lparr>m_next := Ptr 41\<rparr>,
       41 \<mapsto> (demo_message 0 [3])\<lparr>m_next := e\<rparr>],
     queues := [22 \<mapsto> main_inbox\<lparr>q_head := Ptr 40, q_tail := Ptr 41, q_count := 2\<rparr>]\<rparr>"

lemma demo_waiting_ok:
  "cpu_task_tree_current_node (demo_waiting e) = Ptr 1"
  "node_task (demo_waiting e) 1 11 ((task_at 20 0 0)\<lparr>t_message_handler_address := 9\<rparr>)"
  "t_inbox ((task_at 20 0 0)\<lparr>t_message_handler_address := 9\<rparr>) = Ptr 22"
  "queues (demo_waiting e) 22 = Some (main_inbox\<lparr>q_head := Ptr 40, q_tail := Ptr 41, q_count := 2\<rparr>)"
  "unat (q_count (main_inbox\<lparr>q_head := Ptr 40, q_tail := Ptr 41, q_count := 2\<rparr>)) = length [40 :: nat, 41]"
  "distinct [40 :: nat, 41]"
  "linked (messages (demo_waiting e)) (q_head (main_inbox\<lparr>q_head := Ptr 40, q_tail := Ptr 41, q_count := 2\<rparr>))
     [40, 41] e"
  "callstack 21 (demo_waiting e) (empty_stack 16)"
  "unat (sp (empty_stack 16)) + 4 * length [40 :: nat, 41] \<le> unat (stk_size (empty_stack 16))"
  by (simp_all add: demo_waiting_def demo_tasks_def task_at_def demo_node_def node_task_def
      callstack_def demo_cpu_def)

theorem inbox_calls_handler_witness:
  "\<exists>t. cpu_process_context_inbox (demo_waiting Null) = Inr ((), t) \<and> cpu_ip t = 9
     \<and> stacks t 21 = Some (frames 2 0 9 (empty_stack 16)) \<and> messages t 40 = None
     \<and> dynamic_memory_usage t = - 67"
proof -
  have "cpu_ip (demo_waiting Null) = 0" "dynamic_memory_usage (demo_waiting Null) = 0"
    "memory_of (messages (demo_waiting Null)) [40, 41] = 67"
    by (simp_all add: demo_waiting_def demo_tasks_def demo_cpu_def memory_of_def demo_message_def)
  moreover have two: "frames (Suc (Suc 0)) = frames 2" by (simp add: numeral_2_eq_2)
  ultimately show ?thesis
    using inbox_calls_handler [OF demo_waiting_ok(1,2) [of Null] demo_waiting_ok(3)
        demo_waiting_ok(4) [of Null] demo_waiting_ok(5,6) demo_waiting_ok(7,8) [of Null] demo_waiting_ok(9)]
    by (auto simp: two simp del: frames.simps)
qed

text \<open>A run of the handler from \<open>v\<close> up to the return at its end, in \<open>w\<close>: the base pointer of the
  call stack at \<open>b\<close> and what is below it are what they were.\<close>

definition frame_kept :: "nat \<Rightarrow> 'z cpu_scheme \<Rightarrow> 'z cpu_scheme \<Rightarrow> bool" where
  "frame_kept b v w \<longleftrightarrow> cpu_stack w = Ptr b \<and> (\<exists>k k'. stacks v b = Some k \<and> stacks w b = Some k'
     \<and> stack_wf k' \<and> stk_size k' = stk_size k \<and> bp k' = bp k
     \<and> take (unat (bp k)) (stk_data k') = take (unat (bp k)) (stk_data k))"

text \<open>\<open>handled b t j v\<close>: from \<open>t\<close>, a run up to a return and this return, \<open>j\<close> times, lead to \<open>v\<close>.\<close>

inductive handled :: "nat \<Rightarrow> 'z cpu_scheme \<Rightarrow> nat \<Rightarrow> 'z cpu_scheme \<Rightarrow> bool" for b t where
  handled_none: "handled b t 0 t"
| handled_next: "handled b t j v \<Longrightarrow> frame_kept b v w \<Longrightarrow> execute_op OP_RETURN w = Inr ((), v')
    \<Longrightarrow> handled b t (Suc j) v'"

text \<open>The task with \<open>i\<close> calls of its handler on the stack.\<close>

definition frames_left :: "nat \<Rightarrow> nat \<Rightarrow> u16 \<Rightarrow> u16 \<Rightarrow> stack \<Rightarrow> 'z cpu_scheme \<Rightarrow> bool" where
  "frames_left b i ip h kk v \<longleftrightarrow> cpu_ip v = (if i = 0 then ip else h) \<and> (\<exists>k. callstack b v k
     \<and> stk_size k = stk_size kk \<and> contents k = contents (frames i ip h kk) \<and> bp k = bp (frames i ip h kk))"

lemma return_from_frame:
  assumes "frames_left b (Suc i) ip h kk v" and "frame_kept b v w"
    and "stack_ok kk" and "unat (sp kk) + 4 * Suc i \<le> unat (stk_size kk)"
  shows "\<exists>v'. execute_op OP_RETURN w = Inr ((), v') \<and> frames_left b i ip h kk v'
    \<and> (\<exists>k. v' = w\<lparr>cpu_ip := cpu_ip v', stacks := (stacks w)(b \<mapsto> k)\<rparr>)"
proof -
  let ?k = "frames i ip h kk" and ?ip = "if i = 0 then ip else h"
  have k: "stack_ok ?k" "unat (sp ?k) = unat (sp kk) + 4 * i" "stk_size ?k = stk_size kk"
    using frames_ok [OF assms(3), of i ip h] assms(4) by simp_all
  have room: "unat (sp ?k) + 4 \<le> unat (stk_size ?k)" using k(2,3) assms(4) by simp
  note f = with_frame_facts [OF k(1) room, of ?ip]
  obtain l where l: "callstack b v l" "stk_size l = stk_size kk" "contents l = contents (with_frame ?ip ?k)"
      "bp l = bp (with_frame ?ip ?k)"
    using assms(1) by (auto simp: frames_left_def)
  have "sp l = sp (with_frame ?ip ?k)"
    using l(1,3) length_contents [of l] length_contents [OF f(6)] by (simp add: callstack_def word_unat_eq_iff)
  with l(4) f(2,3) have "take (unat (bp l)) (stk_data l) = contents l" by (simp add: contents_def)
  with assms(2) l(1) obtain k' where k': "cpu_stack w = Ptr b" "stacks w b = Some k'" "stack_wf k'"
      "stk_size k' = stk_size l" "bp k' = bp l" "take (unat (bp k')) (stk_data k') = contents l"
    by (auto simp: frame_kept_def callstack_def)
  have top: "take (unat (bp k')) (stk_data k')
      = contents ?k @ rev (bytes_of_u16 ?ip) @ rev (bytes_of_u16 (bp ?k))"
    using k'(6) l(3) f(5) by simp
  have "unat (bp k') = unat (sp ?k) + 4" using k'(5) l(4) f(1-3) by simp
  then have le: "bp k' \<le> stk_size k'" using k'(4) l(2) k(3) room by (simp add: word_le_nat_alt)
  have len: "length (contents ?k) = unat (sp ?k)" by (rule length_contents [OF k(1)])
  let ?l = "k'\<lparr>sp := of_nat (length (contents ?k)), bp := bp ?k\<rparr>"
  have "contents ?l = take (unat (sp ?k)) (take (unat (bp k')) (stk_data k'))"
    using \<open>unat (bp k') = _\<close> len by (simp add: contents_def)
  also have "\<dots> = contents ?k" unfolding top by (simp add: len)
  finally have "contents ?l = contents ?k" .
  moreover have "stack_ok ?l"
    using k'(3,4) l(2) k(3) room len by (simp add: stack_ok_def stack_wf_def)
  ultimately have "frames_left b i ip h kk (w\<lparr>cpu_ip := ?ip, stacks := (stacks w)(b \<mapsto> ?l)\<rparr>)"
    using k'(1,4) l(2) by (auto simp: frames_left_def callstack_def)
  moreover have "execute_op OP_RETURN w = Inr ((), w\<lparr>cpu_ip := ?ip, stacks := (stacks w)(b \<mapsto> ?l)\<rparr>)"
    using ret_frame [OF k'(1-3) le top] by (simp add: execute_op_def)
  ultimately show ?thesis
    by (intro exI [of _ "w\<lparr>cpu_ip := ?ip, stacks := (stacks w)(b \<mapsto> ?l)\<rparr>"] conjI exI [of _ ?l]) simp_all
qed

lemma frames_contents:
  assumes "stack_ok k" and "unat (sp k) + 4 * n \<le> unat (stk_size k)"
  shows "take (unat (sp k)) (contents (frames n ip h k)) = contents k"
  using assms(2)
proof (induction n)
  case (Suc n)
  then have n: "unat (sp k) + 4 * n \<le> unat (stk_size k)" by simp
  note k = frames_ok [OF assms(1) n, of ip h]
  have "unat (sp (frames n ip h k)) + 4 \<le> unat (stk_size (frames n ip h k))" using k Suc.prems by simp
  note f = with_frame_facts(5) [OF conjunct1 [OF k] this]
  have "unat (sp k) \<le> length (contents (frames n ip h k))" using length_contents [OF conjunct1 [OF k]] k by simp
  then show ?case using Suc.IH [OF n] by (simp add: f)
qed (simp add: length_contents [OF assms(1), symmetric])

lemma frames_left_stack:
  assumes "frames_left b (Suc i) ip h kk v" and "stack_ok kk"
    and "unat (sp kk) + 4 * Suc i \<le> unat (stk_size kk)"
  shows "\<exists>k. callstack b v k \<and> sp k = bp k \<and> unat (bp k) = unat (sp kk) + 4 * Suc i
    \<and> take (unat (sp kk)) (contents k) = contents kk"
proof -
  let ?k = "frames i ip h kk"
  have i: "unat (sp kk) + 4 * i \<le> unat (stk_size kk)" using assms(3) by simp
  note k = frames_ok [OF assms(2) i, of ip h] and k' = frames_ok [OF assms(2,3), of ip h]
  have room: "unat (sp ?k) + 4 \<le> unat (stk_size ?k)" using k assms(3) by simp
  note f = with_frame_facts [OF conjunct1 [OF k] room, of "if i = 0 then ip else h"]
  obtain l where l: "callstack b v l" "contents l = contents (frames (Suc i) ip h kk)"
      "bp l = bp (frames (Suc i) ip h kk)"
    using assms(1) unfolding frames_left_def by blast
  have "sp l = sp (frames (Suc i) ip h kk)"
    using l(1,2) length_contents [of l] length_contents [OF conjunct1 [OF k']]
    by (simp add: callstack_def word_unat_eq_iff)
  then show ?thesis using l(1,3) k' f(2,3) frames_contents [OF assms(2,3)]
    by (intro exI [of _ l]) (simp_all add: l(2))
qed

lemma handled_frames:
  assumes "handled b t j v" and "frames_left b n ip h kk t" and "j \<le> n"
    and "stack_ok kk" and "unat (sp kk) + 4 * n \<le> unat (stk_size kk)"
  shows "frames_left b (n - j) ip h kk v"
  using assms(1,3)
proof (induction rule: handled.induct)
  case (handled_next j v w v')
  then have i: "n - j = Suc (n - Suc j)" "frames_left b (n - j) ip h kk v" by simp_all
  have "unat (sp kk) + 4 * Suc (n - Suc j) \<le> unat (stk_size kk)" using assms(5) handled_next.prems by simp
  from return_from_frame [OF i(2) [unfolded i(1)] handled_next.hyps(2) assms(4) this] handled_next.hyps(3)
  show ?case by auto
qed (simp add: assms(2))

text \<open>C15: the handler runs once per message. A task with a handler at \<open>h\<close> is interrupted, at the
  start of its slice, by the \<open>n\<close> messages in its inbox, \<open>n\<close> at least 1. It goes on at \<open>h\<close>, with \<open>n\<close>
  frames above what was on its call stack. Each run of the handler that keeps its base pointer
  and what is below it can return; the first \<open>n - 1\<close> returns start the handler again, with one
  frame fewer, and the \<open>n\<close>th continues the task at the instruction it was interrupted at, with
  the base pointer and all of the call stack it had.\<close>

theorem handlers_return_in_turn:
  fixes s :: "'z cpu_scheme"
  assumes "cpu_task_tree_current_node s = Ptr c" and "node_task s c a k" and "t_inbox k = Ptr q"
    and "queues s q = Some x" and "unat (q_count x) = length ms" and "distinct ms"
    and "linked (messages s) (q_head x) ms e"
    and "callstack b s kk" and "unat (sp kk) + 4 * length ms \<le> unat (stk_size kk)"
    and "ms \<noteq> []" and "t_message_handler_address k \<noteq> 0"
  shows "\<exists>t. cpu_process_context_inbox s = Inr ((), t)
    \<and> (\<forall>j v. handled b t j v \<and> j < length ms \<longrightarrow> cpu_ip v = t_message_handler_address k
        \<and> (\<exists>k'. callstack b v k' \<and> sp k' = bp k' \<and> unat (bp k') = unat (sp kk) + 4 * (length ms - j)
            \<and> take (unat (sp kk)) (contents k') = contents kk)
        \<and> (\<forall>w. frame_kept b v w \<longrightarrow> (\<exists>v' k'. execute_op OP_RETURN w = Inr ((), v')
             \<and> v' = w\<lparr>cpu_ip := cpu_ip v', stacks := (stacks w)(b \<mapsto> k')\<rparr>)))
    \<and> (\<forall>v. handled b t (length ms) v \<longrightarrow> cpu_ip v = cpu_ip s \<and> (\<exists>k'. callstack b v k'
        \<and> stk_size k' = stk_size kk \<and> sp k' = sp kk \<and> bp k' = bp kk \<and> contents k' = contents kk))"
proof -
  let ?h = "t_message_handler_address k" and ?n = "length ms"
  obtain n where n: "nodes s c = Some n" "n_task n = Ptr a" "tasks s a = Some k"
    using assms(2) by (auto simp: node_task_def split: option.splits)
  let ?t = "(called b ?n ?h kk s)\<lparr>messages := messages s |` (- set ms),
      queues := (queues s)(q \<mapsto> x\<lparr>q_head := e, q_count := 0\<rparr>),
      dynamic_memory_usage := dynamic_memory_usage s - memory_of (messages s) ms\<rparr>"
  have run: "cpu_process_context_inbox s = Inr ((), ?t)"
    using n assms(1,3-5) process_inbox_loop_runs [OF assms(1,2,4-9)]
    by (simp add: cpu_process_context_inbox_def current_task_def st_simps
        del: process_inbox_loop.simps)
  have ok: "stack_ok kk" and stack: "cpu_stack s = Ptr b" using assms(8) by (simp_all add: callstack_def)
  have start: "frames_left b ?n (cpu_ip s) ?h kk ?t"
    using frames_ok [OF ok assms(9)] stack assms(10,11)
    by (simp add: frames_left_def called_def callstack_def)
  have left: "frames_left b (?n - j) (cpu_ip s) ?h kk v" if "handled b ?t j v" "j \<le> ?n" for j v
    by (rule handled_frames [OF that(1) start that(2) ok assms(9)])
  have "cpu_ip v = ?h \<and> (\<exists>k'. callstack b v k' \<and> sp k' = bp k' \<and> unat (bp k') = unat (sp kk) + 4 * (?n - j)
      \<and> take (unat (sp kk)) (contents k') = contents kk) \<and> (\<forall>w. frame_kept b v w \<longrightarrow> (\<exists>v' k'. execute_op OP_RETURN w = Inr ((), v')
      \<and> v' = w\<lparr>cpu_ip := cpu_ip v', stacks := (stacks w)(b \<mapsto> k')\<rparr>))"
    if v: "handled b ?t j v" "j < ?n" for j v
  proof -
    have i: "?n - j = Suc (?n - Suc j)" using v(2) by simp
    have now: "frames_left b (Suc (?n - Suc j)) (cpu_ip s) ?h kk v"
      using left [OF v(1)] v(2) unfolding i by simp
    have room: "unat (sp kk) + 4 * Suc (?n - Suc j) \<le> unat (stk_size kk)" using assms(9) v(2) by simp
    from return_from_frame [OF now _ ok room] have "\<exists>v' k'. execute_op OP_RETURN w = Inr ((), v')
        \<and> v' = w\<lparr>cpu_ip := cpu_ip v', stacks := (stacks w)(b \<mapsto> k')\<rparr>" if "frame_kept b v w" for w
      using that by blast
    moreover note frames_left_stack [OF now ok room] i
    ultimately show ?thesis using now by (simp add: frames_left_def)
  qed
  moreover have "cpu_ip v = cpu_ip s \<and> (\<exists>k'. callstack b v k' \<and> stk_size k' = stk_size kk
      \<and> sp k' = sp kk \<and> bp k' = bp kk \<and> contents k' = contents kk)" if "handled b ?t ?n v" for v
    using left [OF that] length_contents [OF ok] length_contents
    by (fastforce simp: frames_left_def callstack_def word_unat_eq_iff)
  ultimately show ?thesis using run by blast
qed

text \<open>Two messages wait, and the handler at 9 returns at once: it runs twice, and then the task
  goes on at 5, where it was interrupted.\<close>

lemma frame_kept_self:
  "callstack b v k \<Longrightarrow> frame_kept b v v"
  by (auto simp: frame_kept_def callstack_def stack_ok_def)

theorem handlers_return_in_turn_witness:
  "\<exists>t u v. cpu_process_context_inbox ((demo_waiting Null)\<lparr>cpu_ip := 5\<rparr>) = Inr ((), t) \<and> cpu_ip t = 9
     \<and> execute_op OP_RETURN t = Inr ((), u) \<and> cpu_ip u = 9
     \<and> execute_op OP_RETURN u = Inr ((), v) \<and> cpu_ip v = 5"
proof -
  let ?s = "(demo_waiting Null)\<lparr>cpu_ip := 5\<rparr>" and ?k = "(task_at 20 0 0)\<lparr>t_message_handler_address := 9\<rparr>"
  note d = demo_waiting_ok(1,2,4,7,8) [of Null]
  have s: "cpu_task_tree_current_node ?s = Ptr 1" "node_task ?s 1 11 ?k"
    "queues ?s 22 = Some (main_inbox\<lparr>q_head := Ptr 40, q_tail := Ptr 41, q_count := 2\<rparr>)"
    "linked (messages ?s) (q_head (main_inbox\<lparr>q_head := Ptr 40, q_tail := Ptr 41, q_count := 2\<rparr>)) [40, 41] Null"
    "callstack 21 ?s (empty_stack 16)"
    using d by (simp_all add: node_task_iff callstack_def)
  have ms: "[40 :: nat, 41] \<noteq> []" "t_message_handler_address ?k \<noteq> 0" by simp_all
  obtain t where t: "cpu_process_context_inbox ?s = Inr ((), t)"
    and runs: "\<forall>j v. handled 21 t j v \<and> j < Suc (Suc 0) \<longrightarrow> cpu_ip v = 9 \<and> (\<exists>k. callstack 21 v k)
      \<and> (\<forall>w. frame_kept 21 v w \<longrightarrow> (\<exists>v'. execute_op OP_RETURN w = Inr ((), v')))"
    and goes_on: "\<forall>v. handled 21 t (Suc (Suc 0)) v \<longrightarrow> cpu_ip v = 5"
    using handlers_return_in_turn [OF s(1,2) demo_waiting_ok(3) s(3) demo_waiting_ok(5,6) s(4,5)
        demo_waiting_ok(9) ms] by fastforce
  have again: "cpu_ip v = 9 \<and> (\<exists>v'. execute_op OP_RETURN v = Inr ((), v') \<and> handled 21 t (Suc j) v')"
    if "handled 21 t j v" "j < Suc (Suc 0)" for j v
    using runs that frame_kept_self handled_next [OF that(1)] by blast
  obtain u where u: "execute_op OP_RETURN t = Inr ((), u)" "handled 21 t (Suc 0) u" and "cpu_ip t = 9"
    using again [OF handled_none] by auto
  obtain v where "execute_op OP_RETURN u = Inr ((), v)" "handled 21 t (Suc (Suc 0)) v" and "cpu_ip u = 9"
    using again [OF u(2)] by auto
  with t u(1) \<open>cpu_ip t = 9\<close> goes_on show ?thesis by blast
qed

text \<open>C13: the creation of a task. \<open>OP_ASYNC_CALL\<close> pops the handler's address and adds a task
  that will start at the instruction's operand, with empty stacks of its own: its node is a
  leaf appended to the running task's node, and its inbox, empty and with the new task's id,
  is appended to the list of inboxes. The running task goes on. When four tasks were created
  before, the machine prints its message and nothing else changes, so the handler's address
  stays on the operand stack.\<close>

theorem create_task_outcome:
  fixes s :: "'z cpu_scheme"
  assumes "live_opstack s" and "operands s = xs @ rev (bytes_of_u16 h)" and "can_spawn as t c s"
    and "cpu_tasks_number s \<le> MAX_TASKS"
  shows "if cpu_tasks_number s = MAX_TASKS
    then cpu_create_task address s = Inr ((), s\<lparr>out := out s @ [Printf ''reached max tasks\<newline>'' []]\<rparr>)
    else \<exists>u q. cpu_create_task address s = Inr ((), u) \<and> operands u = xs
      \<and> cpu_tasks_number u = cpu_tasks_number s + 1
      \<and> tasks u = (tasks s)(mallocs s \<mapsto> spawned (mallocs s) q (cpu_tasks_number s + 1) address h)
      \<and> stacks u (mallocs s + 1) = Some (empty_stack 1024)
      \<and> stacks u (mallocs s + 3) = Some (empty_stack 4096)
      \<and> tree_at (nodes u) (add_kid c (mallocs s + 5) t)
      \<and> nodes u (mallocs s + 5) = Some (new_node (nextId s) (Ptr c) (Ptr (mallocs s)))
      \<and> inboxes u (cpu_message_queues u) (as @ [q])
      \<and> queues u q = Some (main_inbox\<lparr>q_task_id := cpu_tasks_number s + 1\<rparr>)
      \<and> dynamic_memory_usage u = dynamic_memory_usage s + 5264
      \<and> cpu_ip u = cpu_ip s \<and> cpu_task_tree_current_node u = Ptr c
      \<and> cpu_opstack u = cpu_opstack s \<and> cpu_stack u = cpu_stack s"
proof (cases "cpu_tasks_number s = MAX_TASKS")
  case True
  then show ?thesis by (simp add: cpu_create_task_def st_simps)
next
  case False
  let ?m = "mallocs s" and ?a = "opstack_addr s"
  obtain u x l n q where u: "cpu_create_task address s = Inr ((), u)" "stack_ok x" "contents x = xs"
      "task_added s x l (Ptr c) n q address h u" "nodes s c = Some n"
      "tree_at (nodes u) (add_kid c (?m + 5) t)" "inboxes u (cpu_message_queues u) (as @ [q])" "l \<noteq> q"
    using create_task_result [OF assms False, of address] by blast
  have c: "c \<noteq> ?m + 5" "?a < ?m" "cpu_task_tree_current_node s = Ptr c" using assms(3) by (auto simp: can_spawn_def)
  note added = u(4) [unfolded task_added_def Let_def]
  have fields: "stacks v = (stacks s)(?a \<mapsto> x, ?m + 1 \<mapsto> empty_stack 1024, ?m + 3 \<mapsto> empty_stack 4096)"
    "cpu_opstack v = cpu_opstack s" if "u = v" for v using added by (simp_all flip: that)
  have "operands u = xs"
    using fields [OF refl] c(2) u(3) by (simp add: operands_def opstack_addr_def stack_at_def)
  with u c(1,3) added show ?thesis
    unfolding if_not_P [OF False] by (intro exI [of _ u] exI [of _ q]) simp
qed

text \<open>The root's task with two bytes on its operand stack, the address 9 of a handler, creates a
  task that starts at 6; then the same machine after four tasks.\<close>

definition demo_spawn :: "u16 \<Rightarrow> cpu" where
  "demo_spawn i = (demo_tasks [])\<lparr>stacks := (stacks (demo_tasks []))(20 \<mapsto>
     \<lparr>stk_data = [0, 9] @ replicate 14 0, stk_size = 16, sp = 2, bp = 0\<rparr>), cpu_tasks_number := i\<rparr>"

theorem create_task_outcome_witness:
  "(\<exists>u. cpu_create_task 6 (demo_spawn 2) = Inr ((), u) \<and> operands u = [] \<and> cpu_tasks_number u = 3
      \<and> tree_at (nodes u) (Node 1 [Node 2 [], Node 3 [], Node 35 []]))
   \<and> cpu_create_task 6 (demo_spawn 4) = Inr ((), (demo_spawn 4)\<lparr>out := [Printf ''reached max tasks\<newline>'' []]\<rparr>)"
proof -
  have live: "live_opstack (demo_spawn i)" "operands (demo_spawn i) = [] @ rev (bytes_of_u16 9)" for i
    by (simp_all add: demo_spawn_def demo_tasks_def live_opstack_def opstack_addr_def live_stack_def
        stack_at_def operands_def contents_def stack_ok_def stack_wf_def bytes_of_u16_def)
  have list: "inboxes (demo_spawn i) (cpu_message_queues (demo_spawn i)) [22, 25, 28]" for i
    by (simp add: demo_spawn_def demo_tasks_def inboxes_def main_inbox_def)
  have "tree_at (nodes (demo_spawn i)) (Node 1 [Node 2 [], Node 3 []])" for i
    by (simp add: demo_spawn_def demo_tasks_def demo_node_def)
  with list have spawn: "can_spawn [22, 25, 28] (Node 1 [Node 2 [], Node 3 []]) 1 (demo_spawn i)" for i
    unfolding can_spawn_def
    by (auto simp: demo_spawn_def demo_tasks_def demo_cpu_def node_ok_def demo_node_def opstack_addr_def
        simp del: tree_at.simps)
  have m: "mallocs (demo_spawn i) = 30" "out (demo_spawn i) = []" "cpu_tasks_number (demo_spawn i) = i" for i
    by (simp_all add: demo_spawn_def demo_tasks_def demo_cpu_def)
  have "(2 :: u16) \<le> MAX_TASKS" "(4 :: u16) \<le> MAX_TASKS" "(2 :: u16) \<noteq> MAX_TASKS" "(4 :: u16) = MAX_TASKS"
    by (simp_all add: MAX_TASKS_def)
  then show ?thesis
    using create_task_outcome [OF live spawn, of 2 6] create_task_outcome [OF live spawn, of 4 6]
    by (auto simp: m simp del: tree_at.simps)
qed

text \<open>C31: the end of a task. When a task that is a leaf reaches \<open>OP_ASYNC_RETURN\<close> in its time
  slice, the slice ends, and the task's node is freed and out of its parent's array; but the
  traversal that was visiting this node goes on with its child count, so the machine reads an
  object that has been freed. In the main task, whose node has no parent, the instruction
  follows a null pointer.\<close>

theorem async_return_outcome:
  fixes s u :: "'z cpu_scheme"
  assumes "cpu_run_cycle (Ptr c) s = run_cycles (Suc j) u" and "code_at u (13 # cs)"
    and "cpu_task_tree_current_node u = Ptr c" and "nodes u c = Some n"
  shows "(n_parent n = Null \<longrightarrow> (\<exists>v. cpu_run_cycle (Ptr c) s = Inl (Undefined NullDeref, v)))
    \<and> (\<forall>a ts i t. tree_at (nodes u) (Node a ts) \<and> distinct (preorder (Node a ts)) \<and> i < length ts
        \<and> ts ! i = Node c [] \<and> n_parent n = Ptr a
        \<and> (\<forall>l < i. \<forall>m. nodes u (node_addr (ts ! l)) = Some m \<longrightarrow> n_id m \<noteq> n_id n)
        \<and> task_free (n_task n) (u\<lparr>cpu_ip := cpu_ip u + 1\<rparr>) = Inr ((), t)
      \<longrightarrow> (\<exists>v. cpu_run_cycle (Ptr c) s = Inr ((), v) \<and> nodes v c = None
            \<and> tree_at (nodes v) (Node a (take i ts @ drop (Suc i) ts))
            \<and> task_tree_traverse_dfs (Suc (Suc k)) (Ptr c) cpu_run_cycle s
                = Inl (Undefined DanglingPtr, v)))"
proof (intro conjI impI allI)
  let ?u = "u\<lparr>cpu_ip := cpu_ip u + 1\<rparr>"
  have opc: "opcode_of 13 = Some OP_ASYNC_RETURN"
    by (simp add: opcode_of_def nth_opt_def opcodes_def)
  have step: "run_instruction u = bind (task_tree_remove_child (Ptr c)) (\<lambda>_. return 13) ?u"
    using run_instruction_code(1) [OF assms(2)] assms(3)
    by (simp add: cpu_execute_def opc execute_op_def async_ret_def cpu_delete_task_def st_simps)
  {
    assume "n_parent n = Null"
    then have "run_instruction u = Inl (Undefined NullDeref, ?u)"
      using step assms(4) by (simp add: task_tree_remove_child_def st_simps)
    from run_cycles_stop [OF this, of j] show "\<exists>v. cpu_run_cycle (Ptr c) s = Inl (Undefined NullDeref, v)"
      unfolding assms(1) by blast
  next
    fix a ts i t
    assume h: "tree_at (nodes u) (Node a ts) \<and> distinct (preorder (Node a ts)) \<and> i < length ts
        \<and> ts ! i = Node c [] \<and> n_parent n = Ptr a
        \<and> (\<forall>l < i. \<forall>m. nodes u (node_addr (ts ! l)) = Some m \<longrightarrow> n_id m \<noteq> n_id n)
        \<and> task_free (n_task n) ?u = Inr ((), t)"
    then obtain v where v: "task_tree_remove_child (Ptr c) ?u = Inr ((), v)" "nodes v c = None"
        "tree_at (nodes v) (Node a (take i ts @ drop (Suc i) ts))"
      using remove_leaf [of ?u a ts i c n t] assms(4) by (auto simp del: tree_at.simps)
    have "run_cycles (Suc j) u = Inr ((), v)"
      using step v(1) opc by (simp add: st_simps)
    then have run: "cpu_run_cycle (Ptr c) s = Inr ((), v)" by (simp only: assms(1))
    then have "task_tree_traverse_dfs (Suc (Suc k)) (Ptr c) cpu_run_cycle s
        = Inl (Undefined DanglingPtr, v)"
      using v(2) by (simp add: st_simps)
    with run v(2,3) show "\<exists>v. cpu_run_cycle (Ptr c) s = Inr ((), v) \<and> nodes v c = None
            \<and> tree_at (nodes v) (Node a (take i ts @ drop (Suc i) ts))
            \<and> task_tree_traverse_dfs (Suc (Suc k)) (Ptr c) cpu_run_cycle s
                = Inl (Undefined DanglingPtr, v)" by blast
  }
qed

text \<open>The program is the instruction alone: the leaf at 2, and the main task.\<close>

definition demo_return :: cpu where
  "demo_return = (demo_tasks [13])\<lparr>cpu_server := Ptr 50,
     servers := [50 \<mapsto> \<lparr>server_fd = 3, server_port = SERVER_PORT\<rparr>]\<rparr>"

lemma demo_return_simps:
  "cpu_server demo_return = Ptr 50" "servers demo_return 50 = Some \<lparr>server_fd = 3, server_port = SERVER_PORT\<rparr>"
  "env_accept demo_return (accepts demo_return) = WouldBlock"
  "running demo_return 1 11 (task_at 20 0 0)" "node_task demo_return 2 12 (task_at 23 1 0)"
  "node_task demo_return 1 11 (task_at 20 0 0)"
  "t_inbox (task_at 23 1 0) = Ptr 25" "queues demo_return 25 = Some (main_inbox\<lparr>q_next := Ptr 28, q_task_id := 1\<rparr>)"
  "t_inbox (task_at 20 0 0) = Ptr 22" "queues demo_return 22 = Some (main_inbox\<lparr>q_next := Ptr 25\<rparr>)"
  "q_count (main_inbox\<lparr>q_next := Ptr 28, q_task_id := 1\<rparr>) = 0" "q_count (main_inbox\<lparr>q_next := Ptr 25\<rparr>) = 0"
  by (simp_all add: demo_return_def demo_tasks_def demo_cpu_def task_at_def running_def node_task_def
      demo_node_def main_inbox_def)

lemma demo_return_switched:
  assumes "d = 1 \<and> b = 11 \<and> l = task_at 20 0 0 \<or> d = 2 \<and> b = 12 \<and> l = task_at 23 1 0"
  shows "cpu_run_cycle (Ptr d) demo_return = run_cycles (Suc 254)
      (switched 11 (task_at 20 0 0) d b l (demo_return\<lparr>accepts := Suc (accepts demo_return)\<rparr>))"
    and "code_at (switched 11 (task_at 20 0 0) d b l (demo_return\<lparr>accepts := Suc (accepts demo_return)\<rparr>)) (13 # [])"
proof -
  have "unat CONTEXT_MAX_CYCLES = Suc 254" by (simp add: CONTEXT_MAX_CYCLES_def)
  then show "cpu_run_cycle (Ptr d) demo_return = run_cycles (Suc 254)
      (switched 11 (task_at 20 0 0) d b l (demo_return\<lparr>accepts := Suc (accepts demo_return)\<rparr>))"
    using assms quiet_slice [OF demo_return_simps(1-4,6,9,10,12)] quiet_slice [OF demo_return_simps(1-5,7,8,11)]
    by (auto simp del: run_cycles.simps)
  show "code_at (switched 11 (task_at 20 0 0) d b l (demo_return\<lparr>accepts := Suc (accepts demo_return)\<rparr>)) (13 # [])"
    using assms
    by (auto simp: switched_def demo_return_def demo_tasks_def demo_cpu_def code_at_def task_at_def)
qed

theorem async_return_outcome_witness:
  "(\<exists>v. cpu_run_cycle (Ptr 1) demo_return = Inl (Undefined NullDeref, v))
   \<and> (\<exists>v. cpu_run_cycle (Ptr 2) demo_return = Inr ((), v) \<and> tree_at (nodes v) (Node 1 [Node 3 []])
        \<and> task_tree_traverse_dfs 2 (Ptr 2) cpu_run_cycle demo_return = Inl (Undefined DanglingPtr, v))"
proof
  let ?u = "switched 11 (task_at 20 0 0) 1 11 (task_at 20 0 0) (demo_return\<lparr>accepts := Suc (accepts demo_return)\<rparr>)"
  have u: "cpu_task_tree_current_node ?u = Ptr 1"
    "nodes ?u 1 = Some (demo_node 0 [Ptr 2, Ptr 3] Null (Ptr 11))"
    by (simp_all add: switched_def demo_return_def demo_tasks_def)
  have run: "cpu_run_cycle (Ptr 1) demo_return = run_cycles (Suc 254) ?u" and code: "code_at ?u (13 # [])"
    using demo_return_switched [of 1 11 "task_at 20 0 0"] by blast+
  have "n_parent (demo_node 0 [Ptr 2, Ptr 3] Null (Ptr 11)) = Null" by (simp add: demo_node_def)
  then show "\<exists>v. cpu_run_cycle (Ptr 1) demo_return = Inl (Undefined NullDeref, v)"
    using async_return_outcome [OF run code u] by blast
next
  let ?u = "switched 11 (task_at 20 0 0) 2 12 (task_at 23 1 0) (demo_return\<lparr>accepts := Suc (accepts demo_return)\<rparr>)"
  let ?n = "demo_node 1 [] (Ptr 1) (Ptr 12)" and ?ts = "[Node 2 [], Node 3 []]"
  have u: "cpu_task_tree_current_node ?u = Ptr 2" "nodes ?u 2 = Some ?n"
    by (simp_all add: switched_def demo_return_def demo_tasks_def)
  have run: "cpu_run_cycle (Ptr 2) demo_return = run_cycles (Suc 254) ?u" and code: "code_at ?u (13 # [])"
    using demo_return_switched [of 2 12 "task_at 23 1 0"] by blast+
  have "\<exists>t. task_free (n_task ?n) (?u\<lparr>cpu_ip := cpu_ip ?u + 1\<rparr>) = Inr ((), t)"
    by (simp add: demo_node_def task_free_def stack_free_def message_queue_free_def st_simps switched_def
        demo_return_def demo_tasks_def task_at_def empty_stack_def main_inbox_def)
  then obtain t where t: "task_free (n_task ?n) (?u\<lparr>cpu_ip := cpu_ip ?u + 1\<rparr>) = Inr ((), t)" by blast
  have h: "tree_at (nodes ?u) (Node 1 ?ts)" "distinct (preorder (Node 1 ?ts))" "0 < length ?ts"
    "?ts ! 0 = Node 2 []" "n_parent ?n = Ptr 1"
    "\<forall>l < 0. \<forall>m. nodes ?u (node_addr (?ts ! l)) = Some m \<longrightarrow> n_id m \<noteq> n_id ?n"
    by (simp_all add: switched_def demo_return_def demo_tasks_def demo_node_def)
  have rest: "take 0 ?ts @ drop (Suc 0) ?ts = [Node 3 []]" by simp
  from async_return_outcome [OF run code u, of 0] h t rest
  have "\<exists>v. cpu_run_cycle (Ptr 2) demo_return = Inr ((), v) \<and> tree_at (nodes v) (Node 1 [Node 3 []])
        \<and> task_tree_traverse_dfs (Suc (Suc 0)) (Ptr 2) cpu_run_cycle demo_return
            = Inl (Undefined DanglingPtr, v)" by metis
  then show "\<exists>v. cpu_run_cycle (Ptr 2) demo_return = Inr ((), v) \<and> tree_at (nodes v) (Node 1 [Node 3 []])
        \<and> task_tree_traverse_dfs 2 (Ptr 2) cpu_run_cycle demo_return = Inl (Undefined DanglingPtr, v)"
    by (simp only: numeral_2_eq_2)
qed

end
