(* ===== verification/Typing_Spec.thy ===== *)
theory Typing_Spec
  imports Task_Spec
begin

text \<open>
  A verifier for byte code, and its soundness. The verifier checks a program against an
  assignment of operand types to addresses, instruction by instruction, without running it.
  A program it accepts can only stop at \<open>HALT\<close> or in one of the three arithmetic operations
  that C leaves undefined: it never underflows or overflows its operand stack, reads a byte
  as a bool that is none, or leaves the program.
\<close>

section \<open>Types of operands\<close>

text \<open>Both 16-bit types are \<open>TWord\<close>; a comparison leaves one byte, 0 or 1.\<close>

datatype ty = TWord | TFlag | TFloat

fun width :: "ty \<Rightarrow> nat" where
  "width TWord = 2"
| "width TFlag = 1"
| "width TFloat = 4"

definition has_ty :: "ty \<Rightarrow> u8 list \<Rightarrow> bool" where
  "has_ty T v \<longleftrightarrow> length v = width T \<and> (T = TFlag \<longrightarrow> v = [0] \<or> v = [1])"

text \<open>The bytes of an operand stack that holds values of these types, the top first.\<close>

fun shape :: "ty list \<Rightarrow> u8 list \<Rightarrow> bool" where
  "shape [] bs \<longleftrightarrow> bs = []"
| "shape (T # ts) bs \<longleftrightarrow> width T \<le> length bs \<and> has_ty T (rev (drop (length bs - width T) bs))
     \<and> shape ts (take (length bs - width T) bs)"

definition stack_bytes :: "ty list \<Rightarrow> nat" where
  "stack_bytes ts = sum_list (map width ts)"

lemma stack_bytes_simps [simp]:
  "stack_bytes [] = 0" "stack_bytes (T # ts) = width T + stack_bytes ts"
  by (simp_all add: stack_bytes_def)

lemma has_ty_length: "has_ty T v \<Longrightarrow> length v = width T"
  by (simp add: has_ty_def)

lemma has_ty_bytes [simp]:
  "has_ty TWord (bytes_of_u16 w)" "has_ty TFlag (bytes_of_bool c)" "has_ty TFloat (bytes_of_f32 x)"
  "has_ty TFlag [if c then 1 else 0]"
  by (simp_all add: has_ty_def bytes_of_bool_def)

lemma shape_push: "has_ty T v \<Longrightarrow> shape ts xs \<Longrightarrow> shape (T # ts) (xs @ rev v)"
  by (simp add: has_ty_length)

lemma shape_pop:
  assumes "shape (T # ts) bs"
  obtains xs v where "bs = xs @ rev v" "has_ty T v" "shape ts xs"
proof
  let ?n = "length bs - width T"
  show "bs = take ?n bs @ rev (rev (drop ?n bs))" by simp
qed (use assms in simp_all)

lemma shape_length: "shape ts bs \<Longrightarrow> length bs = stack_bytes ts"
proof (induction ts arbitrary: bs)
  case (Cons T ts)
  from Cons.prems obtain xs v where "bs = xs @ rev v" "has_ty T v" "shape ts xs" by (rule shape_pop)
  with Cons.IH show ?case by (simp add: has_ty_length)
qed simp

section \<open>The verifier\<close>

text \<open>The type of a two-operand instruction's result, from its entry in the table.\<close>

definition alu_ty :: "opcode \<Rightarrow> ty option" where
  "alu_ty opc = (case alu opc 1 1 of
     Some (Inr bs) \<Rightarrow> Some (if length bs = 1 then TFlag else TWord) | _ \<Rightarrow> None)"

text \<open>What an instruction takes from the operand stack and what it leaves there.\<close>

definition signature :: "opcode \<Rightarrow> (ty list \<times> ty list) option" where
  "signature opc = (case opc of
     OP_DELAY \<Rightarrow> Some ([], [])
   | OP_JUMP \<Rightarrow> Some ([], [])
   | OP_POP_JUMP_IF_FALSE \<Rightarrow> Some ([TFlag], [])
   | OP_PUSHL_U16 \<Rightarrow> Some ([], [TWord])
   | OP_POP_U16 \<Rightarrow> Some ([TWord], [])
   | OP_TOP_U16 \<Rightarrow> Some ([TWord], [TWord])
   | OP_POPA_U16 \<Rightarrow> Some ([TWord], [])
   | OP_PUSH_U16 \<Rightarrow> Some ([], [TWord])
   | OP_PUSHL_I16 \<Rightarrow> Some ([], [TWord])
   | OP_POP_I16 \<Rightarrow> Some ([TWord], [])
   | OP_TOP_I16 \<Rightarrow> Some ([TWord], [TWord])
   | OP_PUSHL_F32 \<Rightarrow> Some ([], [TFloat])
   | OP_POP_F32 \<Rightarrow> Some ([TFloat], [])
   | OP_TOP_F32 \<Rightarrow> Some ([TFloat], [TFloat])
   | OP_ADD_F32 \<Rightarrow> Some ([TFloat, TFloat], [TFloat])
   | OP_SUB_F32 \<Rightarrow> Some ([TFloat, TFloat], [TFloat])
   | OP_MUL_F32 \<Rightarrow> Some ([TFloat, TFloat], [TFloat])
   | OP_DIV_F32 \<Rightarrow> Some ([TFloat, TFloat], [TFloat])
   | OP_PUSH_MILLIS \<Rightarrow> Some ([], [TWord])
   | OP_NOT_U16 \<Rightarrow> Some ([TWord], [TWord])
   | _ \<Rightarrow> map_option (\<lambda>T. ([TWord, TWord], [T])) (alu_ty opc))"

definition operand_size :: "opcode \<Rightarrow> nat" where
  "operand_size opc =
     (if opc \<in> {OP_DELAY, OP_JUMP, OP_POP_JUMP_IF_FALSE, OP_PUSHL_U16, OP_PUSHL_I16, OP_PUSH_U16,
                OP_POPA_U16} then 2
      else if opc = OP_PUSHL_F32 then 4 else 0)"

text \<open>Only ports can be read and written.\<close>

definition operand_ok :: "opcode \<Rightarrow> u16 \<Rightarrow> bool" where
  "operand_ok opc w \<longleftrightarrow> opc \<in> {OP_PUSH_U16, OP_POPA_U16} \<longrightarrow> w < 3"

text \<open>Where the execution can go on after an instruction at \<open>i\<close> with operand \<open>w\<close>.\<close>

definition successors :: "opcode \<Rightarrow> nat \<Rightarrow> u16 \<Rightarrow> nat list" where
  "successors opc i w =
     (if opc = OP_JUMP then [unat w]
      else if opc = OP_POP_JUMP_IF_FALSE then [unat w, i + 3]
      else [i + 1 + operand_size opc])"

type_synonym typing = "(nat \<times> ty list) list"

definition check_instr :: "u8 list \<Rightarrow> nat \<Rightarrow> typing \<Rightarrow> nat \<Rightarrow> ty list \<Rightarrow> bool" where
  "check_instr prog cap phi i ts = (case drop i prog of
     [] \<Rightarrow> False
   | b # cs \<Rightarrow> (case opcode_of b of
       None \<Rightarrow> False
     | Some opc \<Rightarrow> opc = OP_HALT \<or> (case signature opc of
         None \<Rightarrow> False
       | Some (args, res) \<Rightarrow>
           let us = res @ drop (length args) ts; w = u16_of_bytes (take (operand_size opc) cs) in
           take (length args) ts = args \<and> stack_bytes us \<le> cap
         \<and> operand_size opc \<le> length cs \<and> operand_ok opc w
         \<and> list_all (\<lambda>j. map_of phi j = Some us) (successors opc i w))))"

definition verify :: "u8 list \<Rightarrow> nat \<Rightarrow> typing \<Rightarrow> bool" where
  "verify prog cap phi \<longleftrightarrow> length prog < 65536
     \<and> list_all (\<lambda>(i, ts). check_instr prog cap phi i ts) phi"

lemma verify_at:
  assumes "verify prog cap phi" and "map_of phi i = Some ts"
  shows "check_instr prog cap phi i ts"
  using assms map_of_SomeD [OF assms(2)] by (auto simp: verify_def list_all_iff)

section \<open>What a time slice of such a program can change\<close>

definition slice_of :: "'z cpu_scheme \<Rightarrow> 'z cpu_scheme \<Rightarrow> bool" where
  "slice_of s t \<longleftrightarrow> (\<exists>o1 k p c i. t = s\<lparr>out := o1, stacks := (stacks s)(opstack_addr s \<mapsto> k),
       port_regs := p, clock_reads := c, cpu_ip := i\<rparr>
     \<and> stk_size k = stk_size (stack_at (opstack_addr s) s))"

lemma slice_ofI:
  "t = s\<lparr>out := o1, stacks := (stacks s)(opstack_addr s \<mapsto> k), port_regs := p, clock_reads := c,
     cpu_ip := i\<rparr> \<Longrightarrow> stk_size k = stk_size (stack_at (opstack_addr s) s) \<Longrightarrow> slice_of s t"
  by (force simp: slice_of_def)

lemma slice_of_same:
  assumes "same_but_opstack s t"
  shows "slice_of s t"
proof -
  obtain k where "t = s\<lparr>stacks := (stacks s)(opstack_addr s \<mapsto> k)\<rparr>"
      "stk_size k = stk_size (stack_at (opstack_addr s) s)"
    using assms by (auto simp: same_but_opstack_def same_but_stack_def)
  then show ?thesis
    by (intro slice_ofI [where ?o1.0 = "out s" and k = k and p = "port_regs s" and c = "clock_reads s" and i = "cpu_ip s"]) simp_all
qed

lemma slice_of_trans:
  assumes "slice_of s t" and "slice_of t u"
  shows "slice_of s u"
proof -
  obtain o1 k p c i where t: "t = s\<lparr>out := o1, stacks := (stacks s)(opstack_addr s \<mapsto> k),
       port_regs := p, clock_reads := c, cpu_ip := i\<rparr>"
      "stk_size k = stk_size (stack_at (opstack_addr s) s)"
    using assms(1) by (auto simp: slice_of_def)
  obtain o2 l q d j where u: "u = t\<lparr>out := o2, stacks := (stacks t)(opstack_addr t \<mapsto> l),
       port_regs := q, clock_reads := d, cpu_ip := j\<rparr>"
      "stk_size l = stk_size (stack_at (opstack_addr t) t)"
    using assms(2) by (auto simp: slice_of_def)
  from t u show ?thesis
    by (intro slice_ofI [where ?o1.0 = o2 and k = l and p = q and c = d and i = j]) (simp_all add: opstack_addr_def stack_at_def)
qed

lemma slice_of_fields:
  assumes "slice_of s t"
  shows "cpu_program t = cpu_program s" "cpu_program_size t = cpu_program_size s"
    "opstack_capacity t = opstack_capacity s" "has_bank t = has_bank s" "opstack_addr t = opstack_addr s"
  using assms
  by (auto simp: slice_of_def opstack_addr_def stack_at_def opstack_capacity_def has_bank_def)

lemma slice_of_updates:
  assumes "live_opstack s"
  shows "slice_of s (s\<lparr>cpu_ip := i\<rparr>)" "slice_of s (s\<lparr>out := o1\<rparr>)"
    "slice_of s (s\<lparr>port_regs := p\<rparr>)" "slice_of s (s\<lparr>clock_reads := c\<rparr>)"
proof -
  obtain k where "stacks s (opstack_addr s) = Some k" "stack_at (opstack_addr s) s = k"
    using assms by (auto simp: live_opstack_def elim: live_stackE)
  moreover from this have "(stacks s)(opstack_addr s \<mapsto> k) = stacks s" by (simp add: fun_upd_idem)
  ultimately have all: "slice_of s (s\<lparr>out := ev, port_regs := q, clock_reads := d, cpu_ip := j\<rparr>)" for ev q d j
    by (intro slice_ofI [where ?o1.0 = ev and k = k and p = q and c = d and i = j]) simp_all
  show "slice_of s (s\<lparr>cpu_ip := i\<rparr>)" using all [where ev = "out s" and q = "port_regs s" and d = "clock_reads s" and j = "i"] by simp
  show "slice_of s (s\<lparr>out := o1\<rparr>)" using all [where ev = "o1" and q = "port_regs s" and d = "clock_reads s" and j = "cpu_ip s"] by simp
  show "slice_of s (s\<lparr>port_regs := p\<rparr>)" using all [where ev = "out s" and q = "p" and d = "clock_reads s" and j = "cpu_ip s"] by simp
  show "slice_of s (s\<lparr>clock_reads := c\<rparr>)" using all [where ev = "out s" and q = "port_regs s" and d = "c" and j = "cpu_ip s"] by simp
qed

section \<open>Typed configurations\<close>

text \<open>A state in a slice that began in \<open>s\<close>: its operands have the types \<open>ts\<close> and the instruction
  pointer is \<open>i\<close>.\<close>

definition typed :: "'z cpu_scheme \<Rightarrow> ty list \<Rightarrow> u16 \<Rightarrow> 'z cpu_scheme \<Rightarrow> bool" where
  "typed s ts i t \<longleftrightarrow> slice_of s t \<and> live_opstack t \<and> shape ts (operands t) \<and> cpu_ip t = i"

text \<open>The stops that types do not exclude.\<close>

definition arithmetic_fault :: "stop \<Rightarrow> bool" where
  "arithmetic_fault w \<longleftrightarrow> w \<in> Undefined ` {DivByZero, SignedOverflow, BadShift}"

definition yields :: "'z cpu_scheme \<Rightarrow> ty list \<Rightarrow> u16 \<Rightarrow> (stop \<times> 'z cpu_scheme) + ('a \<times> 'z cpu_scheme) \<Rightarrow> bool"
where
  "yields s us j r \<longleftrightarrow> (case r of
     Inl (w, t) \<Rightarrow> arithmetic_fault w | Inr (_, t) \<Rightarrow> typed s us j t)"

named_theorems typed_rules \<open>how the pieces of an instruction change a typed configuration\<close>

lemma typed_same:
  assumes "typed s ts i t" and "same_but_opstack t u" and "live_opstack u" and "shape us (operands u)"
  shows "typed s us i u"
proof -
  have "cpu_ip u = cpu_ip t" using assms(2) by (auto simp: same_but_opstack_def same_but_stack_def)
  with assms show ?thesis
    by (auto simp: typed_def intro: slice_of_trans slice_of_same)
qed

lemma yields_return [typed_rules]: "typed s ts i t \<Longrightarrow> yields s ts i (return x t)"
  by (simp add: yields_def st_simps)

lemma yields_fault [typed_rules]:
  "u \<in> {DivByZero, SignedOverflow, BadShift} \<Longrightarrow> yields s ts i (undef u t)"
  by (auto simp: yields_def st_simps arithmetic_fault_def)

lemma yields_pop:
  assumes "typed s (T # ts) i t" and "\<And>v u. has_ty T v \<Longrightarrow> typed s ts i u \<Longrightarrow> yields s us j (f v u)"
  shows "yields s us j (bind (opstack_pop (of_nat (width T))) f t)"
proof -
  obtain xs v where v: "operands t = xs @ rev v" "has_ty T v" "shape ts xs"
    using assms(1) by (auto simp: typed_def elim: shape_pop simp del: shape.simps)
  have "live_opstack t" using assms(1) by (simp add: typed_def)
  from opstack_lifo.pop_enough [OF this v(1)] obtain u where
    "opstack_pop (of_nat (width T)) t = Inr (v, u)" "live_opstack u" "operands u = xs" "same_but_opstack t u"
    using v(2) by (auto simp: has_ty_length)
  with assms(2) [OF v(2) typed_same [OF assms(1)]] v(3) show ?thesis by (simp add: st_simps)
qed

lemma yields_push:
  assumes "typed s ts i t" and "has_ty T v" and "stack_bytes (T # ts) \<le> opstack_capacity s"
  shows "yields s (T # ts) i (opstack_push v (of_nat (width T)) t)"
proof -
  have t: "live_opstack t" "shape ts (operands t)" "opstack_capacity t = opstack_capacity s"
    using assms(1) slice_of_fields(3) by (auto simp: typed_def)
  then have "length (operands t) + length v \<le> opstack_capacity t"
    using assms(2,3) shape_length [OF t(2)] by (simp add: has_ty_length)
  from opstack_lifo.push_room [OF t(1) this] obtain u where
    u: "opstack_push v (of_nat (width T)) t = Inr ((), u)" "live_opstack u"
      "operands u = operands t @ rev v" "same_but_opstack t u"
    using assms(2) by (auto simp: has_ty_length)
  have "typed s (T # ts) i u"
    by (rule typed_same [OF assms(1) u(4,2)]) (use u(3) shape_push [OF assms(2) t(2)] in simp)
  with u(1) show ?thesis by (simp add: yields_def)
qed

lemmas typed_pop_word = yields_pop [where T = TWord, simplified]
lemmas typed_pop_float = yields_pop [where T = TFloat, simplified]

lemma typed_operand:
  assumes "typed s ts i t" and "code_at (s\<lparr>cpu_ip := i\<rparr>) (bs @ cs)" and "bs \<noteq> []"
    and "yields s us j (f (Some bs) (t\<lparr>cpu_ip := i + of_nat (length bs)\<rparr>))"
  shows "yields s us j (bind (cpu_fetch_data (length bs)) f t)"
proof -
  have "code_at t (bs @ cs)"
    using assms(1,2) slice_of_fields(1,2) [of s t] by (simp add: code_at_def typed_def)
  from fetch_code(1) [OF this assms(3)] assms(1,4) show ?thesis by (simp add: st_simps typed_def)
qed

lemma typed_updates:
  assumes "typed s ts i t"
  shows "typed s ts j (t\<lparr>cpu_ip := j\<rparr>)" "typed s ts i (t\<lparr>out := o1\<rparr>)"
    "typed s ts i (t\<lparr>port_regs := p\<rparr>)" "typed s ts i (t\<lparr>clock_reads := c\<rparr>)"
  using assms slice_of_updates [of t]
  by (auto simp: typed_def live_opstack_def live_stack_def operands_def opstack_addr_def stack_at_def
      intro: slice_of_trans)

section \<open>Instructions\<close>

lemma operand_word:
  assumes "typed s ts i t" and "code_at (s\<lparr>cpu_ip := i\<rparr>) (bs @ cs)" and "length bs = 2"
    and "yields s us j (f (Some (u16_of_bytes bs)) (t\<lparr>cpu_ip := i + 2\<rparr>))"
  shows "yields s us j (bind fetch_u16 f t)"
proof -
  have "yields s us j (bind (cpu_fetch_data (length bs)) (\<lambda>v. f (map_option u16_of_bytes v)) t)"
    by (rule typed_operand [OF assms(1,2)]) (use assms(3,4) in auto)
  then show ?thesis using assms(3) by (simp add: fetch_u16_def bind_assoc)
qed

lemma alu_ty:
  assumes "alu_ty opc = Some T" and "alu opc a b = Some r"
  shows "case r of Inl u \<Rightarrow> u \<in> {DivByZero, SignedOverflow, BadShift} | Inr v \<Rightarrow> has_ty T v"
  using assms by (cases opc) (auto simp: alu_def alu_ty_def has_ty_def)

lemma yields_alu:
  assumes "typed s (TWord # TWord # ts) i t" and "alu_ty opc = Some T"
    and "stack_bytes (T # ts) \<le> opstack_capacity s"
  shows "yields s (T # ts) i (execute_op opc t)"
proof -
  let ?r = "\<lambda>a b. the (alu opc a b)"
  have "alu opc 1 1 \<noteq> None" using assms(2) by (auto simp: alu_ty_def split: option.splits)
  then have all: "alu opc a b = Some (?r a b)" for a b
    using alu_total [of opc 1 1 a b] by (auto simp del: not_None_eq simp: option.collapse)
  have step: "yields s (T # ts) i (alu_step (?r a b) u)" if "typed s ts i u" for a b u
  proof (cases "?r a b")
    case (Inl f)
    with alu_ty [OF assms(2) all [of a b]] show ?thesis by (simp add: alu_step_def yields_fault)
  next
    case (Inr v)
    with alu_ty [OF assms(2) all [of a b]] have "has_ty T v" by simp
    with yields_push [OF that this assms(3)] Inr show ?thesis by (simp add: alu_step_def has_ty_length)
  qed
  show ?thesis
    unfolding execute_alu [OF all] pop2_bind
    by (rule typed_pop_word [OF assms(1)], rule typed_pop_word, assumption, rule step)
qed

lemma yields_push_u16 [typed_rules]:
  "typed s ts i t \<Longrightarrow> stack_bytes (TWord # ts) \<le> opstack_capacity s \<Longrightarrow>
   yields s (TWord # ts) i (push_u16 w t)"
  using yields_push [of s ts i t TWord] by (simp add: push_u16_def)

lemma yields_push_f32 [typed_rules]:
  "typed s ts i t \<Longrightarrow> stack_bytes (TFloat # ts) \<le> opstack_capacity s \<Longrightarrow>
   yields s (TFloat # ts) i (push_f32 x t)"
  using yields_push [of s ts i t TFloat] by (simp add: push_f32_def)

text \<open>Reading the top of the stack for output.\<close>

lemma typed_top:
  assumes "typed s (T # ts) i t" and "n = of_nat (width T)"
    and "\<And>v. yields s us j (f v t)"
  shows "yields s us j (bind (gets cpu_opstack) (\<lambda>p. bind (deref stacks p) (\<lambda>k.
    bind (stack_read_bend_data_at p n (sp k - n)) f)) t)"
proof -
  have "width T \<le> length (operands t)" using assms(1) by (simp add: typed_def)
  moreover obtain k where k: "cpu_opstack t = Ptr (opstack_addr t)"
      "stacks t (opstack_addr t) = Some k" "stack_ok k" "operands t = contents k"
    using assms(1) by (auto simp: typed_def live_opstack_def operands_def elim!: live_stackE)
  moreover have "unat n = width T" using assms(2) by (cases T) simp_all
  ultimately have le: "n \<le> sp k" by (simp add: word_le_nat_alt length_contents)
  have "unat (sp k - n) + unat n \<le> length (stk_data k)"
    using unat_u16_sub [OF le] le k(3) by (simp add: stack_ok_def stack_wf_def word_le_nat_alt)
  from stack_read_inside [OF k(2) le this] assms(3) k(1,2) show ?thesis by (simp add: st_simps)
qed

lemma yields_print [typed_rules]:
  assumes "typed s ts i t"
  shows "yields s ts i (vmprintf g xs t)"
  using typed_updates(2) [OF assms] by (simp add: yields_def st_simps)


lemma yields_top:
  assumes "typed s (T # ts) i t" and "n = of_nat (width T)"
  shows "yields s (T # ts) i (bind (gets cpu_opstack) (\<lambda>p. bind (deref stacks p) (\<lambda>k.
    bind (stack_read_bend_data_at p n (sp k - n)) (\<lambda>v. vmprintf g (xs v)))) t)"
  by (rule typed_top [OF assms], rule yields_print [OF assms(1)])

lemma yields_ports:
  assumes "has_bank s" and "w < 3"
  shows "typed s ts i t \<Longrightarrow> stack_bytes (TWord # ts) \<le> opstack_capacity s \<Longrightarrow>
      code_at (s\<lparr>cpu_ip := i\<rparr>) (bs @ cs) \<Longrightarrow> length bs = 2 \<Longrightarrow> u16_of_bytes bs = w \<Longrightarrow>
      yields s (TWord # ts) (i + 2) (push_U16 t)"
    and "typed s (TWord # ts) i t \<Longrightarrow>
      code_at (s\<lparr>cpu_ip := i\<rparr>) (bs @ cs) \<Longrightarrow> length bs = 2 \<Longrightarrow> u16_of_bytes bs = w \<Longrightarrow>
      yields s ts (i + 2) (pop_address_U16 t)"
proof -
  have size: "w < ucast (bank_size host_bank)" using assms(2) by (simp add: host_bank_def)
  have bank: "\<exists>b. cpu_port_bank u = Ptr b \<and> port_banks u b = Some host_bank" if "typed s us j u" for us j u
    using assms(1) that slice_of_fields(4) [of s u] by (simp add: typed_def has_bank_def)
  {
    assume t: "typed s ts i t" "stack_bytes (TWord # ts) \<le> opstack_capacity s"
      and c: "code_at (s\<lparr>cpu_ip := i\<rparr>) (bs @ cs)" "length bs = 2" "u16_of_bytes bs = w"
    obtain b where b: "cpu_port_bank t = Ptr b" "port_banks t b = Some host_bank" using bank [OF t(1)] by blast
    have "yields s (TWord # ts) (i + 2) (push_u16 x (t\<lparr>cpu_ip := i + 2\<rparr>))" for x
      by (intro yields_push_u16 typed_updates(1) [OF t(1)] t(2))
    with b size c(3) port_access(1) [OF assms(2), of "t\<lparr>cpu_ip := i + 2\<rparr>" b]
    show "yields s (TWord # ts) (i + 2) (push_U16 t)"
      unfolding push_U16_def bind_assoc
      by (intro operand_word [OF t(1) c(1,2)]) (simp add: st_simps)
  next
    assume t: "typed s (TWord # ts) i t"
      and c: "code_at (s\<lparr>cpu_ip := i\<rparr>) (bs @ cs)" "length bs = 2" "u16_of_bytes bs = w"
    have stored: "yields s ts (i + 2) (bind (the_init (Some w)) (\<lambda>address. bind (gets cpu_port_bank) (\<lambda>pb.
        bind (deref port_banks pb) (\<lambda>b. if address < ucast (bank_size b)
          then port_bank_set_address pb (ucast address) x
          else seq (vmprintf ''ERROR: invalid cpu address\<newline>'' []) exit_failure))) u)"
      if u: "typed s ts (i + 2) u" for u x
    proof -
      obtain b where b: "cpu_port_bank u = Ptr b" "port_banks u b = Some host_bank" using bank [OF u] by blast
      from port_access(2) [OF assms(2) b(2)] b size typed_updates(3) [OF u] show ?thesis
        by (simp add: st_simps yields_def)
    qed
    show "yields s ts (i + 2) (pop_address_U16 t)"
      unfolding pop_address_U16_def pop2_bind
      by (rule operand_word [OF t(1) c(1,2)], rule typed_pop_word, rule typed_updates(1) [OF t])
        (simp only: c(3) stored)
  }
qed

lemma yields_pop_I16:
  assumes "typed s (TWord # ts) i t"
  shows "yields s ts i (pop_I16 t)"
proof -
  obtain k where k: "cpu_opstack t = Ptr (opstack_addr t)"
      "stacks t (opstack_addr t) = Some k" "stack_ok k" "operands t = contents k" "2 \<le> length (contents k)"
    using assms by (auto simp: typed_def live_opstack_def operands_def elim!: live_stackE)
  then have le: "2 \<le> sp k" by (simp add: word_le_nat_alt length_contents)
  have pop: "opstack_pop 2 t = Inr (v, u) \<Longrightarrow> pop_I16 t = Inr ((), u)" for v u
    using stack_pop_data_enough [OF k(2,3) le] k(1,2)
    by (auto simp: opstack_pop_def pop_I16_def sp_sub_def popped_def st_simps)
  have "yields s ts i (bind (opstack_pop 2) (\<lambda>_. return ()) t)"
    by (rule typed_pop_word [OF assms]) (rule yields_return)
  moreover obtain v u where "opstack_pop 2 t = Inr (v, u)"
    using stack_pop_data_enough [OF k(2,3) le] k(1) by (auto simp: opstack_pop_def st_simps)
  ultimately show ?thesis using pop by (simp add: st_simps yields_def)
qed

lemma yields_f32_binary:
  assumes "typed s (TFloat # TFloat # ts) i t" and "stack_bytes (TFloat # ts) \<le> opstack_capacity s"
  shows "yields s (TFloat # ts) i
    (bind pop_f32 (\<lambda>b. bind pop_f32 (\<lambda>a. bind (gets g) (\<lambda>f. push_f32 (f a b)))) t)"
  unfolding popf_bind
proof (rule typed_pop_float [OF assms(1)], rule typed_pop_float, assumption)
  fix va vb u
  assume "typed s ts i u"
  from yields_push_f32 [OF this assms(2)]
  show "yields s (TFloat # ts) i (bind (gets g) (\<lambda>f. push_f32 (f (f32_of_bytes va) (f32_of_bytes vb))) u)"
    by (simp add: st_simps)
qed

lemma yields_millis:
  assumes "typed s ts i t" and "stack_bytes (TWord # ts) \<le> opstack_capacity s"
  shows "yields s (TWord # ts) i (push_millis t)"
  using yields_push_u16 [OF typed_updates(4) [OF assms(1)] assms(2)]
  by (simp add: push_millis_def millis_def st_simps Let_def)

lemma yields_branch:
  assumes "typed s (TFlag # ts) i t" and "code_at (s\<lparr>cpu_ip := i\<rparr>) (bs @ cs)" and "length bs = 2"
  shows "\<exists>j \<in> {u16_of_bytes bs, i + 2}. yields s ts j (pop_jump_if_false t)"
proof -
  let ?t = "t\<lparr>cpu_ip := i + 2\<rparr>"
  have t: "typed s (TFlag # ts) (i + 2) ?t" by (rule typed_updates(1) [OF assms(1)])
  from t obtain xs v where v: "operands ?t = xs @ rev v" "has_ty TFlag v" "shape ts xs"
    by (auto simp: typed_def elim: shape_pop simp del: shape.simps)
  have live: "live_opstack ?t" using t by (simp add: typed_def)
  from opstack_lifo.pop_enough [OF live v(1)] obtain u where
    u: "opstack_pop 1 ?t = Inr (v, u)" "live_opstack u" "operands u = xs" "same_but_opstack ?t u"
    using v(2) by (auto simp: has_ty_length)
  have after: "typed s ts (i + 2) u" using typed_same [OF t u(4,2)] u(3) v(3) by simp
  have code: "code_at t (bs @ cs)"
    using assms(1,2) slice_of_fields(1,2) [of s t] by (simp add: code_at_def typed_def)
  have "fetch_u16 t = Inr (Some (u16_of_bytes bs), ?t)"
    using fetch_u16_code [of t "u16_of_bytes bs" cs] code assms(1,3)
    by (simp add: bytes_of_u16_of_bytes typed_def)
  with u(1) have run: "pop_jump_if_false t = bind (bool_of_bytes v) (\<lambda>result.
      if \<not> result then modify (\<lambda>s. s\<lparr>cpu_ip := u16_of_bytes bs\<rparr>) else return ()) u"
    by (simp add: pop_jump_if_false_def pop_bool_def st_simps split: sum.split)
  consider "v = [0]" | "v = [1]" using v(2) by (auto simp: has_ty_def)
  then show ?thesis
  proof cases
    case 1
    with run have "pop_jump_if_false t = Inr ((), u\<lparr>cpu_ip := u16_of_bytes bs\<rparr>)"
      by (simp add: bool_of_bytes_def st_simps)
    with typed_updates(1) [OF after] show ?thesis by (simp add: yields_def)
  next
    case 2
    with run have "pop_jump_if_false t = Inr ((), u)" by (simp add: bool_of_bytes_def st_simps)
    with after show ?thesis by (simp add: yields_def)
  qed
qed

text \<open>Where an instruction continues whose operand \<open>w\<close> is at \<open>i\<close>.\<close>

definition targets :: "opcode \<Rightarrow> u16 \<Rightarrow> u16 \<Rightarrow> u16 list" where
  "targets opc i w =
     (if opc = OP_JUMP then [w]
      else if opc = OP_POP_JUMP_IF_FALSE then [w, i + 2]
      else [i + of_nat (operand_size opc)])"

lemma operand_word_init:
  assumes "typed s ts i t" and "code_at (s\<lparr>cpu_ip := i\<rparr>) (bs @ cs)" and "length bs = 2"
    and "yields s us j (f (u16_of_bytes bs) (t\<lparr>cpu_ip := i + 2\<rparr>))"
  shows "yields s us j (bind (bind fetch_u16 the_init) f t)"
  unfolding bind_assoc by (rule operand_word [OF assms(1-3)]) (simp add: st_simps assms(4))

lemma signature_operand:
  assumes "typed s ts i t" and "code_at (s\<lparr>cpu_ip := i\<rparr>) (bs @ cs)" and "length bs = operand_size opc"
    and "stack_bytes (res @ ts) \<le> opstack_capacity s" and "signature opc = Some ([], res)"
    and "operand_size opc \<noteq> 0" and "opc \<noteq> OP_PUSH_U16"
  shows "\<exists>j \<in> set (targets opc i (u16_of_bytes bs)). yields s (res @ ts) j (execute_op opc t)"
proof -
  let ?w = "u16_of_bytes bs" and ?t = "t\<lparr>cpu_ip := i + 2\<rparr>"
  have t: "typed s ts (i + 2) ?t" by (rule typed_updates(1) [OF assms(1)])
  consider "opc = OP_DELAY" | "opc = OP_JUMP" | "opc \<in> {OP_PUSHL_U16, OP_PUSHL_I16}" | "opc = OP_PUSHL_F32"
    using assms(5-7) by (auto simp: operand_size_def signature_def split: if_splits)
  then show ?thesis
  proof cases
    case 1
    have "yields s ts (i + 2) (delay_ms ?w ?t)"
      using typed_updates(2) [OF t] by (simp add: delay_ms_def st_simps yields_def)
    with 1 assms operand_word_init [OF assms(1,2)] show ?thesis
      by (auto simp: targets_def operand_size_def signature_def execute_op_def delay_def)
  next
    case 2
    have "yields s ts ?w (modify (\<lambda>s. s\<lparr>cpu_ip := ?w\<rparr>) ?t)"
      using typed_updates(1) [OF assms(1)] by (simp add: st_simps yields_def)
    with 2 assms operand_word_init [OF assms(1,2)] show ?thesis
      by (auto simp: targets_def operand_size_def signature_def execute_op_def jump_def)
  next
    case 3
    then have "yields s (TWord # ts) (i + 2) (push_u16 ?w ?t)"
      using assms(4,5) by (intro yields_push_u16 [OF t]) (auto simp: signature_def)
    with 3 assms operand_word_init [OF assms(1,2)] show ?thesis
      by (auto simp: targets_def operand_size_def signature_def execute_op_def push_literal_U16_def
          push_literal_I16_def)
  next
    case 4
    then have len: "length bs = 4" and res: "res = [TFloat]" and room: "stack_bytes (TFloat # ts) \<le> opstack_capacity s"
      using assms(3-5) by (auto simp: operand_size_def signature_def)
    have "yields s (TFloat # ts) (i + 4) (push_f32 (f32_of_bytes bs) (t\<lparr>cpu_ip := i + 4\<rparr>))"
      by (rule yields_push_f32 [OF typed_updates(1) [OF assms(1)] room])
    then have "yields s (TFloat # ts) (i + 4)
        (bind (cpu_fetch_data (length bs)) (\<lambda>v. bind (the_init v) (\<lambda>v. push_f32 (f32_of_bytes v))) t)"
      using len by (intro typed_operand [OF assms(1,2)]) (auto simp: st_simps)
    with 4 res len show ?thesis
      by (simp add: targets_def operand_size_def execute_op_def push_literal_F32_def bind_assoc)
  qed
qed

lemma signature_plain:
  assumes "typed s (args @ ts) i t" and "signature opc = Some (args, res)"
    and "stack_bytes (res @ ts) \<le> opstack_capacity s" and "operand_size opc = 0"
  shows "yields s (res @ ts) i (execute_op opc t)"
proof (cases "alu_ty opc")
  case (Some T)
  then have "args = [TWord, TWord] \<and> res = [T]"
    using assms(2) by (cases opc) (auto simp: signature_def alu_ty_def alu_def)
  with assms(1,3) yields_alu [OF _ Some] show ?thesis by simp
next
  case None
  then consider "opc = OP_POP_U16" | "opc = OP_POP_I16" | "opc = OP_POP_F32" | "opc = OP_NOT_U16"
    | "opc = OP_PUSH_MILLIS" | "opc \<in> {OP_TOP_U16, OP_TOP_I16}" | "opc = OP_TOP_F32"
    | "opc \<in> {OP_ADD_F32, OP_SUB_F32, OP_MUL_F32, OP_DIV_F32}"
    using assms(2,4) by (cases opc) (auto simp: signature_def operand_size_def)
  then show ?thesis
  proof cases
    case 1
    then have "typed s (TWord # ts) i t" "res = []" using assms by (auto simp: signature_def)
    with 1 show ?thesis
      by (simp add: execute_op_def pop_U16_def pop2_bind typed_pop_word yields_return)
  next
    case 2
    then have "typed s (TWord # ts) i t" "res = []" using assms by (auto simp: signature_def)
    with 2 yields_pop_I16 show ?thesis by (simp add: execute_op_def)
  next
    case 3
    then have "typed s (TFloat # ts) i t" "res = []" using assms by (auto simp: signature_def)
    with 3 show ?thesis
      by (simp add: execute_op_def pop_F32_def popf_bind typed_pop_float yields_return)
  next
    case 4
    then have t: "typed s (TWord # ts) i t" and "res = [TWord]" using assms by (auto simp: signature_def)
    have "yields s (TWord # ts) i (bind (opstack_pop 2) (\<lambda>v. push_u16 (NOT (u16_of_bytes v))) t)"
      by (rule typed_pop_word [OF t]) (use assms(3) \<open>res = [TWord]\<close> in \<open>simp add: yields_push_u16\<close>)
    with 4 \<open>res = [TWord]\<close> show ?thesis by (simp add: execute_op_def bitwise_not_U16_def pop2_bind)
  next
    case 5
    then have t: "typed s ts i t" and "res = [TWord]" using assms by (auto simp: signature_def)
    with 5 yields_millis [OF t] assms(3) show ?thesis by (simp add: execute_op_def)
  next
    case 6
    then have t: "typed s (TWord # ts) i t" and "res = [TWord]" using assms by (auto simp: signature_def)
    with 6 yields_top [OF t, of 2] show ?thesis
      by (auto simp: execute_op_def top_U16_def top_I16_def stack_read_U16_def stack_read_I16_def bind_assoc)
  next
    case 7
    then have t: "typed s (TFloat # ts) i t" and "res = [TFloat]" using assms by (auto simp: signature_def)
    with 7 yields_top [OF t, of 4] show ?thesis
      by (auto simp: execute_op_def top_F32_def stack_read_F32_def bind_assoc)
  next
    case 8
    then have t: "typed s (TFloat # TFloat # ts) i t" and "res = [TFloat]" using assms by (auto simp: signature_def)
    with 8 yields_f32_binary [OF t] assms(3) show ?thesis
      by (auto simp: execute_op_def add_F32_def subtract_F32_def multiply_F32_def divide_F32_def)
  qed
qed

lemma signature_sound:
  assumes "typed s (args @ ts) i t" and "signature opc = Some (args, res)"
    and "code_at (s\<lparr>cpu_ip := i\<rparr>) (bs @ cs)" and "length bs = operand_size opc"
    and "stack_bytes (res @ ts) \<le> opstack_capacity s" and "has_bank s"
    and "operand_ok opc (u16_of_bytes bs)"
  shows "\<exists>j \<in> set (targets opc i (u16_of_bytes bs)). yields s (res @ ts) j (execute_op opc t)"
proof -
  consider (plain) "operand_size opc = 0" | (branch) "opc = OP_POP_JUMP_IF_FALSE"
    | (push) "opc = OP_PUSH_U16" | (pop) "opc = OP_POPA_U16"
    | (operand) "operand_size opc \<noteq> 0" "opc \<noteq> OP_PUSH_U16" "args = []"
    using assms(2) by (cases opc) (auto simp: operand_size_def signature_def)
  then show ?thesis
  proof cases
    case plain
    then have "targets opc i w = [i]" for w by (auto simp: targets_def operand_size_def)
    with signature_plain [OF assms(1,2,5) plain] show ?thesis by simp
  next
    case branch
    then have t: "typed s (TFlag # ts) i t" and "res = []" "length bs = 2"
      using assms by (auto simp: signature_def operand_size_def)
    with yields_branch [OF t assms(3)] branch show ?thesis by (simp add: targets_def execute_op_def)
  next
    case push
    then have t: "typed s ts i t" and "res = [TWord]" "length bs = 2" "u16_of_bytes bs < 3"
      using assms by (auto simp: signature_def operand_size_def operand_ok_def)
    with yields_ports(1) [OF assms(6) _ t _ assms(3)] assms(5) push show ?thesis
      by (simp add: targets_def execute_op_def operand_size_def)
  next
    case pop
    then have t: "typed s (TWord # ts) i t" and "res = []" "length bs = 2" "u16_of_bytes bs < 3"
      using assms by (auto simp: signature_def operand_size_def operand_ok_def)
    with yields_ports(2) [OF assms(6) _ t assms(3)] pop show ?thesis
      by (simp add: targets_def execute_op_def operand_size_def)
  next
    case operand
    with assms signature_operand [of s ts i t bs cs opc res] show ?thesis by simp
  qed
qed

section \<open>Verified programs\<close>

definition well_typed :: "typing \<Rightarrow> 'z cpu_scheme \<Rightarrow> 'z cpu_scheme \<Rightarrow> bool" where
  "well_typed phi s t \<longleftrightarrow> (\<exists>ts. map_of phi (unat (cpu_ip t)) = Some ts \<and> typed s ts (cpu_ip t) t)"

text \<open>A machine on whose operand stack a verified program can run.\<close>

definition verified :: "u8 list \<Rightarrow> typing \<Rightarrow> 'z cpu_scheme \<Rightarrow> bool" where
  "verified prog phi s \<longleftrightarrow> verify prog (opstack_capacity s) phi \<and> cpu_program s = prog
     \<and> unat (cpu_program_size s) = length prog \<and> has_bank s"

lemma check_instrE:
  assumes "check_instr prog cap phi i ts"
  obtains b cs where "drop i prog = b # cs" "opcode_of b = Some OP_HALT"
  | b bs cs opc args res us where "drop i prog = b # bs @ cs" "opcode_of b = Some opc"
      "length bs = operand_size opc" "signature opc = Some (args, res)" "ts = args @ us"
      "stack_bytes (res @ us) \<le> cap" "operand_ok opc (u16_of_bytes bs)"
      "\<forall>j \<in> set (successors opc i (u16_of_bytes bs)). map_of phi j = Some (res @ us)"
proof (cases "drop i prog")
  case (Cons b cs)
  then obtain opc where opc: "opcode_of b = Some opc"
    using assms by (auto simp: check_instr_def split: option.splits)
  show ?thesis
  proof (cases "opc = OP_HALT")
    case False
    let ?bs = "take (operand_size opc) cs"
    obtain args res where sig: "signature opc = Some (args, res)" and h:
        "take (length args) ts = args" "stack_bytes (res @ drop (length args) ts) \<le> cap"
        "operand_size opc \<le> length cs" "operand_ok opc (u16_of_bytes ?bs)"
        "list_all (\<lambda>j. map_of phi j = Some (res @ drop (length args) ts)) (successors opc i (u16_of_bytes ?bs))"
      using assms Cons opc False by (auto simp: check_instr_def Let_def split: option.splits)
    have "ts = args @ drop (length args) ts" using h(1) append_take_drop_id [of "length args" ts] by simp
    with that(2) [of b ?bs "drop (operand_size opc) cs" opc] Cons opc sig h show ?thesis
      by (auto simp: list_all_iff)
  qed (use that(1) Cons opc in blast)
qed (use assms in \<open>simp add: check_instr_def\<close>)

lemma successors_targets:
  assumes "j \<in> set (targets opc (i + 1) w)" and "unat i + 1 + operand_size opc < 65536"
  shows "unat j \<in> set (successors opc (unat i) w)"
proof -
  have n: "unat (i + 1) = unat i + 1" using assms(2) unat_u16_add [of i 1] by simp
  have m: "unat (of_nat (operand_size opc) :: u16) = operand_size opc" by (auto simp: operand_size_def)
  have "unat (i + 1 + of_nat (operand_size opc)) = unat i + 1 + operand_size opc"
    using assms(2) n m unat_u16_add [of "i + 1" "of_nat (operand_size opc)"] by simp
  moreover have "i + 1 + 2 = i + 1 + of_nat (operand_size OP_POP_JUMP_IF_FALSE)"
    by (simp add: operand_size_def)
  ultimately show ?thesis
    using assms(1) by (auto simp: targets_def successors_def operand_size_def add.assoc split: if_splits)
qed

text \<open>A slice stops in \<open>HALT\<close>, or with an arithmetic fault.\<close>

definition at_halt :: "'z cpu_scheme \<Rightarrow> bool" where
  "at_halt h \<longleftrightarrow> (\<exists>b. code_at h [b] \<and> opcode_of b = Some OP_HALT)"

definition stops_well :: "typing \<Rightarrow> 'z cpu_scheme \<Rightarrow> stop \<Rightarrow> 'z cpu_scheme \<Rightarrow> bool" where
  "stops_well phi s w t \<longleftrightarrow> arithmetic_fault w
     \<or> (\<exists>h. well_typed phi s h \<and> at_halt h \<and> run_instruction h = Inl (w, t))"

lemma halt_run:
  assumes "at_halt h" and "run_instruction h = Inl (w, t)"
  shows "execute_op OP_HALT (h\<lparr>cpu_ip := cpu_ip h + 1\<rparr>) = Inl (w, t)"
proof -
  obtain b where b: "code_at h [b]" "opcode_of b = Some OP_HALT" using assms(1) by (auto simp: at_halt_def)
  from run_instruction_code(1) [OF b(1)] b(2) assms(2) show ?thesis
    by (auto simp: cpu_execute_def st_simps split: sum.splits)
qed

lemma halt_stops: "\<exists>w t. execute_op OP_HALT s = Inl (w, t)"
  by (auto simp: execute_op_def halt_def st_simps split: sum.split)

lemma verified_step:
  assumes "verified prog phi s" and "well_typed phi s t"
  shows "case run_instruction t of
      Inl (w, u) \<Rightarrow> stops_well phi s w u
    | Inr (b, u) \<Rightarrow> opcode_of b \<noteq> Some OP_ASYNC_RETURN \<and> well_typed phi s u"
proof -
  let ?i = "cpu_ip t" and ?t = "t\<lparr>cpu_ip := cpu_ip t + 1\<rparr>"
  obtain ts where ts: "map_of phi (unat ?i) = Some ts" "typed s ts ?i t"
    using assms(2) by (auto simp: well_typed_def)
  have ver: "verify prog (opstack_capacity s) phi" and bank: "has_bank s"
    and prog: "cpu_program t = prog" "unat (cpu_program_size t) = length prog"
      "cpu_program s = prog" "unat (cpu_program_size s) = length prog"
    using assms(1) ts(2) slice_of_fields(1,2) [of s t] by (auto simp: verified_def typed_def)
  have small: "length prog < 65536" using ver by (simp add: verify_def)
  have code: "code_at t xs" if "drop (unat ?i) prog = xs" "xs \<noteq> []" for xs
    using that prog by (auto simp: code_at_def)
  have next_ip: "typed s ts (?i + 1) ?t" by (rule typed_updates(1) [OF ts(2)])
  from verify_at [OF ver ts(1)] show ?thesis
  proof (cases rule: check_instrE)
    case (1 b cs)
    then have "code_at t (b # cs)" by (intro code) simp_all
    from run_instruction_code(1) [OF this] 1(2)
    have run: "run_instruction t = bind (execute_op OP_HALT) (\<lambda>_. return b) ?t"
      by (simp add: cpu_execute_def)
    obtain w u where "execute_op OP_HALT ?t = Inl (w, u)" using halt_stops by blast
    with run have "run_instruction t = Inl (w, u)" by (simp add: st_simps)
    moreover have "code_at t [b]" using \<open>code_at t (b # cs)\<close> 1(1) prog by (simp add: code_at_def)
    ultimately show ?thesis using 1(2) assms(2) by (auto simp: stops_well_def at_halt_def)
  next
    case (2 b bs cs opc args res us)
    then have c: "code_at t (b # bs @ cs)" by (intro code) simp_all
    have run: "run_instruction t = bind (execute_op opc) (\<lambda>_. return b) ?t"
      using run_instruction_code(1) [OF c] 2(2) by (simp add: cpu_execute_def)
    have "code_at (s\<lparr>cpu_ip := ?i + 1\<rparr>) (bs @ cs)"
      using run_instruction_code(2) [OF c] prog by (simp add: code_at_def)
    from signature_sound [OF _ 2(4) this 2(3,6) bank 2(7)] next_ip 2(5) obtain j where
      j: "j \<in> set (targets opc (?i + 1) (u16_of_bytes bs))" "yields s (res @ us) j (execute_op opc ?t)"
      by auto
    have "unat ?i + length (b # bs @ cs) = length prog"
      using arg_cong [OF 2(1), of length] by simp
    then have "unat ?i + 1 + operand_size opc < 65536" using small 2(3) by simp
    from successors_targets [OF j(1) this] 2(8) have "map_of phi (unat j) = Some (res @ us)" by blast
    moreover have "opc \<noteq> OP_ASYNC_RETURN" using 2(4) by (auto simp: signature_def alu_ty_def alu_def)
    ultimately show ?thesis
      using j(2) 2(2)
      by (auto simp: run st_simps yields_def well_typed_def typed_def stops_well_def split: sum.splits)
  qed
qed

lemma verified_cycles:
  assumes "verified prog phi s" and "well_typed phi s t"
  shows "case run_cycles n t of
      Inl (w, u) \<Rightarrow> stops_well phi s w u | Inr (_, u) \<Rightarrow> well_typed phi s u"
  using assms(2)
proof (induction n arbitrary: t)
  case (Suc n)
  show ?case
  proof (cases "run_instruction t")
    case (Inl e)
    with verified_step [OF assms(1) Suc.prems] show ?thesis by (simp add: st_simps split: prod.splits)
  next
    case (Inr r)
    then obtain b u where "run_instruction t = Inr (b, u)" by (cases r) simp
    with verified_step [OF assms(1) Suc.prems] Suc.IH [of u] show ?thesis by (simp add: st_simps)
  qed
qed (simp add: st_simps)

section \<open>A machine with one task\<close>

text \<open>The machine that \<open>main\<close> sets up, at the start of a time slice or while it runs its only
  task; no message arrives. \<open>m\<close> is the number of allocations before the start and \<open>d\<close> the memory
  counter.\<close>

definition lone :: "nat \<Rightarrow> u16 \<Rightarrow> 'z cpu_scheme \<Rightarrow> bool" where
  "lone m d s \<longleftrightarrow> cpu_task_tree_root s = Ptr (m + 9) \<and> cpu_task_tree_current_node s = Ptr (m + 9)
     \<and> nodes s (m + 9) = Some (new_node 0 Null (Ptr (m + 4)))
     \<and> (\<exists>k. tasks s (m + 4) = Some k \<and> t_opstack k = Ptr (m + 5) \<and> t_stack k = Ptr (m + 7)
          \<and> t_inbox k = Ptr (m + 10))
     \<and> cpu_opstack s = Ptr (m + 5) \<and> cpu_stack s = Ptr (m + 7) \<and> opstack_capacity s = 1024
     \<and> stacks s (m + 5) \<noteq> None
     \<and> (\<exists>l. stacks s (m + 7) = Some l \<and> stk_size l = 4096) \<and> queues s (m + 10) = Some main_inbox
     \<and> (\<exists>z. cpu_server s = Ptr z \<and> servers s z \<noteq> None) \<and> env_accept s = (\<lambda>_. WouldBlock)
     \<and> dynamic_memory_usage s = d"

text \<open>Besides, it runs a verified program.\<close>

definition at_work :: "u8 list \<Rightarrow> typing \<Rightarrow> nat \<Rightarrow> u16 \<Rightarrow> 'z cpu_scheme \<Rightarrow> bool" where
  "at_work prog phi m d s \<longleftrightarrow> lone m d s \<and> verified prog phi s \<and> well_typed phi s s"

lemma lone_slice:
  assumes "lone m d s" and "slice_of s t"
  shows "lone m d t"
proof -
  have "opstack_addr s = m + 5" using assms(1) by (simp add: lone_def opstack_addr_def)
  moreover have "opstack_capacity t = opstack_capacity s" by (rule slice_of_fields(3) [OF assms(2)])
  ultimately show ?thesis
    using assms by (auto simp: lone_def slice_of_def)
qed

text \<open>The switch at the start of a slice leaves all of it but the saved instruction pointer.\<close>

lemma lone_switch:
  assumes "lone m d s"
  obtains u where "cpu_run_cycle (Ptr (m + 9)) s = run_cycles 255 u" and "lone m d u"
    and "u = s\<lparr>accepts := accepts u, tasks := tasks u\<rparr>"
proof -
  obtain k z sv where k: "tasks s (m + 4) = Some k" "t_opstack k = Ptr (m + 5)" "t_stack k = Ptr (m + 7)"
      "t_inbox k = Ptr (m + 10)" and z: "cpu_server s = Ptr z" "servers s z = Some sv"
    using assms by (auto simp: lone_def)
  let ?u = "switched (m + 4) k (m + 9) (m + 4) k (s\<lparr>accepts := Suc (accepts s)\<rparr>)"
  have node: "node_task s (m + 9) (m + 4) k" using assms k by (simp add: lone_def node_task_def new_node_def)
  have "running s (m + 9) (m + 4) k" using assms k node by (simp add: lone_def running_def)
  from quiet_slice [OF z _ this node k(4), of main_inbox] assms
  have run: "cpu_run_cycle (Ptr (m + 9)) s = run_cycles 255 ?u"
    by (simp add: lone_def main_inbox_def CONTEXT_MAX_CYCLES_def)
  have lone: "lone m d ?u"
    using assms k by (auto simp: lone_def switched_def opstack_capacity_def opstack_addr_def stack_at_def)
  have "cpu_opstack s = Ptr (m + 5)" "cpu_stack s = Ptr (m + 7)" "cpu_task_tree_current_node s = Ptr (m + 9)"
    using assms by (simp_all add: lone_def)
  then have "?u = s\<lparr>accepts := accepts ?u, tasks := tasks ?u\<rparr>" using k by (simp add: switched_def)
  with run lone show thesis by (rule that)
qed

lemma lone_round:
  assumes "lone m d s"
  shows "cpu_round (Suc (Suc fuel)) s
      = seq (cpu_run_cycle (Ptr (m + 9))) (traverse_children (Suc fuel) (Ptr (m + 9)) 0 cpu_run_cycle) s"
    and "traverse_children (Suc fuel) (Ptr (m + 9)) 0 cpu_run_cycle s = Inr ((), s)"
  using assms by (simp_all add: cpu_round_def lone_def st_simps new_node_def)

lemma well_typed_self: "well_typed phi s t \<Longrightarrow> well_typed phi t t"
  by (auto simp: well_typed_def typed_def live_opstack_def same_but_opstack_def
      intro!: slice_of_same same_but_stack_refl)

lemma halt_lone:
  assumes "lone m d s" and "has_bank s"
  shows "\<exists>t. execute_op OP_HALT s = Inl (ExitSuccess, t) \<and> dynamic_memory_usage t = d - 5355
    \<and> out t = out s @ [Printf ''Exit\<newline>'' []]"
proof -
  obtain k where k: "tasks s (m + 4) = Some k" "t_opstack k = Ptr (m + 5)" "t_stack k = Ptr (m + 7)"
      "t_inbox k = Ptr (m + 10)" using assms(1) by (auto simp: lone_def)
  obtain x where x: "stacks s (m + 5) = Some x" using assms(1) by (auto simp: lone_def)
  then have "unat (stk_size x) = 1024"
    using assms(1) by (auto simp: lone_def opstack_capacity_def opstack_addr_def stack_at_def)
  then have size: "stk_size x = 1024" by (simp add: word_unat_eq_iff)
  obtain l where l: "stacks s (m + 7) = Some l" "stk_size l = 4096" using assms(1) by (auto simp: lone_def)
  have "\<exists>t. execute_op OP_HALT s = Inl (ExitSuccess, t) \<and> out t = out s @ [Printf ''Exit\<newline>'' []]
      \<and> dynamic_memory_usage t = dynamic_memory_usage s - (19 + (stk_size x + 16)
          + (stk_size l + 16) + 40 + 32 + 40 + 72)"
    by (rule halt_single_task [where a = "m + 4" and b = "m + 5" and c = "m + 7" and q = "m + 10"
          and r = "m + 9" and k = k and x = main_inbox and i = 0 and p = Null])
      (use assms k x l in \<open>simp_all add: lone_def main_inbox_def\<close>)
  then show ?thesis using assms(1) by (auto simp: size l(2) lone_def)
qed

text \<open>How a slice, a round or a run of such a machine may end.\<close>

definition ends_well :: "u8 list \<Rightarrow> typing \<Rightarrow> nat \<Rightarrow> u16
  \<Rightarrow> (stop \<times> 'z cpu_scheme) + (unit \<times> 'z cpu_scheme) \<Rightarrow> bool" where
  "ends_well prog phi m d r \<longleftrightarrow> (case r of
     Inl (w, t) \<Rightarrow> arithmetic_fault w \<or> w = ExitSuccess \<and> dynamic_memory_usage t = d - 5355
   | Inr (_, t) \<Rightarrow> at_work prog phi m d t)"

lemma cycles_end_well:
  assumes "at_work prog phi m d s"
  shows "ends_well prog phi m d (run_cycles n s)"
proof -
  have s: "lone m d s" "verified prog phi s" "well_typed phi s s" using assms by (simp_all add: at_work_def)
  have bank: "has_bank s" using s(2) by (simp add: verified_def)
  note run = verified_cycles [OF s(2,3), of n]
  show ?thesis
  proof (cases "run_cycles n s")
    case (Inl e)
    then obtain w u where e: "run_cycles n s = Inl (w, u)" by (cases e) simp
    then consider "arithmetic_fault w"
      | h where "well_typed phi s h" "at_halt h" "run_instruction h = Inl (w, u)"
      using run by (auto simp: stops_well_def)
    then show ?thesis
    proof cases
      case (2 h)
      let ?h = "h\<lparr>cpu_ip := cpu_ip h + 1\<rparr>"
      have "slice_of s ?h"
        using 2(1) by (auto simp: well_typed_def typed_def intro: slice_of_trans slice_of_updates)
      with halt_lone [OF lone_slice [OF s(1)]] slice_of_fields(4) [of s ?h] halt_run [OF 2(2,3)] bank e
      show ?thesis by (fastforce simp: ends_well_def)
    qed (simp add: e ends_well_def)
  next
    case (Inr r)
    then obtain u where u: "run_cycles n s = Inr ((), u)" by (cases r) simp
    with run have t: "well_typed phi s u" by simp
    then have "slice_of s u" by (auto simp: well_typed_def typed_def)
    with s t u lone_slice well_typed_self slice_of_fields [of s u] show ?thesis
      by (auto simp: ends_well_def at_work_def verified_def)
  qed
qed

lemma slice_ends_well:
  assumes "at_work prog phi m d s"
  shows "ends_well prog phi m d (cpu_run_cycle (Ptr (m + 9)) s)"
proof -
  have s: "lone m d s" "verified prog phi s" "well_typed phi s s" using assms by (simp_all add: at_work_def)
  obtain u where u: "cpu_run_cycle (Ptr (m + 9)) s = run_cycles 255 u" "lone m d u"
      "u = s\<lparr>accepts := accepts u, tasks := tasks u\<rparr>"
    by (rule lone_switch [OF s(1)])
  have same: "live_opstack v = live_opstack s" "operands v = operands s" "cpu_ip v = cpu_ip s"
    "verified prog phi v = verified prog phi s" if "v = s\<lparr>accepts := n, tasks := h\<rparr>" for v n h
    by (simp_all add: that live_opstack_def live_stack_def operands_def opstack_addr_def stack_at_def
        verified_def opstack_capacity_def has_bank_def)
  note same_u = same [OF u(3)]
  have "live_opstack s" using s(3) by (auto simp: well_typed_def typed_def)
  then have "slice_of u u"
    unfolding same_u(1) [symmetric]
    by (auto simp: live_opstack_def same_but_opstack_def intro!: slice_of_same same_but_stack_refl)
  with s(3) have "well_typed phi u u" by (auto simp: well_typed_def typed_def same_u)
  with u(2) s(2) same_u(4) have "at_work prog phi m d u" by (simp add: at_work_def)
  from cycles_end_well [OF this] show ?thesis unfolding u(1) .
qed

lemma runs_end_well:
  assumes "at_work prog phi m d s"
  shows "ends_well prog phi m d (cpu_run (Suc (Suc fuel)) n s)"
  using assms
proof (induction n arbitrary: s)
  case (Suc n)
  have leaf: "traverse_children (Suc fuel) (Ptr (m + 9)) 0 cpu_run_cycle u = Inr ((), u)"
    if "at_work prog phi m d u" for u
    using that by (intro lone_round(2) [where d = d]) (simp add: at_work_def)
  have "lone m d s" using Suc.prems by (simp add: at_work_def)
  note round = lone_round(1) [OF this, of fuel]
  show ?case
  proof (cases "cpu_run_cycle (Ptr (m + 9)) s")
    case (Inl e)
    with round slice_ends_well [OF Suc.prems] show ?thesis
      by (cases e) (simp add: st_simps ends_well_def)
  next
    case (Inr r)
    then obtain u where u: "cpu_run_cycle (Ptr (m + 9)) s = Inr ((), u)" by (cases r) simp
    with slice_ends_well [OF Suc.prems] have work: "at_work prog phi m d u" by (simp add: ends_well_def)
    with round u leaf have "cpu_round (Suc (Suc fuel)) s = Inr ((), u)" by (simp add: st_simps)
    with Suc.IH [OF work] show ?thesis by (simp add: st_simps)
  qed
qed (simp add: ends_well_def st_simps)

section \<open>Property\<close>

text \<open>C3: verified programs are safe. Take any program that the verifier accepts for the operand
  stack of 1024 bytes, with an empty operand stack at address 0, and the whole machine: \<open>main\<close>
  is run with this program, while no message arrives, whatever the clock says and however the
  floating point operations of the host behave. Then after any number of rounds of the
  scheduler the machine is either still running, at an address the verifier knows and with
  operands of the types it computed for this address, or it has stopped, and then for one of
  two reasons: it reached \<open>HALT\<close>, released its objects and exited with success, or one of the
  three arithmetic operations that C leaves undefined was executed (a division by zero, a
  product or left shift that is no \<open>int\<close>, or a shift by 32 or more). It never ends in an
  overflow or underflow of the operand stack, an unknown opcode, a fetch past the end of the
  program, a byte that is no bool, or a bad pointer.\<close>

theorem verified_program_is_safe:
  fixes s :: cpu
  assumes "verify prog 1024 phi" and "map_of phi 0 = Some []" and "length prog = unat n"
    and "power_on s" and "network_up s" and "env_accept s = (\<lambda>_. WouldBlock)"
  shows "case vm_main prog n d (Suc (Suc fuel)) (Suc rounds) s of
      Inl (w, t) \<Rightarrow> arithmetic_fault w
        \<or> w = ExitSuccess \<and> dynamic_memory_usage t = dynamic_memory_usage s + 49
    | Inr (_, t) \<Rightarrow> \<exists>ts. map_of phi (unat (cpu_ip t)) = Some ts \<and> shape ts (operands t)"
proof -
  let ?m = "mallocs s" and ?d = "dynamic_memory_usage s + 5404"
  obtain t u where boot: "boot prog n d s = Inr ((), t)"
      "cpu_run_cycle (Ptr (?m + 9)) t = run_cycles (unat CONTEXT_MAX_CYCLES) u"
      "fresh_machine ?m prog n d u" "cpu_task_tree_root t = Ptr (?m + 9)"
      "dynamic_memory_usage u = ?d" "cpu_server u = Ptr (?m + 3)" "servers u (?m + 3) \<noteq> None"
      "env_accept u = env_accept s"
    using boot_slice [OF assms(4,5), of prog n d] assms(6) by auto
  note fresh = fresh_machine_stacks [OF boot(3)]
  have "lone ?m ?d u"
    using boot(3,5-8) assms(6) fresh(3) by (auto simp: lone_def fresh_machine_def main_task_def)
  moreover have "verified prog phi u"
    using boot(3) assms(1,3) fresh(3) by (simp add: verified_def fresh_machine_def)
  moreover have "well_typed phi u u"
    using fresh(1,2) assms(2) boot(3)
    by (auto simp: well_typed_def typed_def live_opstack_def same_but_opstack_def fresh_machine_def
        intro!: slice_of_same same_but_stack_refl)
  ultimately have work: "at_work prog phi ?m ?d u" by (simp add: at_work_def)
  note slice = cycles_end_well [OF work, of "unat CONTEXT_MAX_CYCLES", folded boot(2)]
  have "ends_well prog phi ?m ?d (vm_main prog n d (Suc (Suc fuel)) (Suc rounds) s)"
  proof (cases "cpu_run_cycle (Ptr (?m + 9)) t")
    case (Inl e)
    with slice boot(1,4) show ?thesis
      by (cases e) (simp add: vm_main_boot cpu_round_def st_simps ends_well_def)
  next
    case (Inr r)
    then obtain v where v: "cpu_run_cycle (Ptr (?m + 9)) t = Inr ((), v)" by (cases r) simp
    with slice have work: "at_work prog phi ?m ?d v" by (simp add: ends_well_def)
    then have "nodes v (?m + 9) = Some (new_node 0 Null (Ptr (?m + 4)))" by (simp add: at_work_def lone_def)
    with v boot(1,4) runs_end_well [OF work, of fuel rounds] show ?thesis
      by (simp add: vm_main_boot cpu_round_def st_simps new_node_def)
  qed
  then show ?thesis
    by (auto simp: ends_well_def at_work_def well_typed_def typed_def split: sum.splits)
qed

text \<open>The program \<open>L: PUSHL 1; PUSHL 2; COMPARE_LT; POP_JUMP_IF_FALSE L; JUMP L\<close> runs for ever,
  and is found in a verified configuration after 1000 rounds.\<close>

definition demo_loop :: "u8 list" where
  "demo_loop = [14, 1, 0, 14, 2, 0, 5, 3, 0, 0, 2, 0, 0]"

definition demo_typing :: typing where
  "demo_typing = [(0, []), (3, [TWord]), (6, [TWord, TWord]), (7, [TFlag]), (10, [])]"

lemma demo_verified: "4 \<le> cap \<Longrightarrow> verify demo_loop cap demo_typing"
proof -
  have "opcode_of 5 = Some OP_COMPARE_LT" by (simp add: opcode_of_def nth_opt_def opcodes_def)
  then show "4 \<le> cap \<Longrightarrow> verify demo_loop cap demo_typing"
    by (simp add: verify_def demo_loop_def demo_typing_def check_instr_def opcode_of_control
        signature_def operand_size_def operand_ok_def successors_def alu_ty_def alu_def
        u16_of_bytes_def fun_upd_apply flip: numeral_3_eq_3)
qed

theorem verified_program_is_safe_witness:
  "case vm_main demo_loop 13 13 2 1000 (blank_cpu 3) of
      Inl (w, t) \<Rightarrow> arithmetic_fault w \<or> w = ExitSuccess \<and> dynamic_memory_usage t = 49
    | Inr (_, t) \<Rightarrow> \<exists>ts. map_of demo_typing (unat (cpu_ip t)) = Some ts \<and> shape ts (operands t)"
proof -
  have v: "verify demo_loop 1024 demo_typing" by (rule demo_verified) simp
  have h: "map_of demo_typing 0 = Some []" "length demo_loop = unat (13 :: u16)"
    "power_on (blank_cpu 3)" "network_up (blank_cpu 3)" "env_accept (blank_cpu 3) = (\<lambda>_. WouldBlock)"
    by (simp_all add: demo_loop_def demo_typing_def blank_cpu_def demo_cpu_def power_on_def network_up_def)
  have n: "Suc (Suc 0) = 2" "Suc 999 = 1000" "dynamic_memory_usage (blank_cpu 3) + 49 = 49"
    by simp_all
  show ?thesis
    using verified_program_is_safe [OF v h, of 13 0 999] unfolding n .
qed

end
