(* ===== verification/Schedule_Spec.thy ===== *)
theory Schedule_Spec
  imports Typing_Spec
begin

text \<open>
  Many tasks with one verified program: \<open>cpu_run\<close> (src/cpu.c) gives every task of the tree one
  time slice per round, in preorder; the tasks do not disturb each other's operand stacks; and
  the machine stops only where a single task running alone could.
\<close>

section \<open>A crew of tasks\<close>

text \<open>Where the task at \<open>a\<close> of the node at \<open>c\<close> continues.\<close>

definition resume_ip :: "'z cpu_scheme \<Rightarrow> nat \<Rightarrow> nat \<Rightarrow> u16" where
  "resume_ip s c a =
     (if cpu_task_tree_current_node s = Ptr c then cpu_ip s else t_ip (the (tasks s a)))"

text \<open>The node at \<open>c\<close> holds the task at \<open>a\<close> with the operand stack at \<open>b\<close>: its inbox is empty, and
  its operands have the types of the address where it continues.\<close>

definition crew_member :: "typing \<Rightarrow> nat \<Rightarrow> 'z cpu_scheme \<Rightarrow> nat \<Rightarrow> nat \<Rightarrow> nat \<Rightarrow> bool" where
  "crew_member phi cap s c a b \<longleftrightarrow> (\<exists>k q x y ts. node_task s c a k \<and> t_opstack k = Ptr b
     \<and> t_inbox k = Ptr q \<and> queues s q = Some x \<and> q_count x = 0
     \<and> stacks s b = Some y \<and> stack_ok y \<and> unat (stk_size y) = cap
     \<and> map_of phi (unat (resume_ip s c a)) = Some ts \<and> shape ts (contents y))"

definition quiet :: "'z cpu_scheme \<Rightarrow> bool" where
  "quiet s \<longleftrightarrow> (\<exists>z sv. cpu_server s = Ptr z \<and> servers s z = Some sv) \<and> env_accept s = (\<lambda>_. WouldBlock)"

text \<open>A tree of such tasks, with different task objects and operand stacks; one of them is
  running. \<open>A\<close> and \<open>B\<close> give the addresses of the task and of its operand stack for a node.\<close>

definition crew :: "u8 list \<Rightarrow> typing \<Rightarrow> nat \<Rightarrow> tree \<Rightarrow> (nat \<Rightarrow> nat) \<Rightarrow> (nat \<Rightarrow> nat) \<Rightarrow> 'z cpu_scheme \<Rightarrow> bool"
where
  "crew prog phi cap T A B s \<longleftrightarrow> tree_at (nodes s) T \<and> distinct (preorder T)
     \<and> cpu_task_tree_root s = Ptr (node_addr T)
     \<and> inj_on A (set (preorder T)) \<and> inj_on B (set (preorder T))
     \<and> (\<forall>c \<in> set (preorder T). crew_member phi cap s c (A c) (B c))
     \<and> (\<exists>c \<in> set (preorder T). \<exists>k. running s c (A c) k)
     \<and> verify prog cap phi \<and> cpu_program s = prog \<and> unat (cpu_program_size s) = length prog
     \<and> has_bank s \<and> quiet s"

lemma crew_memberD:
  "crew prog phi cap T A B s \<Longrightarrow> d \<in> set (preorder T) \<Longrightarrow> crew_member phi cap s d (A d) (B d)"
  by (simp add: crew_def)

section \<open>A time slice\<close>

text \<open>The machine after the switch to the task at \<open>d\<close>.\<close>

lemma crew_switch:
  assumes "crew prog phi cap T A B s" and "d \<in> set (preorder T)"
  shows "\<exists>u l. cpu_run_cycle (Ptr d) s = run_cycles (unat CONTEXT_MAX_CYCLES) u
    \<and> crew prog phi cap T A B u \<and> running u d (A d) l \<and> nodes u = nodes s \<and> stacks u = stacks s
    \<and> cpu_ip u = resume_ip s d (A d) \<and> cpu_opstack u = Ptr (B d)
    \<and> (\<forall>e \<in> set (preorder T). resume_ip u e (A e) = resume_ip s e (A e))"
proof -
  obtain c k where c: "c \<in> set (preorder T)" "running s c (A c) k" using assms(1) by (auto simp: crew_def)
  obtain l q x y ts where l: "node_task s d (A d) l" "t_opstack l = Ptr (B d)" "t_inbox l = Ptr q"
      "queues s q = Some x" "q_count x = 0"
    using crew_memberD [OF assms] by (auto simp: crew_member_def)
  obtain z sv where z: "cpu_server s = Ptr z" "servers s z = Some sv" "env_accept s (accepts s) = WouldBlock"
    using assms(1) by (auto simp: crew_def quiet_def)
  let ?u = "switched (A c) k d (A d) l (s\<lparr>accepts := Suc (accepts s)\<rparr>)"
  have run: "cpu_run_cycle (Ptr d) s = run_cycles (unat CONTEXT_MAX_CYCLES) ?u"
    by (rule quiet_slice [OF z c(2) l(1,3,4,5)])
  have same: "A c = A d \<longleftrightarrow> c = d" "\<And>e. e \<in> set (preorder T) \<Longrightarrow> A e = A c \<longleftrightarrow> e = c"
    "\<And>e. e \<in> set (preorder T) \<Longrightarrow> A e = A d \<longleftrightarrow> e = d"
    using assms c(1) by (auto simp: crew_def inj_on_eq_iff)
  have k: "c = d \<Longrightarrow> k = l" using c(2) l(1) by (auto simp: running_def node_task_iff)
  have cur: "cpu_task_tree_current_node s = Ptr c" "tasks s (A c) = Some k" "tasks s (A d) = Some l"
    "cpu_opstack s = t_opstack k" "cpu_stack s = t_stack k"
    using c(2) l(1) by (auto simp: running_def node_task_iff)
  have ip: "resume_ip ?u e (A e) = resume_ip s e (A e)" if "e \<in> set (preorder T)" for e
    using same(1) same(2,3) [OF that] cur k
    by (auto simp: resume_ip_def switched_def fun_upd_apply)
  have now: "cpu_ip ?u = resume_ip s d (A d)"
    using same(1) cur k by (auto simp: resume_ip_def switched_def)
  have member: "crew_member phi cap ?u e (A e) (B e)" if e: "e \<in> set (preorder T)" for e
  proof -
    obtain k' q' x' y' ts' where m: "node_task s e (A e) k'" "t_opstack k' = Ptr (B e)" "t_inbox k' = Ptr q'"
        "queues s q' = Some x'" "q_count x' = 0" "stacks s (B e) = Some y'" "stack_ok y'"
        "unat (stk_size y') = cap" "map_of phi (unat (resume_ip s e (A e))) = Some ts'" "shape ts' (contents y')"
      using crew_memberD [OF assms(1) e] unfolding crew_member_def by blast
    have "\<exists>k''. node_task ?u e (A e) k'' \<and> t_opstack k'' = Ptr (B e) \<and> t_inbox k'' = Ptr q'"
      using m(1-3) cur same(1) same(2,3) [OF e]
      by (auto simp: node_task_iff switched_def fun_upd_apply)
    then obtain k'' where "node_task ?u e (A e) k''" "t_opstack k'' = Ptr (B e)" "t_inbox k'' = Ptr q'" by blast
    moreover have "queues ?u q' = Some x'" "stacks ?u (B e) = Some y'" using m(4,6) by (simp_all add: switched_def)
    ultimately show ?thesis
      unfolding crew_member_def ip [OF e] using m(5,7-10) by blast
  qed
  obtain l' where l': "running ?u d (A d) l'"
    using l(1) cur same(1) k by (auto simp: running_def node_task_iff switched_def)
  have fields: "nodes ?u = nodes s" "stacks ?u = stacks s" "cpu_opstack ?u = Ptr (B d)"
    using l(2) by (simp_all add: switched_def)
  have "crew prog phi cap T A B ?u"
  proof -
    have "has_bank ?u = has_bank s" "quiet ?u = quiet s" "cpu_program ?u = cpu_program s"
      "cpu_program_size ?u = cpu_program_size s" "cpu_task_tree_root ?u = cpu_task_tree_root s"
      by (simp_all add: switched_def has_bank_def quiet_def)
    with assms(1) member l' assms(2) show ?thesis unfolding crew_def fields(1) by auto
  qed
  with run l' fields now ip show ?thesis by blast
qed

text \<open>Its instructions change only what \<open>slice_of\<close> allows, so the others stay as they are.\<close>

lemma crew_typed:
  assumes "crew prog phi cap T A B u" and "d \<in> set (preorder T)" and "running u d (A d) l"
  shows "verified prog phi u" and "well_typed phi u u" and "opstack_addr u = B d"
proof -
  obtain k y ts where m: "node_task u d (A d) k" "t_opstack k = Ptr (B d)" "stacks u (B d) = Some y"
      "stack_ok y" "unat (stk_size y) = cap" "map_of phi (unat (resume_ip u d (A d))) = Some ts"
      "shape ts (contents y)"
    using crew_memberD [OF assms(1,2)] by (auto simp: crew_member_def)
  have p: "cpu_opstack u = Ptr (B d)" using m(1,2) assms(3) by (auto simp: running_def node_task_iff)
  then show addr: "opstack_addr u = B d" by (simp add: opstack_addr_def)
  have ip: "resume_ip u d (A d) = cpu_ip u" using assms(3) by (simp add: running_def resume_ip_def)
  have live: "live_opstack u" using m(3,4) p addr by (simp add: live_opstack_def live_stack_def stack_at_def)
  have ops: "operands u = contents y" "opstack_capacity u = cap"
    using m(3,5) addr by (simp_all add: operands_def opstack_capacity_def stack_at_def)
  show "verified prog phi u" using assms(1) ops(2) by (simp add: crew_def verified_def)
  have "same_but_opstack u u"
    using live same_but_stack_refl by (auto simp: live_opstack_def same_but_opstack_def)
  with live m(6,7) ip ops(1) show "well_typed phi u u"
    by (auto simp: well_typed_def typed_def intro: slice_of_same)
qed

lemma crew_after:
  assumes "crew prog phi cap T A B u" and "d \<in> set (preorder T)" and "running u d (A d) l"
    and "well_typed phi u h"
  shows "crew prog phi cap T A B h" and "nodes h = nodes u"
    and "\<And>e. e \<in> set (preorder T) \<Longrightarrow> e \<noteq> d \<Longrightarrow> stacks h (B e) = stacks u (B e) \<and> resume_ip h e (A e) = resume_ip u e (A e)"
proof -
  note addr = crew_typed(3) [OF assms(1-3)]
  obtain ts where ts: "map_of phi (unat (cpu_ip h)) = Some ts" "slice_of u h" "live_opstack h" "shape ts (operands h)"
    using assms(4) by (auto simp: well_typed_def typed_def)
  obtain o1 w p c i where h: "h = u\<lparr>out := o1, stacks := (stacks u)(B d \<mapsto> w), port_regs := p,
      clock_reads := c, cpu_ip := i\<rparr>" "stk_size w = stk_size (stack_at (B d) u)"
    using ts(2) addr by (auto simp: slice_of_def)
  have cur: "cpu_task_tree_current_node u = Ptr d" using assms(3) by (simp add: running_def)
  have w: "stack_ok w" "operands h = contents w"
    using ts(3) addr h(1) by (auto simp: live_opstack_def live_stack_def stack_at_def operands_def opstack_addr_def)
  have other: "stacks h (B e) = stacks u (B e) \<and> resume_ip h e (A e) = resume_ip u e (A e)"
    if "e \<in> set (preorder T)" "e \<noteq> d" for e
  proof -
    have "B e \<noteq> B d" using assms(1,2) that by (auto simp: crew_def inj_on_eq_iff)
    with that(2) cur show ?thesis by (simp add: h(1) resume_ip_def)
  qed
  then show "\<And>e. e \<in> set (preorder T) \<Longrightarrow> e \<noteq> d \<Longrightarrow>
    stacks h (B e) = stacks u (B e) \<and> resume_ip h e (A e) = resume_ip u e (A e)" by blast
  show nodes: "nodes h = nodes u" by (simp add: h(1))
  have same: "node_task h = node_task u" "queues h = queues u" "running h e a k = running u e a k" for e a k
    by (auto simp: h(1) node_task_iff running_def fun_eq_iff)
  have member: "crew_member phi cap h e (A e) (B e)" if e: "e \<in> set (preorder T)" for e
  proof (cases "e = d")
    case False
    with crew_memberD [OF assms(1) e] other [OF e False] show ?thesis
      by (simp add: crew_member_def same(1,2))
  next
    case True
    have "stacks h (B d) = Some w" "resume_ip h d (A d) = cpu_ip h"
      by (simp_all add: h(1) resume_ip_def cur)
    moreover have "stk_size w = stk_size y" if "stacks u (B d) = Some y" for y
      using h(2) that by (simp add: stack_at_def)
    ultimately show ?thesis
      using crew_memberD [OF assms(1,2)] w ts(1,4)
      unfolding crew_member_def same(1,2) True by fastforce
  qed
  have "has_bank h = has_bank u" by (rule slice_of_fields(4) [OF ts(2)])
  moreover have "quiet h = quiet u" "cpu_program h = cpu_program u" "cpu_program_size h = cpu_program_size u"
    "cpu_task_tree_root h = cpu_task_tree_root u" by (simp_all add: h(1) quiet_def)
  ultimately show "crew prog phi cap T A B h"
    using assms(1) member unfolding crew_def nodes same(3) by simp
qed

text \<open>A crew stops in \<open>HALT\<close>, or with an arithmetic fault.\<close>

definition crew_stops :: "('z cpu_scheme \<Rightarrow> bool) \<Rightarrow> stop \<Rightarrow> 'z cpu_scheme \<Rightarrow> bool" where
  "crew_stops C w t \<longleftrightarrow> arithmetic_fault w \<or> (\<exists>h. C h \<and> at_halt h \<and> run_instruction h = Inl (w, t))"

lemma crew_slice:
  assumes "crew prog phi cap T A B s" and "d \<in> set (preorder T)"
  shows "case cpu_run_cycle (Ptr d) s of
      Inl (w, t) \<Rightarrow> crew_stops (crew prog phi cap T A B) w t
    | Inr (_, t) \<Rightarrow> crew prog phi cap T A B t \<and> nodes t = nodes s
        \<and> (\<forall>e \<in> set (preorder T) - {d}. stacks t (B e) = stacks s (B e)
             \<and> resume_ip t e (A e) = resume_ip s e (A e))"
proof -
  obtain u l where u: "cpu_run_cycle (Ptr d) s = run_cycles (unat CONTEXT_MAX_CYCLES) u"
      "crew prog phi cap T A B u" "running u d (A d) l" "nodes u = nodes s" "stacks u = stacks s"
      "\<forall>e \<in> set (preorder T). resume_ip u e (A e) = resume_ip s e (A e)"
    using crew_switch [OF assms] by blast
  note after = crew_after [OF u(2) assms(2) u(3)]
  from verified_cycles [OF crew_typed(1,2) [OF u(2) assms(2) u(3)], of "unat CONTEXT_MAX_CYCLES"]
  show ?thesis
    unfolding u(1)
    by (cases "run_cycles (unat CONTEXT_MAX_CYCLES) u")
      (use after u(4-6) in \<open>auto simp: stops_well_def crew_stops_def simp del: run_cycles.simps\<close>)
qed

section \<open>Rounds\<close>

lemma crew_leaves:
  "leaves_nodes (crew prog phi cap T A B) (set (preorder T)) cpu_run_cycle"
  using crew_slice by (fastforce simp: leaves_nodes_def)

lemma crew_round:
  assumes "crew prog phi cap T A B s" and "2 * length (preorder T) \<le> fuel"
  shows "cpu_round fuel s = run_all cpu_run_cycle (preorder T) s"
proof -
  have "tree_at (nodes s) T" "cpu_task_tree_root s = Ptr (node_addr T)"
    using assms(1) by (simp_all add: crew_def)
  with dfs_fuel(1) [OF crew_leaves assms(1) _ _ assms(2)] show ?thesis
    by (simp add: cpu_round_def st_simps)
qed

lemma crew_run_all:
  assumes "crew prog phi cap T A B s" and "set ds \<subseteq> set (preorder T)"
  shows "case run_all cpu_run_cycle ds s of
      Inl (w, t) \<Rightarrow> crew_stops (crew prog phi cap T A B) w t
    | Inr (_, t) \<Rightarrow> crew prog phi cap T A B t"
  using assms
proof (induction ds arbitrary: s)
  case (Cons d ds)
  have "d \<in> set (preorder T)" using Cons.prems(2) by simp
  note slice = crew_slice [OF Cons.prems(1) this]
  show ?case
  proof (cases "cpu_run_cycle (Ptr d) s")
    case (Inl e)
    with slice show ?thesis by (cases e) (simp add: st_simps)
  next
    case (Inr r)
    with slice Cons.IH [of "snd r"] Cons.prems(2) show ?thesis
      by (cases r) (simp add: st_simps)
  qed
qed (simp add: st_simps)

lemma crew_runs:
  assumes "crew prog phi cap T A B s" and "2 * length (preorder T) \<le> fuel"
  shows "cpu_run fuel n s = run_all cpu_run_cycle (concat (replicate n (preorder T))) s"
  using assms(1)
proof (induction n arbitrary: s)
  case (Suc n)
  note round = crew_round [OF Suc.prems assms(2)] crew_run_all [OF Suc.prems subset_refl]
  show ?case
  proof (cases "run_all cpu_run_cycle (preorder T) s")
    case (Inl e)
    with round show ?thesis by (simp add: run_all_append st_simps)
  next
    case (Inr r)
    with round Suc.IH [of "snd r"] show ?thesis
      by (cases r) (simp add: run_all_append st_simps)
  qed
qed simp

lemma count_distinct: "distinct xs \<Longrightarrow> count_list xs d = (if d \<in> set xs then 1 else 0)"
  by (induction xs) auto

lemma count_rounds: "distinct xs \<Longrightarrow> d \<in> set xs \<Longrightarrow> count_list (concat (replicate n xs)) d = n"
  by (induction n) (simp_all add: count_distinct)

section \<open>Properties\<close>

text \<open>C5: tasks with verified code are safe and isolated. Take a machine with any tree of tasks,
  each with its own operand stack, all in code that the verifier accepts, with operands of the
  computed types, and no messages. After any number of rounds of the scheduler all of them
  still are in this condition, wherever their slices ended; or the machine has stopped, with
  one of the three arithmetic faults or in a \<open>HALT\<close> that a task of this condition reached.
  And the slice of one task changes neither the operand stack of another nor the address
  where it will continue.\<close>

theorem verified_tasks_are_safe:
  assumes "crew prog phi cap T A B s" and "2 * length (preorder T) \<le> fuel"
  shows "(case cpu_run fuel n s of
      Inl (w, t) \<Rightarrow> crew_stops (crew prog phi cap T A B) w t
    | Inr (_, t) \<Rightarrow> crew prog phi cap T A B t)
    \<and> (\<forall>d \<in> set (preorder T). \<forall>t. cpu_run_cycle (Ptr d) s = Inr ((), t) \<longrightarrow>
        (\<forall>e \<in> set (preorder T) - {d}. stacks t (B e) = stacks s (B e)
           \<and> resume_ip t e (A e) = resume_ip s e (A e)))"
proof
  have "set (concat (replicate n (preorder T))) \<subseteq> set (preorder T)" by (auto simp: set_replicate_conv_if)
  from crew_run_all [OF assms(1) this] show "case cpu_run fuel n s of
      Inl (w, t) \<Rightarrow> crew_stops (crew prog phi cap T A B) w t
    | Inr (_, t) \<Rightarrow> crew prog phi cap T A B t"
    unfolding crew_runs [OF assms] .
  show "\<forall>d \<in> set (preorder T). \<forall>t. cpu_run_cycle (Ptr d) s = Inr ((), t) \<longrightarrow>
        (\<forall>e \<in> set (preorder T) - {d}. stacks t (B e) = stacks s (B e)
           \<and> resume_ip t e (A e) = resume_ip s e (A e))"
    using crew_slice [OF assms(1)] by fastforce
qed

text \<open>C6: the scheduler is fair. In \<open>n\<close> rounds every task of such a machine gets exactly \<open>n\<close> time
  slices, one per round in the preorder of the tree, unless the machine stops before; a slice
  is 255 instructions, starting where the task was interrupted, on its own operand stack.\<close>

theorem scheduler_is_fair:
  assumes "crew prog phi cap T A B s" and "2 * length (preorder T) \<le> fuel"
  shows "let slices = concat (replicate n (preorder T)) in
    cpu_run fuel n s = run_all cpu_run_cycle slices s
    \<and> (\<forall>d \<in> set (preorder T). count_list slices d = n
        \<and> (\<exists>u. cpu_run_cycle (Ptr d) s = run_cycles 255 u
             \<and> cpu_ip u = resume_ip s d (A d) \<and> cpu_opstack u = Ptr (B d)))"
proof -
  have "distinct (preorder T)" using assms(1) by (simp add: crew_def)
  moreover have "unat CONTEXT_MAX_CYCLES = 255" by (simp add: CONTEXT_MAX_CYCLES_def)
  ultimately show ?thesis
    using crew_runs [OF assms, of n] crew_switch [OF assms(1)] count_rounds [of "preorder T" _ n]
    unfolding Let_def by metis
qed

text \<open>Three tasks in the loop of the verifier's example, at the addresses 0 and 10.\<close>

definition demo_crew :: cpu where
  "demo_crew = (demo_tasks demo_loop)\<lparr>cpu_server := Ptr 50,
     servers := [50 \<mapsto> \<lparr>server_fd = 3, server_port = SERVER_PORT\<rparr>],
     tasks := [11 \<mapsto> task_at 20 0 0, 12 \<mapsto> task_at 23 1 0, 13 \<mapsto> task_at 26 2 10]\<rparr>"

definition demo_tree3 :: tree where
  "demo_tree3 = Node 1 [Node 2 [], Node 3 []]"

abbreviation demo_A :: "nat \<Rightarrow> nat" where
  "demo_A c \<equiv> c + 10"

abbreviation demo_B :: "nat \<Rightarrow> nat" where
  "demo_B c \<equiv> 3 * c + 17"

lemma demo_crew_member:
  "crew_member demo_typing 16 demo_crew 1 11 20" "crew_member demo_typing 16 demo_crew 2 12 23"
  "crew_member demo_typing 16 demo_crew 3 13 26"
proof -
  have s: "stacks demo_crew b = Some (empty_stack 16)" if "b \<in> {20, 23, 26}" for b
    using that by (auto simp: demo_crew_def demo_tasks_def)
  have m: "crew_member demo_typing 16 demo_crew c a b"
    if "node_task demo_crew c a k" "t_opstack k = Ptr b" "t_inbox k = Ptr q" "queues demo_crew q = Some x"
      "q_count x = 0" "b \<in> {20, 23, 26}" "map_of demo_typing (unat (resume_ip demo_crew c a)) = Some []" for c a b k q x
    using that s [OF that(6)] by (fastforce simp: crew_member_def)
  show "crew_member demo_typing 16 demo_crew 1 11 20"
    by (rule m [where k = "task_at 20 0 0" and q = 22 and x = "main_inbox\<lparr>q_next := Ptr 25\<rparr>"])
      (simp_all add: demo_crew_def demo_tasks_def demo_cpu_def node_task_iff demo_node_def task_at_def
        resume_ip_def demo_typing_def main_inbox_def)
  show "crew_member demo_typing 16 demo_crew 2 12 23"
    by (rule m [where k = "task_at 23 1 0" and q = 25 and x = "main_inbox\<lparr>q_next := Ptr 28, q_task_id := 1\<rparr>"])
      (simp_all add: demo_crew_def demo_tasks_def demo_cpu_def node_task_iff demo_node_def task_at_def
        resume_ip_def demo_typing_def main_inbox_def)
  show "crew_member demo_typing 16 demo_crew 3 13 26"
    by (rule m [where k = "task_at 26 2 10" and q = 28 and x = "main_inbox\<lparr>q_task_id := 2\<rparr>"])
      (simp_all add: demo_crew_def demo_tasks_def demo_cpu_def node_task_iff demo_node_def task_at_def
        resume_ip_def demo_typing_def main_inbox_def)
qed

lemma demo_crew: "crew demo_loop demo_typing 16 demo_tree3 demo_A demo_B demo_crew"
proof -
  have "running demo_crew 1 11 (task_at 20 0 0)"
    by (simp add: running_def node_task_iff demo_crew_def demo_tasks_def task_at_def demo_node_def)
  moreover have "tree_at (nodes demo_crew) demo_tree3"
    by (simp add: demo_crew_def demo_tasks_def demo_tree3_def demo_node_def)
  moreover have "verify demo_loop 16 demo_typing" by (rule demo_verified) simp
  moreover have "has_bank demo_crew" "quiet demo_crew" "cpu_program demo_crew = demo_loop"
    "unat (cpu_program_size demo_crew) = length demo_loop" "cpu_task_tree_root demo_crew = Ptr 1"
    by (simp_all add: demo_crew_def demo_tasks_def demo_cpu_def has_bank_def host_bank_def quiet_def demo_loop_def)
  ultimately show ?thesis
    using demo_crew_member
    unfolding crew_def by (auto simp: demo_tree3_def inj_on_def)
qed

theorem verified_tasks_are_safe_witness:
  "(case cpu_run 6 100 demo_crew of
      Inl (w, t) \<Rightarrow> crew_stops (crew demo_loop demo_typing 16 demo_tree3 demo_A demo_B) w t
    | Inr (_, t) \<Rightarrow> crew demo_loop demo_typing 16 demo_tree3 demo_A demo_B t)"
  by (rule verified_tasks_are_safe [OF demo_crew, THEN conjunct1]) (simp add: demo_tree3_def)

theorem scheduler_is_fair_witness:
  "cpu_run 6 2 demo_crew = run_all cpu_run_cycle [1, 2, 3, 1, 2, 3] demo_crew
   \<and> (\<exists>u. cpu_run_cycle (Ptr 3) demo_crew = run_cycles 255 u \<and> cpu_ip u = 10 \<and> cpu_opstack u = Ptr 26)"
proof -
  have fuel: "2 * length (preorder demo_tree3) \<le> 6" by (simp add: demo_tree3_def)
  have three: "concat (replicate 2 (preorder demo_tree3)) = [1, 2, 3, 1, 2, 3]"
    by (simp add: demo_tree3_def numeral_2_eq_2)
  have "resume_ip demo_crew 3 13 = 10" by (simp add: resume_ip_def demo_crew_def demo_tasks_def task_at_def)
  moreover have "3 \<in> set (preorder demo_tree3)" by (simp add: demo_tree3_def)
  ultimately show ?thesis
    using scheduler_is_fair [OF demo_crew fuel, of 2] unfolding three Let_def by fastforce
qed

end
