(* ===== verification/Send_Spec.thy ===== *)
theory Send_Spec
  imports Task_Spec
begin

text \<open>
  A message from one task to another: the system call of the sender (src/builtin.c), the new
  message and its delivery (src/messaging.c), and the call of the receiver's handler when the
  scheduler turns to it (src/cpu.c).
\<close>

section \<open>The new message\<close>

text \<open>The exclusive or of the bytes.\<close>

definition checksum :: "u8 list \<Rightarrow> u16" where
  "checksum bs = foldl (\<lambda>crc b. crc XOR ucast b) 0 bs"

definition sent_message :: "u16 \<Rightarrow> u16 \<Rightarrow> u8 list \<Rightarrow> message" where
  "sent_message src dst bs = \<lparr>m_next = Indet, m_payload = Some bs, m_vm_src = 1, m_vm_dst = 1,
     m_task_src = src, m_task_dst = dst, m_seq = 0, m_payload_size = of_nat (length bs),
     m_crc = checksum bs, m_frag_id = 0, m_frag_total = 0\<rparr>"

lemma message_create_result:
  assumes "\<forall>i. malloc_ok s i" and "length bs = unat n"
  shows "message_create 1 1 src dst (bs @ rest) n s = Inr (Ptr (mallocs s), s\<lparr>
    mallocs := mallocs s + 2, dynamic_memory_usage := dynamic_memory_usage s + (32 + n),
    messages := (messages s)(mallocs s \<mapsto> sent_message src dst bs)\<rparr>)"
proof -
  have "of_nat (length bs) = n" "n = 0 \<Longrightarrow> bs = []" using assms(2) by auto
  then show ?thesis
    using assms
    by (simp add: message_create_def put_message_def compute_crc_def st_simps sizeof_Message_def
        sent_message_def checksum_def Let_def add.assoc)
qed

lemma send_delivers:
  assumes "\<forall>i. malloc_ok s i" and "length bs = unat n" and "deliverable p as q dst s"
    and "length (inbox_items q s) < 4" and "mallocs s \<notin> set (inbox_items q s)"
  shows "\<exists>t. message_queue_send_message p src dst (bs @ rest) n s = Inr ((), t)
    \<and> inbox_ok q t \<and> inbox_items q t = inbox_items q s @ [mallocs s]
    \<and> messages t (mallocs s) = Some (sent_message src dst bs) \<and> deliverable p as q dst t
    \<and> mallocs t = mallocs s + 2
    \<and> t = s\<lparr>mallocs := mallocs t, dynamic_memory_usage := dynamic_memory_usage t,
         messages := messages t, queues := queues t\<rparr>"
proof -
  let ?m = "sent_message src dst bs"
  let ?s = "s\<lparr>mallocs := mallocs s + 2, dynamic_memory_usage := dynamic_memory_usage s + (32 + n),
    messages := (messages s)(mallocs s \<mapsto> ?m)\<rparr>"
  have create: "message_create 1 1 src dst (bs @ rest) n s = Inr (Ptr (mallocs s), ?s)"
    by (rule message_create_result [OF assms(1,2)])
  have d: "inboxes s p as" "inbox_for (queues s) dst as = Some q" "inbox_ok q s"
    using assms(3) by (simp_all add: deliverable_def)
  have "queues ?s = queues s" "messages ?s = (messages s)(mallocs s \<mapsto> ?m)" by simp_all
  note fresh = inbox_ok_fresh [OF d(3) this assms(5)]
  have boxes: "inboxes ?s p as" using d(1) by (simp add: inboxes_def)
  have "messages ?s (mallocs s) = Some ?m" "inbox_for (queues ?s) (m_task_dst ?m) as = Some q"
    using d(2) by (simp_all add: sent_message_def)
  from deliver_to_room [OF boxes this] fresh assms(4,5) obtain t where
    t: "deliver_local p (Ptr (mallocs s)) ?s = Inr (True, t)" "inbox_ok q t"
      "inbox_items q t = inbox_items q s @ [mallocs s]" "inboxes t p as"
      "\<forall>b. map_option q_task_id (queues t b) = map_option q_task_id (queues s b)"
      "messages t (mallocs s) = messages ?s (mallocs s)"
      "t = ?s\<lparr>messages := messages t, queues := queues t\<rparr>" by auto
  have there: "messages t (mallocs s) = Some ?m" using t(6) by simp
  have able: "deliverable p as q dst t"
    using t(2,4) d(2) inbox_for_cong [OF t(5), of dst as] by (simp add: deliverable_def)
  have count: "mallocs t = mallocs s + 2" by (subst t(7)) simp
  have same: "t = s\<lparr>mallocs := mallocs t, dynamic_memory_usage := dynamic_memory_usage t,
       messages := messages t, queues := queues t\<rparr>"
    by (subst t(7), subst (3 4 5) t(7)) simp
  have "message_queue_send_message p src dst (bs @ rest) n s = Inr ((), t)"
    using create t(1)
    by (simp add: message_queue_send_message_def send_message_def get_local_vm_id_def st_simps sent_message_def)
  with t(2,3) there able count same show ?thesis by blast
qed

section \<open>The system call\<close>

lemma syscall_send:
  fixes s :: "'z cpu_scheme"
  assumes "code_at s (11 # bytes_of_u16 3 @ cs)" and "live_opstack s"
    and "operands s = xs @ rev (bytes_of_u16 dst) @ rev (bytes_of_u16 address) @ rev (bytes_of_u16 n)"
    and "data_at s address bs" and "running s c a k"
  shows "\<exists>u. run_instruction s = bind (message_queue_send_message (cpu_message_queues u) (t_id k) dst bs n)
      (\<lambda>_. return 11) u
    \<and> live_opstack u \<and> operands u = xs \<and> same_but_opstack (s\<lparr>cpu_ip := cpu_ip s + 3\<rparr>) u"
proof -
  let ?s = "s\<lparr>cpu_ip := cpu_ip s + 3\<rparr>"
  have op: "opcode_of 11 = Some OP_SYSCALL" by (simp add: opcode_of_def nth_opt_def opcodes_def)
  from run_with_u16 [OF assms(1) op, unfolded execute_op_def, simplified, OF syscall_def [unfolded builtin_syscall_def]]
  have run: "run_instruction s = bind builtin_send_message (\<lambda>_. return 11) ?s" by simp
  have live: "live_opstack ?s" using assms(2) by simp
  obtain t1 where t1: "opstack_pop 2 ?s = Inr (bytes_of_u16 n, t1)" "live_opstack t1"
      "operands t1 = xs @ rev (bytes_of_u16 dst) @ rev (bytes_of_u16 address)" "same_but_opstack ?s t1"
    using opstack_u16.pop_typed [OF live, of "xs @ rev (bytes_of_u16 dst) @ rev (bytes_of_u16 address)" n] assms(3)
    by auto
  obtain t2 where t2: "opstack_pop 2 t1 = Inr (bytes_of_u16 address, t2)" "live_opstack t2"
      "operands t2 = xs @ rev (bytes_of_u16 dst)" "same_but_opstack t1 t2"
    using opstack_u16.pop_typed [OF t1(2), of "xs @ rev (bytes_of_u16 dst)" address] t1(3) by auto
  obtain u where u: "opstack_pop 2 t2 = Inr (bytes_of_u16 dst, u)" "live_opstack u" "operands u = xs"
      "same_but_opstack t2 u"
    using opstack_u16.pop_typed [OF t2(2,3)] by auto
  have same2: "same_but_opstack ?s t2" by (rule opstack_lifo.same_trans [OF t1(4) t2(4)])
  have same: "same_but_opstack ?s u" by (rule opstack_lifo.same_trans [OF same2 u(4)])
  have data: "data_pointer address t2 = Inr (bs, t2)"
    by (rule data_pointer_at) (use data_at_same [OF same2] assms(4) in simp)
  obtain m where m: "nodes s c = Some m" "n_task m = Ptr a" "tasks s a = Some k"
      "cpu_task_tree_current_node s = Ptr c"
    using assms(5) by (auto simp: running_def node_task_iff)
  have "nodes u = nodes s" "tasks u = tasks s" "cpu_task_tree_current_node u = cpu_task_tree_current_node s"
    using same by (auto simp: same_but_opstack_def same_but_stack_def)
  with run t1(1) t2(1) u(1) data m
  have "run_instruction s = bind (message_queue_send_message (cpu_message_queues u) (t_id k) dst bs n)
      (\<lambda>_. return 11) u"
    by (simp add: builtin_send_message_def pop2_bind st_simps)
  with u(2,3) same show ?thesis by blast
qed

section \<open>The handler\<close>

text \<open>The switch to the receiver at \<open>d\<close>, which has the messages \<open>ms\<close> in its inbox.\<close>

lemma receiver_starts:
  assumes "running t c a k" and "node_task t d b l" and "a \<noteq> b" and "t_inbox l = Ptr q"
    and "inbox_ok q t" and "inbox_items q t = ms" and "ms \<noteq> []" and "t_stack l = Ptr e" and "stacks t e = Some kk"
    and "stack_ok kk" and "unat (sp kk) + 4 * length ms \<le> unat (stk_size kk)"
  shows "\<exists>v. seq (cpu_context_switch (Ptr d)) cpu_process_context_inbox t = Inr ((), v)
    \<and> (t_message_handler_address l \<noteq> 0 \<longrightarrow> cpu_ip v = t_message_handler_address l
        \<and> stacks v = (stacks t)(e \<mapsto> frames (length ms) (t_ip l) (t_message_handler_address l) kk))
    \<and> messages v = messages t |` (- set ms) \<and> malloc_ok v = malloc_ok t \<and> mallocs v = mallocs t
    \<and> (\<exists>x z. queues t q = Some x \<and> linked (messages t) (q_head x) ms z
        \<and> queues v = (queues t)(q \<mapsto> x\<lparr>q_head := z, q_count := 0\<rparr>))"
proof -
  let ?u = "t\<lparr>tasks := (tasks t)(a \<mapsto> k\<lparr>t_active := 0, t_ip := cpu_ip t\<rparr>, b \<mapsto> l\<lparr>t_active := 1\<rparr>),
    cpu_ip := t_ip l, cpu_opstack := t_opstack l, cpu_stack := t_stack l, cpu_task_tree_current_node := Ptr d\<rparr>"
  have switch: "cpu_context_switch (Ptr d) t = Inr ((), ?u)"
    using switch_running [OF assms(1,2)] assms(3) by simp
  obtain x where x: "queues t q = Some x" "inbox_of x (messages t) ms"
    using assms(5,6) by (auto simp: inbox_ok_def)
  then obtain z where z: "linked (messages t) (q_head x) ms z" "unat (q_count x) = length ms" "distinct ms"
    using assms(7) by (auto simp: inbox_of_def)
  have node: "node_task ?u d b (l\<lparr>t_active := 1\<rparr>)" using assms(2) by (auto simp: node_task_iff)
  have stack: "callstack e ?u kk" using assms(8-10) by (simp add: callstack_def)
  have h: "cpu_task_tree_current_node ?u = Ptr d" "queues ?u q = Some x" "linked (messages ?u) (q_head x) ms z"
    using x(1) z(1) by simp_all
  note loop = process_inbox_loop_runs [OF h(1) node h(2) z(2,3) h(3) stack assms(11)]
  have "cpu_process_context_inbox ?u = process_inbox_loop (Suc (length ms)) (Ptr q) ?u"
    using node assms(4) x(1) z(2)
    by (auto simp: cpu_process_context_inbox_def current_task_def st_simps node_task_iff
        simp del: process_inbox_loop.simps)
  with switch loop x(1) z(1) assms(7) show ?thesis by (auto simp: st_simps called_def)
qed

section \<open>Property\<close>

text \<open>C16: from one task to the handler of another. A task executes the send system call, with the
  receiver's id, the address and the size of the payload on its operand stack. When memory is
  available, the receiver's inbox has room and the payload is within the program's data, the
  instruction takes its operands, and appends a new message to the inbox that carries a copy
  of the payload, both ids and the check sum. When the scheduler then turns to the receiver,
  its handler is called, once for this message and for each that was waiting already: the
  task continues at the handler, with a frame for each message, and the last return goes to
  where it was interrupted; the messages are released.\<close>

theorem sent_message_calls_handler:
  fixes s :: "'z cpu_scheme"
  assumes "code_at s (11 # bytes_of_u16 3 @ cs)" and "live_opstack s"
    and "operands s = xs @ rev (bytes_of_u16 dst) @ rev (bytes_of_u16 address) @ rev (bytes_of_u16 n)"
    and "data_at s address (bs @ rest)" and "length bs = unat n" and "\<forall>i. malloc_ok s i"
    and "running s c a k" and "deliverable (cpu_message_queues s) as q dst s"
    and "length (inbox_items q s) < 4" and "mallocs s \<notin> set (inbox_items q s)"
    and "node_task s d b l" and "a \<noteq> b" and "t_inbox l = Ptr q" and "t_message_handler_address l \<noteq> 0"
    and "t_stack l = Ptr e" and "stacks s e = Some kk" and "stack_ok kk" and "e \<noteq> opstack_addr s"
    and "unat (sp kk) + 4 * Suc (length (inbox_items q s)) \<le> unat (stk_size kk)"
  shows "\<exists>t y v. run_instruction s = Inr (11, t) \<and> operands t = xs \<and> cpu_ip t = cpu_ip s + 3
    \<and> inbox_items q t = inbox_items q s @ [mallocs s] \<and> messages t (mallocs s) = Some y
    \<and> m_payload y = Some bs \<and> m_task_src y = t_id k \<and> m_task_dst y = dst \<and> m_crc y = checksum bs
    \<and> seq (cpu_context_switch (Ptr d)) cpu_process_context_inbox t = Inr ((), v)
    \<and> cpu_ip v = t_message_handler_address l
    \<and> stacks v e = Some (frames (Suc (length (inbox_items q s))) (t_ip l) (t_message_handler_address l) kk)
    \<and> messages v (mallocs s) = None"
proof -
  obtain u where u: "run_instruction s
        = bind (message_queue_send_message (cpu_message_queues u) (t_id k) dst (bs @ rest) n) (\<lambda>_. return 11) u"
      "live_opstack u" "operands u = xs" "same_but_opstack (s\<lparr>cpu_ip := cpu_ip s + 3\<rparr>) u"
    using syscall_send [OF assms(1-4,7)] by blast
  obtain w where w: "u = s\<lparr>cpu_ip := cpu_ip s + 3, stacks := (stacks s)(opstack_addr s \<mapsto> w)\<rparr>"
    using u(4) by (auto simp: same_but_opstack_def same_but_stack_def opstack_addr_def)
  have fields: "messages u = messages s" "queues u = queues s" "mallocs u = mallocs s"
    "malloc_ok u = malloc_ok s" "cpu_message_queues u = cpu_message_queues s"
    by (simp_all add: w)
  have same: "inbox_items q u = inbox_items q s" "mallocs u = mallocs s" "\<forall>i. malloc_ok u i"
    "deliverable (cpu_message_queues u) as q dst u"
    using assms(6,8) by (simp_all add: fields inbox_items_def deliverable_def inboxes_def inbox_ok_def
        cong: option.case_cong)
  obtain t y where t: "message_queue_send_message (cpu_message_queues u) (t_id k) dst (bs @ rest) n u = Inr ((), t)"
      "inbox_ok q t" "inbox_items q t = inbox_items q u @ [mallocs u]" "messages t (mallocs u) = Some y"
      "y\<lparr>m_next := Null\<rparr> = (sent_message (t_id k) dst bs)\<lparr>m_next := Null\<rparr>"
      "t = u\<lparr>mallocs := mallocs t, dynamic_memory_usage := dynamic_memory_usage t,
         messages := messages t, queues := queues t\<rparr>"
    using send_delivers [OF same(3) assms(5) same(4)] assms(9,10) same(1,2) by metis
  have tu: "stacks t = stacks u" "nodes t = nodes s" "tasks t = tasks s" "cpu_ip t = cpu_ip s + 3"
    "cpu_task_tree_current_node t = cpu_task_tree_current_node s" "cpu_opstack t = cpu_opstack s"
    "cpu_stack t = cpu_stack s"
    by (subst t(6), simp add: w)+
  have ops: "operands t = xs"
    using u(3) w tu(1,6) by (simp add: operands_def opstack_addr_def stack_at_def)
  have y: "m_payload y = Some bs" "m_task_src y = t_id k" "m_task_dst y = dst" "m_crc y = checksum bs"
    using arg_cong [OF t(5), of m_payload] arg_cong [OF t(5), of m_task_src]
      arg_cong [OF t(5), of m_task_dst] arg_cong [OF t(5), of m_crc] by (simp_all add: sent_message_def)
  let ?ms = "inbox_items q s @ [mallocs s]"
  have items: "inbox_items q t = ?ms" using t(3) same(1,2) by simp
  have run: "running t c a k" "node_task t d b l"
    using assms(7,11) tu by (simp_all add: running_def node_task_iff)
  have stack: "stacks t e = Some kk" using assms(16,18) by (simp add: tu(1) w)
  have room: "unat (sp kk) + 4 * length ?ms \<le> unat (stk_size kk)" using assms(19) by simp
  obtain v where v: "seq (cpu_context_switch (Ptr d)) cpu_process_context_inbox t = Inr ((), v)"
      "cpu_ip v = t_message_handler_address l"
      "stacks v = (stacks t)(e \<mapsto> frames (length ?ms) (t_ip l) (t_message_handler_address l) kk)"
      "messages v = messages t |` (- set ?ms)"
    using receiver_starts [OF run assms(12,13) t(2) items _ assms(15) stack assms(17) room] assms(14) by auto
  have "run_instruction s = Inr (11, t)" using u(1) t(1) by (simp add: st_simps)
  with ops tu(4) items t(4) y v same(2) show ?thesis
    by (intro exI [of _ t] exI [of _ y] exI [of _ v]) (simp del: frames.simps)
qed

text \<open>The root's task sends the two bytes at the end of its program to task 1, whose handler is
  at 9.\<close>

definition demo_send :: cpu where
  "demo_send = (demo_tasks [11, 3, 0, 104, 105])\<lparr>cpu_data_address := 3,
     stacks := [20 \<mapsto> \<lparr>stk_data = [0, 1, 0, 3, 0, 2] @ replicate 10 0, stk_size = 16, sp = 6, bp = 0\<rparr>,
       23 \<mapsto> empty_stack 16, 24 \<mapsto> empty_stack 16],
     tasks := [11 \<mapsto> task_at 20 0 0, 12 \<mapsto> (task_at 23 1 7)\<lparr>t_message_handler_address := 9\<rparr>]\<rparr>"

lemma demo_send_tasks:
  "running demo_send 1 11 (task_at 20 0 0)"
  "node_task demo_send 2 12 ((task_at 23 1 7)\<lparr>t_message_handler_address := 9\<rparr>)"
  "(11 :: nat) \<noteq> 12" "t_inbox ((task_at 23 1 7)\<lparr>t_message_handler_address := 9\<rparr>) = Ptr 25"
  by (simp_all add: running_def node_task_iff demo_send_def demo_tasks_def task_at_def demo_node_def)

lemma demo_send_receiver:
  "t_stack ((task_at 23 1 7)\<lparr>t_message_handler_address := 9\<rparr>) = Ptr 24"
  "stacks demo_send 24 = Some (empty_stack 16)" "stack_ok (empty_stack 16)"
  by (simp_all add: task_at_def demo_send_def demo_tasks_def)

lemma demo_send_inbox:
  "deliverable (Ptr 22) [22, 25, 28] 25 1 demo_send" "inbox_items 25 demo_send = []"
  "cpu_message_queues demo_send = Ptr 22"
  by (simp_all add: demo_send_def demo_tasks_def demo_cpu_def deliverable_def inboxes_def inbox_for_def
      main_inbox_def inbox_ok_def inbox_items_def inbox_of_def)

theorem sent_message_calls_handler_witness:
  "\<exists>t y v. run_instruction demo_send = Inr (11, t) \<and> operands t = []
     \<and> messages t 30 = Some y \<and> m_payload y = Some [104, 105] \<and> m_crc y = 1
     \<and> seq (cpu_context_switch (Ptr 2)) cpu_process_context_inbox t = Inr ((), v)
     \<and> cpu_ip v = 9 \<and> stacks v 24 = Some (with_frame 7 (empty_stack 16)) \<and> messages v 30 = None"
proof -
  let ?s = demo_send and ?l = "(task_at 23 1 7)\<lparr>t_message_handler_address := 9\<rparr>"
  have b: "bytes_of_u16 1 = [1, 0]" "bytes_of_u16 2 = [2, 0]" "bytes_of_u16 3 = [3, 0]"
    by (simp_all add: bytes_of_u16_def)
  have code: "code_at ?s (11 # bytes_of_u16 3 @ [])"
    by (simp add: b code_at_def demo_send_def demo_tasks_def demo_cpu_def)
  have ops: "live_opstack ?s" "operands ?s = [] @ rev (bytes_of_u16 1) @ rev (bytes_of_u16 3) @ rev (bytes_of_u16 2)"
    by (simp_all add: b demo_send_def demo_tasks_def live_opstack_def opstack_addr_def live_stack_def
        stack_at_def stack_ok_def stack_wf_def operands_def contents_def)
  have data: "data_at ?s 3 ([104, 105] @ [])" "length [104 :: u8, 105] = unat (2 :: u16)"
    "\<forall>i. malloc_ok ?s i"
    by (simp_all add: data_at_def demo_send_def demo_tasks_def demo_cpu_def)
  have inbox: "deliverable (cpu_message_queues ?s) [22, 25, 28] 25 1 ?s" "inbox_items 25 ?s = []"
    using demo_send_inbox by simp_all
  have room: "length (inbox_items 25 ?s) < 4" "mallocs ?s \<notin> set (inbox_items 25 ?s)" by (simp_all add: inbox)
  have l: "t_message_handler_address ?l \<noteq> 0" "24 \<noteq> opstack_addr ?s"
    by (simp_all add: demo_send_def demo_tasks_def opstack_addr_def)
  have frames: "unat (sp (empty_stack 16)) + 4 * Suc (length (inbox_items 25 ?s)) \<le> unat (stk_size (empty_stack 16))"
    by (simp add: inbox)
  have fields: "mallocs ?s = 30" "t_ip ?l = 7" "checksum [104, 105] = 1"
    by (simp_all add: demo_send_def demo_tasks_def task_at_def checksum_def)
  from sent_message_calls_handler [OF code ops data demo_send_tasks(1) inbox(1) room demo_send_tasks(2-4) l(1)
      demo_send_receiver l(2) frames] show ?thesis
    unfolding fields inbox(2) by (auto simp: task_at_def)
qed

text \<open>A send to an inbox whose head is indeterminate.\<close>

lemma send_to_broken_inbox:
  assumes "\<forall>i. malloc_ok w i" and "length bs = unat n" and "inboxes w p as"
    and "inbox_for (queues w) dst as = Some q"
    and "queues w q = Some (x\<lparr>q_head := Indet, q_count := 0\<rparr>)"
  shows "\<exists>z. message_queue_send_message p src dst (bs @ rest) n w = Inl (Undefined Uninitialised, z)"
proof -
  let ?m = "sent_message src dst bs"
  let ?w = "w\<lparr>mallocs := mallocs w + 2, dynamic_memory_usage := dynamic_memory_usage w + (32 + n),
    messages := (messages w)(mallocs w \<mapsto> ?m)\<rparr>"
  have list: "queue_list (queues ?w) p as" "length as < Suc (mallocs ?w)"
    using assms(3) by (simp_all add: inboxes_def)
  have "messages ?w (mallocs w) = Some ?m" "inbox_for (queues ?w) (m_task_dst ?m) as = Some q"
      "queues ?w q = Some (x\<lparr>q_head := Indet, q_count := 0\<rparr>)"
    using assms(4,5) by (simp_all add: sent_message_def)
  from deliver_loop_some [OF list this]
  have "deliver_local p (Ptr (mallocs w)) ?w = Inl (Undefined Uninitialised, ?w)"
    using assms(5) by (simp add: deliver_local_def st_simps enqueue_def TASK_MESSAGE_QUEUE_SIZE_def)
  then show ?thesis
    using message_create_result [OF assms(1,2), of src dst rest]
    by (simp add: message_queue_send_message_def send_message_def get_local_vm_id_def st_simps sent_message_def)
qed

text \<open>C32: an inbox that has been read cannot be used again. A message is sent to a task whose
  inbox has room for it, and the scheduler turns to this task, which takes all its messages and
  has an empty inbox. Whatever happens then, as long as this inbox is as it was left: the next
  message sent to the task makes the delivery test a pointer that was never assigned, the link
  that \<open>message_create\<close> left in the message sent before. Memory is available throughout.\<close>

theorem drained_inbox_is_broken:
  fixes s :: "'z cpu_scheme"
  assumes "\<forall>i. malloc_ok s i" and "length bs = unat n" and "deliverable p as q dst s"
    and "length (inbox_items q s) < 4" and "mallocs s \<notin> set (inbox_items q s)"
    and "running s c a k" and "node_task s d b l" and "a \<noteq> b" and "t_inbox l = Ptr q"
    and "t_stack l = Ptr e" and "stacks s e = Some kk" and "stack_ok kk"
    and "unat (sp kk) + 4 * Suc (length (inbox_items q s)) \<le> unat (stk_size kk)"
  shows "\<exists>t v. message_queue_send_message p src dst (bs @ rest) n s = Inr ((), t)
    \<and> seq (cpu_context_switch (Ptr d)) cpu_process_context_inbox t = Inr ((), v)
    \<and> inbox_items q t = inbox_items q s @ [mallocs s] \<and> inbox_items q v = []
    \<and> malloc_ok v = malloc_ok s \<and> inboxes v p as \<and> inbox_for (queues v) dst as = Some q
    \<and> (\<forall>(w :: 'z cpu_scheme) as' src' bs' rest' n'. queues w q = queues v q \<and> inboxes w p as'
         \<and> inbox_for (queues w) dst as' = Some q \<and> (\<forall>i. malloc_ok w i) \<and> length bs' = unat n'
         \<longrightarrow> (\<exists>z. message_queue_send_message p src' dst (bs' @ rest') n' w = Inl (Undefined Uninitialised, z)))"
proof -
  let ?ms = "inbox_items q s @ [mallocs s]"
  obtain t where t: "message_queue_send_message p src dst (bs @ rest) n s = Inr ((), t)" "inbox_ok q t"
      "inbox_items q t = ?ms" "messages t (mallocs s) = Some (sent_message src dst bs)"
      "deliverable p as q dst t" "mallocs t = mallocs s + 2"
      "t = s\<lparr>mallocs := mallocs t, dynamic_memory_usage := dynamic_memory_usage t,
         messages := messages t, queues := queues t\<rparr>"
    using send_delivers [OF assms(1-5)] by blast
  have fields: "nodes t = nodes s" "tasks t = tasks s" "stacks t = stacks s" "malloc_ok t = malloc_ok s"
    "cpu_task_tree_current_node t = cpu_task_tree_current_node s" "cpu_opstack t = cpu_opstack s"
    "cpu_stack t = cpu_stack s"
    by (subst t(7), simp)+
  have run: "running t c a k" "node_task t d b l"
    using assms(6,7) fields by (simp_all add: running_def node_task_iff)
  have stack: "stacks t e = Some kk" using assms(11) fields by simp
  have room: "unat (sp kk) + 4 * length ?ms \<le> unat (stk_size kk)" using assms(13) by simp
  obtain v x z where v: "seq (cpu_context_switch (Ptr d)) cpu_process_context_inbox t = Inr ((), v)"
      "malloc_ok v = malloc_ok t" "mallocs v = mallocs t" and x: "queues t q = Some x"
      "linked (messages t) (q_head x) ?ms z" "queues v = (queues t)(q \<mapsto> x\<lparr>q_head := z, q_count := 0\<rparr>)"
    using receiver_starts [OF run assms(8,9) t(2,3) _ assms(10) stack assms(12) room] by auto
  have "z = m_next (sent_message src dst bs)" by (rule linked_end [OF x(2) t(4)])
  then have z: "z = Indet" by (simp add: sent_message_def)
  have q: "queues v q = Some (x\<lparr>q_head := Indet, q_count := 0\<rparr>)" using x(3) z by simp
  have empty: "inbox_items q v = []" by (simp add: inbox_items_def q)
  have "inbox_for (queues v) dst as = inbox_for (queues t) dst as"
    using x(1) by (intro inbox_for_cong) (simp add: x(3) fun_upd_apply)
  then have able: "inboxes v p as" "inbox_for (queues v) dst as = Some q"
    using t(5) x(1) v(3) queue_list_update [of "queues t" q x "x\<lparr>q_head := z, q_count := 0\<rparr>" p as]
    by (simp_all add: deliverable_def inboxes_def x(3))
  have "\<forall>(w :: 'z cpu_scheme) as' src' bs' rest' n'. queues w q = queues v q \<and> inboxes w p as'
      \<and> inbox_for (queues w) dst as' = Some q \<and> (\<forall>i. malloc_ok w i) \<and> length bs' = unat n'
      \<longrightarrow> (\<exists>z. message_queue_send_message p src' dst (bs' @ rest') n' w = Inl (Undefined Uninitialised, z))"
    using q by (auto intro!: send_to_broken_inbox simp del: add_2_eq_Suc' add_2_eq_Suc)
  moreover have "malloc_ok v = malloc_ok s" using v(2) fields(4) by simp
  ultimately show ?thesis using t(1,3) v(1) empty able by blast
qed

text \<open>The root's task sends a byte to task 1, which reads it, and another one.\<close>

theorem drained_inbox_is_broken_witness:
  "\<exists>t v z. message_queue_send_message (Ptr 22) 0 1 [104] 1 demo_send = Inr ((), t)
     \<and> seq (cpu_context_switch (Ptr 2)) cpu_process_context_inbox t = Inr ((), v)
     \<and> message_queue_send_message (Ptr 22) 0 1 [105] 1 v = Inl (Undefined Uninitialised, z)"
proof -
  have fits: "\<forall>i. malloc_ok demo_send i" "length [104 :: u8] = unat (1 :: u16)" "length [105 :: u8] = unat (1 :: u16)"
    by (simp_all add: demo_send_def demo_tasks_def demo_cpu_def)
  note inbox = demo_send_inbox and items = demo_send_inbox(2)
  have room: "length (inbox_items 25 demo_send) < 4" "mallocs demo_send \<notin> set (inbox_items 25 demo_send)"
    by (simp_all add: items)
  have frames: "unat (sp (empty_stack 16)) + 4 * Suc (length (inbox_items 25 demo_send)) \<le> unat (stk_size (empty_stack 16))"
    by (simp add: items)
  obtain t v where "message_queue_send_message (Ptr 22) 0 1 ([104] @ []) 1 demo_send = Inr ((), t)"
      "seq (cpu_context_switch (Ptr 2)) cpu_process_context_inbox t = Inr ((), v)"
      "malloc_ok v = malloc_ok demo_send" "inboxes v (Ptr 22) [22, 25, 28]"
      "inbox_for (queues v) 1 [22, 25, 28] = Some 25"
      "\<forall>(w :: cpu) as' src' bs' rest' n'. queues w 25 = queues v 25 \<and> inboxes w (Ptr 22) as'
         \<and> inbox_for (queues w) 1 as' = Some 25 \<and> (\<forall>i. malloc_ok w i) \<and> length bs' = unat n'
         \<longrightarrow> (\<exists>z. message_queue_send_message (Ptr 22) src' 1 (bs' @ rest') n' w = Inl (Undefined Uninitialised, z))"
    using drained_inbox_is_broken [OF fits(1,2) inbox(1) room demo_send_tasks demo_send_receiver frames, of 0 "[]"] by blast
  moreover from this(3-6) fits(1,3)
  have "\<exists>z. message_queue_send_message (Ptr 22) 0 1 ([105] @ []) 1 v = Inl (Undefined Uninitialised, z)" by metis
  ultimately show ?thesis by auto
qed

end
