(* ===== verification/Recursion_Spec.thy ===== *)
theory Recursion_Spec
  imports Typing_Spec
begin

text \<open>
  A routine that calls itself without end (src/instructions.c, src/stack.c, src/cpu.c): how many
  calls the call stack takes, what they leave on it, and how the process ends, instruction by
  instruction and through the time slices of the scheduler.
\<close>

section \<open>The frames\<close>

text \<open>The bytes of \<open>n\<close> frames in a row that all return to \<open>ip\<close>, with the first at \<open>p\<close>: the first
  saves the base pointer \<open>b\<close>, each later one the base of the frame before it.\<close>

fun nested_frames :: "u16 \<Rightarrow> u16 \<Rightarrow> u16 \<Rightarrow> nat \<Rightarrow> u8 list" where
  "nested_frames ip b p 0 = []"
| "nested_frames ip b p (Suc n) =
     rev (bytes_of_u16 ip) @ rev (bytes_of_u16 b) @ nested_frames ip (p + 4) (p + 4) n"

lemma length_nested_frames [simp]: "length (nested_frames ip b p n) = 4 * n"
  by (induction n arbitrary: b p) simp_all

lemma nested_frames_add:
  "0 < n \<Longrightarrow> nested_frames ip b p (n + i) = nested_frames ip b p n
     @ nested_frames ip (p + 4 * of_nat n) (p + 4 * of_nat n) i"
proof (induction n arbitrary: b p)
  case (Suc n)
  have "p + 4 + 4 * of_nat n = p + 4 * of_nat (Suc n)" by (simp add: distrib_left)
  with Suc show ?case by (cases "n = 0") (simp_all add: add.assoc)
qed simp

text \<open>The stack \<open>k'\<close> is the stack \<open>k\<close> with \<open>n\<close> frames pushed.\<close>

definition recursed :: "u16 \<Rightarrow> nat \<Rightarrow> stack \<Rightarrow> stack \<Rightarrow> bool" where
  "recursed ip n k k' \<longleftrightarrow> stack_ok k' \<and> stk_size k' = stk_size k
     \<and> contents k' = contents k @ nested_frames ip (bp k) (sp k) n
     \<and> bp k' = (if n = 0 then bp k else sp k + 4 * of_nat n)"

text \<open>How many frames fit.\<close>

definition room_for :: "stack \<Rightarrow> nat" where
  "room_for k = (unat (stk_size k) - unat (sp k)) div 4"

lemma recursed_sp:
  assumes "recursed ip n k k'" and "stack_ok k"
  shows "unat (sp k') = unat (sp k) + 4 * n" and "room_for k' = room_for k - n"
proof -
  have k': "stack_ok k'" "stk_size k' = stk_size k" "contents k' = contents k @ nested_frames ip (bp k) (sp k) n"
    using assms(1) by (simp_all add: recursed_def)
  show sp: "unat (sp k') = unat (sp k) + 4 * n"
    using length_contents [OF k'(1)] length_contents [OF assms(2)] unfolding k'(3) by simp
  have "(x - (y + 4 * n)) div 4 = (x - y) div 4 - n" for x y :: nat
  proof (cases "y + 4 * n \<le> x")
    case True
    then obtain d where "x = y + 4 * n + d" using le_Suc_ex by blast
    then show ?thesis by simp
  qed simp
  with sp k'(2) show "room_for k' = room_for k - n" by (simp add: room_for_def)
qed

lemma recursed_again:
  assumes "recursed ip n k k'" and "recursed ip i k' k''" and "stack_ok k" and "0 < n"
  shows "recursed ip (n + i) k k''"
proof -
  have "unat (sp k') = unat (sp k) + 4 * n" by (rule recursed_sp(1) [OF assms(1,3)])
  then have "sp k' = sp k + 4 * of_nat n"
    by (metis of_nat_add of_nat_mult of_nat_numeral of_nat_unat ucast_id)
  moreover have "sp k + 4 * of_nat n + 4 * of_nat i = sp k + 4 * of_nat (n + i)" by (simp add: distrib_left)
  ultimately show ?thesis
    using assms by (simp add: recursed_def nested_frames_add)
qed

section \<open>The calls\<close>

text \<open>The next instruction is a call of itself.\<close>

definition calls_itself :: "'z cpu_scheme \<Rightarrow> bool" where
  "calls_itself s \<longleftrightarrow> (\<exists>cs. code_at s (9 # bytes_of_u16 (cpu_ip s) @ cs))"

lemma one_call:
  assumes "calls_itself s" and "callstack a s k" and "0 < room_for k"
  shows "\<exists>k'. run_instruction s = Inr (9, s\<lparr>stacks := (stacks s)(a \<mapsto> k')\<rparr>)
    \<and> recursed (cpu_ip s + 3) 1 k k'"
proof -
  obtain cs where code: "code_at s (9 # bytes_of_u16 (cpu_ip s) @ cs)"
    using assms(1) by (auto simp: calls_itself_def)
  have ok: "stack_ok k" "callstack a (s\<lparr>cpu_ip := cpu_ip s + 3\<rparr>) k" using assms(2) by (simp_all add: callstack_def)
  have room: "unat (sp k) + 4 \<le> unat (stk_size k)" using assms(3) by (simp add: room_for_def div_greater_zero_iff)
  note f = with_frame_facts [OF ok(1) room, of "cpu_ip s + 3"]
  have "recursed (cpu_ip s + 3) 1 k (with_frame (cpu_ip s + 3) k)"
    using f by (simp add: recursed_def)
  with run_call [OF code] call_address_room [OF ok(2) room, of "cpu_ip s"]
  show ?thesis by (auto simp: st_simps)
qed

lemma calls_that_fit:
  assumes "calls_itself s" and "callstack a s k" and "n \<le> room_for k"
  shows "\<exists>k'. (\<forall>i. run_cycles (n + i) s = run_cycles i (s\<lparr>stacks := (stacks s)(a \<mapsto> k')\<rparr>))
    \<and> recursed (cpu_ip s + 3) n k k'"
  using assms
proof (induction n arbitrary: s k)
  case 0
  then have "s\<lparr>stacks := (stacks s)(a \<mapsto> k)\<rparr> = s" "recursed (cpu_ip s + 3) 0 k k"
    by (simp_all add: callstack_def recursed_def fun_upd_idem)
  then show ?case by (intro exI [of _ k]) simp
next
  case (Suc n)
  then obtain k1 where k1: "run_instruction s = Inr (9, s\<lparr>stacks := (stacks s)(a \<mapsto> k1)\<rparr>)"
      "recursed (cpu_ip s + 3) 1 k k1"
    using one_call [of s a k] by auto
  let ?t = "s\<lparr>stacks := (stacks s)(a \<mapsto> k1)\<rparr>"
  have ok: "stack_ok k" "stack_ok k1" using Suc.prems(2) k1(2) by (simp_all add: callstack_def recursed_def)
  have "calls_itself ?t" "callstack a ?t k1" "n \<le> room_for k1"
    using Suc.prems ok recursed_sp(2) [OF k1(2) ok(1)] by (simp_all add: calls_itself_def code_at_def callstack_def)
  from Suc.IH [OF this] obtain k' where
    k': "\<forall>i. run_cycles (n + i) ?t = run_cycles i (?t\<lparr>stacks := (stacks ?t)(a \<mapsto> k')\<rparr>)" "recursed (cpu_ip s + 3) n k1 k'" by auto
  have "run_cycles (Suc n + i) s = run_cycles i (s\<lparr>stacks := (stacks s)(a \<mapsto> k')\<rparr>)" for i
    using run_cycles_next [OF k1(1), of "n + i"] k'(1) by (simp add: opcode_of_control)
  moreover have "recursed (cpu_ip s + 3) (Suc n) k k'" using recursed_again [OF k1(2) k'(2) ok(1)] by simp
  ultimately show ?case by blast
qed

text \<open>The call that does not fit.\<close>

definition overflowed :: "nat \<Rightarrow> stack \<Rightarrow> 'z cpu_scheme \<Rightarrow> (stop \<times> 'z cpu_scheme) + (unit \<times> 'z cpu_scheme) \<Rightarrow> bool" where
  "overflowed a k s r \<longleftrightarrow> (\<exists>t es k'. r = Inl (ExitFailure, t)
     \<and> out t = out s @ Printf ''stack_write_bend_data_at: stackoverflow\<newline>'' [] # es
     \<and> stacks t a = Some k' \<and> take (unat (sp k) + 4 * room_for k) (stk_data k')
         = contents k @ nested_frames (cpu_ip s + 3) (bp k) (sp k) (room_for k))"

lemma call_too_many:
  assumes "calls_itself s" and "callstack a s k" and "stk_size k < 65532" and "room_for k < n"
  shows "overflowed a k s (run_cycles n s)"
proof -
  obtain k1 where k1: "\<forall>i. run_cycles (room_for k + i) s = run_cycles i (s\<lparr>stacks := (stacks s)(a \<mapsto> k1)\<rparr>)"
      "recursed (cpu_ip s + 3) (room_for k) k k1"
    using calls_that_fit [OF assms(1,2) order_refl] by blast
  let ?t = "s\<lparr>stacks := (stacks s)(a \<mapsto> k1)\<rparr>" and ?c = "s\<lparr>stacks := (stacks s)(a \<mapsto> k1), cpu_ip := cpu_ip s + 3\<rparr>"
  obtain cs where "code_at s (9 # bytes_of_u16 (cpu_ip s) @ cs)" using assms(1) by (auto simp: calls_itself_def)
  then have code: "code_at ?t (9 # bytes_of_u16 (cpu_ip ?t) @ cs)" by (simp add: code_at_def)
  have ok: "stack_ok k" "stack_ok k1" "stk_size k1 = stk_size k"
    using assms(2) k1(2) by (simp_all add: callstack_def recursed_def)
  have wf: "stack_wf k1" and le: "unat (sp k1) \<le> unat (stk_size k1)" using ok(2) by (simp_all add: stack_ok_def)
  note sp = recursed_sp [OF k1(2) ok(1)]
  have full: "unat (stk_size k1) < unat (sp k1) + 4"
    using sp(2) le by (simp add: room_for_def div_eq_0_iff)
  have small: "unat (sp k1) + 4 < 65536"
    using assms(3) ok(3) le by (simp add: word_less_nat_alt)
  have c: "cpu_stack ?c = Ptr a" "stacks ?c a = Some k1" using assms(2) by (simp_all add: callstack_def)
  obtain u es k' where u: "call_address (cpu_ip s) ?c = Inl (ExitFailure, u)"
      "out u = out s @ Printf ''stack_write_bend_data_at: stackoverflow\<newline>'' [] # es"
      "stacks u a = Some k'" "take (unat (sp k1)) (stk_data k') = take (unat (sp k1)) (stk_data k1)"
    using call_address_full [OF c wf full small, of "cpu_ip s"] by auto
  have "run_instruction ?t = Inl (ExitFailure, u)" using run_call [OF code] u(1) by (simp add: st_simps)
  moreover have "n = room_for k + Suc (n - Suc (room_for k))" using assms(4) by simp
  ultimately have "run_cycles n s = Inl (ExitFailure, u)"
    using k1(1) run_cycles_stop by metis
  moreover have "take (unat (sp k) + 4 * room_for k) (stk_data k')
      = contents k @ nested_frames (cpu_ip s + 3) (bp k) (sp k) (room_for k)"
    using u(4) k1(2) sp(1) by (simp add: recursed_def contents_def)
  ultimately show ?thesis using u(2,3) by (auto simp: overflowed_def)
qed

section \<open>The scheduler\<close>

lemma overflowed_later:
  assumes "overflowed a k' t r" and "recursed (cpu_ip s + 3) n k k'" and "stack_ok k" and "0 < n"
    and "n \<le> room_for k" and "out t = out s" and "cpu_ip t = cpu_ip s"
  shows "overflowed a k s r"
proof -
  note sp = recursed_sp [OF assms(2,3)]
  have room: "room_for k = n + room_for k'" using sp(2) assms(5) by simp
  have "sp k' = sp k + 4 * of_nat n"
    using sp(1) by (metis of_nat_add of_nat_mult of_nat_numeral of_nat_unat ucast_id)
  then have "contents k' @ nested_frames (cpu_ip s + 3) (bp k') (sp k') (room_for k')
      = contents k @ nested_frames (cpu_ip s + 3) (bp k) (sp k) (room_for k)"
    using assms(2,4) unfolding room by (simp add: recursed_def nested_frames_add)
  moreover have "unat (sp k') + 4 * room_for k' = unat (sp k) + 4 * room_for k" using sp(1) room by simp
  ultimately show ?thesis using assms(1) unfolding overflowed_def assms(6,7) by simp
qed

lemma lone_calls:
  assumes "lone m d s" and "calls_itself s" and "callstack a s k"
  shows "if 255 * r \<le> room_for k
    then \<exists>t k'. cpu_run (Suc (Suc fuel)) r s = Inr ((), t) \<and> cpu_ip t = cpu_ip s \<and> out t = out s
      \<and> stacks t a = Some k' \<and> recursed (cpu_ip s + 3) (255 * r) k k'
    else overflowed a k s (cpu_run (Suc (Suc fuel)) r s)"
  using assms
proof (induction r arbitrary: s k)
  case 0
  then show ?case by (auto simp: st_simps recursed_def callstack_def)
next
  case (Suc r)
  obtain u where u: "cpu_run_cycle (Ptr (m + 9)) s = run_cycles 255 u" "lone m d u"
      "u = s\<lparr>accepts := accepts u, tasks := tasks u\<rparr>"
    by (rule lone_switch [OF Suc.prems(1)])
  have fields: "calls_itself w" "callstack a w k" "out w = out s" "cpu_ip w = cpu_ip s"
    if "w = s\<lparr>accepts := n, tasks := h\<rparr>" for w n h
    using Suc.prems(2,3) by (simp_all add: that calls_itself_def code_at_def callstack_def)
  note u_fields = fields [OF u(3)]
  have a: "a = m + 7" and size: "stk_size k = 4096" and ok: "stack_ok k"
    using Suc.prems(1,3) by (auto simp: lone_def callstack_def)
  note round = lone_round(1) [OF Suc.prems(1), of fuel]
  show ?case
  proof (cases "255 \<le> room_for k")
    case False
    have "overflowed a k u (run_cycles 255 u)"
      by (rule call_too_many [OF u_fields(1,2)]) (use size False in simp_all)
    moreover from this obtain t where "run_cycles 255 u = Inl (ExitFailure, t)" by (auto simp: overflowed_def)
    ultimately have "overflowed a k s (cpu_run (Suc (Suc fuel)) (Suc r) s)"
      using round u(1) u_fields(3,4) by (simp add: st_simps overflowed_def)
    with False show ?thesis by simp
  next
    case True
    obtain k1 where k1: "\<forall>i. run_cycles (255 + i) u = run_cycles i (u\<lparr>stacks := (stacks u)(a \<mapsto> k1)\<rparr>)"
        "recursed (cpu_ip s + 3) 255 k k1"
      using calls_that_fit [OF u_fields(1,2) True] u_fields(4) by auto
    let ?v = "u\<lparr>stacks := (stacks u)(a \<mapsto> k1)\<rparr>"
    have slice: "cpu_run_cycle (Ptr (m + 9)) s = Inr ((), ?v)"
      using k1(1) [rule_format, of 0] u(1) by (simp add: return_apply)
    have "stk_size k1 = 4096" "stack_ok k1" using k1(2) size by (simp_all add: recursed_def)
    then have v: "lone m d ?v" "calls_itself ?v" "callstack a ?v k1"
      using u(2) u_fields(1,2) a
      by (auto simp: lone_def opstack_capacity_def opstack_addr_def stack_at_def calls_itself_def code_at_def callstack_def)
    have run: "cpu_run (Suc (Suc fuel)) (Suc r) s = cpu_run (Suc (Suc fuel)) r ?v"
      using round slice lone_round(2) [OF v(1), of fuel] by (simp add: st_simps)
    have room: "255 * Suc r \<le> room_for k \<longleftrightarrow> 255 * r \<le> room_for k1"
      using recursed_sp(2) [OF k1(2) ok] True by auto
    note IH = Suc.IH [OF v]
    show ?thesis
    proof (cases "255 * r \<le> room_for k1")
      case True
      with IH obtain t k' where "cpu_run (Suc (Suc fuel)) r ?v = Inr ((), t)" "cpu_ip t = cpu_ip s" "out t = out s"
          "stacks t a = Some k'" "recursed (cpu_ip s + 3) (255 * r) k1 k'"
        using u_fields(3,4) by auto
      moreover from recursed_again [OF k1(2) this(5) ok] have "recursed (cpu_ip s + 3) (255 * Suc r) k k'" by simp
      ultimately show ?thesis using True room run by auto
    next
      case not_yet: False
      with IH have "overflowed a k1 ?v (cpu_run (Suc (Suc fuel)) r ?v)" by simp
      from overflowed_later [OF this k1(2) ok _ True] u_fields(3,4) not_yet room run show ?thesis by simp
    qed
  qed
qed

section \<open>Property\<close>

text \<open>C35: unbounded recursion ends the process. Let the next instruction be a call of itself, and
  let \<open>room_for k\<close> be the number of four-byte frames that fit above \<open>sp\<close> on the call stack. The
  first \<open>n\<close> instructions, for any \<open>n\<close> up to this number, all succeed and do nothing but push \<open>n\<close>
  frames; with one more, the process prints the overflow message and exits with failure, all
  frames still on the stack. So it goes through the scheduler: a machine with this task alone
  returns from \<open>r\<close> rounds with \<open>255 * r\<close> frames pushed and nothing printed as long as so many
  fit, and otherwise exits in the overflow.\<close>

theorem unbounded_recursion_exits:
  assumes "calls_itself s" and "callstack a s k" and "stk_size k < 65532"
  shows "(\<forall>n. if n \<le> room_for k
        then \<exists>k'. run_cycles n s = Inr ((), s\<lparr>stacks := (stacks s)(a \<mapsto> k')\<rparr>) \<and> recursed (cpu_ip s + 3) n k k'
        else overflowed a k s (run_cycles n s))
    \<and> (\<forall>m d r fuel. lone m d s \<longrightarrow> (if 255 * r \<le> room_for k
        then \<exists>t k'. cpu_run (Suc (Suc fuel)) r s = Inr ((), t) \<and> cpu_ip t = cpu_ip s \<and> out t = out s
          \<and> stacks t a = Some k' \<and> recursed (cpu_ip s + 3) (255 * r) k k'
        else overflowed a k s (cpu_run (Suc (Suc fuel)) r s)))"
proof (intro conjI allI impI)
  fix n
  show "if n \<le> room_for k
      then \<exists>k'. run_cycles n s = Inr ((), s\<lparr>stacks := (stacks s)(a \<mapsto> k')\<rparr>) \<and> recursed (cpu_ip s + 3) n k k'
      else overflowed a k s (run_cycles n s)"
  proof (cases "n \<le> room_for k")
    case True
    then obtain k' where "\<forall>i. run_cycles (n + i) s = run_cycles i (s\<lparr>stacks := (stacks s)(a \<mapsto> k')\<rparr>)"
        "recursed (cpu_ip s + 3) n k k'"
      using calls_that_fit [OF assms(1,2)] by blast
    from this(1) [rule_format, of 0] this(2) True show ?thesis by (auto simp: return_apply)
  qed (simp add: call_too_many [OF assms])
qed (rule lone_calls [OF _ assms(1,2)])

text \<open>On a stack of 16 bytes four calls fit, and the fifth fails. On the machine as it starts, with
  a stack of 4096 bytes, four rounds do 1020 calls, and the fifth round overflows.\<close>

theorem unbounded_recursion_exits_witness:
  "(\<exists>t k. run_cycles 4 (demo_cpu [] [9, 0, 0]) = Inr ((), t) \<and> stacks t 2 = Some k
      \<and> contents k = [0, 3, 0, 0, 0, 3, 0, 4, 0, 3, 0, 8, 0, 3, 0, 12])
   \<and> (\<exists>t es. run_cycles 5 (demo_cpu [] [9, 0, 0]) = Inl (ExitFailure, t)
      \<and> out t = Printf ''stack_write_bend_data_at: stackoverflow\<newline>'' [] # es)
   \<and> (\<exists>s t u. boot [9, 0, 0] 3 3 (blank_cpu 3) = Inr ((), s)
      \<and> cpu_run_cycle (cpu_task_tree_root s) s = run_cycles 255 t
      \<and> (\<exists>v. cpu_run 2 4 t = Inr ((), v) \<and> out v = out t) \<and> cpu_run 2 5 t = Inl (ExitFailure, u))"
proof (intro conjI)
  let ?s = "demo_cpu [] [9, 0, 0]"
  let ?k = "\<lparr>stk_data = replicate 16 0, stk_size = 16, sp = 0, bp = 0\<rparr> :: stack"
  have "code_at ?s (9 # bytes_of_u16 (cpu_ip ?s) @ [])"
    by (rule demo_code [where cs = "[]"]; simp add: bytes_of_u16_def)
  then have calls: "calls_itself ?s" unfolding calls_itself_def by (rule exI)
  have out: "out ?s = []" by (simp add: demo_cpu_def)
  have room: "room_for ?k = 4" by (simp add: room_for_def)
  note runs = conjunct1 [OF unbounded_recursion_exits [OF calls demo_cpu_simps(5)], rule_format]
  have "contents ?k = []" by (simp add: contents_def)
  moreover have "nested_frames 3 0 0 4 = [0, 3, 0, 0, 0, 3, 0, 4, 0, 3, 0, 8, 0, 3, 0, 12]"
    by code_simp
  ultimately show "\<exists>t k. run_cycles 4 ?s = Inr ((), t) \<and> stacks t 2 = Some k
      \<and> contents k = [0, 3, 0, 0, 0, 3, 0, 4, 0, 3, 0, 8, 0, 3, 0, 12]"
    using runs [of 4] room by (auto simp: recursed_def)
  show "\<exists>t es. run_cycles 5 ?s = Inl (ExitFailure, t)
      \<and> out t = Printf ''stack_write_bend_data_at: stackoverflow\<newline>'' [] # es"
    using runs [of 5] room out by (auto simp: overflowed_def)
next
  obtain s u where u: "boot [9, 0, 0] 3 3 (blank_cpu 3) = Inr ((), s)"
      "cpu_run_cycle (Ptr 19) s = run_cycles 255 u" "fresh_machine 10 [9, 0, 0] 3 3 u"
      "cpu_task_tree_root s = Ptr 19" "dynamic_memory_usage u = 5404" "cpu_server u = Ptr 13"
      "servers u 13 \<noteq> None" "env_accept u = env_accept (blank_cpu 3)"
    using boot_slice [of "blank_cpu 3" "[9, 0, 0]" 3 3] by (auto simp: CONTEXT_MAX_CYCLES_def)
  note f = fresh_machine_stacks [OF u(3)]
  have "env_accept u = (\<lambda>_. WouldBlock)" using u(8) by auto
  then have lone: "lone 10 5404 u"
    using u(3,5-7) f(3) by (simp add: lone_def fresh_machine_def main_task_def)
  have "cpu_ip u = 0" using u(3) by (simp add: fresh_machine_def)
  with f(6) have "code_at u (9 # bytes_of_u16 (cpu_ip u) @ [])" by (simp add: bytes_of_u16_def)
  then have calls: "calls_itself u" unfolding calls_itself_def by (rule exI)
  have stack: "callstack 17 u (empty_stack 4096)" using f(4) by simp
  have room: "room_for (empty_stack 4096) = 1024" by (simp add: room_for_def)
  have "stk_size (empty_stack 4096) < 65532" by simp
  note rounds = conjunct2 [OF unbounded_recursion_exits [OF calls stack this], rule_format, OF lone, of _ 0]
  have "\<exists>v. cpu_run 2 4 u = Inr ((), v) \<and> out v = out u"
    using rounds [of 4] room by (auto simp: numeral_2_eq_2)
  moreover have "\<exists>w. cpu_run 2 5 u = Inl (ExitFailure, w)"
    using rounds [of 5] room by (auto simp: numeral_2_eq_2 overflowed_def)
  moreover have "cpu_run_cycle (cpu_task_tree_root s) s = run_cycles 255 u" using u(2,4) by simp
  ultimately show "\<exists>s t u. boot [9, 0, 0] 3 3 (blank_cpu 3) = Inr ((), s)
      \<and> cpu_run_cycle (cpu_task_tree_root s) s = run_cycles 255 t
      \<and> (\<exists>v. cpu_run 2 4 t = Inr ((), v) \<and> out v = out t) \<and> cpu_run 2 5 t = Inl (ExitFailure, u)"
    using u(1) by blast
qed

end
