(* ===== verification/Avr_C.thy ===== *)
theory Avr_C
  imports Sys_C
begin

text \<open>
  The ARDUINO build: the timers and delays of src/delay.c, the serial port (src/serial.c), the
  LED call of src/builtin.c and the first calls of \<open>main\<close>. On this target an \<open>int\<close> has 16 bits and \<open>uint16_t\<close> is
  \<open>unsigned int\<close>, so the difference of two clock values is taken modulo 65536.

  A control register is the set of its bits that are 1, by their names in the board's header;
  \<open>(1 << CS01) | (1 << CS00)\<close> is \<open>{CS01, CS00}\<close>. What the hardware does is an input of the
  model: how often each timer interrupt was served before a read of its counter, and whether
  the transmit buffer is empty at each poll.
\<close>

section \<open>State\<close>

datatype avr_bit = WGM01 | CS01 | CS00 | OCIE0A | WGM12 | CS11 | OCIE1A | TXEN0 | UCSZ01 | UCSZ00

record avr = sys +
  TCCR0A :: "avr_bit set"
  OCR0A :: u8
  TCCR0B :: "avr_bit set"
  TIMSK0 :: "avr_bit set"
  TCCR1B :: "avr_bit set"
  OCR1A :: u16
  TIMSK1 :: "avr_bit set"
  UBRR0H :: u8
  UBRR0L :: u8
  UCSR0B :: "avr_bit set"
  UCSR0C :: "avr_bit set"
  interrupts :: bool                  \<comment> \<open>the global interrupt flag\<close>
  millis_counter :: u16
  micros_counter :: "32 word"
  env_irq0 :: "nat \<Rightarrow> nat"            \<comment> \<open>timer 0 interrupts served before each call of \<open>millis\<close>\<close>
  millis_calls :: nat
  env_irq1 :: "nat \<Rightarrow> nat"            \<comment> \<open>timer 1 interrupts served before each call of \<open>micros\<close>\<close>
  micros_calls :: nat
  env_UDRE0 :: "nat \<Rightarrow> bool"          \<comment> \<open>bit \<open>UDRE0\<close> of \<open>UCSR0A\<close> at each poll\<close>
  polls :: nat
  DDRB_reg :: u8                      \<comment> \<open>direction of the pins of port B\<close>
  PORTB_reg :: u8                     \<comment> \<open>output of the pins of port B\<close>
  vsnprintf :: "string \<Rightarrow> arg list \<Rightarrow> u8 list option"  \<comment> \<open>its characters, \<open>None\<close> on an error\<close>

definition F_CPU :: "32 word" where
  "F_CPU = 16000000"

definition sei :: "('z avr_scheme, unit) st" where
  "sei = modify (\<lambda>s. s\<lparr>interrupts := True\<rparr>)"

definition cli :: "('z avr_scheme, unit) st" where
  "cli = modify (\<lambda>s. s\<lparr>interrupts := False\<rparr>)"

section \<open>The millisecond clock\<close>

definition timer_init_avr :: "('z avr_scheme, unit) st" where
  "timer_init_avr =
     seq (modify (\<lambda>s. s\<lparr>TCCR0A := {WGM01}\<rparr>))
    (seq (modify (\<lambda>s. s\<lparr>OCR0A := 249\<rparr>))
    (seq (modify (\<lambda>s. s\<lparr>TCCR0B := {CS01, CS00}\<rparr>))
    (seq (modify (\<lambda>s. s\<lparr>TIMSK0 := {OCIE0A}\<rparr>))
         sei)))"

definition isr_timer0 :: "('z avr_scheme, unit) st" where
  "isr_timer0 = modify (\<lambda>s. s\<lparr>millis_counter := millis_counter s + 1\<rparr>)"

fun repeat_isr :: "nat \<Rightarrow> ('s, unit) st \<Rightarrow> ('s, unit) st" where
  "repeat_isr 0 isr = return ()"
| "repeat_isr (Suc n) isr = seq isr (repeat_isr n isr)"

text \<open>The interrupts that the processor serves while it executes other code: none when they
  are disabled, globally or for the timer.\<close>

definition serve_timer0 :: "('z avr_scheme, unit) st" where
  "serve_timer0 =
     bind (gets (\<lambda>s. if interrupts s \<and> OCIE0A \<in> TIMSK0 s then env_irq0 s (millis_calls s) else 0)) (\<lambda>n.
     seq (modify (\<lambda>s. s\<lparr>millis_calls := Suc (millis_calls s)\<rparr>))
         (repeat_isr n isr_timer0))"

definition millis_avr :: "('z avr_scheme, u16) st" where
  "millis_avr =
     seq serve_timer0
    (seq cli
    (bind (gets millis_counter) (\<lambda>millis.
     seq sei (return millis))))"

text \<open>The loop of \<open>delay_ms\<close>, with a bound on its rounds.\<close>

fun wait_ms :: "nat \<Rightarrow> u16 \<Rightarrow> u16 \<Rightarrow> ('z avr_scheme, unit) st" where
  "wait_ms 0 started_at milliseconds = stop_with OutOfFuel"
| "wait_ms (Suc n) started_at milliseconds =
     bind millis_avr (\<lambda>now.
     if now - started_at < milliseconds then wait_ms n started_at milliseconds else return ())"

definition delay_ms_avr :: "nat \<Rightarrow> u16 \<Rightarrow> ('z avr_scheme, unit) st" where
  "delay_ms_avr fuel milliseconds =
     bind millis_avr (\<lambda>started_at. wait_ms fuel started_at milliseconds)"

section \<open>The LED\<close>

text \<open>\<open>builtin_toggle_led\<close>: the LED is on pin 5 of port B.\<close>

definition PB5 :: nat where
  "PB5 = 5"

definition builtin_toggle_led_avr :: "nat \<Rightarrow> u16 \<Rightarrow> ('z avr_scheme, unit) st" where
  "builtin_toggle_led_avr fuel milliseconds =
     seq (modify (\<lambda>s. s\<lparr>DDRB_reg := DDRB_reg s OR push_bit PB5 1\<rparr>))
    (seq (modify (\<lambda>s. s\<lparr>PORTB_reg := PORTB_reg s XOR push_bit PB5 1\<rparr>))
         (delay_ms_avr fuel milliseconds))"

section \<open>The microsecond clock\<close>

definition timer1_setup :: "('z avr_scheme, unit) st" where
  "timer1_setup =
     seq (modify (\<lambda>s. s\<lparr>TCCR1B := TCCR1B s \<union> {WGM12}\<rparr>))
    (seq (modify (\<lambda>s. s\<lparr>TCCR1B := TCCR1B s \<union> {CS11}\<rparr>))
    (seq (modify (\<lambda>s. s\<lparr>OCR1A := 2\<rparr>))
    (seq (modify (\<lambda>s. s\<lparr>TIMSK1 := TIMSK1 s \<union> {OCIE1A}\<rparr>))
         sei)))"

definition isr_timer1 :: "('z avr_scheme, unit) st" where
  "isr_timer1 = modify (\<lambda>s. s\<lparr>micros_counter := micros_counter s + 1\<rparr>)"

definition serve_timer1 :: "('z avr_scheme, unit) st" where
  "serve_timer1 =
     bind (gets (\<lambda>s. if interrupts s \<and> OCIE1A \<in> TIMSK1 s then env_irq1 s (micros_calls s) else 0)) (\<lambda>n.
     seq (modify (\<lambda>s. s\<lparr>micros_calls := Suc (micros_calls s)\<rparr>))
         (repeat_isr n isr_timer1))"

definition micros :: "('z avr_scheme, 32 word) st" where
  "micros =
     seq serve_timer1
    (seq cli
    (bind (gets micros_counter) (\<lambda>micros.
     seq sei (return micros))))"

fun wait_us :: "nat \<Rightarrow> 32 word \<Rightarrow> 32 word \<Rightarrow> ('z avr_scheme, unit) st" where
  "wait_us 0 started_at microseconds = stop_with OutOfFuel"
| "wait_us (Suc n) started_at microseconds =
     bind micros (\<lambda>now.
     if now - started_at < microseconds then wait_us n started_at microseconds else return ())"

definition delay_us :: "nat \<Rightarrow> 32 word \<Rightarrow> ('z avr_scheme, unit) st" where
  "delay_us fuel microseconds =
     bind micros (\<lambda>started_at. wait_us fuel started_at microseconds)"

section \<open>The serial port\<close>

text \<open>\<open>F_CPU\<close> is an \<open>unsigned long\<close>, 32 bits, so the whole expression is.\<close>

definition serial_setup :: "u16 \<Rightarrow> ('z avr_scheme, unit) st" where
  "serial_setup baud =
     (if baud = 0 then undef DivByZero
      else let ubrr_value = (ucast (F_CPU div 16 div ucast baud - 1) :: u16) in
        seq (modify (\<lambda>s. s\<lparr>UBRR0H := ucast (drop_bit 8 ubrr_value)\<rparr>))
       (seq (modify (\<lambda>s. s\<lparr>UBRR0L := ucast ubrr_value\<rparr>))
       (seq (modify (\<lambda>s. s\<lparr>UCSR0B := {TXEN0}\<rparr>))
            (modify (\<lambda>s. s\<lparr>UCSR0C := {UCSZ01, UCSZ00}\<rparr>)))))"

text \<open>The inner loop of \<open>serial_write\<close>, with a bound on its rounds.\<close>

fun wait_transmit :: "nat \<Rightarrow> ('z avr_scheme, unit) st" where
  "wait_transmit 0 = stop_with OutOfFuel"
| "wait_transmit (Suc n) =
     bind (gets (\<lambda>s. env_UDRE0 s (polls s))) (\<lambda>ready.
     seq (modify (\<lambda>s. s\<lparr>polls := Suc (polls s)\<rparr>))
         (if \<not> ready then wait_transmit n else return ()))"

text \<open>\<open>str\<close> is the memory from the pointer on, to the end of its object.\<close>

fun serial_write :: "nat \<Rightarrow> u8 list \<Rightarrow> ('z avr_scheme, unit) st" where
  "serial_write fuel [] = undef OutOfBounds"
| "serial_write fuel (c # cs) =
     (if c = 0 then return ()
      else seq (wait_transmit fuel)
          (seq (emit (Call ''UDR0'' [uint c])) (serial_write fuel cs)))"

text \<open>With \<open>SERIAL_ENABLED\<close>. The buffer has \<open>sizeof(char) + 1\<close> bytes; the second call of
  \<open>vsnprintf\<close> writes \<open>size + 1\<close>. On an error \<open>size\<close> is negative, nothing is written, and the
  buffer is read as it was allocated.\<close>

definition serial_printf :: "nat \<Rightarrow> string \<Rightarrow> arg list \<Rightarrow> ('z avr_scheme, int) st" where
  "serial_printf fuel format args =
     bind (gets (\<lambda>s. vsnprintf s format args)) (\<lambda>chars.
     bind (vmmalloc 2) (\<lambda>buffer.
     case chars of
       None \<Rightarrow> if buffer = Null then undef NullDeref else undef Uninitialised
     | Some bs \<Rightarrow>
         if buffer = Null then undef NullDeref
         else if 2 < length bs + 1 then undef OutOfBounds
         else seq (serial_write fuel (bs @ [0]))
             (seq (vmfree (\<lambda>s. s) 2) (return 0))))"

text \<open>The first calls of \<open>main\<close>, with \<open>SERIAL_ENABLED\<close>.\<close>

definition arduino_start :: "nat \<Rightarrow> ('z avr_scheme, unit) st" where
  "arduino_start fuel =
     seq timer_init_avr
    (seq (serial_setup 9600)
         (bind (serial_printf fuel ''Starting VM\<newline>'' []) (\<lambda>_. return ())))"

section \<open>Evaluation\<close>

lemma sei_apply [st_simps]: "sei s = Inr ((), s\<lparr>interrupts := True\<rparr>)"
  by (simp add: sei_def st_simps)

lemma cli_apply [st_simps]: "cli s = Inr ((), s\<lparr>interrupts := False\<rparr>)"
  by (simp add: cli_def st_simps)

end
