(* ===== verification/Avr_Spec.thy ===== *)
theory Avr_Spec
  imports Avr_C
begin

text \<open>
  The ARDUINO build: the delay loop ends, and when; the serial port sends what it is given;
  the baud rate register; and the buffer of \<open>serial_printf\<close>.
\<close>

section \<open>The clock\<close>

text \<open>The millisecond interrupts can be served.\<close>

definition clock_runs :: "'z avr_scheme \<Rightarrow> bool" where
  "clock_runs s \<longleftrightarrow> interrupts s \<and> OCIE0A \<in> TIMSK0 s"

text \<open>The state after \<open>n\<close> calls of \<open>millis\<close>, and the milliseconds they have seen.\<close>

definition ticks :: "'z avr_scheme \<Rightarrow> nat \<Rightarrow> nat" where
  "ticks s n = (\<Sum>i < n. env_irq0 s (millis_calls s + i))"

definition after_calls :: "nat \<Rightarrow> 'z avr_scheme \<Rightarrow> 'z avr_scheme" where
  "after_calls n s = s\<lparr>millis_counter := millis_counter s + of_nat (ticks s n),
     millis_calls := millis_calls s + n\<rparr>"

lemma repeat_isr_timer0:
  "repeat_isr n isr_timer0 s = Inr ((), s\<lparr>millis_counter := millis_counter s + of_nat n\<rparr>)"
  by (induction n arbitrary: s) (simp_all add: isr_timer0_def st_simps add_ac)

lemma millis_avr_apply:
  assumes "clock_runs s"
  shows "millis_avr s = Inr (millis_counter (after_calls 1 s), after_calls 1 s)"
proof -
  let ?t = "after_calls 1 s"
  have "interrupts ?t" using assms by (simp add: clock_runs_def after_calls_def)
  then have same: "?t\<lparr>interrupts := True\<rparr> = ?t" by simp
  have "serve_timer0 s = Inr ((), ?t)"
    using assms
    by (simp add: serve_timer0_def clock_runs_def st_simps repeat_isr_timer0 after_calls_def ticks_def)
  then show ?thesis using same by (simp add: millis_avr_def st_simps)
qed

lemma after_calls_simps [simp]:
  "clock_runs (after_calls n s) = clock_runs s" "after_calls 0 s = s"
  by (simp_all add: after_calls_def clock_runs_def ticks_def)

lemma sum_append:
  fixes f :: "nat \<Rightarrow> nat"
  shows "(\<Sum>i < m + n. f i) = (\<Sum>i < m. f i) + (\<Sum>i < n. f (m + i))"
  by (induction n) simp_all

lemma ticks_add: "ticks s (m + n) = ticks s m + ticks (after_calls m s) n"
  by (simp add: ticks_def after_calls_def sum_append add.assoc)

lemma after_calls_add: "after_calls n (after_calls m s) = after_calls (m + n) s"
  using ticks_add [of s m n] by (simp add: after_calls_def add_ac)

text \<open>The loop ends at the first poll that sees the interval over.\<close>

lemma wait_ms_ends:
  assumes "clock_runs u" and "\<forall>j < k. millis_counter (after_calls (Suc j) u) - st < ms"
    and "\<not> millis_counter (after_calls (Suc k) u) - st < ms" and "k < fuel"
  shows "wait_ms fuel st ms u = Inr ((), after_calls (Suc k) u)"
  using assms
proof (induction k arbitrary: u fuel)
  case 0
  then obtain n where "fuel = Suc n" by (cases fuel) auto
  with 0 show ?case by (simp add: st_simps millis_avr_apply)
next
  case (Suc k)
  then obtain n where n: "fuel = Suc n" by (cases fuel) auto
  let ?u = "after_calls 1 u"
  have shift: "after_calls (Suc j) (after_calls (Suc 0) u) = after_calls (Suc (Suc j)) u" for j
    by (simp add: after_calls_add)
  have "wait_ms n st ms ?u = Inr ((), after_calls (Suc k) ?u)"
    using Suc.prems n by (intro Suc.IH) (auto simp: shift)
  moreover have "millis_counter (after_calls 1 u) - st < ms" using Suc.prems(2) by force
  ultimately show ?case using Suc.prems(1) by (simp add: n st_simps millis_avr_apply shift)
qed

section \<open>The serial port\<close>

text \<open>Every wait for the transmitter is shorter than \<open>fuel\<close> polls.\<close>

definition uart_answers :: "nat \<Rightarrow> 'z avr_scheme \<Rightarrow> bool" where
  "uart_answers fuel s \<longleftrightarrow> (\<forall>k. \<exists>j < fuel. env_UDRE0 s (k + j))"

lemma wait_transmit_ends:
  assumes "\<exists>j < fuel. env_UDRE0 s (polls s + j)"
  shows "\<exists>k. wait_transmit fuel s = Inr ((), s\<lparr>polls := polls s + k\<rparr>)"
  using assms
proof (induction fuel arbitrary: s)
  case (Suc n)
  show ?case
  proof (cases "env_UDRE0 s (polls s)")
    case True
    then have "wait_transmit (Suc n) s = Inr ((), s\<lparr>polls := polls s + 1\<rparr>)" by (simp add: st_simps)
    then show ?thesis by blast
  next
    case False
    obtain j where j: "j < Suc n" "env_UDRE0 s (polls s + j)" using Suc.prems by auto
    with False obtain i where "j = Suc i" by (cases j) auto
    with j have "\<exists>j < n. env_UDRE0 (s\<lparr>polls := Suc (polls s)\<rparr>) (polls (s\<lparr>polls := Suc (polls s)\<rparr>) + j)"
      by (intro exI [of _ i]) simp
    from Suc.IH [OF this] obtain k where
      "wait_transmit n (s\<lparr>polls := Suc (polls s)\<rparr>) = Inr ((), s\<lparr>polls := Suc (polls s) + k\<rparr>)" by auto
    with False have "wait_transmit (Suc n) s = Inr ((), s\<lparr>polls := polls s + Suc k\<rparr>)"
      by (simp add: st_simps)
    then show ?thesis by blast
  qed
qed simp

lemma serial_write_sends:
  assumes "uart_answers fuel s" and "0 \<notin> set cs"
  shows "\<exists>k. serial_write fuel (cs @ 0 # rest) s = Inr ((), s\<lparr>
    out := out s @ map (\<lambda>c. Call ''UDR0'' [uint c]) cs, polls := k\<rparr>)"
  using assms
proof (induction cs arbitrary: s)
  case Nil
  have "serial_write fuel ([] @ 0 # rest) s = Inr ((), s\<lparr>out := out s @ [], polls := polls s\<rparr>)"
    by (simp add: st_simps)
  then show ?case by (intro exI [of _ "polls s"]) simp
next
  case (Cons c cs)
  have "\<exists>j < fuel. env_UDRE0 s (polls s + j)" using Cons.prems(1) by (simp add: uart_answers_def)
  from wait_transmit_ends [OF this] obtain k
    where k: "wait_transmit fuel s = Inr ((), s\<lparr>polls := polls s + k\<rparr>)" by blast
  let ?t = "s\<lparr>polls := polls s + k, out := out s @ [Call ''UDR0'' [uint c]]\<rparr>"
  have "uart_answers fuel ?t" "0 \<notin> set cs" using Cons.prems by (simp_all add: uart_answers_def)
  from Cons.IH [OF this] obtain j where
    "serial_write fuel (cs @ 0 # rest) ?t = Inr ((), ?t\<lparr>
      out := out ?t @ map (\<lambda>c. Call ''UDR0'' [uint c]) cs, polls := j\<rparr>)" by blast
  with k Cons.prems(2) have "serial_write fuel ((c # cs) @ 0 # rest) s = Inr ((), s\<lparr>
      out := out s @ map (\<lambda>c. Call ''UDR0'' [uint c]) (c # cs), polls := j\<rparr>)"
    by (auto simp: st_simps)
  then show ?case by blast
qed

text \<open>The two bytes of a 16-bit register.\<close>

lemma unat_high_low:
  fixes v :: u16
  shows "256 * unat (ucast (drop_bit 8 v) :: u8) + unat (ucast v :: u8) = unat v"
proof -
  have "unat v div 256 < 256" using unat_u16_less [of v] by simp
  moreover have "unat (ucast (drop_bit 8 v) :: u8) = unat v div 256 mod 256"
    "unat (ucast v :: u8) = unat v mod 256"
    by (simp_all add: unsigned_ucast_eq unsigned_drop_bit_eq unsigned_take_bit_eq take_bit_eq_mod drop_bit_eq_div unat_div)
  ultimately show ?thesis by simp
qed

section \<open>The delay and the LED\<close>

lemma delay_ms_avr_returns:
  assumes "clock_runs s" and "\<forall>i. env_irq0 s i \<le> gap" and "unat ms + gap \<le> 65536"
    and "unat ms \<le> ticks (after_calls 1 s) (Suc m)"
  shows "\<exists>k \<le> m. (\<forall>fuel > m. delay_ms_avr fuel ms s = Inr ((), after_calls (Suc (Suc k)) s))
    \<and> unat ms \<le> ticks (after_calls 1 s) (Suc k)
    \<and> (ms \<noteq> 0 \<longrightarrow> ticks (after_calls 1 s) (Suc k) < unat ms + gap)"
proof -
  let ?u = "after_calls 1 s" and ?late = "\<lambda>k. unat ms \<le> ticks (after_calls 1 s) (Suc k)"
  define k where "k = (LEAST k. ?late k)"
  have k: "?late k" "k \<le> m" using assms(4) by (auto simp: k_def intro: LeastI Least_le)
  have early: "ticks ?u (Suc j) < unat ms" if "j < k" for j
    using not_less_Least [of j ?late] that by (simp add: k_def)
  have step: "ticks ?u (Suc j) \<le> ticks ?u j + gap" for j
    using assms(2) by (simp add: ticks_def after_calls_def)
  have bound: "ticks ?u (Suc k) < unat ms + gap" if "ms \<noteq> 0"
  proof (cases k)
    case 0
    have "0 < unat ms" using that by (simp add: unat_gt_0)
    then show ?thesis using step [of 0] 0 by (simp add: ticks_def)
  next
    case (Suc j)
    then show ?thesis using early [of j] step [of k] by simp
  qed
  have now: "millis_counter (after_calls j ?u) - millis_counter ?u = of_nat (ticks ?u j)" for j
    by (simp add: after_calls_def)
  have small: "unat (of_nat (ticks ?u j) :: u16) = ticks ?u j" if "ticks ?u j < 65536" for j
    using that by (simp add: unat_of_nat)
  have run: "\<forall>j < k. millis_counter (after_calls (Suc j) ?u) - millis_counter ?u < ms"
  proof (intro allI impI)
    fix j assume "j < k"
    from early [OF this] unat_u16_less [of ms] small [of "Suc j"]
    show "millis_counter (after_calls (Suc j) ?u) - millis_counter ?u < ms"
      unfolding now by (simp add: word_less_nat_alt)
  qed
  have stop: "\<not> millis_counter (after_calls (Suc k) ?u) - millis_counter ?u < ms"
  proof (cases "ms = 0")
    case False
    with bound assms(3) small [of "Suc k"] k(1) show ?thesis
      unfolding now by (simp add: word_less_nat_alt)
  qed simp
  have "delay_ms_avr fuel ms s = Inr ((), after_calls (Suc (Suc k)) s)" if "m < fuel" for fuel
    using wait_ms_ends [OF _ run stop, of fuel] that k(2) assms(1)
    by (simp add: delay_ms_avr_def st_simps millis_avr_apply after_calls_add)
  with k bound show ?thesis by blast
qed

text \<open>The LED call makes the pin an output, inverts it and leaves the other pins of the port
  alone; then it waits for its interval.\<close>

definition led_toggled :: "'z avr_scheme \<Rightarrow> 'z avr_scheme" where
  "led_toggled s = s\<lparr>DDRB_reg := DDRB_reg s OR 32, PORTB_reg := PORTB_reg s XOR 32\<rparr>"

lemma led_toggled_pins:
  "bit (DDRB_reg (led_toggled s)) i \<longleftrightarrow> bit (DDRB_reg s) i \<or> i = PB5"
  "bit (PORTB_reg (led_toggled s)) i \<longleftrightarrow> bit (PORTB_reg s) i \<noteq> (i = PB5)"
proof -
  have pin: "bit (32 :: u8) i \<longleftrightarrow> i = PB5"
    using bit_push_bit_iff [of 5 "1 :: u8" i] by (auto simp: PB5_def push_bit_eq_mult bit_1_iff)
  have regs: "DDRB_reg (led_toggled s) = DDRB_reg s OR 32" "PORTB_reg (led_toggled s) = PORTB_reg s XOR 32"
    by (simp_all add: led_toggled_def)
  show "bit (DDRB_reg (led_toggled s)) i \<longleftrightarrow> bit (DDRB_reg s) i \<or> i = PB5"
    "bit (PORTB_reg (led_toggled s)) i \<longleftrightarrow> bit (PORTB_reg s) i \<noteq> (i = PB5)"
    unfolding regs bit_or_iff bit_xor_iff pin by (rule refl)+
qed

lemma led_toggled_twice: "PORTB_reg (led_toggled (led_toggled s)) = PORTB_reg s"
  by (rule bit_word_eqI) (auto simp: led_toggled_pins)

lemma builtin_toggle_led_avr_returns:
  assumes "clock_runs s" and "\<forall>i. env_irq0 s i \<le> gap" and "unat ms + gap \<le> 65536"
    and "unat ms \<le> ticks (after_calls 1 s) (Suc m)"
  shows "\<exists>k \<le> m. (\<forall>fuel > m. builtin_toggle_led_avr fuel ms s
        = Inr ((), after_calls (Suc (Suc k)) (led_toggled s)))
    \<and> unat ms \<le> ticks (after_calls 1 s) (Suc k)"
proof -
  let ?t = "led_toggled s"
  have same: "clock_runs ?t = clock_runs s" "env_irq0 ?t = env_irq0 s"
    "ticks (after_calls 1 ?t) = ticks (after_calls 1 s)"
    by (auto simp: led_toggled_def clock_runs_def ticks_def after_calls_def)
  have "builtin_toggle_led_avr fuel ms s = delay_ms_avr fuel ms ?t" for fuel
    by (simp add: builtin_toggle_led_avr_def st_simps led_toggled_def PB5_def push_bit_eq_mult)
  then show ?thesis using delay_ms_avr_returns [of ?t gap ms m] assms unfolding same by auto
qed

section \<open>Properties\<close>

text \<open>C34: the delay of the ARDUINO build ends, and in time. While the clock is running and
  goes on (some number of polls sees \<open>ms\<close> milliseconds pass), and at most \<open>gap\<close> milliseconds
  lie between two polls, with \<open>ms + gap\<close> at most 65536, the loop returns after as many polls
  as it takes for \<open>ms\<close> milliseconds to pass, whatever the counter's value at the start, its
  wrap-around included: never early, and less than \<open>gap\<close> milliseconds late. The bound on the
  rounds needs no more than these polls.\<close>

theorem delay_avr_ends:
  assumes "clock_runs s" and "\<forall>i. env_irq0 s i \<le> gap" and "unat ms + gap \<le> 65536"
    and "unat ms \<le> ticks (after_calls 1 s) (Suc m)"
  shows "\<exists>k \<le> m. (\<forall>fuel > m. delay_ms_avr fuel ms s = Inr ((), after_calls (Suc (Suc k)) s))
    \<and> unat ms \<le> ticks (after_calls 1 s) (Suc k)
    \<and> (ms \<noteq> 0 \<longrightarrow> ticks (after_calls 1 s) (Suc k) < unat ms + gap)"
  by (rule delay_ms_avr_returns [OF assms])

text \<open>A board with the clock running near its wrap-around, one interrupt before every second
  call, and a transmitter that is ready at every second poll.\<close>

definition demo_avr :: avr where
  "demo_avr = \<lparr>out = [], malloc_ok = (\<lambda>_. True), mallocs = 0, dynamic_memory_usage = 0,
     TCCR0A = {}, OCR0A = 0, TCCR0B = {}, TIMSK0 = {OCIE0A}, TCCR1B = {}, OCR1A = 0, TIMSK1 = {},
     UBRR0H = 0, UBRR0L = 0, UCSR0B = {}, UCSR0C = {}, interrupts = True,
     millis_counter = 65535, micros_counter = 0, env_irq0 = (\<lambda>i. i mod 2), millis_calls = 0,
     env_irq1 = (\<lambda>_. 0), micros_calls = 0, env_UDRE0 = (\<lambda>k. k mod 2 = 1), polls = 0,
     DDRB_reg = 0, PORTB_reg = 0, vsnprintf = (\<lambda>f xs. Some (map of_char f))\<rparr>"

theorem delay_avr_ends_witness:
  "\<exists>k \<le> 2. delay_ms_avr 3 2 demo_avr = Inr ((), after_calls (Suc (Suc k)) demo_avr)"
proof -
  have three: "{..<3} = {0, 1, 2 :: nat}" by auto
  have "clock_runs demo_avr" by (simp add: clock_runs_def demo_avr_def)
  moreover have "\<forall>i. env_irq0 demo_avr i \<le> 1" unfolding demo_avr_def avr.simps by presburger
  moreover have "unat (2 :: u16) \<le> ticks (after_calls 1 demo_avr) (Suc 2)"
    using three by (simp add: ticks_def after_calls_def demo_avr_def)
  ultimately show ?thesis using delay_avr_ends [of demo_avr 1 2 2] by fastforce
qed

text \<open>C39: the baud rate register. For every baud rate from 16 on, \<open>serial_setup\<close> stores in the
  two bytes of the register the largest divisor that does not make the line slower than asked
  (a byte takes 16 clock cycles per unit of the divisor and bit), enables the transmitter, and
  selects 8 data bits; below 16 the value does not fit in the 16 bits, and at 0 the division
  is undefined.\<close>

theorem serial_setup_rate:
  "(if baud = 0 then serial_setup baud s = Inl (Undefined DivByZero, s)
    else \<exists>t. serial_setup baud s = Inr ((), t) \<and> UCSR0B t = {TXEN0} \<and> UCSR0C t = {UCSZ01, UCSZ00}
      \<and> (let v = 256 * unat (UBRR0H t) + unat (UBRR0L t) in
          v = (1000000 div unat baud - 1) mod 65536
          \<and> (unat baud < 16 \<or> (v + 1) * unat baud \<le> 1000000 \<and> 1000000 < (v + 2) * unat baud)))"
proof (cases "baud = 0")
  case True
  then show ?thesis by (simp add: serial_setup_def st_simps)
next
  case False
  let ?w = "F_CPU div 16 div ucast baud - 1" and ?n = "1000000 div unat baud - 1"
  let ?v = "ucast ?w :: u16"
  have pos: "0 < unat baud" using False by (simp add: unat_gt_0)
  have cpu: "unat F_CPU = 16000000" by (simp add: F_CPU_def)
  have b: "unat (ucast baud :: 32 word) = unat baud"
    using order_less_le_trans [OF unat_u16_less [of baud], of "2 ^ 32"]
    by (simp add: unsigned_ucast_eq take_bit_nat_eq_self)
  have q: "unat (F_CPU div 16 div ucast baud) = 1000000 div unat baud"
    by (simp add: unat_div cpu b)
  have ge: "1 \<le> 1000000 div unat baud"
    using unat_u16_less [of baud] pos by (simp add: Suc_le_eq div_greater_zero_iff)
  have w: "unat ?w = ?n"
    using ge q by (subst unat_sub) (simp_all add: word_le_nat_alt)
  have v: "unat ?v = ?n mod 65536" by (simp add: unsigned_ucast_eq take_bit_eq_mod w unsigned_take_bit_eq)
  have split: "256 * unat (ucast (drop_bit 8 ?v) :: u8) + unat (ucast ?v :: u8) = unat ?v"
    by (rule unat_high_low)
  have rate: "(unat ?v + 1) * unat baud \<le> 1000000 \<and> 1000000 < (unat ?v + 2) * unat baud"
    if "16 \<le> unat baud"
  proof -
    have "1000000 div unat baud \<le> 1000000 div 16" by (rule div_le_mono2) (use that in simp_all)
    then have "unat ?v = ?n" using v by simp
    then have d: "unat ?v + 1 = 1000000 div unat baud" "unat ?v + 2 = 1000000 div unat baud + 1"
      using ge by simp_all
    show ?thesis
      unfolding d using dividend_less_div_times [OF pos, of 1000000]
      by (simp add: add.commute mult.commute)
  qed
  let ?t = "s\<lparr>UBRR0H := ucast (drop_bit 8 ?v), UBRR0L := ucast ?v, UCSR0B := {TXEN0},
    UCSR0C := {UCSZ01, UCSZ00}\<rparr>"
  have "serial_setup baud s = Inr ((), ?t)"
    using False by (simp add: serial_setup_def st_simps Let_def)
  moreover have "256 * unat (UBRR0H ?t) + unat (UBRR0L ?t) = unat ?v" using split by simp
  moreover have "unat baud < 16 \<or> (unat ?v + 1) * unat baud \<le> 1000000 \<and> 1000000 < (unat ?v + 2) * unat baud"
    using rate by (cases "unat baud < 16") simp_all
  ultimately show ?thesis
    unfolding if_not_P [OF False] Let_def using v
    by (intro exI [of _ ?t] conjI) (simp_all only: avr.simps, simp_all)
qed

text \<open>C40: formatted output of the ARDUINO build. The buffer of \<open>serial_printf\<close> has two bytes
  whatever the length of the output. An output of at most one character is sent, the function
  returns 0 and the memory counter is as before; every longer one is written past the end of
  the buffer, so with \<open>SERIAL_ENABLED\<close> already the message at the start of \<open>main\<close> is undefined.
  An encoding error reads an uninitialised buffer, and a failed allocation a null pointer.\<close>

theorem serial_printf_outcome:
  "(\<not> malloc_ok s (mallocs s) \<longrightarrow> (\<exists>t. serial_printf fuel f xs s = Inl (Undefined NullDeref, t)))
   \<and> (malloc_ok s (mallocs s) \<longrightarrow> (case vsnprintf s f xs of
       None \<Rightarrow> \<exists>t. serial_printf fuel f xs s = Inl (Undefined Uninitialised, t)
     | Some bs \<Rightarrow> if 2 \<le> length bs then \<exists>t. serial_printf fuel f xs s = Inl (Undefined OutOfBounds, t)
         else uart_answers fuel s \<and> 0 \<notin> set bs \<longrightarrow>
           (\<exists>t. serial_printf fuel f xs s = Inr (0, t) \<and> dynamic_memory_usage t = dynamic_memory_usage s
              \<and> out t = out s @ map (\<lambda>c. Call ''UDR0'' [uint c]) bs)))
   \<and> (malloc_ok s (mallocs s) \<and> vsnprintf s ''Starting VM\<newline>'' [] = Some (map of_char ''Starting VM\<newline>'') \<longrightarrow>
        (\<exists>t. arduino_start fuel s = Inl (Undefined OutOfBounds, t)))"
proof (intro conjI impI)
  assume "\<not> malloc_ok s (mallocs s)"
  then show "\<exists>t. serial_printf fuel f xs s = Inl (Undefined NullDeref, t)"
    by (simp add: serial_printf_def st_simps split: option.split)
next
  assume ok: "malloc_ok s (mallocs s)"
  let ?s = "s\<lparr>mallocs := Suc (mallocs s), dynamic_memory_usage := dynamic_memory_usage s + 2\<rparr>"
  show "case vsnprintf s f xs of
       None \<Rightarrow> \<exists>t. serial_printf fuel f xs s = Inl (Undefined Uninitialised, t)
     | Some bs \<Rightarrow> if 2 \<le> length bs then \<exists>t. serial_printf fuel f xs s = Inl (Undefined OutOfBounds, t)
         else uart_answers fuel s \<and> 0 \<notin> set bs \<longrightarrow>
           (\<exists>t. serial_printf fuel f xs s = Inr (0, t) \<and> dynamic_memory_usage t = dynamic_memory_usage s
              \<and> out t = out s @ map (\<lambda>c. Call ''UDR0'' [uint c]) bs)"
  proof (cases "vsnprintf s f xs")
    case None
    with ok show ?thesis by (simp add: serial_printf_def st_simps)
  next
    case (Some bs)
    have "\<exists>t. serial_printf fuel f xs s = Inr (0, t) \<and> dynamic_memory_usage t = dynamic_memory_usage s
        \<and> out t = out s @ map (\<lambda>c. Call ''UDR0'' [uint c]) bs"
      if "length bs < 2" "uart_answers fuel s" "0 \<notin> set bs"
    proof -
      have "uart_answers fuel ?s" using that(2) by (simp add: uart_answers_def)
      from serial_write_sends [OF this that(3), of "[]"] that(1) ok Some show ?thesis
        by (auto simp: serial_printf_def st_simps)
    qed
    with ok Some show ?thesis by (auto simp: serial_printf_def st_simps)
  qed
next
  assume h: "malloc_ok s (mallocs s) \<and> vsnprintf s ''Starting VM\<newline>'' [] = Some (map of_char ''Starting VM\<newline>'')"
  then show "\<exists>t. arduino_start fuel s = Inl (Undefined OutOfBounds, t)"
    by (simp add: arduino_start_def timer_init_avr_def serial_setup_def serial_printf_def st_simps Let_def)
qed

theorem serial_printf_outcome_witness:
  "(\<exists>t. serial_printf 2 ''x'' [] demo_avr = Inr (0, t) \<and> out t = [Call ''UDR0'' [120]])
   \<and> (\<exists>t. serial_printf 2 ''xy'' [] demo_avr = Inl (Undefined OutOfBounds, t))
   \<and> (\<exists>t. arduino_start 2 demo_avr = Inl (Undefined OutOfBounds, t))"
proof -
  have "env_UDRE0 demo_avr k \<or> env_UDRE0 demo_avr (k + 1)" for k
    unfolding demo_avr_def avr.simps by presburger
  then have "\<exists>j < 2. env_UDRE0 demo_avr (k + j)" for k
    by (simp add: numeral_2_eq_2 Ex_less_Suc2)
  then have "uart_answers 2 demo_avr" by (simp add: uart_answers_def)
  moreover have "malloc_ok demo_avr (mallocs demo_avr)" "out demo_avr = []"
    "vsnprintf demo_avr f xs = Some (map of_char f)" for f xs
    by (simp_all add: demo_avr_def)
  ultimately show ?thesis
    using serial_printf_outcome [of demo_avr 2 "''x''" "[]"] serial_printf_outcome [of demo_avr 2 "''xy''" "[]"]
    by simp blast
qed

end
