(* ===== verification/Clock_Spec.thy ===== *)
theory Clock_Spec
  imports Delay_C
begin

text \<open>
  The clocks of the hosts (src/delay.c): both builds count milliseconds modulo 65536, so the
  difference of two readings is the time between them as long as this is below 65.536 seconds.
\<close>

section \<open>The time in milliseconds\<close>

definition host_ms :: "64 word \<times> 64 word \<Rightarrow> nat" where
  "host_ms tv = unat (fst tv) * 1000 + unat (snd tv) div 1000"

text \<open>A time that \<open>gettimeofday\<close> can return, for the next few million years.\<close>

definition sane_time :: "64 word \<times> 64 word \<Rightarrow> bool" where
  "sane_time tv \<longleftrightarrow> unat (fst tv) < 2 ^ 53 \<and> unat (snd tv) < 1000000"

definition file_ms :: "32 word \<times> 32 word \<Rightarrow> nat" where
  "file_ms ft = (unat (fst ft) + 2 ^ 32 * unat (snd ft)) div 10000"

lemma low_u16:
  fixes w :: "64 word"
  assumes "unat w = n"
  shows "(ucast (w mod 65536) :: u16) = of_nat n"
proof -
  have "(65536 :: 64 word) = 2 ^ 16" by simp
  then have "w mod 65536 = take_bit 16 w" by (simp add: take_bit_eq_mod)
  then have "(ucast (w mod 65536) :: u16) = ucast w"
    by (auto simp: bit_simps intro!: bit_word_eqI)
  also have "\<dots> = of_nat (unat w)" by (simp add: of_nat_unat)
  finally show ?thesis using assms by simp
qed

lemma millis_apply:
  assumes "sane_time (env_time s (clock_reads s))"
  shows "millis s = Inr (of_nat (host_ms (env_time s (clock_reads s))), s\<lparr>clock_reads := Suc (clock_reads s)\<rparr>)"
proof -
  obtain sec usec where tv: "env_time s (clock_reads s) = (sec, usec)" by force
  have b: "unat sec < 2 ^ 53" "unat usec < 1000000" using assms by (simp_all add: tv sane_time_def)
  have "unat (sec * 1000) = unat sec * 1000"
    using b(1) by (subst unat_mult_lem [THEN iffD1]) simp_all
  moreover have "unat (usec div 1000) = unat usec div 1000" by (simp add: unat_div)
  ultimately have "unat (sec * 1000 + usec div 1000) = host_ms (sec, usec)"
    using b by (subst unat_add_lem [THEN iffD1]) (simp_all add: host_ms_def)
  from low_u16 [OF this] show ?thesis by (simp add: millis_def st_simps tv Let_def)
qed

lemma millis_windows_apply:
  "millis_windows s = Inr (of_nat (file_ms (env_filetime s (clock_reads s))),
     s\<lparr>clock_reads := Suc (clock_reads s)\<rparr>)"
proof -
  obtain lo hi where ft: "env_filetime s (clock_reads s) = (lo, hi)" by force
  let ?q = "ucast lo OR push_bit 32 (ucast hi) :: 64 word"
  have q: "?q = of_nat (unat lo + 2 ^ 32 * unat hi)"
  proof -
    have "\<not> (bit lo n \<and> 32 \<le> n)" for n using bit_imp_le_length [of lo n] by auto
    then have "?q = ucast lo + push_bit 32 (ucast hi)"
      by (intro disjunctive_add_eq_or [symmetric] bit_word_eqI) (auto simp: bit_simps)
    then show ?thesis by (simp add: push_bit_eq_mult of_nat_unat mult.commute)
  qed
  have "unat lo + 2 ^ 32 * unat hi < 2 ^ LENGTH(64)"
    using unsigned_less [of lo, where ?'a = nat] unsigned_less [of hi, where ?'a = nat] by simp
  then have "unat ?q = unat lo + 2 ^ 32 * unat hi" unfolding q unat_of_nat by (rule mod_less)
  then have "unat (?q div 10000) = file_ms (lo, hi)" by (simp add: unat_div file_ms_def)
  from low_u16 [OF this] show ?thesis by (simp add: millis_windows_def st_simps ft Let_def)
qed

section \<open>Property\<close>

text \<open>C38: two readings of the clock measure the time between them. In the MACOSX and in the
  WINDOWS build the difference of a later and an earlier reading, in 16 bits, is the number of
  milliseconds that went by, if these are fewer than 65536, also when the reading wrapped
  around in between; with more it is this number modulo 65536.\<close>

theorem clock_measures:
  fixes s :: "'z clock_heap_scheme"
  assumes "sane_time (env_time s (clock_reads s))" and "sane_time (env_time s (Suc (clock_reads s)))"
    and "host_ms (env_time s (clock_reads s)) \<le> host_ms (env_time s (Suc (clock_reads s)))"
    and "file_ms (env_filetime s (clock_reads s)) \<le> file_ms (env_filetime s (Suc (clock_reads s)))"
  shows "\<exists>t d e. bind millis (\<lambda>a. bind millis (\<lambda>b. return (b - a))) s = Inr (d, t)
    \<and> bind millis_windows (\<lambda>a. bind millis_windows (\<lambda>b. return (b - a))) s = Inr (e, t)
    \<and> t = s\<lparr>clock_reads := clock_reads s + 2\<rparr>
    \<and> unat d = (host_ms (env_time s (Suc (clock_reads s))) - host_ms (env_time s (clock_reads s))) mod 65536
    \<and> unat e = (file_ms (env_filetime s (Suc (clock_reads s))) - file_ms (env_filetime s (clock_reads s))) mod 65536"
proof -
  let ?s = "s\<lparr>clock_reads := Suc (clock_reads s)\<rparr>"
  have two: "millis ?s = Inr (of_nat (host_ms (env_time s (Suc (clock_reads s)))), s\<lparr>clock_reads := clock_reads s + 2\<rparr>)"
    using millis_apply [of ?s] assms(2) by simp
  have wtwo: "millis_windows ?s = Inr (of_nat (file_ms (env_filetime s (Suc (clock_reads s)))), s\<lparr>clock_reads := clock_reads s + 2\<rparr>)"
    using millis_windows_apply [of ?s] by simp
  have diff: "unat (of_nat n - of_nat m :: u16) = (n - m) mod 65536" if "m \<le> n" for m n
    using that by (simp flip: of_nat_diff add: unat_of_nat)
  show ?thesis
    using millis_apply [OF assms(1)] millis_windows_apply [of s] two wtwo diff [OF assms(3)] diff [OF assms(4)]
    by (simp add: st_simps)
qed

text \<open>Just before and just after the wrap-around of the milliseconds.\<close>

definition demo_clock :: clock_heap where
  "demo_clock = \<lparr>out = [], malloc_ok = (\<lambda>_. True), mallocs = 0, dynamic_memory_usage = 0,
     stacks = Map.empty, messages = Map.empty, queues = Map.empty, tasks = Map.empty, nodes = Map.empty,
     nextId = 0, port_regs = (\<lambda>_. 0), port_banks = Map.empty, servers = Map.empty, env_socket = 3,
     env_getfl = 0, env_setfl = 0, env_bind = 0, env_listen = 0, env_accept = (\<lambda>_. WouldBlock), accepts = 0,
     env_time = (\<lambda>k. if k = 0 then (65, 530000) else (65, 540000)),
     env_filetime = (\<lambda>k. if k = 0 then (655350000, 0) else (655370000, 0)), clock_reads = 0\<rparr>"

theorem clock_measures_witness:
  "\<exists>t. bind millis (\<lambda>a. bind millis (\<lambda>b. return (b - a))) demo_clock = Inr (10, t)
     \<and> bind millis_windows (\<lambda>a. bind millis_windows (\<lambda>b. return (b - a))) demo_clock = Inr (2, t)"
proof -
  have "sane_time (env_time demo_clock (clock_reads demo_clock))"
    "sane_time (env_time demo_clock (Suc (clock_reads demo_clock)))"
    "host_ms (env_time demo_clock (clock_reads demo_clock)) = 65530"
    "host_ms (env_time demo_clock (Suc (clock_reads demo_clock))) = 65540"
    "file_ms (env_filetime demo_clock (clock_reads demo_clock)) = 65535"
    "file_ms (env_filetime demo_clock (Suc (clock_reads demo_clock))) = 65537"
    by (simp_all add: demo_clock_def sane_time_def host_ms_def file_ms_def)
  with clock_measures [of demo_clock] show ?thesis by (auto simp: word_unat_eq_iff)
qed

end
