(* ===== verification/Tool_C.thy ===== *)
theory Tool_C
  imports Messaging_C
begin

text \<open>
  src/tools/send_message.c: the command-line client that sends one message to a machine. The
  arguments are C strings (their bytes without the final NUL); the results of the socket
  calls are inputs of the model. The function's value is the exit status.
\<close>

section \<open>State\<close>

record tool = sys +
  env_tool_socket :: int
  env_inet_pton :: "u8 list \<Rightarrow> int"
  env_connect :: int
  env_send :: int

text \<open>Bytes to characters, for the arguments of the messages printed.\<close>

definition text_of :: "u8 list \<Rightarrow> string" where
  "text_of bs = map (\<lambda>b. char_of (unat b)) bs"

definition fprintf_stderr :: "string \<Rightarrow> arg list \<Rightarrow> ('z sys_scheme, unit) st" where
  "fprintf_stderr f xs = emit (Printf f xs)"

definition perror :: "string \<Rightarrow> ('z sys_scheme, unit) st" where
  "perror what = emit (Printf ''%s: error\<newline>'' [AStr what])"

section \<open>\<open>atoi\<close>\<close>

definition is_space :: "u8 \<Rightarrow> bool" where
  "is_space c \<longleftrightarrow> c = 32 \<or> 9 \<le> c \<and> c \<le> 13"

definition is_digit :: "u8 \<Rightarrow> bool" where
  "is_digit c \<longleftrightarrow> 48 \<le> c \<and> c \<le> 57"

fun digits_value :: "int \<Rightarrow> u8 list \<Rightarrow> int" where
  "digits_value n [] = n"
| "digits_value n (c # cs) =
     (if is_digit c then digits_value (10 * n + (uint c - 48)) cs else n)"

text \<open>A value that is no \<open>int\<close> is undefined.\<close>

definition atoi :: "u8 list \<Rightarrow> ('s, int) st" where
  "atoi str =
     (let cs = dropWhile is_space str;
          n = (case cs of
                 [] \<Rightarrow> 0
               | c # ds \<Rightarrow> if c = 45 then - digits_value 0 ds
                           else if c = 43 then digits_value 0 ds
                           else digits_value 0 cs) in
      if n < -2147483648 \<or> 2147483647 < n then undef SignedOverflow else return n)"

section \<open>The message and the program\<close>

definition tool_message :: "u8 list \<Rightarrow> u16 \<Rightarrow> message" where
  "tool_message str task_dst_id =
     \<lparr>m_next = Null, m_payload = Some (str @ [0]), m_vm_src = 0, m_vm_dst = 1, m_task_src = 0,
      m_task_dst = task_dst_id, m_seq = 0, m_payload_size = of_nat (length str),
      m_crc = 48879, m_frag_id = 0, m_frag_total = 1\<rparr>"

definition send_serialized :: "u8 list \<Rightarrow> u8 list \<Rightarrow> u8 list \<Rightarrow> nat \<Rightarrow> ('z tool_scheme, int) st" where
  "send_serialized str vm_dst_ip serialized serialized_len =
     bind (gets env_tool_socket) (\<lambda>sock.
     if sock < 0 then seq (perror ''socket'') (return 1)
     else bind (gets (\<lambda>s. env_inet_pton s vm_dst_ip)) (\<lambda>pton.
     if pton \<le> 0 then seq (perror ''inet_pton'') (seq (emit (Call ''close'' [sock])) (return 1))
     else bind (gets env_connect) (\<lambda>connected.
     if connected < 0 then seq (perror ''connect'') (seq (emit (Call ''close'' [sock])) (return 1))
     else
       seq (emit (Call ''send'' (sock # map uint (take serialized_len serialized))))
      (bind (gets env_send) (\<lambda>sent.
       seq (if sent < 0 then perror ''send''
            else vmprintf ''Message sent: %s\<newline>'' [AStr (text_of str)])
      (seq (emit (Call ''close'' [sock])) (return 0)))))))"

definition send_message_main :: "u8 list list \<Rightarrow> ('z tool_scheme, int) st" where
  "send_message_main argv =
     (if length argv < 5
      then (case argv of
              [] \<Rightarrow> undef NullDeref
            | name # _ \<Rightarrow>
                seq (fprintf_stderr ''Usage: %s <message> <task_dst_id> <vm_dst_ip> <vm_dst_port>\<newline>''
                       [AStr (text_of name)])
                    (return 1))
      else
        bind (atoi (argv ! 2)) (\<lambda>task_dst_id.
        bind (atoi (argv ! 4)) (\<lambda>vm_dst_port.
        bind (message_serialize (tool_message (argv ! 1) (word_of_int task_dst_id))) (\<lambda>(serialized, serialized_len).
        case serialized of
          None \<Rightarrow> seq (fprintf_stderr ''Error serializing message\<newline>'' []) (return 1)
        | Some bytes \<Rightarrow> send_serialized (argv ! 1) (argv ! 3) bytes serialized_len))))"

end
