(* ===== verification/Tool_Spec.thy ===== *)
theory Tool_Spec
  imports Tool_C Wire_Spec Task_Spec
begin

text \<open>
  A message from the command line to a task: the client's run (src/tools/send_message.c), the
  bytes on the connection, the receipt by the machine (src/server.c, \<open>message_deserialize\<close>)
  and the delivery to the inbox of the task (\<open>deliver_local\<close>).
\<close>

section \<open>Receipt\<close>

text \<open>What arrives of a message with payload \<open>p\<close>: the server reads 128 bytes, 16 of them the
  header.\<close>

definition received :: "message \<Rightarrow> u8 list \<Rightarrow> message" where
  "received m p = m\<lparr>m_next := Null,
     m_payload := (if p = [] \<or> 112 < length p then None else Some p)\<rparr>"

lemma take_128_header: "take 128 (header m @ p) = header m @ take 112 p"
  by simp

lemma deserialize_received:
  assumes "length p = unat (m_payload_size m)" and "\<forall>i. malloc_ok s i"
  shows "\<exists>t. message_deserialize (take 128 (header m @ p)) (length (take 128 (header m @ p))) s
      = Inr (Ptr (mallocs s), t)
    \<and> messages t = (messages s)(mallocs s \<mapsto> received m p) \<and> mallocs s < mallocs t
    \<and> t = s\<lparr>mallocs := mallocs t, dynamic_memory_usage := dynamic_memory_usage t, messages := messages t\<rparr>"
proof -
  let ?b = "header m @ take 112 p"
  have size: "m_payload_size m > 0 \<longleftrightarrow> p \<noteq> []"
    using assms(1) by (cases p) (auto simp: word_gt_0 unat_eq_zero)
  have "16 \<le> length ?b" by simp
  from message_deserialize_parsed [OF this, of s] assms(2)
  have run: "message_deserialize ?b (length ?b) s = (let a = mallocs s; m' = m\<lparr>m_next := Null, m_payload := None\<rparr>;
      t = s\<lparr>mallocs := Suc a, dynamic_memory_usage := dynamic_memory_usage s + sizeof_Message,
            messages := (messages s)(a \<mapsto> m')\<rparr> in
    if m_payload_size m' > 0 \<and> 16 + unat (m_payload_size m') \<le> length ?b
    then Inr (Ptr a, t\<lparr>mallocs := Suc (Suc a),
        dynamic_memory_usage := dynamic_memory_usage t + m_payload_size m',
        messages := (messages s)(a \<mapsto> m'\<lparr>m_payload := Some (take (unat (m_payload_size m')) (drop 16 ?b))\<rparr>)\<rparr>)
    else Inr (Ptr a, t))"
    by (simp only: parsed_header)
  show ?thesis
  proof (cases "p = [] \<or> 112 < length p")
    case True
    then have "\<not> (m_payload_size m > 0 \<and> 16 + unat (m_payload_size m) \<le> length ?b)"
      using assms(1) size by auto
    with run True show ?thesis unfolding take_128_header by (auto simp: received_def Let_def)
  next
    case False
    then have "m_payload_size m > 0 \<and> 16 + unat (m_payload_size m) \<le> length ?b"
      and "take (unat (m_payload_size m)) (drop 16 ?b) = p"
      using assms(1) size by auto
    with run False show ?thesis unfolding take_128_header by (simp add: received_def Let_def)
  qed
qed

lemma receive_delivers:
  assumes "cpu_server s = Ptr z" and "servers s z = Some sv"
    and "env_accept s (accepts s) = Accepted fd (Some (header m @ p))"
    and "length p = unat (m_payload_size m)" and "\<forall>i. malloc_ok s i"
    and "deliverable (cpu_message_queues s) as a (m_task_dst m) s"
    and "length (inbox_items a s) < 4" and "mallocs s \<notin> set (inbox_items a s)"
  shows "\<exists>t x. cpu_check_incoming_messages s = Inr ((), t) \<and> inbox_ok a t
    \<and> inbox_items a t = inbox_items a s @ [mallocs s]
    \<and> messages t (mallocs s) = Some x \<and> x\<lparr>m_next := Null\<rparr> = received m p"
proof -
  let ?s = "s\<lparr>accepts := Suc (accepts s), out := out s @ [Call ''close'' [fd]]\<rparr>"
  have "\<forall>i. malloc_ok ?s i" using assms(5) by simp
  from deserialize_received [OF assms(4) this] obtain t where
    t: "message_deserialize (take 128 (header m @ p)) (length (take 128 (header m @ p))) ?s
        = Inr (Ptr (mallocs s), t)"
      "messages t = (messages s)(mallocs s \<mapsto> received m p)" "mallocs s < mallocs t"
      "t = ?s\<lparr>mallocs := mallocs t, dynamic_memory_usage := dynamic_memory_usage t, messages := messages t\<rparr>"
    by auto
  have nonempty: "take 128 (header m @ p) \<noteq> []" by (simp add: take_128_header header_def bytes_of_u16_def)
  have recv: "server_receive_message (Ptr z) s = Inr (Ptr (mallocs s), t)"
    using assms(2,3) t(1) nonempty
    by (simp add: server_receive_message_def st_simps Let_def BUFFER_SIZE_def del: take_append)
  have tq: "queues t = queues s" "cpu_message_queues t = cpu_message_queues s"
    by (subst t(4), simp)+
  have dst: "m_task_dst (received m p) = m_task_dst m" by (simp add: received_def)
  have del: "inboxes s (cpu_message_queues s) as" "inbox_for (queues s) (m_task_dst m) as = Some a"
    "inbox_ok a s" using assms(6) by (simp_all add: deliverable_def)
  note fresh = inbox_ok_fresh [OF del(3) tq(1) t(2) assms(8)]
  have boxes: "inboxes t (cpu_message_queues s) as" using del(1) t(3) tq(1) by (simp add: inboxes_def)
  have msg: "messages t (mallocs s) = Some (received m p)" by (simp add: t(2))
  have "inbox_for (queues t) (m_task_dst (received m p)) as = Some a" using del(2) by (simp add: tq dst)
  from deliver_to_room [OF boxes msg this] fresh assms(7,8) obtain u where
    u: "deliver_local (cpu_message_queues s) (Ptr (mallocs s)) t = Inr (True, u)" "inbox_ok a u"
      "inbox_items a u = inbox_items a s @ [mallocs s]" "unlinked (messages u) = unlinked (messages t)"
    by auto
  have "unlinked (messages u) (mallocs s) = Some ((received m p)\<lparr>m_next := Null\<rparr>)"
    unfolding u(4) by (simp add: unlinked_def msg)
  then obtain x where "messages u (mallocs s) = Some x" "x\<lparr>m_next := Null\<rparr> = received m p"
    by (auto simp: unlinked_def received_def)
  moreover have "cpu_check_incoming_messages s = Inr ((), u)"
    using recv u(1) assms(1) tq(2) by (simp add: cpu_check_incoming_messages_def st_simps)
  ultimately show ?thesis using u(2,3) by blast
qed

lemma tool_serialize:
  assumes "length p \<le> 65519" and "malloc_ok s (mallocs s)"
  shows "message_serialize (tool_message p d) s =
      Inr ((Some (header (tool_message p d) @ p), 16 + length p), s\<lparr>mallocs := Suc (mallocs s),
        dynamic_memory_usage := dynamic_memory_usage s + (16 + of_nat (length p))\<rparr>)"
proof -
  let ?m = "tool_message p d"
  have n: "unat (m_payload_size ?m) = length p" using assms(1) by (simp add: tool_message_def unat_of_nat)
  have "m_payload_size ?m = of_nat (length p)" "payload ?m = p @ [0]" "m_payload ?m = Some (p @ [0])"
    by (simp_all add: tool_message_def payload_def)
  with message_serialize_prefix [of ?m s] assms n show ?thesis by simp
qed

section \<open>Property\<close>

text \<open>C33: from the command line to the inbox. With a numeric task id and port, working sockets
  and memory, the client sends one message, reports it, closes the connection and returns 0.
  When a machine's server accepts a connection on which these bytes arrive, and the inbox
  of the task with this id has room, then the machine's next check for messages appends a new
  message for this task. Its payload is the text when this has 1 to 112 characters; a longer
  text does not fit in the server's buffer, and arrives as a message without payload that
  still has the text's length as its size. The check sum 0xBEEF that the client puts into
  every message is not compared with anything.\<close>

theorem command_line_message:
  fixes s :: "'a tool_scheme"
  assumes "argv = name # p # dst # ip # port # extra" and "length p \<le> 65519"
    and "atoi dst s = Inr (i, s)" and "atoi port s = Inr (j, s)" and "malloc_ok s (mallocs s)"
    and "0 \<le> env_tool_socket s" and "0 < env_inet_pton s ip" and "0 \<le> env_connect s" and "0 \<le> env_send s"
  shows "\<exists>t b. send_message_main argv s = Inr (0, t)
    \<and> out t = out s @ [Call ''send'' (env_tool_socket s # map uint b),
        Printf ''Message sent: %s\<newline>'' [AStr (text_of p)], Call ''close'' [env_tool_socket s]]
    \<and> (\<forall>(v :: 'z cpu_scheme) z sv fd as a.
        cpu_server v = Ptr z \<and> servers v z = Some sv
        \<and> env_accept v (accepts v) = Accepted fd (Some b) \<and> (\<forall>i. malloc_ok v i)
        \<and> deliverable (cpu_message_queues v) as a (word_of_int i) v
        \<and> length (inbox_items a v) < 4 \<and> mallocs v \<notin> set (inbox_items a v)
      \<longrightarrow> (\<exists>w x. cpu_check_incoming_messages v = Inr ((), w) \<and> inbox_ok a w
            \<and> inbox_items a w = inbox_items a v @ [mallocs v] \<and> messages w (mallocs v) = Some x
            \<and> m_payload x = (if p = [] \<or> 112 < length p then None else Some p)
            \<and> m_payload_size x = of_nat (length p) \<and> m_task_dst x = word_of_int i
            \<and> m_crc x = 48879))"
proof -
  let ?m = "tool_message p (word_of_int i)"
  let ?b = "header ?m @ p"
  have fields: "m_task_dst ?m = word_of_int i" "m_crc ?m = 48879" "m_payload_size ?m = of_nat (length p)"
    by (simp_all add: tool_message_def)
  have n: "length p = unat (m_payload_size ?m)" using assms(2) by (simp add: fields unat_of_nat)
  obtain t where "send_message_main argv s = Inr (0, t)"
    "out t = out s @ [Call ''send'' (env_tool_socket s # map uint ?b),
        Printf ''Message sent: %s\<newline>'' [AStr (text_of p)], Call ''close'' [env_tool_socket s]]"
    using assms tool_serialize [OF assms(2,5), of "word_of_int i"]
    by (simp add: send_message_main_def send_serialized_def st_simps)
  moreover have "\<exists>w x. cpu_check_incoming_messages v = Inr ((), w) \<and> inbox_ok a w
      \<and> inbox_items a w = inbox_items a v @ [mallocs v] \<and> messages w (mallocs v) = Some x
      \<and> m_payload x = (if p = [] \<or> 112 < length p then None else Some p)
      \<and> m_payload_size x = of_nat (length p) \<and> m_task_dst x = word_of_int i \<and> m_crc x = 48879"
    if v: "cpu_server v = Ptr z" "servers v z = Some sv" "env_accept v (accepts v) = Accepted fd (Some ?b)"
      "\<forall>i. malloc_ok v i" "deliverable (cpu_message_queues v) as a (word_of_int i) v"
      "length (inbox_items a v) < 4" "mallocs v \<notin> set (inbox_items a v)"
    for v :: "'z cpu_scheme" and z sv fd as a
  proof -
    have del: "deliverable (cpu_message_queues v) as a (m_task_dst ?m) v" using v(5) fields(1) by simp
    obtain w x where w: "cpu_check_incoming_messages v = Inr ((), w)" "inbox_ok a w"
      "inbox_items a w = inbox_items a v @ [mallocs v]" "messages w (mallocs v) = Some x"
      and x: "x\<lparr>m_next := Null\<rparr> = received ?m p"
      using receive_delivers [OF v(1-3) n v(4) del v(6,7)] by blast
    have "m_payload (x\<lparr>m_next := Null\<rparr>) = (if p = [] \<or> 112 < length p then None else Some p)"
      "m_payload_size (x\<lparr>m_next := Null\<rparr>) = of_nat (length p)"
      "m_task_dst (x\<lparr>m_next := Null\<rparr>) = word_of_int i" "m_crc (x\<lparr>m_next := Null\<rparr>) = 48879"
      unfolding x received_def by (simp_all add: fields)
    with w show ?thesis by (intro exI [of _ w] exI [of _ x]) simp
  qed
  ultimately show ?thesis by (intro exI [of _ t] exI [of _ ?b]) blast
qed

text \<open>The text ``hi'' for task 1, to the machine of three tasks.\<close>

definition demo_tool :: tool where
  "demo_tool = \<lparr>out = [], malloc_ok = (\<lambda>_. True), mallocs = 0, dynamic_memory_usage = 0,
     env_tool_socket = 5, env_inet_pton = (\<lambda>_. 1), env_connect = 0, env_send = 18\<rparr>"

definition demo_listening :: "u8 list \<Rightarrow> cpu" where
  "demo_listening b = demo_return\<lparr>env_accept := (\<lambda>_. Accepted 7 (Some b))\<rparr>"

lemma demo_listening_ok:
  "cpu_server (demo_listening b) = Ptr 50"
  "servers (demo_listening b) 50 = Some \<lparr>server_fd = 3, server_port = SERVER_PORT\<rparr>"
  "env_accept (demo_listening b) (accepts (demo_listening b)) = Accepted 7 (Some b)"
  "\<forall>i. malloc_ok (demo_listening b) i"
  "deliverable (cpu_message_queues (demo_listening b)) [22, 25, 28] 25 1 (demo_listening b)"
  "inbox_items 25 (demo_listening b) = []" "mallocs (demo_listening b) = 30"
  by (simp_all add: demo_listening_def demo_return_def demo_tasks_def demo_cpu_def deliverable_def
      inboxes_def inbox_for_def main_inbox_def inbox_ok_def inbox_items_def inbox_of_def)

theorem command_line_message_witness:
  "\<exists>t b w x. send_message_main [[115], [104, 105], [49], [120], [56, 48]] demo_tool = Inr (0, t)
     \<and> cpu_check_incoming_messages (demo_listening b) = Inr ((), w)
     \<and> inbox_items 25 w = [30] \<and> messages w 30 = Some x \<and> m_payload x = Some [104, 105]"
proof -
  have args: "atoi [49] demo_tool = Inr (1, demo_tool)" "atoi [56, 48] demo_tool = Inr (80, demo_tool)"
    by (simp_all add: atoi_def is_space_def is_digit_def st_simps)
  have env: "malloc_ok demo_tool (mallocs demo_tool)" "0 \<le> env_tool_socket demo_tool"
    "0 < env_inet_pton demo_tool [120]" "0 \<le> env_connect demo_tool" "0 \<le> env_send demo_tool"
    by (simp_all add: demo_tool_def)
  have room: "length [104 :: u8, 105] \<le> 65519" by simp
  from command_line_message [OF refl room args env, of "[115]" "[]"] obtain t b where
    t: "send_message_main [[115], [104, 105], [49], [120], [56, 48]] demo_tool = Inr (0, t)"
    and arrives: "\<forall>(v :: cpu) z sv fd as a.
        cpu_server v = Ptr z \<and> servers v z = Some sv
        \<and> env_accept v (accepts v) = Accepted fd (Some b) \<and> (\<forall>i. malloc_ok v i)
        \<and> deliverable (cpu_message_queues v) as a (word_of_int 1) v
        \<and> length (inbox_items a v) < 4 \<and> mallocs v \<notin> set (inbox_items a v)
      \<longrightarrow> (\<exists>w x. cpu_check_incoming_messages v = Inr ((), w) \<and> inbox_ok a w
            \<and> inbox_items a w = inbox_items a v @ [mallocs v] \<and> messages w (mallocs v) = Some x
            \<and> m_payload x = (if [104 :: u8, 105] = [] \<or> 112 < length [104 :: u8, 105] then None else Some [104, 105])
            \<and> m_payload_size x = of_nat (length [104 :: u8, 105]) \<and> m_task_dst x = word_of_int 1
            \<and> m_crc x = 48879)"
    by (elim exE conjE) (rule that; assumption)
  obtain w x where "cpu_check_incoming_messages (demo_listening b) = Inr ((), w)"
      "inbox_items 25 w = [30]" "messages w 30 = Some x" "m_payload x = Some [104, 105]"
    using arrives [rule_format, of "demo_listening b" 50 "\<lparr>server_fd = 3, server_port = SERVER_PORT\<rparr>" 7 "[22, 25, 28]" 25]
      demo_listening_ok [of b] by auto
  with t show ?thesis by blast
qed

end
