(* ===== verification/Refine_Spec.thy ===== *)
theory Refine_Spec
  imports Ports_Spec Locals_Spec
begin

text \<open>
  An abstract machine for the byte code of one task, and the proof that the instructions of
  src/instructions.c implement it. The abstract machine has no heap, pointers or stack
  pointers: the operand stack is a list of bytes, and the call stack is a list of frames, each
  a return address and the bytes of the local variables. It covers every instruction but
  those that create or end tasks and those that use absolute addresses of the call stack, and
  the system calls that print and that read the memory counter.
\<close>

section \<open>The abstract machine\<close>

text \<open>A byte of a local variable that was allocated and not assigned yet is \<open>None\<close>.\<close>

type_synonym locals_image = "u8 option list"

text \<open>The operand stack has its top at the end. \<open>v_callers\<close> are the suspended callers, the
  last one first: the address where it continues and its local variables.\<close>

record vm =
  v_ip :: u16
  v_ops :: "u8 list"
  v_locals :: locals_image
  v_callers :: "(u16 \<times> locals_image) list"
  v_ports :: "port \<Rightarrow> u8"
  v_clock :: nat
  v_out :: "event list"
  v_prog :: "u8 list"
  v_data :: u16
  v_ops_size :: nat
  v_calls_size :: nat
  v_memory :: u16
  v_time :: "nat \<Rightarrow> 64 word \<times> 64 word"
  v_add :: "f32 \<Rightarrow> f32 \<Rightarrow> f32"
  v_sub :: "f32 \<Rightarrow> f32 \<Rightarrow> f32"
  v_mul :: "f32 \<Rightarrow> f32 \<Rightarrow> f32"
  v_div :: "f32 \<Rightarrow> f32 \<Rightarrow> f32"

type_synonym 'a ma = "(vm, 'a) st"

text \<open>The number of bytes of the call stack below the running function's local variables: the
  callers' variables, and four bytes for each call.\<close>

fun base_of :: "(u16 \<times> locals_image) list \<Rightarrow> nat" where
  "base_of [] = 0"
| "base_of ((ip, ls) # fs) = base_of fs + length ls + 4"

definition depth :: "vm \<Rightarrow> nat" where
  "depth v = base_of (v_callers v) + length (v_locals v)"

text \<open>\<open>OutOfFuel\<close> is used for what the abstract machine does not describe.\<close>

abbreviation give_up :: "('s, 'a) st" where
  "give_up \<equiv> stop_with OutOfFuel"

subsection \<open>Operands, output and fetch\<close>

definition a_pop :: "nat \<Rightarrow> u8 list ma" where
  "a_pop n = bind (gets v_ops) (\<lambda>bs.
     if length bs < n then stop_with ExitFailure
     else seq (modify (\<lambda>v. v\<lparr>v_ops := take (length bs - n) bs\<rparr>))
              (return (rev (drop (length bs - n) bs))))"

definition a_push :: "u8 list \<Rightarrow> unit ma" where
  "a_push w = bind (gets (\<lambda>v. v_ops_size v < length (v_ops v) + length w)) (\<lambda>full.
     if full then stop_with ExitFailure
     else modify (\<lambda>v. v\<lparr>v_ops := v_ops v @ rev w\<rparr>))"

definition a_top :: "nat \<Rightarrow> u8 list ma" where
  "a_top n = bind (gets v_ops) (\<lambda>bs.
     if length bs < n then give_up else return (rev (drop (length bs - n) bs)))"

definition a_pop_u16 :: "u16 ma" where
  "a_pop_u16 = bind (a_pop 2) (\<lambda>w. return (u16_of_bytes w))"

definition a_push_u16 :: "u16 \<Rightarrow> unit ma" where
  "a_push_u16 w = a_push (bytes_of_u16 w)"

definition a_pop_f32 :: "f32 ma" where
  "a_pop_f32 = bind (a_pop 4) (\<lambda>w. return (f32_of_bytes w))"

definition a_push_f32 :: "f32 \<Rightarrow> unit ma" where
  "a_push_f32 w = a_push (bytes_of_f32 w)"

definition a_emit :: "event \<Rightarrow> unit ma" where
  "a_emit e = modify (\<lambda>v. v\<lparr>v_out := v_out v @ [e]\<rparr>)"

definition a_goto :: "u16 \<Rightarrow> unit ma" where
  "a_goto address = modify (\<lambda>v. v\<lparr>v_ip := address\<rparr>)"

definition a_fetch :: "nat \<Rightarrow> u8 list ma" where
  "a_fetch n = bind (gets (\<lambda>v. drop (unat (v_ip v)) (v_prog v))) (\<lambda>bs.
     if bs = [] then give_up
     else if length bs < n then undef OutOfBounds
     else seq (modify (\<lambda>v. v\<lparr>v_ip := v_ip v + of_nat n\<rparr>)) (return (take n bs)))"

definition a_fetch_u16 :: "u16 ma" where
  "a_fetch_u16 = bind (a_fetch 2) (\<lambda>w. return (u16_of_bytes w))"

subsection \<open>Calls and local variables\<close>

definition a_call :: "u16 \<Rightarrow> unit ma" where
  "a_call address = bind (gets (\<lambda>v. v_calls_size v < depth v + 4)) (\<lambda>full.
     if full then stop_with ExitFailure
     else modify (\<lambda>v. v\<lparr>v_ip := address, v_locals := [],
            v_callers := (v_ip v, v_locals v) # v_callers v\<rparr>))"

definition a_return :: "unit ma" where
  "a_return = bind (gets v_callers) (\<lambda>fs. case fs of
     [] \<Rightarrow> stop_with ExitFailure
   | (ip, ls) # fs \<Rightarrow> modify (\<lambda>v. v\<lparr>v_ip := ip, v_locals := ls, v_callers := fs\<rparr>))"

definition a_alloc :: "u16 \<Rightarrow> unit ma" where
  "a_alloc n = bind (gets depth) (\<lambda>d.
     if d + unat n < 65532
     then modify (\<lambda>v. v\<lparr>v_locals := v_locals v @ replicate (unat n) None\<rparr>)
     else give_up)"

text \<open>Only assigned variables of the running function can be read, and only its variables
  written. A variable that lies beyond the end of the call stack, where the unchecked
  allocation can put it, ends the process when it is written.\<close>

definition a_read :: "u16 \<Rightarrow> u16 \<Rightarrow> u8 list ma" where
  "a_read n address = bind (gets (\<lambda>v. take (unat n) (drop (unat address) (v_locals v)))) (\<lambda>bs.
     if bs = [] \<or> length bs < unat n \<or> None \<in> set bs then give_up
     else return (rev (map the bs)))"

definition a_write :: "u8 list \<Rightarrow> u16 \<Rightarrow> unit ma" where
  "a_write w address = (\<lambda>v.
     let i = unat address; ls = v_locals v; j = base_of (v_callers v) + i + length w in
     if length ls < i + length w then give_up v
     else if v_calls_size v < j then Inl (ExitFailure, v)
     else if v_calls_size v < depth v then give_up v
     else Inr ((), v\<lparr>v_locals := take i ls @ map Some (rev w) @ drop (i + length w) ls\<rparr>))"

subsection \<open>Ports, data and printing\<close>

definition a_data :: "u16 \<Rightarrow> u8 list ma" where
  "a_data address = bind (gets (\<lambda>v. program_suffix (v_prog v) (uint (v_data v) + uint address - 3)))
     in_bounds"

definition a_cell :: "u16 \<Rightarrow> u16 ma" where
  "a_cell address =
     (if address < 3 then gets (\<lambda>v. ucast (v_ports v (port_number address)))
      else bind (a_data address) (\<lambda>bs. bind (in_bounds (nth_opt bs 0)) (\<lambda>b. return (ucast b))))"

definition a_conversion :: "u8 \<Rightarrow> unit ma" where
  "a_conversion c =
     (if c = 117 then bind a_pop_u16 (\<lambda>w. a_emit (Printf ''%hu'' [AInt (uint w)]))
      else if c = 105 then bind a_pop_u16 (\<lambda>w. a_emit (Printf ''%hi'' [AInt (sint w)]))
      else if c = 102 then bind a_pop_f32 (\<lambda>x. a_emit (Printf ''%.2f'' [AF32 x]))
      else if c = 115 then bind (a_pop 1) (\<lambda>w. a_emit (Printf ''%c'' [AInt (uint (w ! 0))]))
      else a_emit (Printf ''%%%c'' [AInt (sint c)]))"

fun a_format :: "u8 list \<Rightarrow> unit ma" where
  "a_format [] = undef OutOfBounds"
| "a_format (c # cs) =
     (if c = 0 then return ()
      else if c = 37 then
        (case cs of [] \<Rightarrow> undef OutOfBounds | d # ds \<Rightarrow> seq (a_conversion d) (a_format ds))
      else seq (a_emit (Printf ''%c'' [AInt (sint c)])) (a_format cs))"

definition a_syscall :: "u16 \<Rightarrow> unit ma" where
  "a_syscall f =
     (if f = 0 then bind a_pop_u16 (\<lambda>address. bind (a_data address) a_format)
      else if f = 4 then bind (gets v_memory) a_push_u16
      else if f \<in> {2, 3, 5} then give_up
      else return ())"

definition a_millis :: "u16 ma" where
  "a_millis = bind (gets (\<lambda>v. v_time v (v_clock v))) (\<lambda>tv.
     seq (modify (\<lambda>v. v\<lparr>v_clock := Suc (v_clock v)\<rparr>))
         (return (ucast ((fst tv * 1000 + snd tv div 1000) mod 65536))))"

subsection \<open>Instructions\<close>

definition a_alu :: "opcode \<Rightarrow> unit ma" where
  "a_alu opc =
     (if alu opc 0 0 = None then give_up
      else bind a_pop_u16 (\<lambda>b. bind a_pop_u16 (\<lambda>a. case the (alu opc a b) of
        Inl u \<Rightarrow> undef u | Inr w \<Rightarrow> a_push w)))"

definition a_float :: "(vm \<Rightarrow> f32 \<Rightarrow> f32 \<Rightarrow> f32) \<Rightarrow> unit ma" where
  "a_float f = bind a_pop_f32 (\<lambda>b. bind a_pop_f32 (\<lambda>a. bind (gets f) (\<lambda>g. a_push_f32 (g a b))))"

definition a_exec :: "opcode \<Rightarrow> unit ma" where
  "a_exec opc = (case opc of
     OP_HALT \<Rightarrow> stop_with ExitSuccess
   | OP_DELAY \<Rightarrow> bind a_fetch_u16 (\<lambda>w. a_emit (Call ''usleep'' [uint w * 1000]))
   | OP_JUMP \<Rightarrow> bind a_fetch_u16 a_goto
   | OP_POP_JUMP_IF_FALSE \<Rightarrow> bind a_fetch_u16 (\<lambda>w. bind (a_pop 1) (\<lambda>c. bind (bool_of_bytes c) (\<lambda>r.
       if \<not> r then a_goto w else return ())))
   | OP_CALL \<Rightarrow> bind a_fetch_u16 a_call
   | OP_RETURN \<Rightarrow> a_return
   | OP_SYSCALL \<Rightarrow> bind a_fetch_u16 a_syscall
   | OP_PUSHL_U16 \<Rightarrow> bind a_fetch_u16 a_push_u16
   | OP_POP_U16 \<Rightarrow> bind a_pop_u16 (\<lambda>_. return ())
   | OP_TOP_U16 \<Rightarrow> bind (a_top 2) (\<lambda>w. a_emit (Printf ''%hu\<newline>'' [AInt (uint (u16_of_bytes w))]))
   | OP_POPA_U16 \<Rightarrow> bind a_fetch_u16 (\<lambda>address. bind a_pop_u16 (\<lambda>w.
       if address < 3 then modify (\<lambda>v. v\<lparr>v_ports := (v_ports v)(port_number address := ucast w)\<rparr>)
       else stop_with ExitFailure))
   | OP_PUSH_U16 \<Rightarrow> bind a_fetch_u16 (\<lambda>address. bind (a_cell address) a_push_u16)
   | OP_ALLOC_LOCAL \<Rightarrow> bind a_pop_u16 (\<lambda>n. bind a_fetch_u16 (\<lambda>_. a_alloc n))
   | OP_PUSH_LOCAL \<Rightarrow> bind a_pop_u16 (\<lambda>address. bind a_pop_u16 (\<lambda>n. bind (a_read n address) (\<lambda>w.
       if 8 < unat n then undef OutOfBounds else a_push w)))
   | OP_POP_LOCAL \<Rightarrow> bind a_pop_u16 (\<lambda>address. bind a_pop_u16 (\<lambda>n. bind (a_pop (unat n)) (\<lambda>w.
       if 8 < unat n then undef OutOfBounds else a_write w address)))
   | OP_PUSHL_I16 \<Rightarrow> bind a_fetch_u16 a_push_u16
   | OP_POP_I16 \<Rightarrow> bind (a_top 2) (\<lambda>_. bind (a_pop 2) (\<lambda>_. return ()))
   | OP_TOP_I16 \<Rightarrow> bind (a_top 2) (\<lambda>w. a_emit (Printf ''%hi\<newline>'' [AInt (sint (u16_of_bytes w))]))
   | OP_PUSHL_F32 \<Rightarrow> bind (a_fetch 4) (\<lambda>w. a_push_f32 (f32_of_bytes w))
   | OP_POP_F32 \<Rightarrow> bind a_pop_f32 (\<lambda>_. return ())
   | OP_TOP_F32 \<Rightarrow> bind (a_top 4) (\<lambda>w. a_emit (Printf ''%.2f\<newline>'' [AF32 (f32_of_bytes w)]))
   | OP_ADD_F32 \<Rightarrow> a_float v_add
   | OP_SUB_F32 \<Rightarrow> a_float v_sub
   | OP_MUL_F32 \<Rightarrow> a_float v_mul
   | OP_DIV_F32 \<Rightarrow> a_float v_div
   | OP_PUSH_MILLIS \<Rightarrow> bind a_millis a_push_u16
   | OP_NOT_U16 \<Rightarrow> bind a_pop_u16 (\<lambda>a. a_push_u16 (NOT a))
   | _ \<Rightarrow> a_alu opc)"

definition a_step :: "unit ma" where
  "a_step = bind (a_fetch 1) (\<lambda>w. case opcode_of (w ! 0) of
     None \<Rightarrow> a_emit (Printf ''unknown opcode %d\<newline>'' [AInt (uint (w ! 0))])
   | Some opc \<Rightarrow> a_exec opc)"

fun a_run :: "nat \<Rightarrow> unit ma" where
  "a_run 0 = return ()"
| "a_run (Suc n) = seq a_step (a_run n)"

section \<open>What it stands for\<close>

text \<open>The bytes of the call stack: the frames of the callers and the running function's
  variables. A frame's header, the return address and the caller's base pointer, is the one
  that \<open>call_address\<close> pushes.\<close>

fun frames :: "locals_image \<Rightarrow> (u16 \<times> locals_image) list \<Rightarrow> locals_image" where
  "frames ls [] = ls"
| "frames ls ((ip, ks) # fs) = frames ks fs
     @ map Some (rev (bytes_of_u16 ip) @ rev (bytes_of_u16 (of_nat (base_of fs)))) @ ls"

lemma length_frames [simp]: "length (frames ls fs) = base_of fs + length ls"
  by (induction ls fs rule: frames.induct) simp_all

lemma frames_append: "frames ls fs @ ks = frames (ls @ ks) fs"
  by (cases fs) auto

text \<open>The known bytes of an image are in the array.\<close>

definition image_of :: "locals_image \<Rightarrow> u8 list \<Rightarrow> bool" where
  "image_of bs xs \<longleftrightarrow> (\<forall>i < length bs. bs ! i \<noteq> None \<longrightarrow> i < length xs \<and> bs ! i = Some (xs ! i))"

definition calls_at :: "locals_image \<Rightarrow> (u16 \<times> locals_image) list \<Rightarrow> stack \<Rightarrow> bool" where
  "calls_at ls fs k \<longleftrightarrow> stack_wf k \<and> unat (sp k) = base_of fs + length ls \<and> unat (bp k) = base_of fs
     \<and> base_of fs + length ls < 65532 \<and> image_of (frames ls fs) (stk_data k)"

text \<open>What a time slice that began in \<open>s\<close> does not change.\<close>

definition surroundings :: "'z cpu_scheme \<Rightarrow> vm \<Rightarrow> bool" where
  "surroundings s v \<longleftrightarrow> cpu_program s = v_prog v \<and> unat (cpu_program_size s) = length (v_prog v)
     \<and> cpu_data_address s = v_data v \<and> dynamic_memory_usage s = v_memory v \<and> env_time s = v_time v
     \<and> f32_add s = v_add v \<and> f32_sub s = v_sub v \<and> f32_mul s = v_mul v \<and> f32_div s = v_div v
     \<and> has_bank s \<and> opstack_capacity s = v_ops_size v
     \<and> unat (stk_size (stack_at (addr_of_ptr (cpu_stack s)) s)) = v_calls_size v
     \<and> v_ops_size v < 65000 \<and> v_calls_size v < 65000"

text \<open>The concrete state \<open>t\<close> in a slice that began in \<open>s\<close> represents \<open>v\<close>. Its operand stack is
  the object at \<open>a\<close>, its call stack the object at \<open>b\<close>.\<close>

definition rep_at :: "nat \<Rightarrow> nat \<Rightarrow> 'z cpu_scheme \<Rightarrow> vm \<Rightarrow> 'z cpu_scheme \<Rightarrow> bool" where
  "rep_at a b s v t \<longleftrightarrow> (\<exists>k l. t = s\<lparr>out := v_out v, stacks := (stacks s)(a \<mapsto> k, b \<mapsto> l),
       port_regs := v_ports v, clock_reads := v_clock v, cpu_ip := v_ip v\<rparr>
     \<and> stack_ok k \<and> contents k = v_ops v \<and> unat (stk_size k) = v_ops_size v
     \<and> calls_at (v_locals v) (v_callers v) l \<and> unat (stk_size l) = v_calls_size v)"

definition rep :: "'z cpu_scheme \<Rightarrow> vm \<Rightarrow> 'z cpu_scheme \<Rightarrow> bool" where
  "rep s v t \<longleftrightarrow> (\<exists>a b. cpu_opstack s = Ptr a \<and> cpu_stack s = Ptr b \<and> a \<noteq> b \<and> rep_at a b s v t)
     \<and> surroundings s v"

lemma repE:
  assumes "rep s v t"
  obtains a b k l where "cpu_opstack t = Ptr a" "cpu_stack t = Ptr b" "a \<noteq> b"
    "stacks t a = Some k" "stack_ok k" "contents k = v_ops v" "unat (stk_size k) = v_ops_size v"
    "stacks t b = Some l" "calls_at (v_locals v) (v_callers v) l" "unat (stk_size l) = v_calls_size v"
    "\<And>k'. stack_ok k' \<Longrightarrow> stk_size k' = stk_size k \<Longrightarrow>
       rep s (v\<lparr>v_ops := contents k'\<rparr>) (t\<lparr>stacks := (stacks t)(a \<mapsto> k')\<rparr>)"
    "\<And>l' ip ls fs. calls_at ls fs l' \<Longrightarrow> stk_size l' = stk_size l \<Longrightarrow>
       rep s (v\<lparr>v_ip := ip, v_locals := ls, v_callers := fs\<rparr>) (t\<lparr>cpu_ip := ip, stacks := (stacks t)(b \<mapsto> l')\<rparr>)"
proof -
  obtain a b k l where r: "cpu_opstack s = Ptr a" "cpu_stack s = Ptr b" "a \<noteq> b"
    "t = s\<lparr>out := v_out v, stacks := (stacks s)(a \<mapsto> k, b \<mapsto> l), port_regs := v_ports v,
       clock_reads := v_clock v, cpu_ip := v_ip v\<rparr>"
    "stack_ok k" "contents k = v_ops v" "unat (stk_size k) = v_ops_size v"
    "calls_at (v_locals v) (v_callers v) l" "unat (stk_size l) = v_calls_size v" "surroundings s v"
    using assms by (auto simp: rep_def rep_at_def)
  have sur: "surroundings s (v\<lparr>v_ops := x\<rparr>)" "surroundings s (v\<lparr>v_ip := i, v_locals := ls, v_callers := fs\<rparr>)"
    for x i ls fs using r(10) by (simp_all add: surroundings_def)
  show ?thesis
  proof (rule that [of a b k l])
    fix k' assume "stack_ok k'" "stk_size k' = stk_size k"
    moreover have "(stacks s)(a \<mapsto> k, b \<mapsto> l, a \<mapsto> k') = (stacks s)(a \<mapsto> k', b \<mapsto> l)"
      using r(3) by (simp add: fun_upd_twist)
    ultimately have "rep_at a b s (v\<lparr>v_ops := contents k'\<rparr>) (t\<lparr>stacks := (stacks t)(a \<mapsto> k')\<rparr>)"
      unfolding rep_at_def using r by (intro exI [of _ k'] exI [of _ l]) simp
    with r(1-3) sur(1) show "rep s (v\<lparr>v_ops := contents k'\<rparr>) (t\<lparr>stacks := (stacks t)(a \<mapsto> k')\<rparr>)"
      unfolding rep_def by blast
  next
    fix l' ip ls fs assume "calls_at ls fs l'" "stk_size l' = stk_size l"
    with r have "rep_at a b s (v\<lparr>v_ip := ip, v_locals := ls, v_callers := fs\<rparr>)
        (t\<lparr>cpu_ip := ip, stacks := (stacks t)(b \<mapsto> l')\<rparr>)"
      unfolding rep_at_def by (intro exI [of _ k] exI [of _ l']) simp
    with r(1-3) sur(2) show "rep s (v\<lparr>v_ip := ip, v_locals := ls, v_callers := fs\<rparr>)
        (t\<lparr>cpu_ip := ip, stacks := (stacks t)(b \<mapsto> l')\<rparr>)"
      unfolding rep_def by blast
  qed (use r in simp_all)
qed

lemma rep_opsE:
  assumes "rep s v t"
  obtains a k where "cpu_opstack t = Ptr a" "stacks t a = Some k" "stack_ok k" "contents k = v_ops v"
    "unat (stk_size k) = v_ops_size v"
    "\<And>k'. stack_ok k' \<Longrightarrow> stk_size k' = stk_size k \<Longrightarrow>
       rep s (v\<lparr>v_ops := contents k'\<rparr>) (t\<lparr>stacks := (stacks t)(a \<mapsto> k')\<rparr>)"
  using assms by (rule repE) (rule that)

lemma rep_callsE:
  assumes "rep s v t"
  obtains b l where "cpu_stack t = Ptr b" "stacks t b = Some l" "calls_at (v_locals v) (v_callers v) l"
    "unat (stk_size l) = v_calls_size v"
    "\<And>l' ip ls fs. calls_at ls fs l' \<Longrightarrow> stk_size l' = stk_size l \<Longrightarrow>
       rep s (v\<lparr>v_ip := ip, v_locals := ls, v_callers := fs\<rparr>) (t\<lparr>cpu_ip := ip, stacks := (stacks t)(b \<mapsto> l')\<rparr>)"
  using assms by (rule repE) (rule that)

lemma rep_fields:
  assumes "rep s v t"
  shows "cpu_ip t = v_ip v" "port_regs t = v_ports v" "clock_reads t = v_clock v" "out t = v_out v"
    "cpu_program t = v_prog v" "unat (cpu_program_size t) = length (v_prog v)"
    "cpu_data_address t = v_data v" "dynamic_memory_usage t = v_memory v" "env_time t = v_time v"
    "f32_add t = v_add v" "f32_sub t = v_sub v" "f32_mul t = v_mul v" "f32_div t = v_div v" "has_bank t"
    "v_ops_size v < 65000" "v_calls_size v < 65000"
  using assms by (auto simp: rep_def rep_at_def surroundings_def has_bank_def)

lemma rep_updates:
  assumes "rep s v t"
  shows "rep s (v\<lparr>v_ip := i\<rparr>) (t\<lparr>cpu_ip := i\<rparr>)" "rep s (v\<lparr>v_out := es\<rparr>) (t\<lparr>out := es\<rparr>)"
    "rep s (v\<lparr>v_ports := p\<rparr>) (t\<lparr>port_regs := p\<rparr>)" "rep s (v\<lparr>v_clock := c\<rparr>) (t\<lparr>clock_reads := c\<rparr>)"
proof -
  obtain a b k l where r: "cpu_opstack s = Ptr a" "cpu_stack s = Ptr b" "a \<noteq> b"
    "t = s\<lparr>out := v_out v, stacks := (stacks s)(a \<mapsto> k, b \<mapsto> l), port_regs := v_ports v,
       clock_reads := v_clock v, cpu_ip := v_ip v\<rparr>"
    "stack_ok k" "contents k = v_ops v" "unat (stk_size k) = v_ops_size v"
    "calls_at (v_locals v) (v_callers v) l" "unat (stk_size l) = v_calls_size v" "surroundings s v"
    using assms by (auto simp: rep_def rep_at_def)
  have all: "rep s w (t\<lparr>cpu_ip := v_ip w, out := v_out w, port_regs := v_ports w, clock_reads := v_clock w\<rparr>)"
    if "w = v\<lparr>v_ip := v_ip w, v_out := v_out w, v_ports := v_ports w, v_clock := v_clock w\<rparr>" for w
  proof -
    have same: "v_ops w = v_ops v" "v_ops_size w = v_ops_size v" "v_locals w = v_locals v"
      "v_callers w = v_callers v" "v_calls_size w = v_calls_size v"
      by (subst that, simp)+
    have "surroundings s w" by (subst that) (use r(10) in \<open>simp add: surroundings_def\<close>)
    moreover have "rep_at a b s w
        (t\<lparr>cpu_ip := v_ip w, out := v_out w, port_regs := v_ports w, clock_reads := v_clock w\<rparr>)"
      unfolding rep_at_def using r same by (intro exI [of _ k] exI [of _ l]) simp
    ultimately show ?thesis unfolding rep_def using r(1-3) by blast
  qed
  have t: "cpu_ip t = v_ip v" "out t = v_out v" "port_regs t = v_ports v" "clock_reads t = v_clock v"
    using r(4) by simp_all
  show "rep s (v\<lparr>v_ip := i\<rparr>) (t\<lparr>cpu_ip := i\<rparr>)" using all [of "v\<lparr>v_ip := i\<rparr>"] by (simp flip: t)
  show "rep s (v\<lparr>v_out := es\<rparr>) (t\<lparr>out := es\<rparr>)" using all [of "v\<lparr>v_out := es\<rparr>"] by (simp flip: t)
  show "rep s (v\<lparr>v_ports := p\<rparr>) (t\<lparr>port_regs := p\<rparr>)" using all [of "v\<lparr>v_ports := p\<rparr>"] by (simp flip: t)
  show "rep s (v\<lparr>v_clock := c\<rparr>) (t\<lparr>clock_reads := c\<rparr>)" using all [of "v\<lparr>v_clock := c\<rparr>"] by (simp flip: t)
qed

section \<open>Refinement of monadic programs\<close>

text \<open>The result of the concrete program \<open>C\<close> agrees with the abstract result: same value and
  represented state; same reason to stop, with at least the same output; where the abstract
  machine halts, \<open>halt\<close> is executed in a represented state.\<close>

definition agrees :: "'z cpu_scheme \<Rightarrow> (stop \<times> vm) + ('a \<times> vm)
  \<Rightarrow> (stop \<times> 'z cpu_scheme) + ('a \<times> 'z cpu_scheme) \<Rightarrow> bool" where
  "agrees s r c \<longleftrightarrow> (case r of
     Inr (x, v) \<Rightarrow> \<exists>t. c = Inr (x, t) \<and> rep s v t
   | Inl (w, v) \<Rightarrow> w = OutOfFuel
       \<or> (if w = ExitSuccess then \<exists>t e. rep s v t \<and> halt t = Inl e \<and> c = Inl e
          else \<exists>t es. c = Inl (w, t) \<and> out t = v_out v @ es))"

definition refines :: "'z cpu_scheme \<Rightarrow> 'a ma \<Rightarrow> ('z cpu_scheme, 'a) st \<Rightarrow> bool" where
  "refines s A C \<longleftrightarrow> (\<forall>v t. rep s v t \<longrightarrow> agrees s (A v) (C t))"

named_theorems refines_rules \<open>simulation rules\<close>

lemma refinesI: "(\<And>v t. rep s v t \<Longrightarrow> agrees s (A v) (C t)) \<Longrightarrow> refines s A C"
  by (simp add: refines_def)

lemma refinesD: "refines s A C \<Longrightarrow> rep s v t \<Longrightarrow> agrees s (A v) (C t)"
  by (simp add: refines_def)

lemma refines_return [refines_rules]: "refines s (return x) (return x)"
  by (simp add: refines_def agrees_def st_simps)

lemma refines_give_up [refines_rules]: "refines s give_up C"
  by (simp add: refines_def agrees_def st_simps)

lemma refines_undef [refines_rules]: "refines s (undef u) (undef u)"
  by (auto simp: refines_def agrees_def st_simps dest: rep_fields(4))

lemma refines_bind_value:
  assumes "refines s A C" and "\<And>v x w. A v = Inr (x, w) \<Longrightarrow> P x"
    and "\<And>x. P x \<Longrightarrow> refines s (F x) (G x)"
  shows "refines s (bind A F) (bind C G)"
proof (rule refinesI)
  fix v t assume r: "rep s v t"
  show "agrees s (bind A F v) (bind C G t)"
  proof (cases "A v")
    case (Inl e)
    with refinesD [OF assms(1) r] show ?thesis
      by (cases e) (fastforce simp: agrees_def st_simps split: if_splits)
  next
    case (Inr p)
    then obtain x v' where x: "A v = Inr (x, v')" by (cases p) simp
    with refinesD [OF assms(1) r] obtain t' where "C t = Inr (x, t')" "rep s v' t'"
      by (auto simp: agrees_def)
    with refinesD [OF assms(3) [OF assms(2) [OF x]]] x show ?thesis by (simp add: st_simps)
  qed
qed

lemma refines_bind [refines_rules]:
  "refines s A C \<Longrightarrow> (\<And>x. refines s (F x) (G x)) \<Longrightarrow> refines s (bind A F) (bind C G)"
  by (rule refines_bind_value [where P = "\<lambda>_. True"]) simp_all

lemma refines_seq [refines_rules]:
  "refines s A C \<Longrightarrow> refines s B D \<Longrightarrow> refines s (seq A B) (seq C D)"
  unfolding seq_def by (rule refines_bind)

lemma refines_if [refines_rules]:
  "(c \<Longrightarrow> refines s A C) \<Longrightarrow> (\<not> c \<Longrightarrow> refines s B D) \<Longrightarrow>
   refines s (if c then A else B) (if c then C else D)"
  by simp

lemma refines_in_bounds [refines_rules]: "refines s (in_bounds x) (in_bounds x)"
  by (cases x) (simp_all add: in_bounds_simps refines_rules)

section \<open>Operands, output and fetch\<close>

lemma agrees_failure:
  "rep s v t \<Longrightarrow> agrees s (Inl (ExitFailure, v)) (Inl (ExitFailure, t))"
  "rep s v t \<Longrightarrow> agrees s (Inl (ExitFailure, v)) (Inl (ExitFailure, t\<lparr>out := out t @ es\<rparr>))"
  by (auto simp: agrees_def dest: rep_fields(4))

lemma refines_pop [refines_rules]:
  assumes "n = unat sz"
  shows "refines s (a_pop n) (opstack_pop sz)"
proof (rule refinesI)
  fix v t assume r: "rep s v t"
  from rep_opsE [OF r] obtain a k where k: "cpu_opstack t = Ptr a" "stacks t a = Some k" "stack_ok k"
      "contents k = v_ops v"
    and after: "\<And>k'. stack_ok k' \<Longrightarrow> stk_size k' = stk_size k \<Longrightarrow>
       rep s (v\<lparr>v_ops := contents k'\<rparr>) (t\<lparr>stacks := (stacks t)(a \<mapsto> k')\<rparr>)" by metis
  have len: "length (v_ops v) = unat (sp k)" using k(3,4) length_contents by metis
  show "agrees s (a_pop n v) (opstack_pop sz t)"
  proof (cases "sp k < sz")
    case True
    from stack_pop_data_underflow [OF k(2) _ True] k(3) obtain evs where
      "stack_pop_data (Ptr a) sz t = Inl (ExitFailure, t\<lparr>out := out t @
         Printf ''stack_pop_bend_data: stack underflow\<newline>'' [] # evs\<rparr>)"
      by (auto simp: stack_ok_def)
    with agrees_failure [OF r] True k(1) len assms show ?thesis
      by (auto simp: a_pop_def opstack_pop_def st_simps word_less_nat_alt)
  next
    case False
    then have le: "sz \<le> sp k" by simp
    from after [OF stack_ok_popped [OF k(3) le]] contents_popped [OF k(3) le]
    have "rep s (v\<lparr>v_ops := take (length (v_ops v) - n) (v_ops v)\<rparr>)
        (t\<lparr>stacks := (stacks t)(a \<mapsto> popped sz k)\<rparr>)" by (simp add: k(4) len assms)
    with stack_pop_data_enough [OF k(2,3) le] k(1,4) len assms False show ?thesis
      by (simp add: a_pop_def opstack_pop_def st_simps agrees_def word_less_nat_alt)
  qed
qed

lemma refines_push:
  assumes "length w = unat sz" and "length w < 500"
  shows "refines s (a_push w) (opstack_push w sz)"
proof (rule refinesI)
  fix v t assume r: "rep s v t"
  from rep_opsE [OF r] obtain a k where k: "cpu_opstack t = Ptr a" "stacks t a = Some k" "stack_ok k"
      "contents k = v_ops v" "unat (stk_size k) = v_ops_size v"
    and after: "\<And>k'. stack_ok k' \<Longrightarrow> stk_size k' = stk_size k \<Longrightarrow>
       rep s (v\<lparr>v_ops := contents k'\<rparr>) (t\<lparr>stacks := (stacks t)(a \<mapsto> k')\<rparr>)" by metis
  have len: "length (v_ops v) = unat (sp k)" using k(3,4) length_contents by metis
  have sz: "of_nat (length w) = sz" using assms(1) by simp
  show "agrees s (a_push w v) (opstack_push w sz t)"
  proof (cases "unat (sp k) + length w \<le> unat (stk_size k)")
    case True
    from after [OF stack_ok_pushed [OF k(3) True]] contents_pushed [OF k(3) True]
      stack_push_data_room [OF k(2,3) True] True k len sz show ?thesis
      by (simp add: a_push_def opstack_push_def st_simps agrees_def)
  next
    case False
    have "unat (sp k) + unat sz < 65536" "unat (stk_size k) < unat (sp k) + unat sz"
      using rep_fields(15) [OF r] k(3,5) assms False by (simp_all add: stack_ok_def)
    from stack_push_data_full [OF k(2) _ this(2,1), of w] k(3) obtain evs where
      "stack_push_data (Ptr a) w sz t = Inl (ExitFailure, t\<lparr>out := out t @
         Printf ''stack_write_bend_data_at: stackoverflow\<newline>'' [] # evs\<rparr>)"
      by (auto simp: stack_ok_def)
    with agrees_failure [OF r] False k(1,5) len show ?thesis
      by (auto simp: a_push_def opstack_push_def st_simps)
  qed
qed

lemma refines_pop_u16 [refines_rules]: "refines s a_pop_u16 pop_u16"
  unfolding a_pop_u16_def pop_u16_def by (intro refines_rules) simp

lemma refines_push_u16 [refines_rules]: "refines s (a_push_u16 w) (push_u16 w)"
  unfolding a_push_u16_def push_u16_def by (intro refines_push) simp_all

lemma refines_pop_f32 [refines_rules]: "refines s a_pop_f32 pop_f32"
  unfolding a_pop_f32_def pop_f32_def by (intro refines_rules) simp

lemma refines_push_f32 [refines_rules]: "refines s (a_push_f32 w) (push_f32 w)"
  unfolding a_push_f32_def push_f32_def by (intro refines_push) simp_all

lemma refines_top:
  assumes "n = unat sz" and "\<And>w. refines s (F w) (G w)"
  shows "refines s (bind (a_top n) F) (bind (gets cpu_opstack) (\<lambda>p. bind (deref stacks p) (\<lambda>k.
    bind (stack_read_bend_data_at p sz (sp k - sz)) G)))"
proof (rule refinesI)
  fix v t assume r: "rep s v t"
  from rep_opsE [OF r] obtain a k where k: "cpu_opstack t = Ptr a" "stacks t a = Some k" "stack_ok k"
      "contents k = v_ops v" by metis
  have len: "length (v_ops v) = unat (sp k)" using k(3,4) length_contents by metis
  show "agrees s (bind (a_top n) F v) (bind (gets cpu_opstack) (\<lambda>p. bind (deref stacks p) (\<lambda>k.
    bind (stack_read_bend_data_at p sz (sp k - sz)) G)) t)"
  proof (cases "length (v_ops v) < n")
    case False
    then have le: "sz \<le> sp k" by (simp add: word_le_nat_alt len assms(1))
    have in_data: "unat (sp k - sz) + unat sz \<le> length (stk_data k)"
      using unat_u16_sub [OF le] le k(3) by (simp add: stack_ok_def stack_wf_def word_le_nat_alt)
    have "take (unat sz) (drop (unat (sp k) - unat sz) (stk_data k)) = drop (unat (sp k) - unat sz) (contents k)"
      using le by (simp add: contents_def drop_take word_le_nat_alt)
    with stack_read_inside [OF k(2) le in_data] unat_u16_sub [OF le] refinesD [OF assms(2) r] False k(1,2,4) len
    show ?thesis by (simp add: a_top_def st_simps assms(1))
  qed (simp add: a_top_def st_simps agrees_def)
qed

lemma refines_emit [refines_rules]: "refines s (a_emit e) (emit e)"
  by (rule refinesI) (simp add: a_emit_def st_simps agrees_def rep_updates rep_fields(4))

lemma refines_print [refines_rules]: "refines s (a_emit (Printf f xs)) (vmprintf f xs)"
  unfolding vmprintf_def by (rule refines_emit)

lemma refines_goto [refines_rules]: "refines s (a_goto i) (modify (\<lambda>s. s\<lparr>cpu_ip := i\<rparr>))"
  by (rule refinesI) (simp add: a_goto_def st_simps agrees_def rep_updates)

lemma refines_fetch:
  assumes "\<And>w. refines s (F w) (G (Some w))" and "0 < n"
  shows "refines s (bind (a_fetch n) F) (bind (cpu_fetch_data n) G)"
proof (rule refinesI)
  fix v t assume r: "rep s v t"
  let ?i = "unat (v_ip v)" and ?p = "v_prog v"
  note f = rep_fields(1,5,6) [OF r]
  consider "length ?p \<le> ?i" | "?i < length ?p" "length ?p < ?i + n" | "?i + n \<le> length ?p"
    using assms(2) by linarith
  then show "agrees s (bind (a_fetch n) F v) (bind (cpu_fetch_data n) G t)"
  proof cases
    case 1
    then show ?thesis by (simp add: a_fetch_def st_simps agrees_def)
  next
    case 2
    then have "length ?p - ?i < n" by linarith
    with 2 f rep_fields(4) [OF r] show ?thesis
      by (auto simp: a_fetch_def cpu_fetch_data_def st_simps agrees_def word_less_nat_alt)
  next
    case 3
    then have n: "\<not> length ?p - ?i < n" "?i < length ?p" using assms(2) by linarith+
    from refinesD [OF assms(1) rep_updates(1) [OF r, of "v_ip v + of_nat n"]] 3 n f show ?thesis
      by (simp add: a_fetch_def cpu_fetch_data_def st_simps word_less_nat_alt)
  qed
qed

lemma refines_fetch_u16_opt:
  assumes "\<And>w. refines s (F w) (G (Some w))"
  shows "refines s (bind a_fetch_u16 F) (bind fetch_u16 G)"
  unfolding a_fetch_u16_def fetch_u16_def bind_assoc
  by (rule refines_fetch) (simp_all add: assms)

lemma refines_fetch_u16 [refines_rules]:
  assumes "\<And>w. refines s (F w) (G w)"
  shows "refines s (bind a_fetch_u16 F) (bind (bind fetch_u16 the_init) G)"
  unfolding bind_assoc by (rule refines_fetch_u16_opt) (simp add: the_init_simps assms)

section \<open>Images\<close>

lemma image_of_take: "image_of bs (take n xs) \<Longrightarrow> image_of bs xs"
  by (force simp: image_of_def)

lemma image_of_append:
  assumes "image_of bs zs" and "length zs = length bs"
  shows "image_of (bs @ map Some ys) (zs @ ys)"
  using assms by (auto simp: image_of_def nth_append)

lemma image_of_left: "image_of (bs @ cs) xs \<Longrightarrow> image_of bs xs"
  by (force simp: image_of_def nth_append)

lemma image_of_none: "image_of bs xs \<Longrightarrow> image_of (bs @ replicate n None) xs"
  by (auto simp: image_of_def nth_append)

lemma image_of_part:
  assumes "image_of (as @ map Some ys @ bs) xs"
  shows "take (length ys) (drop (length as) xs) = ys"
proof -
  have each: "length as + i < length xs \<and> xs ! (length as + i) = ys ! i" if "i < length ys" for i
    using assms that unfolding image_of_def
    by (force dest!: spec [of _ "length as + i"] simp: nth_append)
  show ?thesis
  proof (rule nth_equalityI)
    show len: "length (take (length ys) (drop (length as) xs)) = length ys"
      using each [of "length ys - 1"] by (cases ys) auto
    show "take (length ys) (drop (length as) xs) ! i = ys ! i"
      if "i < length (take (length ys) (drop (length as) xs))" for i
      using that len each [of i] by simp
  qed
qed

lemma image_of_update:
  assumes "image_of (as @ cs @ bs) xs" and "length cs = length ys" and "length as + length ys \<le> length xs"
  shows "image_of (as @ map Some ys @ bs) (take (length as) xs @ ys @ drop (length as + length ys) xs)"
  unfolding image_of_def
proof (intro allI impI)
  fix i assume i: "i < length (as @ map Some ys @ bs)" "(as @ map Some ys @ bs) ! i \<noteq> None"
  have old: "i < length (as @ cs @ bs) \<Longrightarrow> (as @ cs @ bs) ! i \<noteq> None \<Longrightarrow>
      i < length xs \<and> (as @ cs @ bs) ! i = Some (xs ! i)"
    using assms(1) by (simp add: image_of_def)
  let ?zs = "take (length as) xs @ ys @ drop (length as + length ys) xs"
  have len: "length ?zs = length xs" using assms(3) by simp
  consider "i < length as" | "length as \<le> i" "i < length as + length ys" | "length as + length ys \<le> i"
    by linarith
  then show "i < length ?zs \<and> (as @ map Some ys @ bs) ! i = Some (?zs ! i)"
  proof cases
    case 1
    with old i assms(3) show ?thesis unfolding len by (simp add: nth_append)
  next
    case 2
    then have "i - length as < length ys" by linarith
    with 2 assms(3) show ?thesis unfolding len by (simp add: nth_append)
  next
    case 3
    then have "\<not> i - length as < length ys" "\<not> i < length as" "i - length as - length ys = i - (length as + length ys)"
      by linarith+
    with old i assms(2,3) show ?thesis unfolding len by (auto simp: nth_append min_def)
  qed
qed

section \<open>Frames\<close>

lemma calls_at_frame:
  assumes "calls_at ls fs k" and "base_of fs + length ls + 4 \<le> unat (stk_size k)"
    and "unat (stk_size k) < 65532"
  shows "calls_at [] ((ip, ls) # fs) (with_frame ip k)"
proof -
  have k: "stack_wf k" "unat (sp k) = base_of fs + length ls" "unat (bp k) = base_of fs"
    "image_of (frames ls fs) (stk_data k)" using assms(1) by (simp_all add: calls_at_def)
  then have ok: "stack_ok k" and room: "unat (sp k) + 4 \<le> unat (stk_size k)"
    using assms(2) by (simp_all add: stack_ok_def)
  note w = with_frame_facts [OF ok room, of ip]
  have "of_nat (unat (bp k)) = bp k" by simp
  then have bp: "of_nat (base_of fs) = bp k" unfolding k(3) .
  have len: "length (contents k) = length (frames ls fs)" using length_contents [OF ok] k(2) by simp
  have "image_of (frames ls fs) (contents k)"
    using k(1,2,4) ok len unfolding image_of_def contents_def by (auto simp: stack_ok_def stack_wf_def)
  from image_of_append [OF this len, of "rev (bytes_of_u16 ip) @ rev (bytes_of_u16 (bp k))"]
  have "image_of (frames [] ((ip, ls) # fs)) (contents (with_frame ip k))"
    by (simp add: w(5) bp)
  then have "image_of (frames [] ((ip, ls) # fs)) (stk_data (with_frame ip k))"
    unfolding contents_def by (rule image_of_take)
  then show ?thesis
    using w(1,2,3,6) k(2) assms(2,3) by (simp add: calls_at_def stack_ok_def)
qed

lemma calls_at_return:
  assumes "calls_at ls ((ip, ks) # fs) k"
  shows "bp k \<le> stk_size k"
    and "\<exists>xs. length xs = base_of fs + length ks \<and> take (unat (bp k)) (stk_data k)
        = xs @ rev (bytes_of_u16 ip) @ rev (bytes_of_u16 (of_nat (base_of fs)))"
    and "calls_at ks fs (k\<lparr>sp := of_nat (base_of fs + length ks), bp := of_nat (base_of fs)\<rparr>)"
proof -
  let ?h = "rev (bytes_of_u16 ip) @ rev (bytes_of_u16 (of_nat (base_of fs)))" and ?n = "base_of fs + length ks"
  have k: "stack_wf k" "unat (bp k) = ?n + 4" "image_of (frames ks fs @ map Some ?h @ ls) (stk_data k)"
    "?n < 65532"
    using assms by (simp_all add: calls_at_def)
  have part: "take 4 (drop ?n (stk_data k)) = ?h" using image_of_part [OF k(3)] by simp
  from arg_cong [OF this, of length] have len: "?n + 4 \<le> length (stk_data k)" by simp
  then show "bp k \<le> stk_size k" using k(1,2) by (simp add: stack_wf_def word_le_nat_alt)
  have "take (?n + 4) (stk_data k) = take ?n (stk_data k) @ ?h" unfolding take_add part ..
  with len k(2) show "\<exists>xs. length xs = ?n \<and> take (unat (bp k)) (stk_data k) = xs @ ?h"
    by (intro exI [of _ "take ?n (stk_data k)"]) simp
  have small: "m < 65536 \<Longrightarrow> unat (of_nat m :: u16) = m" for m by (simp add: unat_of_nat)
  have "unat (of_nat ?n :: u16) = ?n" "unat (of_nat (base_of fs) :: u16) = base_of fs"
    by (rule small; use k(2) unat_u16_less [of "bp k"] in linarith)+
  then show "calls_at ks fs (k\<lparr>sp := of_nat ?n, bp := of_nat (base_of fs)\<rparr>)"
    using k(1,4) image_of_left [OF k(3)] by (simp add: calls_at_def stack_wf_def del: of_nat_add)
qed

lemma calls_at_alloc:
  assumes "calls_at ls fs k" and "base_of fs + length ls + unat n < 65532"
  shows "calls_at (ls @ replicate (unat n) None) fs (k\<lparr>sp := sp k + n\<rparr>)"
proof -
  have "unat (sp k + n) = base_of fs + length ls + unat n"
    using assms unat_u16_add [of "sp k" n] by (simp add: calls_at_def)
  with assms image_of_none [of "frames ls fs" "stk_data k"] show ?thesis
    by (simp add: calls_at_def stack_wf_def frames_append)
qed

lemma calls_at_address:
  assumes "calls_at ls fs k" and "unat address + n \<le> length ls"
  shows "unat (bp k + address) = base_of fs + unat address"
  using assms unat_u16_less [of "sp k"] unat_u16_add [of "bp k" address] by (simp add: calls_at_def)

lemma calls_at_read:
  assumes "calls_at ls fs k" and "take n (drop i ls) = map Some ys" and "n = length ys" and "ys \<noteq> []"
  shows "take n (drop (base_of fs + i) (stk_data k)) = ys" and "base_of fs + i + n \<le> length (stk_data k)"
    and "i + n \<le> length ls"
proof -
  have "length (map Some ys) \<le> length (drop i ls)" by (metis assms(2) length_take min.cobounded1)
  with assms(3,4) show len: "i + n \<le> length ls" by (cases ys) simp_all
  have "ls = take i ls @ map Some ys @ drop n (drop i ls)"
    by (metis append_take_drop_id assms(2))
  then have "frames ls fs = (frames [] fs @ take i ls) @ map Some ys @ drop n (drop i ls)"
    by (metis append.assoc frames_append append_Nil)
  with assms(1) have "image_of ((frames [] fs @ take i ls) @ map Some ys @ drop n (drop i ls)) (stk_data k)"
    by (simp add: calls_at_def)
  from image_of_part [OF this] len assms(3)
  show part: "take n (drop (base_of fs + i) (stk_data k)) = ys" by simp
  from arg_cong [OF part, of length] assms(3,4)
  show "base_of fs + i + n \<le> length (stk_data k)" by (cases ys) simp_all
qed

lemma calls_at_write:
  assumes "calls_at ls fs k" and "i + length w \<le> length ls"
    and "base_of fs + length ls \<le> unat (stk_size k)"
  shows "calls_at (take i ls @ map Some (rev w) @ drop (i + length w) ls) fs (written w (base_of fs + i) k)"
proof -
  have k: "stack_wf k" "unat (sp k) = base_of fs + length ls" "unat (bp k) = base_of fs"
    "image_of (frames ls fs) (stk_data k)" using assms(1) by (simp_all add: calls_at_def)
  have "ls = take i ls @ take (length w) (drop i ls) @ drop (i + length w) ls"
    by (metis append_take_drop_id drop_drop add.commute)
  then have fr: "frames ls fs = (frames [] fs @ take i ls) @ take (length w) (drop i ls) @ drop (i + length w) ls"
    by (metis append.assoc frames_append append_Nil)
  have len: "length (frames [] fs @ take i ls) = base_of fs + i" using assms(2) by simp
  from image_of_update [OF k(4) [unfolded fr], of "rev w"] assms(2,3) k(1) len
  have "image_of ((frames [] fs @ take i ls) @ map Some (rev w) @ drop (i + length w) ls)
      (stk_data (written w (base_of fs + i) k))"
    by (simp add: written_def stack_wf_def add.assoc)
  then have "image_of (frames (take i ls @ map Some (rev w) @ drop (i + length w) ls) fs)
      (stk_data (written w (base_of fs + i) k))"
    by (metis append.assoc frames_append append_Nil)
  moreover have "max (base_of fs + i + length w) (unat (sp k)) = unat (sp k)" using assms(2) k(2) by simp
  then have "sp (written w (base_of fs + i) k) = sp k" by (simp add: written_def)
  ultimately show ?thesis
    using assms(1,2,3) k(1-3) by (simp add: calls_at_def written_def stack_wf_def)
qed

section \<open>Calls and local variables\<close>

lemma rep_locals:
  assumes "rep s v t" and "cpu_stack t = Ptr b" and "stacks t b = Some l"
    and "calls_at ls (v_callers v) l'" and "stk_size l' = stk_size l"
  shows "rep s (v\<lparr>v_locals := ls\<rparr>) (t\<lparr>stacks := (stacks t)(b \<mapsto> l')\<rparr>)"
proof -
  from rep_callsE [OF assms(1)] obtain c k where "cpu_stack t = Ptr c" "stacks t c = Some k"
    and after: "\<And>l' ip ls fs. calls_at ls fs l' \<Longrightarrow> stk_size l' = stk_size k \<Longrightarrow>
       rep s (v\<lparr>v_ip := ip, v_locals := ls, v_callers := fs\<rparr>) (t\<lparr>cpu_ip := ip, stacks := (stacks t)(c \<mapsto> l')\<rparr>)"
    by metis
  with assms(2-5) after [of ls "v_callers v" l' "v_ip v"]
  have "rep s (v\<lparr>v_locals := ls\<rparr>) (t\<lparr>cpu_ip := v_ip v, stacks := (stacks t)(b \<mapsto> l')\<rparr>)" by simp
  moreover have "t\<lparr>cpu_ip := v_ip v, stacks := (stacks t)(b \<mapsto> l')\<rparr> = t\<lparr>stacks := (stacks t)(b \<mapsto> l')\<rparr>"
    using rep_fields(1) [OF assms(1)] by simp
  ultimately show ?thesis by simp
qed

lemma refines_call [refines_rules]: "refines s (a_call w) (call_address w)"
proof (rule refinesI)
  fix v t assume r: "rep s v t"
  from rep_callsE [OF r] obtain b l where l: "cpu_stack t = Ptr b" "stacks t b = Some l"
      "calls_at (v_locals v) (v_callers v) l" "unat (stk_size l) = v_calls_size v"
    and after: "\<And>l' ip ls fs. calls_at ls fs l' \<Longrightarrow> stk_size l' = stk_size l \<Longrightarrow>
       rep s (v\<lparr>v_ip := ip, v_locals := ls, v_callers := fs\<rparr>) (t\<lparr>cpu_ip := ip, stacks := (stacks t)(b \<mapsto> l')\<rparr>)"
    by metis
  have sp: "unat (sp l) = depth v" "stack_wf l" using l(3) by (simp_all add: calls_at_def depth_def)
  show "agrees s (a_call w v) (call_address w t)"
  proof (cases "depth v + 4 \<le> v_calls_size v")
    case True
    then have "callstack b t l" "unat (sp l) + 4 \<le> unat (stk_size l)"
      using l sp by (simp_all add: callstack_def stack_ok_def)
    moreover have "calls_at [] ((v_ip v, v_locals v) # v_callers v) (with_frame (v_ip v) l)"
      using calls_at_frame [OF l(3)] True l(4) rep_fields(16) [OF r] by (simp add: depth_def)
    moreover have "stk_size (with_frame (v_ip v) l) = stk_size l" by (simp add: with_frame_def)
    ultimately show ?thesis
      using after [of "[]" "(v_ip v, v_locals v) # v_callers v" "with_frame (v_ip v) l" w]
        call_address_room [of b t l w] rep_fields(1) [OF r] True
      by (simp add: a_call_def st_simps agrees_def)
  next
    case False
    have "unat (sp l) + 4 < 65536" using l(3) by (simp add: calls_at_def)
    with call_address_full [OF l(1,2) sp(2) _ this, of w] rep_fields(4) [OF r] l(4) sp(1) False
    show ?thesis by (auto simp: a_call_def st_simps agrees_def not_le)
  qed
qed

lemma refines_ret [refines_rules]: "refines s a_return ret"
proof (rule refinesI)
  fix v t assume r: "rep s v t"
  from rep_callsE [OF r] obtain b l where l: "cpu_stack t = Ptr b" "stacks t b = Some l"
      "calls_at (v_locals v) (v_callers v) l"
    and after: "\<And>l' ip ls fs. calls_at ls fs l' \<Longrightarrow> stk_size l' = stk_size l \<Longrightarrow>
       rep s (v\<lparr>v_ip := ip, v_locals := ls, v_callers := fs\<rparr>) (t\<lparr>cpu_ip := ip, stacks := (stacks t)(b \<mapsto> l')\<rparr>)"
    by metis
  have wf: "stack_wf l" using l(3) by (simp add: calls_at_def)
  show "agrees s (a_return v) (ret t)"
  proof (cases "v_callers v")
    case Nil
    with l(3) have "unat (bp l) = 0" by (simp add: calls_at_def)
    then have "bp l = 0" by (simp add: unat_eq_zero)
    let ?t = "t\<lparr>stacks := (stacks t)(b \<mapsto> l\<lparr>sp := 0\<rparr>)\<rparr>"
    obtain evs where "stack_pop_data (Ptr b) 2 ?t = Inl (ExitFailure, ?t\<lparr>out := out ?t @ evs\<rparr>)"
      using stack_pop_data_underflow [of ?t b "l\<lparr>sp := 0\<rparr>" 2] wf by (auto simp: stack_wf_def)
    with l(1,2) \<open>bp l = 0\<close> Nil rep_fields(4) [OF r] show ?thesis
      by (simp add: a_return_def ret_def call_stack_def set_call_stack_def stack_pop_u16_def st_simps agrees_def)
  next
    case (Cons f fs)
    obtain ip ks where f: "f = (ip, ks)" by (cases f)
    note c = calls_at_return [OF l(3) [unfolded Cons f]]
    obtain xs where xs: "length xs = base_of fs + length ks"
        "take (unat (bp l)) (stk_data l) = xs @ rev (bytes_of_u16 ip) @ rev (bytes_of_u16 (of_nat (base_of fs)))"
      using c(2) by blast
    from ret_frame [OF l(1,2) wf c(1) xs(2)] after [OF c(3), of ip] Cons f show ?thesis
      unfolding xs(1) by (simp add: a_return_def st_simps agrees_def)
  qed
qed

lemma refines_alloc [refines_rules]:
  "refines s (a_alloc n) (bind (gets cpu_stack) (\<lambda>p. sp_add p n))"
proof (rule refinesI)
  fix v t assume r: "rep s v t"
  from rep_callsE [OF r] obtain b l where l: "cpu_stack t = Ptr b" "stacks t b = Some l"
      "calls_at (v_locals v) (v_callers v) l" by metis
  show "agrees s (a_alloc n v) (bind (gets cpu_stack) (\<lambda>p. sp_add p n) t)"
  proof (cases "depth v + unat n < 65532")
    case True
    with calls_at_alloc [OF l(3)] rep_locals [OF r l(1,2)] l(1,2) show ?thesis
      by (simp add: a_alloc_def sp_add_def st_simps agrees_def depth_def)
  qed (simp add: a_alloc_def st_simps agrees_def)
qed

lemma map_Some_the: "None \<notin> set bs \<Longrightarrow> map Some (map the bs) = bs"
  by (induction bs) auto

lemma refines_read:
  assumes "\<And>w. length w = unat n \<Longrightarrow> refines s (F w) (G w)"
  shows "refines s (bind (a_read n address) F) (bind (gets cpu_stack) (\<lambda>p. bind (deref stacks p) (\<lambda>k.
    bind (stack_read_data_at p n (bp k + address)) G)))"
proof (rule refinesI)
  fix v t assume r: "rep s v t"
  let ?bs = "take (unat n) (drop (unat address) (v_locals v))"
  from rep_callsE [OF r] obtain b l where l: "cpu_stack t = Ptr b" "stacks t b = Some l"
      "calls_at (v_locals v) (v_callers v) l" by metis
  show "agrees s (bind (a_read n address) F v) (bind (gets cpu_stack) (\<lambda>p. bind (deref stacks p) (\<lambda>k.
    bind (stack_read_data_at p n (bp k + address)) G)) t)"
  proof (cases "?bs = [] \<or> length ?bs < unat n \<or> None \<in> set ?bs")
    case True
    then show ?thesis unfolding a_read_def by (simp only: st_simps if_True agrees_def sum.case prod.case) simp
  next
    case False
    let ?ys = "map the ?bs"
    have ys: "?bs = map Some ?ys" "unat n = length ?ys" "?ys \<noteq> []"
      using False map_Some_the [of ?bs] by auto
    note c = calls_at_read [OF l(3) ys]
    have i: "unat (bp l + address) = base_of (v_callers v) + unat address"
      using calls_at_address [OF l(3) c(3)] .
    have "unat n \<le> unat (sp l)" using c(3) l(3) by (simp add: calls_at_def)
    then have "n \<le> sp l" by (simp add: word_le_nat_alt)
    from stack_read_inside [OF l(2) this, of "bp l + address"] c(1,2)
    have "stack_read_data_at (Ptr b) n (bp l + address) t = Inr (rev ?ys, t)"
      by (simp add: stack_read_data_at_def i)
    moreover have "a_read n address v = Inr (rev ?ys, v)"
      unfolding a_read_def bind_apply gets_apply sum.case prod.case if_not_P [OF False] return_apply ..
    moreover have "length (rev ?ys) = unat n" using ys(2) by simp
    ultimately show ?thesis
      using refinesD [OF assms r, of "rev ?ys"] l(1,2) by (simp add: st_simps)
  qed
qed

lemma refines_write:
  assumes "length w = unat n"
  shows "refines s (a_write w address) (bind (gets cpu_stack) (\<lambda>p. bind (deref stacks p) (\<lambda>k.
    stack_write_bend_data_at p w n (bp k + address))))"
proof (rule refinesI)
  fix v t assume r: "rep s v t"
  let ?b = "base_of (v_callers v)" and ?i = "unat address"
  from rep_callsE [OF r] obtain b l where l: "cpu_stack t = Ptr b" "stacks t b = Some l"
      "calls_at (v_locals v) (v_callers v) l" "unat (stk_size l) = v_calls_size v" by metis
  have wf: "stack_wf l" "unat (sp l) = depth v" "depth v < 65532" using l(3) by (simp_all add: calls_at_def depth_def)
  consider "length (v_locals v) < ?i + length w"
    | "?i + length w \<le> length (v_locals v)" "v_calls_size v < ?b + ?i + length w"
    | "?i + length w \<le> length (v_locals v)" "?b + ?i + length w \<le> v_calls_size v" "v_calls_size v < depth v"
    | "?i + length w \<le> length (v_locals v)" "?b + ?i + length w \<le> v_calls_size v" "depth v \<le> v_calls_size v"
    by linarith
  then show "agrees s (a_write w address v) (bind (gets cpu_stack) (\<lambda>p. bind (deref stacks p) (\<lambda>k.
    stack_write_bend_data_at p w n (bp k + address))) t)"
  proof cases
    case 2
    have i: "unat (bp l + address) = ?b + ?i" using calls_at_address [OF l(3) 2(1)] .
    have "unat (bp l + address + n) = ?b + ?i + length w"
      using 2(1) wf(3) unat_u16_add [of "bp l + address" n] i assms by (simp add: depth_def)
    then have "bp l + address + n > stk_size l" using 2(2) l(4) by (simp add: word_less_nat_alt)
    moreover let ?t = "t\<lparr>out := out t @ [Printf ''stack_write_bend_data_at: stackoverflow\<newline>'' []]\<rparr>"
    obtain evs where "stack_print (Ptr b) ?t = Inr ((), ?t\<lparr>out := out ?t @ evs\<rparr>)"
      using stack_print_out [of ?t b l] l(2) wf(1) by auto
    ultimately show ?thesis
      using 2 l(1,2) agrees_failure(2) [OF r, where es = "Printf ''stack_write_bend_data_at: stackoverflow\<newline>'' [] # evs"]
      by (simp add: a_write_def stack_write_bend_data_at_def st_simps Let_def)
  next
    case 4
    have i: "unat (bp l + address) = ?b + ?i" using calls_at_address [OF l(3) 4(1)] .
    have ok: "stack_ok l" using wf 4(3) l(4) by (simp add: stack_ok_def)
    have "unat (bp l + address) + unat n \<le> unat (stk_size l)" using 4(2) i l(4) assms by simp
    note run = stack_write_inside [OF l(2) ok assms this, unfolded i]
    let ?l = "written w (?b + ?i) l"
    have "stk_size ?l = stk_size l" by (simp add: written_def)
    with calls_at_write [OF l(3) 4(1)] 4(3) l(4) rep_locals [OF r l(1,2), of _ ?l]
    have "rep s (v\<lparr>v_locals := take ?i (v_locals v) @ map Some (rev w) @ drop (?i + length w) (v_locals v)\<rparr>)
        (t\<lparr>stacks := (stacks t)(b \<mapsto> ?l)\<rparr>)" by (simp add: depth_def)
    with run 4 l(1,2) show ?thesis by (simp add: a_write_def st_simps agrees_def Let_def)
  qed (simp_all add: a_write_def st_simps agrees_def)
qed

section \<open>Ports, data and system calls\<close>

lemma rep_bank:
  assumes "rep s v t"
  obtains b where "cpu_port_bank t = Ptr b" "port_banks t b = Some host_bank"
  using rep_fields(14) [OF assms] by (auto simp: has_bank_def)

lemma host_bank_size: "ucast (bank_size host_bank) = (3 :: u16)" "uint (bank_size host_bank) = 3"
  by (simp_all add: host_bank_def)

lemma refines_data [refines_rules]: "refines s (a_data address) (data_pointer address)"
proof (rule refinesI)
  fix v t assume r: "rep s v t"
  obtain b where b: "cpu_port_bank t = Ptr b" "port_banks t b = Some host_bank" using rep_bank [OF r] .
  let ?x = "program_suffix (v_prog v) (uint (v_data v) + uint address - 3)"
  have "data_pointer address t = in_bounds ?x t" "a_data address v = in_bounds ?x v"
    using b rep_fields(5,7) [OF r] by (simp_all add: data_pointer_def a_data_def st_simps host_bank_size)
  with refinesD [OF refines_in_bounds r, of ?x] show "agrees s (a_data address v) (data_pointer address t)" by simp
qed

lemma refines_cell:
  assumes "\<And>w. refines s (F w) (G w)"
  shows "refines s (bind (a_cell address) F) (bind (gets cpu_port_bank) (\<lambda>pb. bind (deref port_banks pb) (\<lambda>b.
     bind (if address < ucast (bank_size b)
           then bind (port_bank_get_address pb (ucast address)) (\<lambda>v. return (ucast v))
           else bind (data_pointer address) (\<lambda>bs. bind (in_bounds (nth_opt bs 0)) (\<lambda>v. return (ucast v)))) G)))"
proof (rule refinesI)
  fix v t assume r: "rep s v t"
  obtain b where b: "cpu_port_bank t = Ptr b" "port_banks t b = Some host_bank" using rep_bank [OF r] .
  have data: "refines s (bind (bind (a_data address) (\<lambda>bs. bind (in_bounds (nth_opt bs 0)) (\<lambda>b. return (ucast b)))) F)
      (bind (bind (data_pointer address) (\<lambda>bs. bind (in_bounds (nth_opt bs 0)) (\<lambda>v. return (ucast v)))) G)"
    by (intro refines_rules assms)
  show "agrees s (bind (a_cell address) F v) (bind (gets cpu_port_bank) (\<lambda>pb. bind (deref port_banks pb) (\<lambda>b.
     bind (if address < ucast (bank_size b)
           then bind (port_bank_get_address pb (ucast address)) (\<lambda>v. return (ucast v))
           else bind (data_pointer address) (\<lambda>bs. bind (in_bounds (nth_opt bs 0)) (\<lambda>v. return (ucast v)))) G)) t)"
  proof (cases "address < 3")
    case True
    with port_access(1) [OF True b(2)] refinesD [OF assms r] b rep_fields(2) [OF r] show ?thesis
      by (simp add: a_cell_def st_simps host_bank_size)
  next
    case False
    with refinesD [OF data r] b show ?thesis by (simp add: a_cell_def gets_apply bind_apply deref_Ptr host_bank_size)
  qed
qed

lemma refines_port:
  "refines s (if address < 3 then modify (\<lambda>v. v\<lparr>v_ports := (v_ports v)(port_number address := w)\<rparr>)
       else stop_with ExitFailure)
     (bind (gets cpu_port_bank) (\<lambda>pb. bind (deref port_banks pb) (\<lambda>b.
       if address < ucast (bank_size b) then port_bank_set_address pb (ucast address) w
       else seq (vmprintf ''ERROR: invalid cpu address\<newline>'' []) exit_failure)))"
proof (rule refinesI)
  fix v t assume r: "rep s v t"
  obtain b where b: "cpu_port_bank t = Ptr b" "port_banks t b = Some host_bank" using rep_bank [OF r] .
  have set: "address < 3 \<Longrightarrow> port_bank_set_address (Ptr b) (ucast address) w t
      = Inr ((), t\<lparr>port_regs := (v_ports v)(port_number address := w)\<rparr>)"
    using port_access(2) [OF _ b(2)] rep_fields(2) [OF r] by simp
  note stored = rep_updates(3) [OF r, of "(v_ports v)(port_number address := w)"]
  note fail = agrees_failure(2) [OF r, of "[Printf ''ERROR: invalid cpu address\<newline>'' []]"]
  show "agrees s ((if address < 3 then modify (\<lambda>v. v\<lparr>v_ports := (v_ports v)(port_number address := w)\<rparr>)
       else stop_with ExitFailure) v)
     (bind (gets cpu_port_bank) (\<lambda>pb. bind (deref port_banks pb) (\<lambda>b.
       if address < ucast (bank_size b) then port_bank_set_address pb (ucast address) w
       else seq (vmprintf ''ERROR: invalid cpu address\<newline>'' []) exit_failure)) t)"
    using b set stored fail
    by (cases "address < 3") (simp_all add: st_simps host_bank_size agrees_def [of s "Inr ((), _)"])
qed

lemma refines_conversion [refines_rules]: "refines s (a_conversion c) (print_conversion c)"
  unfolding a_conversion_def print_conversion_def by (intro refines_rules) simp

lemma refines_format [refines_rules]: "refines s (a_format bs) (print_format bs)"
proof (induction bs rule: a_format.induct)
  case (2 c cs)
  consider "c = 0" | "c = 37" "cs = []" | d ds where "c = 37" "cs = d # ds" | "c \<noteq> 0" "c \<noteq> 37"
    by (cases cs) auto
  then show ?case
  proof cases
    case (3 d ds)
    then have "refines s (a_format ds) (print_format ds)" using "2.IH"(1) by simp
    with 3 show ?thesis by (simp add: refines_seq refines_conversion)
  next
    case 4
    with "2.IH"(2) show ?thesis by (simp add: refines_seq refines_print)
  qed (simp_all add: refines_return refines_undef)
qed (simp add: refines_undef)

lemma refines_gets:
  "(\<And>v t. rep s v t \<Longrightarrow> f v = g t) \<Longrightarrow> refines s (gets f) (gets g)"
  by (rule refinesI) (simp add: agrees_def st_simps)

lemma refines_syscall [refines_rules]:
  "refines s (bind a_fetch_u16 a_syscall) builtin_syscall"
  unfolding builtin_syscall_def
proof (rule refines_fetch_u16)
  fix f
  have print: "refines s (bind a_pop_u16 (\<lambda>address. bind (a_data address) a_format)) builtin_print"
    unfolding builtin_print_def by (intro refines_rules)
  have usage: "refines s (bind (gets v_memory) a_push_u16) builtin_push_memory_usage"
    unfolding builtin_push_memory_usage_def get_memory_usage_def
    by (intro refines_rules refines_gets) (simp add: rep_fields(8))
  show "refines s (a_syscall f) (if f = 0 then builtin_print
     else if f = 1 then builtin_toggle_led 500
     else if f = 2 then builtin_print_opstack
     else if f = 3 then builtin_send_message
     else if f = 4 then builtin_push_memory_usage
     else if f = 5 then builtin_print_stack
     else return ())"
    using print usage by (auto simp: a_syscall_def builtin_toggle_led_def intro: refines_rules)
qed

lemma refines_millis [refines_rules]: "refines s a_millis millis"
proof (rule refinesI)
  fix v t assume r: "rep s v t"
  show "agrees s (a_millis v) (millis t)"
    using rep_updates(4) [OF r, of "Suc (v_clock v)"] rep_fields(3,9) [OF r]
    by (simp add: a_millis_def millis_def st_simps agrees_def Let_def)
qed

section \<open>Instructions\<close>

lemma refines_alu: "refines s (a_alu opc) (execute_op opc)"
proof (cases "alu opc 0 0")
  case None
  then show ?thesis by (simp add: a_alu_def refines_give_up)
next
  case (Some x)
  let ?r = "\<lambda>a b. the (alu opc a b)"
  have all: "alu opc a b = Some (?r a b)" for a b
    using Some by (cases opc) (simp_all add: alu_def)
  have push: "refines s (case ?r a b of Inl u \<Rightarrow> undef u | Inr w \<Rightarrow> a_push w) (alu_step (?r a b))" for a b
  proof (cases "?r a b")
    case (Inr w)
    have "length w \<le> 2" by (rule alu_length [of opc a b ?r, OF all Inr])
    then have "length w = unat (of_nat (length w) :: u16)" by (simp add: unat_of_nat)
    from refines_push [OF this] \<open>length w \<le> 2\<close> Inr show ?thesis by (simp add: alu_step_def)
  qed (simp add: alu_step_def refines_undef)
  show ?thesis
    unfolding execute_alu [OF all] a_alu_def using Some push by (auto intro!: refines_rules)
qed

lemma refines_float:
  assumes "\<And>v t. rep s v t \<Longrightarrow> f v = g t"
  shows "refines s (a_float f) (bind pop_f32 (\<lambda>b. bind pop_f32 (\<lambda>a. bind (gets g) (\<lambda>f. push_f32 (f a b)))))"
  unfolding a_float_def by (intro refines_rules refines_gets assms)

lemma refines_halt: "refines s (stop_with ExitSuccess) halt"
proof (rule refinesI)
  fix v t assume "rep s v t"
  moreover obtain e where "halt t = Inl e" by (cases "halt t") (auto simp: halt_def st_simps split: sum.splits)
  ultimately show "agrees s (stop_with ExitSuccess v) (halt t)" by (auto simp: agrees_def st_simps)
qed

lemma refines_branch: "refines s (a_exec OP_POP_JUMP_IF_FALSE) pop_jump_if_false"
proof -
  have bool: "refines s (bool_of_bytes bs) (bool_of_bytes bs)" for bs
    by (auto simp: bool_of_bytes_def intro: refines_rules)
  show ?thesis
    unfolding a_exec_def pop_jump_if_false_def pop_bool_def opcode.case bind_assoc
    by (intro refines_fetch_u16_opt refines_bind refines_pop bool)
      (simp_all add: the_init_simps refines_goto refines_return)
qed

lemma refines_pop_address: "refines s (a_exec OP_POPA_U16) pop_address_U16"
  unfolding a_exec_def pop_address_U16_def opcode.case
  by (intro refines_fetch_u16_opt refines_bind refines_pop_u16) (simp add: the_init_simps refines_port)

lemma refines_pop_I16: "refines s (a_exec OP_POP_I16) pop_I16"
proof (rule refinesI)
  fix v t assume r: "rep s v t"
  from rep_opsE [OF r] obtain a k where k: "cpu_opstack t = Ptr a" "stacks t a = Some k" "stack_ok k"
      "contents k = v_ops v"
    and after: "\<And>k'. stack_ok k' \<Longrightarrow> stk_size k' = stk_size k \<Longrightarrow>
       rep s (v\<lparr>v_ops := contents k'\<rparr>) (t\<lparr>stacks := (stacks t)(a \<mapsto> k')\<rparr>)" by metis
  have len: "length (v_ops v) = unat (sp k)" using k(3,4) length_contents by metis
  show "agrees s (a_exec OP_POP_I16 v) (pop_I16 t)"
  proof (cases "length (v_ops v) < 2")
    case True
    then show ?thesis by (simp add: a_exec_def a_top_def st_simps agrees_def)
  next
    case False
    then have le: "2 \<le> sp k" by (simp add: word_le_nat_alt len)
    from after [OF stack_ok_popped [OF k(3) le]] contents_popped [OF k(3) le]
    have "rep s (v\<lparr>v_ops := take (length (v_ops v) - 2) (v_ops v)\<rparr>)
        (t\<lparr>stacks := (stacks t)(a \<mapsto> popped 2 k)\<rparr>)" by (simp add: k(4) len)
    with k False show ?thesis
      by (simp add: a_exec_def a_top_def a_pop_def pop_I16_def sp_sub_def popped_def st_simps agrees_def)
  qed
qed

lemma refines_locals:
  "refines s (a_exec OP_ALLOC_LOCAL) allocate_local"
  "refines s (a_exec OP_PUSH_LOCAL) push_local"
  "refines s (a_exec OP_POP_LOCAL) pop_local"
proof -
  show "refines s (a_exec OP_ALLOC_LOCAL) allocate_local"
    unfolding a_exec_def allocate_local_def opcode.case
    by (intro refines_fetch_u16_opt refines_bind refines_pop_u16 refines_alloc)
  have push: "refines s (if 8 < unat n then undef OutOfBounds else a_push w)
      (if sizeof_ptr < unat n then undef OutOfBounds else opstack_push w n)" if "length w = unat n" for n w
    using that refines_push [of w n s] by (auto simp: sizeof_ptr_def refines_undef)
  show "refines s (a_exec OP_PUSH_LOCAL) push_local"
    unfolding a_exec_def push_local_def opcode.case
    by (intro refines_bind refines_pop_u16 refines_read push)
  have pop: "a_pop (unat n) v = Inr (w, v') \<Longrightarrow> length w = unat n" for n v w v'
    by (auto simp: a_pop_def st_simps split: if_splits)
  have stored: "refines s (if 8 < unat n then undef OutOfBounds else a_write w address)
      (if sizeof_ptr < unat n then undef OutOfBounds
       else bind (gets cpu_stack) (\<lambda>p. bind (deref stacks p) (\<lambda>k. stack_write_bend_data_at p w n (bp k + address))))"
    if "length w = unat n" for n w address
    using that refines_write [of w n s] by (auto simp: sizeof_ptr_def refines_undef)
  show "refines s (a_exec OP_POP_LOCAL) pop_local"
    unfolding a_exec_def pop_local_def opcode.case
    by (intro refines_bind refines_pop_u16 refines_bind_value [OF refines_pop [OF refl] pop] stored)
qed

lemma refines_literals:
  "refines s (a_exec OP_PUSHL_U16) push_literal_U16"
  "refines s (a_exec OP_PUSHL_I16) push_literal_I16"
  "refines s (a_exec OP_PUSHL_F32) push_literal_F32"
proof -
  show "refines s (a_exec OP_PUSHL_U16) push_literal_U16" "refines s (a_exec OP_PUSHL_I16) push_literal_I16"
    unfolding a_exec_def push_literal_U16_def push_literal_I16_def opcode.case
    by (intro refines_fetch_u16 refines_push_u16)+
  show "refines s (a_exec OP_PUSHL_F32) push_literal_F32"
    unfolding a_exec_def push_literal_F32_def opcode.case bind_assoc
    by (rule refines_fetch) (simp_all add: the_init_simps refines_push_f32)
qed

lemma refines_tops:
  "refines s (a_exec OP_TOP_U16) top_U16" "refines s (a_exec OP_TOP_I16) top_I16"
  "refines s (a_exec OP_TOP_F32) top_F32"
  unfolding a_exec_def opcode.case top_U16_def top_I16_def top_F32_def stack_read_U16_def
    stack_read_I16_def stack_read_F32_def bind_assoc bind_return_left
  by (intro refines_top refines_print; simp)+

lemma refines_control:
  "refines s (a_exec OP_HALT) halt" "refines s (a_exec OP_DELAY) delay" "refines s (a_exec OP_JUMP) jump"
  "refines s (a_exec OP_CALL) call" "refines s (a_exec OP_RETURN) ret" "refines s (a_exec OP_SYSCALL) syscall"
  unfolding a_exec_def opcode.case delay_def delay_ms_def jump_def call_def syscall_def
  by (rule refines_halt refines_ret refines_syscall
      refines_fetch_u16 [OF refines_emit] refines_fetch_u16 [OF refines_goto] refines_fetch_u16 [OF refines_call])+

lemma refines_operands:
  "refines s (a_exec OP_POP_U16) pop_U16" "refines s (a_exec OP_POP_F32) pop_F32"
  "refines s (a_exec OP_PUSH_U16) push_U16" "refines s (a_exec OP_PUSH_MILLIS) push_millis"
  "refines s (a_exec OP_NOT_U16) bitwise_not_U16"
  unfolding a_exec_def opcode.case pop_U16_def pop_F32_def push_U16_def push_millis_def bitwise_not_U16_def
  by (intro refines_bind refines_pop_u16 refines_pop_f32 refines_push_u16 refines_return refines_fetch_u16
      refines_cell refines_millis)+

lemma refines_floats:
  "refines s (a_exec OP_ADD_F32) add_F32" "refines s (a_exec OP_SUB_F32) subtract_F32"
  "refines s (a_exec OP_MUL_F32) multiply_F32" "refines s (a_exec OP_DIV_F32) divide_F32"
  unfolding a_exec_def opcode.case add_F32_def subtract_F32_def multiply_F32_def divide_F32_def
  by (intro refines_float; simp add: rep_fields)+

lemmas refines_instructions = refines_literals refines_tops refines_control refines_operands
  refines_floats refines_branch refines_pop_address refines_pop_I16 refines_locals

text \<open>Every instruction implements its abstract counterpart.\<close>

lemma refines_exec [refines_rules]: "refines s (a_exec opc) (execute_op opc)"
proof -
  have "(a_exec opc = a_alu opc) \<or> refines s (a_exec opc) (execute_op opc)"
    by (cases opc) (simp_all add: execute_op_def refines_instructions, simp_all add: a_exec_def)
  with refines_alu show ?thesis by auto
qed

text \<open>A sequence of instructions. The concrete loop ends early on \<open>OP_ASYNC_RETURN\<close>, where the
  abstract machine gives up.\<close>

lemma refines_run: "refines s (a_run n) (run_cycles n)"
proof (induction n)
  case (Suc n)
  have "refines s (bind (a_fetch 1) (\<lambda>w. bind (case opcode_of (w ! 0) of
        None \<Rightarrow> a_emit (Printf ''unknown opcode %d\<newline>'' [AInt (uint (w ! 0))])
      | Some opc \<Rightarrow> a_exec opc) (\<lambda>_. a_run n)))
    (bind (cpu_fetch_data 1) (\<lambda>w. bind (the_init w) (\<lambda>v. bind (cpu_execute (v ! 0)) (\<lambda>_.
      if opcode_of (v ! 0) = Some OP_ASYNC_RETURN then return () else run_cycles n))))"
  proof (rule refines_fetch)
    fix w :: "u8 list"
    show "refines s (bind (case opcode_of (w ! 0) of
          None \<Rightarrow> a_emit (Printf ''unknown opcode %d\<newline>'' [AInt (uint (w ! 0))])
        | Some opc \<Rightarrow> a_exec opc) (\<lambda>_. a_run n))
      (bind (the_init (Some w)) (\<lambda>v. bind (cpu_execute (v ! 0)) (\<lambda>_.
        if opcode_of (v ! 0) = Some OP_ASYNC_RETURN then return () else run_cycles n)))"
    proof (cases "opcode_of (w ! 0) = Some OP_ASYNC_RETURN")
      case True
      have "a_exec OP_ASYNC_RETURN = give_up" by (simp add: a_exec_def a_alu_def alu_def)
      with True show ?thesis by (simp add: refines_give_up)
    next
      case False
      then show ?thesis
        by (cases "opcode_of (w ! 0)")
          (simp_all add: the_init_simps cpu_execute_def refines_bind refines_exec refines_print Suc.IH)
    qed
  qed simp
  then show ?case by (simp add: a_step_def run_instruction_def seq_def bind_assoc Let_def)
qed (simp add: refines_return)

lemma a_run_add: "a_run (m + n) = seq (a_run m) (a_run n)"
  by (induction m) (simp_all add: seq_def bind_assoc)

lemma a_run_stop: "a_run m v = Inl e \<Longrightarrow> m \<le> n \<Longrightarrow> a_run n v = Inl e"
  using a_run_add [of m "n - m"] by (simp add: seq_apply)

end
