(* ===== verification/Word_Vm.thy ===== *)
theory Word_Vm
  imports Refine_Spec Opcode_Spec
begin

text \<open>
  Symbolic execution of programs of 16-bit words on the abstract machine. Compiled programs keep
  words on the operand stack and in local variables at even offsets; such a state is
  \<open>word_state\<close>, and there is one rule per instruction that rewrites a run from it. The sample
  programs are run with these rules.
\<close>

section \<open>States of words\<close>

definition word_image :: "u16 \<Rightarrow> u8 list" where
  "word_image w = rev (bytes_of_u16 w)"

definition words :: "u16 list \<Rightarrow> u8 list" where
  "words ws = concat (map word_image (rev ws))"

text \<open>A variable of two bytes, assigned or not.\<close>

fun slot :: "u16 option \<Rightarrow> locals_image" where
  "slot None = [None, None]"
| "slot (Some w) = map Some (word_image w)"

definition slots :: "u16 option list \<Rightarrow> locals_image" where
  "slots xs = concat (map slot xs)"

text \<open>The operands \<open>ws\<close> have their top first and lie on those of \<open>v\<close>; the frames \<open>fs\<close> are those
  above the callers of \<open>v\<close>.\<close>

definition word_state :: "vm \<Rightarrow> nat \<Rightarrow> u16 list \<Rightarrow> u16 option list \<Rightarrow> (u16 \<times> u16 option list) list \<Rightarrow> vm" where
  "word_state v i ws xs fs = v\<lparr>v_ip := of_nat i, v_ops := v_ops v @ words ws, v_locals := slots xs,
     v_callers := map (\<lambda>(a, ys). (a, slots ys)) fs @ v_callers v\<rparr>"

lemma length_word_image [simp]: "length (word_image w) = 2"
  by (simp add: word_image_def)

lemma words_simps [simp]: "words [] = []" "words (w # ws) = words ws @ word_image w"
  by (simp_all add: words_def)

lemma length_words [simp]: "length (words ws) = 2 * length ws"
  by (induction ws) simp_all

lemma length_slot [simp]: "length (slot x) = 2"
  by (cases x) simp_all

lemma slots_simps [simp]: "slots [] = []" "slots (x # xs) = slot x @ slots xs"
    "slots (xs @ ys) = slots xs @ slots ys"
  by (simp_all add: slots_def)

lemma length_slots [simp]: "length (slots xs) = 2 * length xs"
  by (induction xs) simp_all

lemma slots_nth:
  assumes "j < length xs"
  shows "take 2 (drop (2 * j) (slots xs)) = slot (xs ! j)"
  using assms
proof (induction xs arbitrary: j)
  case (Cons x xs)
  then show ?case by (cases j) simp_all
qed simp

lemma slots_update:
  assumes "j < length xs"
  shows "take (2 * j) (slots xs) @ slot x @ drop (Suc (Suc (2 * j))) (slots xs) = slots (xs[j := x])"
  using assms
proof (induction xs arbitrary: j)
  case (Cons y xs)
  then show ?case by (cases j) simp_all
qed simp

text \<open>The bytes of the call stack in use.\<close>

fun frames_size :: "(u16 \<times> u16 option list) list \<Rightarrow> nat" where
  "frames_size [] = 0"
| "frames_size ((a, ys) # fs) = 2 * length ys + 4 + frames_size fs"

lemma base_of_words [simp]:
  "base_of (map (\<lambda>(a, ys). (a, slots ys)) fs @ gs) = frames_size fs + base_of gs"
  by (induction fs rule: frames_size.induct) simp_all

section \<open>Fetching\<close>

definition fits :: "vm \<Rightarrow> nat \<Rightarrow> bool" where
  "fits v i \<longleftrightarrow> i \<le> length (v_prog v) \<and> length (v_prog v) < 65536"

definition u16_at :: "vm \<Rightarrow> nat \<Rightarrow> u16" where
  "u16_at v i = u16_of_bytes [v_prog v ! i, v_prog v ! (i + 1)]"

definition op_at :: "vm \<Rightarrow> nat \<Rightarrow> opcode \<Rightarrow> bool" where
  "op_at v i opc \<longleftrightarrow> opcode_of (v_prog v ! i) = Some opc"

definition moved :: "nat \<Rightarrow> vm \<Rightarrow> vm" where
  "moved i v = v\<lparr>v_ip := of_nat i\<rparr>"

lemma fetch_at:
  assumes "v_ip t = of_nat i" and "fits v (i + n)" and "v_prog t = v_prog v" and "0 < n"
  shows "a_fetch n t = Inr (take n (drop i (v_prog v)), moved (i + n) t)"
proof -
  have "unat (of_nat i :: u16) = i" using assms by (simp add: fits_def unat_of_nat)
  moreover have "\<not> length (v_prog v) - i < n" "drop i (v_prog v) \<noteq> []" using assms by (auto simp: fits_def)
  ultimately show ?thesis using assms(1,3) by (simp add: a_fetch_def st_simps moved_def)
qed

lemma fetch_u16_at:
  assumes "v_ip t = of_nat i" and "fits v (i + 2)" and "v_prog t = v_prog v"
  shows "a_fetch_u16 t = Inr (u16_at v i, moved (i + 2) t)"
proof -
  from assms have "i + 1 < length (v_prog v)" by (simp add: fits_def)
  then have "take 2 (drop i (v_prog v)) = [v_prog v ! i, v_prog v ! (i + 1)]"
    by (simp add: numeral_2_eq_2 Cons_nth_drop_Suc [symmetric])
  with fetch_at [OF assms] show ?thesis by (simp add: a_fetch_u16_def st_simps u16_at_def)
qed

lemma run_at:
  assumes "v_ip t = of_nat i" and "fits v (i + 1)" and "v_prog t = v_prog v" and "op_at v i opc" and "0 < k"
  shows "a_run k t = seq (a_exec opc) (a_run (k - 1)) (moved (i + 1) t)"
proof -
  obtain j where j: "k = Suc j" using assms(5) gr0_conv_Suc by auto
  from assms(2) have "i < length (v_prog v)" by (simp add: fits_def)
  then have "take 1 (drop i (v_prog v)) = [v_prog v ! i]" by (simp add: Cons_nth_drop_Suc [symmetric])
  then have "a_step t = a_exec opc (moved (i + 1) t)"
    using assms(4) fetch_at [OF assms(1-3)] by (simp add: a_step_def st_simps op_at_def)
  then show ?thesis by (simp add: j seq_apply)
qed

lemma word_state_fields [simp]:
  "v_ip (word_state v i ws xs fs) = of_nat i" "v_prog (word_state v i ws xs fs) = v_prog v"
  "moved j (word_state v i ws xs fs) = word_state v j ws xs fs"
  by (simp_all add: word_state_def moved_def)

lemma fetch_u16_word_state:
  "fits v (i + 2) \<Longrightarrow> a_fetch_u16 (word_state v i ws xs fs) = Inr (u16_at v i, word_state v (i + 2) ws xs fs)"
  using fetch_u16_at [of "word_state v i ws xs fs" i v] by simp

lemma run_op:
  "op_at v i opc \<Longrightarrow> fits v (i + 1) \<Longrightarrow> 0 < k \<Longrightarrow>
   a_run k (word_state v i ws xs fs) = seq (a_exec opc) (a_run (k - 1)) (word_state v (i + 1) ws xs fs)"
  using run_at [of "word_state v i ws xs fs" i v opc k] by simp

lemma op_at_iff: "op_at v i opc \<longleftrightarrow> v_prog v ! i = opcode_number opc"
  by (simp add: op_at_def opcode_of_Some)

lemma opcode_numbers:
  "opcode_number OP_HALT = 0" "opcode_number OP_POP_JUMP_IF_FALSE = 3" "opcode_number OP_COMPARE_EQ = 4"
  "opcode_number OP_COMPARE_GT = 6" "opcode_number OP_COMPARE_GE = 8" "opcode_number OP_CALL = 9"
  "opcode_number OP_RETURN = 10" "opcode_number OP_SYSCALL = 11" "opcode_number OP_PUSHL_U16 = 14"
  "opcode_number OP_TOP_U16 = 16" "opcode_number OP_ADD_U16 = 17" "opcode_number OP_ALLOC_LOCAL = 23"
  "opcode_number OP_PUSH_LOCAL = 24" "opcode_number OP_POP_LOCAL = 25"
  by (simp_all add: opcode_number_def opcodes_def)

section \<open>Operands\<close>

lemma pop_u16_word_state:
  "a_pop_u16 (word_state v i (w # ws) xs fs) = Inr (w, word_state v i ws xs fs)"
  by (simp add: a_pop_u16_def a_pop_def st_simps word_state_def word_image_def)

lemma pop_word_state:
  "a_pop 2 (word_state v i (w # ws) xs fs) = Inr (bytes_of_u16 w, word_state v i ws xs fs)"
  by (simp add: a_pop_def st_simps word_state_def word_image_def)

definition room :: "vm \<Rightarrow> u16 list \<Rightarrow> bool" where
  "room v ws \<longleftrightarrow> length (v_ops v) + 2 * length ws + 2 \<le> v_ops_size v"

lemma push_word_state:
  assumes "room v ws"
  shows "a_push_u16 w (word_state v i ws xs fs) = Inr ((), word_state v i (w # ws) xs fs)"
    "a_push (bytes_of_u16 w) (word_state v i ws xs fs) = Inr ((), word_state v i (w # ws) xs fs)"
  using assms by (simp_all add: a_push_u16_def a_push_def st_simps word_state_def room_def word_image_def)

section \<open>One rule per instruction\<close>

named_theorems run_rules

lemma run_literal [run_rules]:
  assumes "op_at v i OP_PUSHL_U16" and "0 < k" and "fits v (i + 3)" and "room v ws"
  shows "a_run k (word_state v i ws xs fs) = a_run (k - 1) (word_state v (i + 3) (u16_at v (i + 1) # ws) xs fs)"
  using assms fetch_u16_word_state [of v "i + 1" ws xs fs] push_word_state [of v ws "u16_at v (i + 1)" "i + 3" xs fs]
  by (simp add: run_op fits_def a_exec_def st_simps numeral_3_eq_3)

lemma run_alu [run_rules]:
  assumes "op_at v i opc" and "0 < k" and "fits v (i + 1)" and "room v ws"
    and "alu opc a b = Some (Inr (bytes_of_u16 c))" "alu opc 0 0 \<noteq> None" "a_exec opc = a_alu opc"
  shows "a_run k (word_state v i (b # a # ws) xs fs) = a_run (k - 1) (word_state v (i + 1) (c # ws) xs fs)"
  using assms(1-6) unfolding run_op [OF assms(1,3,2)] assms(7)
  by (auto simp: a_alu_def st_simps pop_u16_word_state push_word_state)

lemma run_add [run_rules]:
  assumes "op_at v i OP_ADD_U16" and "0 < k" and "fits v (i + 1)" and "room v ws"
  shows "a_run k (word_state v i (b # a # ws) xs fs) = a_run (k - 1) (word_state v (i + 1) ((a + b) # ws) xs fs)"
  using assms(1-4) by (rule run_alu) (simp_all add: alu_def a_exec_def)

text \<open>A comparison leaves a flag on top of the operands; the jump pops it.\<close>

definition flag_state :: "vm \<Rightarrow> nat \<Rightarrow> bool \<Rightarrow> u16 list \<Rightarrow> u16 option list \<Rightarrow> (u16 \<times> u16 option list) list \<Rightarrow> vm" where
  "flag_state v i c ws xs fs = (word_state v i ws xs fs)
     \<lparr>v_ops := v_ops v @ words ws @ [if c then 1 else 0]\<rparr>"

lemma flag_state_fields [simp]:
  "v_ip (flag_state v i c ws xs fs) = of_nat i" "v_prog (flag_state v i c ws xs fs) = v_prog v"
  "moved j (flag_state v i c ws xs fs) = flag_state v j c ws xs fs"
  by (simp_all add: flag_state_def word_state_def moved_def)

lemma run_compare:
  assumes "op_at v i opc" and "0 < k" and "fits v (i + 1)" and "room v ws"
    and "alu opc a b = Some (Inr [if c then 1 else 0])" "alu opc 0 0 \<noteq> None" "a_exec opc = a_alu opc"
  shows "a_run k (word_state v i (b # a # ws) xs fs) = a_run (k - 1) (flag_state v (i + 1) c ws xs fs)"
proof -
  have "a_push [if c then 1 else 0] (word_state v (i + 1) ws xs fs) = Inr ((), flag_state v (i + 1) c ws xs fs)"
    using assms(4) by (simp add: a_push_def st_simps room_def flag_state_def word_state_def)
  with assms(1-6) show ?thesis unfolding run_op [OF assms(1,3,2)] assms(7)
    by (auto simp: a_alu_def st_simps pop_u16_word_state)
qed

lemma run_branch [run_rules]:
  assumes "op_at v i OP_POP_JUMP_IF_FALSE" and "0 < k" and "fits v (i + 3)"
  shows "a_run k (flag_state v i c ws xs fs)
    = a_run (k - 1) (word_state v (if c then i + 3 else unat (u16_at v (i + 1))) ws xs fs)"
proof -
  have fits: "fits v (i + 1)" "fits v (i + 1 + 2)" using assms(3) by (auto simp: fits_def)
  have pop: "a_pop (Suc 0) (flag_state v j c ws xs fs) = Inr ([if c then 1 else 0], word_state v j ws xs fs)" for j
    by (simp add: a_pop_def st_simps flag_state_def word_state_def)
  have flag: "bool_of_bytes [if c then 1 else 0] t = Inr (c, t)" for t :: vm
    by (simp add: bool_of_bytes_def st_simps)
  have goto: "a_goto a (word_state v j ws xs fs) = Inr ((), word_state v (unat a) ws xs fs)" for a j
    by (simp add: a_goto_def st_simps word_state_def)
  show ?thesis
    using run_at [OF _ fits(1) _ assms(1,2), of "flag_state v i c ws xs fs"]
      fetch_u16_at [OF _ fits(2), of "flag_state v (i + 1) c ws xs fs"]
    by (simp add: a_exec_def st_simps pop flag goto numeral_3_eq_3)
qed

lemma sint_eq: "sint (a :: u16) = sint b \<longleftrightarrow> a = b"
  using signed_word_eqI by blast

lemma run_compare_eq [run_rules]:
  "op_at v i OP_COMPARE_EQ \<Longrightarrow> 0 < k \<Longrightarrow> fits v (i + 1) \<Longrightarrow> room v ws \<Longrightarrow>
   a_run k (word_state v i (b # a # ws) xs fs) = a_run (k - 1) (flag_state v (i + 1) (a = b) ws xs fs)"
  by (rule run_compare [where opc = OP_COMPARE_EQ]) (simp_all add: alu_def a_exec_def sint_eq)

lemma run_compare_gt [run_rules]:
  "op_at v i OP_COMPARE_GT \<Longrightarrow> 0 < k \<Longrightarrow> fits v (i + 1) \<Longrightarrow> room v ws \<Longrightarrow>
   a_run k (word_state v i (b # a # ws) xs fs) = a_run (k - 1) (flag_state v (i + 1) (sint b < sint a) ws xs fs)"
  by (rule run_compare [where opc = OP_COMPARE_GT]) (simp_all add: alu_def a_exec_def)

lemma run_compare_ge [run_rules]:
  "op_at v i OP_COMPARE_GE \<Longrightarrow> 0 < k \<Longrightarrow> fits v (i + 1) \<Longrightarrow> room v ws \<Longrightarrow>
   a_run k (word_state v i (b # a # ws) xs fs) = a_run (k - 1) (flag_state v (i + 1) (sint b \<le> sint a) ws xs fs)"
  by (rule run_compare [where opc = OP_COMPARE_GE]) (simp_all add: alu_def a_exec_def)

subsection \<open>Local variables\<close>

definition depth_of :: "vm \<Rightarrow> u16 option list \<Rightarrow> (u16 \<times> u16 option list) list \<Rightarrow> nat" where
  "depth_of v xs fs = frames_size fs + base_of (v_callers v) + 2 * length xs"

lemma depth_word_state [simp]: "depth (word_state v i ws xs fs) = depth_of v xs fs"
  by (simp add: depth_def depth_of_def word_state_def)

text \<open>The allocation of a variable of two bytes. It is not checked against the size of the call stack.\<close>

lemma run_alloc [run_rules]:
  assumes "op_at v i OP_ALLOC_LOCAL" and "0 < k" and "fits v (i + 3)" and "depth_of v xs fs < 65530"
  shows "a_run k (word_state v i (2 # ws) xs fs) = a_run (k - 1) (word_state v (i + 3) ws (xs @ [None]) fs)"
proof -
  have fits: "fits v (i + 1)" "fits v (i + 1 + 2)" using assms(3) by (auto simp: fits_def)
  have "a_alloc 2 (word_state v (i + 3) ws xs fs) = Inr ((), word_state v (i + 3) ws (xs @ [None]) fs)"
    using assms(4) by (simp add: a_alloc_def st_simps) (simp add: word_state_def numeral_2_eq_2)
  with fits assms show ?thesis
    by (simp add: run_op a_exec_def st_simps pop_u16_word_state fetch_u16_word_state numeral_3_eq_3)
qed

lemma run_read [run_rules]:
  assumes "op_at v i OP_PUSH_LOCAL" and "0 < k" and "fits v (i + 1)" and "room v ws"
    and "2 * (unat address div 2) = unat address" and "unat address div 2 < length xs"
    and "xs ! (unat address div 2) \<noteq> None"
  shows "a_run k (word_state v i (address # 2 # ws) xs fs)
    = a_run (k - 1) (word_state v (i + 1) (the (xs ! (unat address div 2)) # ws) xs fs)"
proof -
  let ?j = "unat address div 2"
  obtain w where w: "xs ! ?j = Some w" using assms(7) by auto
  have "take 2 (drop (unat address) (slots xs)) = map Some (word_image w)"
    using slots_nth [OF assms(6)] w assms(5) by simp
  then have "a_read 2 address (word_state v (i + 1) ws xs fs) = Inr (bytes_of_u16 w, word_state v (i + 1) ws xs fs)"
    by (auto simp: a_read_def st_simps word_state_def word_image_def comp_def)
  with assms w show ?thesis
    by (simp add: run_op a_exec_def st_simps pop_u16_word_state push_word_state)
qed

text \<open>The read of several variables at once.\<close>

lemma slots_Some: "slots (map Some ws) = map Some (words (rev ws))"
  by (induction ws) (simp_all add: words_def slots_def)

lemma take_drop_slots: "take (2 * m) (drop (2 * j) (slots xs)) = slots (take m (drop j xs))"
proof (induction xs arbitrary: m j)
  case (Cons x xs)
  show ?case
  proof (cases j)
    case 0
    with Cons.IH [of "m - 1" 0] show ?thesis by (cases m) simp_all
  next
    case (Suc i)
    with Cons.IH [of m i] show ?thesis by simp
  qed
qed simp

lemma words_append: "words (vs @ ws) = words ws @ words vs"
  by (simp add: words_def)

lemma run_read_many:
  assumes "op_at v i OP_PUSH_LOCAL" and "0 < k" and "fits v (i + 1)" and "room v (vs @ ws)"
    and "unat address = 2 * j" "unat n = 2 * length vs" "0 < length vs" "length vs \<le> 4"
    and "take (length vs) (drop j xs) = map Some (rev vs)"
  shows "a_run k (word_state v i (address # n # ws) xs fs) = a_run (k - 1) (word_state v (i + 1) (vs @ ws) xs fs)"
proof -
  have "take (unat n) (drop (unat address) (slots xs)) = map Some (words vs)"
    using take_drop_slots [of "length vs" j xs] slots_Some [of "rev vs"] assms(5,6,9) by simp
  then have "a_read n address (word_state v (i + 1) ws xs fs) = Inr (rev (words vs), word_state v (i + 1) ws xs fs)"
    using assms(6,7) length_words [of vs] by (auto simp: a_read_def st_simps word_state_def comp_def simp del: length_words)
  moreover have "a_push (rev (words vs)) (word_state v (i + 1) ws xs fs) = Inr ((), word_state v (i + 1) (vs @ ws) xs fs)"
    using assms(4) by (simp add: a_push_def st_simps word_state_def room_def words_append)
  ultimately show ?thesis using assms
    by (simp add: run_op a_exec_def st_simps pop_u16_word_state)
qed

text \<open>A store. The second rule is a variable that the unchecked allocation put beyond the end
  of the call stack.\<close>

lemma store_word_state:
  assumes "op_at v i OP_POP_LOCAL" and "0 < k" and "fits v (i + 1)"
    and "2 * (unat address div 2) = unat address" and "unat address div 2 < length xs"
  shows "a_run k (word_state v i (address # 2 # w # ws) xs fs)
    = seq (a_write (bytes_of_u16 w) address) (a_run (k - 1)) (word_state v (i + 1) ws xs fs)"
  using assms by (simp add: run_op a_exec_def st_simps pop_u16_word_state pop_word_state)

lemma run_store [run_rules]:
  assumes "op_at v i OP_POP_LOCAL" and "0 < k" and "fits v (i + 1)"
    and "2 * (unat address div 2) = unat address" and "unat address div 2 < length xs"
    and "depth_of v xs fs \<le> v_calls_size v"
  shows "a_run k (word_state v i (address # 2 # w # ws) xs fs)
    = a_run (k - 1) (word_state v (i + 1) ws (xs[unat address div 2 := Some w]) fs)"
proof -
  let ?j = "unat address div 2"
  have "take (unat address) (slots xs) @ map Some (rev (bytes_of_u16 w)) @ drop (unat address + 2) (slots xs)
      = slots (xs[?j := Some w])"
    using slots_update [OF assms(5), of "Some w"] assms(4) by (simp add: word_image_def)
  then have "a_write (bytes_of_u16 w) address (word_state v (i + 1) ws xs fs)
      = Inr ((), word_state v (i + 1) ws (xs[?j := Some w]) fs)"
    using assms(4-6) by (auto simp: a_write_def Let_def depth_of_def) (auto simp: word_state_def)
  then show ?thesis by (simp add: store_word_state [OF assms(1-5)] seq_apply)
qed

lemma run_store_overflow:
  assumes "op_at v i OP_POP_LOCAL" and "0 < k" and "fits v (i + 1)"
    and "2 * (unat address div 2) = unat address" and "unat address div 2 < length xs"
    and "v_calls_size v < depth_of v [] fs + unat address + 2"
  shows "\<exists>t. a_run k (word_state v i (address # 2 # w # ws) xs fs) = Inl (ExitFailure, t) \<and> v_out t = v_out v"
  using assms(4-6) unfolding store_word_state [OF assms(1-5)] seq_apply
  by (auto simp: a_write_def Let_def depth_of_def word_state_def)

subsection \<open>Calls, returns, output and the end\<close>

lemma run_call_words [run_rules]:
  assumes "op_at v i OP_CALL" and "0 < k" and "fits v (i + 3)" and "depth_of v xs fs + 4 \<le> v_calls_size v"
  shows "a_run k (word_state v i ws xs fs)
    = a_run (k - 1) (word_state v (unat (u16_at v (i + 1))) ws [] ((of_nat (i + 3), xs) # fs))"
proof -
  have fits: "fits v (i + 1)" "fits v (i + 1 + 2)" using assms(3) by (auto simp: fits_def)
  have "a_call a (word_state v (i + 1 + 2) ws xs fs)
      = Inr ((), word_state v (unat a) ws [] ((of_nat (i + 1 + 2), xs) # fs))" for a
    using assms(4) by (simp add: a_call_def st_simps) (simp add: word_state_def)
  with fits assms(1,2) show ?thesis
    by (simp add: run_op a_exec_def st_simps fetch_u16_word_state numeral_3_eq_3)
qed

lemma run_return [run_rules]:
  assumes "op_at v i OP_RETURN" and "0 < k" and "fits v (i + 1)"
  shows "a_run k (word_state v i ws xs ((a, ys) # fs)) = a_run (k - 1) (word_state v (unat a) ws ys fs)"
proof -
  have "a_return (word_state v (i + 1) ws xs ((a, ys) # fs)) = Inr ((), word_state v (unat a) ws ys fs)"
    by (simp add: a_return_def st_simps word_state_def)
  with assms show ?thesis by (simp add: run_op a_exec_def st_simps)
qed

lemma run_halt [run_rules]:
  assumes "op_at v i OP_HALT" and "0 < k" and "fits v (i + 1)"
  shows "a_run k (word_state v i ws xs fs) = Inl (ExitSuccess, word_state v (i + 1) ws xs fs)"
  using assms by (simp add: run_op a_exec_def st_simps)

definition said :: "vm \<Rightarrow> event list \<Rightarrow> vm" where
  "said v es = v\<lparr>v_out := v_out v @ es\<rparr>"

lemma said_fields [simp]:
  "v_prog (said v es) = v_prog v" "v_data (said v es) = v_data v" "v_out (said v es) = v_out v @ es"
  "v_calls_size (said v es) = v_calls_size v" "v_callers (said v es) = v_callers v"
  "op_at (said v es) = op_at v" "u16_at (said v es) = u16_at v" "fits (said v es) = fits v"
  "room (said v es) = room v" "depth_of (said v es) = depth_of v" "said (said v es) gs = said v (es @ gs)"
  "said v [] = v"
  by (simp_all add: said_def fun_eq_iff op_at_def u16_at_def fits_def room_def depth_of_def)

lemma emit_word_state [simp]:
  "a_emit e (word_state v i ws xs fs) = Inr ((), word_state (said v [e]) i ws xs fs)"
  by (cases v) (simp add: a_emit_def st_simps word_state_def said_def)

lemma run_top [run_rules]:
  assumes "op_at v i OP_TOP_U16" and "0 < k" and "fits v (i + 1)"
  shows "a_run k (word_state v i (w # ws) xs fs)
    = a_run (k - 1) (word_state (said v [Printf ''%hu\<newline>'' [AInt (uint w)]]) (i + 1) (w # ws) xs fs)"
proof -
  have "a_top 2 (word_state v (i + 1) (w # ws) xs fs) = Inr (bytes_of_u16 w, word_state v (i + 1) (w # ws) xs fs)"
    by (simp add: a_top_def st_simps) (simp add: word_state_def word_image_def)
  with assms show ?thesis
    by (simp add: run_op a_exec_def st_simps)
qed

text \<open>Printing a format of the program's data.\<close>

lemma run_print [run_rules]:
  assumes "op_at v i OP_SYSCALL" and "0 < k" and "fits v (i + 3)" and "u16_at v (i + 1) = 0"
    and "program_suffix (v_prog v) (uint (v_data v) + uint address - 3) = Some cs"
    and "a_format cs (word_state v (i + 3) ws xs fs) = Inr ((), word_state w j vs ys gs)"
  shows "a_run k (word_state v i (address # ws) xs fs) = a_run (k - 1) (word_state w j vs ys gs)"
proof -
  have fits: "fits v (i + 1)" "fits v (i + 1 + 2)" using assms(3) by (auto simp: fits_def)
  have "v_data (word_state v j ws xs fs) = v_data v" for j ws by (simp add: word_state_def)
  with fits assms show ?thesis
    by (simp add: run_op a_exec_def st_simps fetch_u16_word_state pop_u16_word_state a_syscall_def
        a_data_def in_bounds_def numeral_3_eq_3)
qed

section \<open>Running a given program\<close>

text \<open>The facts with which a run of a given program is computed.\<close>

lemma u16_of_literal: "u16_of_bytes [ucast n, ucast (drop_bit 8 n)] = n"
  using u16_of_bytes_of_u16 [of n] by (simp add: bytes_of_u16_def)

lemma u16_of_small: "u16_of_bytes [b, 0] = ucast b"
  by (simp add: u16_of_bytes_def)

lemmas execution = run_rules op_at_iff opcode_numbers u16_at_def u16_of_literal u16_of_small
  fits_def room_def depth_of_def

end
