(* ===== verification/Whole_Spec.thy ===== *)
theory Whole_Spec
  imports Word_Vm Typing_Spec
begin

text \<open>
  The whole machine with one task implements the abstract machine: start-up, time slices, the
  context switch between them, and \<open>HALT\<close>, for any number of rounds.
\<close>

section \<open>Time slices\<close>

lemma rep_start:
  assumes "rep s v t"
  shows "rep t v t"
proof -
  obtain a b k l where r: "cpu_opstack s = Ptr a" "cpu_stack s = Ptr b" "a \<noteq> b"
    "t = s\<lparr>out := v_out v, stacks := (stacks s)(a \<mapsto> k, b \<mapsto> l), port_regs := v_ports v,
       clock_reads := v_clock v, cpu_ip := v_ip v\<rparr>"
    "stack_ok k" "contents k = v_ops v" "unat (stk_size k) = v_ops_size v"
    "calls_at (v_locals v) (v_callers v) l" "unat (stk_size l) = v_calls_size v"
    using assms by (auto simp: rep_def rep_at_def)
  have same: "(stacks t)(a \<mapsto> k, b \<mapsto> l) = stacks t" using r(3,4) by simp
  have "rep_at a b t v t"
    unfolding rep_at_def same using r by (intro exI [of _ k] exI [of _ l]) simp
  moreover have "cpu_opstack t = Ptr a" "cpu_stack t = Ptr b" using r by simp_all
  moreover have "surroundings t v"
    using rep_fields [OF assms] r
    by (simp add: surroundings_def opstack_capacity_def opstack_addr_def stack_at_def)
  ultimately show ?thesis using r(3) unfolding rep_def by blast
qed

lemma rep_lone:
  assumes "lone m d s" and "rep s v t"
  shows "lone m d t"
proof -
  obtain a b k l where r: "cpu_opstack s = Ptr a" "cpu_stack s = Ptr b" "a \<noteq> b"
    "t = s\<lparr>out := v_out v, stacks := (stacks s)(a \<mapsto> k, b \<mapsto> l), port_regs := v_ports v,
       clock_reads := v_clock v, cpu_ip := v_ip v\<rparr>"
    "unat (stk_size k) = v_ops_size v" "unat (stk_size l) = v_calls_size v" "surroundings s v"
    using assms(2) by (auto simp: rep_def rep_at_def)
  have ab: "a = m + 5" "b = m + 7" using assms(1) r(1,2) by (simp_all add: lone_def)
  have "unat (stk_size k) = 1024" "unat (stk_size l) = 4096"
    using assms(1) r(2,5-7) ab by (auto simp: surroundings_def lone_def stack_at_def)
  then have "unat (stk_size k) = 1024" "stk_size l = 4096" by (simp_all add: word_unat_eq_iff)
  with assms(1) show ?thesis
    unfolding r(4) ab by (auto simp: lone_def opstack_capacity_def opstack_addr_def stack_at_def)
qed

text \<open>The switch at the start of the next slice.\<close>

lemma rep_switch:
  assumes "lone m d s" and "rep s v s"
  shows "\<exists>u. cpu_run_cycle (Ptr (m + 9)) s = run_cycles 255 u \<and> lone m d u \<and> rep u v u"
proof -
  obtain u where u: "cpu_run_cycle (Ptr (m + 9)) s = run_cycles 255 u" "lone m d u"
      "u = s\<lparr>accepts := accepts u, tasks := tasks u\<rparr>"
    by (rule lone_switch [OF assms(1)])
  obtain a b k l where r: "cpu_opstack s = Ptr a" "cpu_stack s = Ptr b" "a \<noteq> b"
      "s = s\<lparr>out := v_out v, stacks := (stacks s)(a \<mapsto> k, b \<mapsto> l), port_regs := v_ports v,
         clock_reads := v_clock v, cpu_ip := v_ip v\<rparr>"
      "stack_ok k" "contents k = v_ops v" "unat (stk_size k) = v_ops_size v"
      "calls_at (v_locals v) (v_callers v) l" "unat (stk_size l) = v_calls_size v" "surroundings s v"
    using assms(2) by (auto simp: rep_def rep_at_def)
  have fields: "cpu_opstack w = Ptr a" "cpu_stack w = Ptr b" "surroundings w v"
    "w = w\<lparr>out := v_out v, stacks := (stacks w)(a \<mapsto> k, b \<mapsto> l), port_regs := v_ports v,
       clock_reads := v_clock v, cpu_ip := v_ip v\<rparr>" if w: "w = s\<lparr>accepts := n, tasks := h\<rparr>" for w n h
  proof -
    show "cpu_opstack w = Ptr a" "cpu_stack w = Ptr b" using r(1,2) by (simp_all add: w)
    show "surroundings w v"
      using r(10) by (simp add: w surroundings_def has_bank_def opstack_capacity_def opstack_addr_def stack_at_def)
    have "(stacks s)(a \<mapsto> k, b \<mapsto> l) = stacks s" using arg_cong [OF r(4), of stacks] by simp
    then show "w = w\<lparr>out := v_out v, stacks := (stacks w)(a \<mapsto> k, b \<mapsto> l), port_regs := v_ports v,
       clock_reads := v_clock v, cpu_ip := v_ip v\<rparr>"
      using rep_fields(1-4) [OF assms(2)] by (simp add: w)
  qed
  from fields [OF u(3)] r(3,5-9) have "rep u v u"
    unfolding rep_def rep_at_def by (intro conjI exI [of _ a] exI [of _ b] exI [of _ k] exI [of _ l])
  with u(1,2) show ?thesis by blast
qed

section \<open>Rounds\<close>

text \<open>How a run that began with the abstract state \<open>v\<close> ends.\<close>

definition simulates :: "nat \<Rightarrow> u16 \<Rightarrow> (stop \<times> vm) + (unit \<times> vm)
  \<Rightarrow> (stop \<times> 'z cpu_scheme) + (unit \<times> 'z cpu_scheme) \<Rightarrow> bool" where
  "simulates m d r c \<longleftrightarrow> (case r of
     Inr (_, v) \<Rightarrow> \<exists>t. c = Inr ((), t) \<and> lone m d t \<and> rep t v t
   | Inl (w, v) \<Rightarrow> w = OutOfFuel \<or> (\<exists>t es. c = Inl (w, t) \<and> out t = v_out v @ es
       \<and> (w = ExitSuccess \<longrightarrow> es = [Printf ''Exit\<newline>'' []] \<and> dynamic_memory_usage t = d - 5355)))"

lemma cycles_simulate:
  assumes "lone m d s" and "rep s v s"
  shows "simulates m d (a_run n v) (run_cycles n s)"
proof -
  note run = refinesD [OF refines_run assms(2), of n]
  show ?thesis
  proof (cases "a_run n v")
    case (Inl e)
    then obtain w v' where e: "a_run n v = Inl (w, v')" by (cases e) simp
    show ?thesis
    proof (cases "w = ExitSuccess")
      case True
      with run e obtain t e where t: "rep s v' t" "halt t = Inl e" "run_cycles n s = Inl e"
        by (auto simp: agrees_def)
      obtain u where "execute_op OP_HALT t = Inl (ExitSuccess, u)" "dynamic_memory_usage u = d - 5355"
          "out u = out t @ [Printf ''Exit\<newline>'' []]"
        using halt_lone [OF rep_lone [OF assms(1) t(1)] rep_fields(14) [OF t(1)]] by blast
      with t e True rep_fields(4) [OF t(1)] show ?thesis by (auto simp: simulates_def execute_op_def)
    next
      case False
      with run e show ?thesis by (auto simp: simulates_def agrees_def)
    qed
  next
    case (Inr r)
    with run rep_lone [OF assms(1)] rep_start show ?thesis
      by (cases r) (auto simp: simulates_def agrees_def)
  qed
qed

lemma slice_simulates:
  assumes "lone m d s" and "rep s v s"
  shows "simulates m d (a_run 255 v) (cpu_run_cycle (Ptr (m + 9)) s)"
  using rep_switch [OF assms] cycles_simulate by fastforce

text \<open>The abstract run of \<open>m + n\<close> instructions, from the result of the first \<open>m\<close>.\<close>

lemma simulates_seq:
  assumes "simulates m d r c" and "\<And>v t. lone m d t \<Longrightarrow> rep t v t \<Longrightarrow> simulates m d (A v) (C t)"
  shows "simulates m d (case r of Inl e \<Rightarrow> Inl e | Inr (_, v) \<Rightarrow> A v)
    (case c of Inl e \<Rightarrow> Inl e | Inr (_, t) \<Rightarrow> C t)"
  using assms by (auto simp: simulates_def [of _ _ r] split: sum.splits prod.splits) (auto simp: simulates_def)

lemma rounds_simulate:
  assumes "lone m d s" and "rep s v s"
  shows "simulates m d (a_run (255 * n) v) (cpu_run (Suc (Suc fuel)) n s)"
  using assms
proof (induction n arbitrary: s v)
  case (Suc n)
  have round: "simulates m d (a_run 255 v) (cpu_round (Suc (Suc fuel)) s)"
  proof -
    have "simulates m d (Inr ((), v')) (traverse_children (Suc fuel) (Ptr (m + 9)) 0 cpu_run_cycle t)"
      if "lone m d t" "rep t v' t" for v' t
      unfolding lone_round(2) [OF that(1)] using that by (simp add: simulates_def)
    from simulates_seq [OF slice_simulates [OF Suc.prems], of "\<lambda>v. Inr ((), v)", OF this]
    have "simulates m d (case a_run 255 v of Inl e \<Rightarrow> Inl e | Inr (_, v) \<Rightarrow> Inr ((), v))
      (cpu_round (Suc (Suc fuel)) s)" unfolding lone_round(1) [OF Suc.prems(1)] seq_apply .
    moreover have "(case a_run 255 v of Inl e \<Rightarrow> Inl e | Inr (_, v) \<Rightarrow> Inr ((), v)) = a_run 255 v"
      by (auto split: sum.split)
    ultimately show ?thesis by simp
  qed
  have "a_run (255 * Suc n) = seq (a_run 255) (a_run (255 * n))"
    using a_run_add [of 255 "255 * n"] by simp
  with simulates_seq [OF round, of "a_run (255 * n)" "cpu_run (Suc (Suc fuel)) n"] Suc.IH
  show ?case by (simp add: st_simps)
qed (auto simp: simulates_def st_simps)

section \<open>From the start\<close>

text \<open>The abstract machine that \<open>main\<close> starts, on a host in the state \<open>s\<close>.\<close>

definition a_start :: "u8 list \<Rightarrow> u16 \<Rightarrow> 'z cpu_scheme \<Rightarrow> vm" where
  "a_start prog d s = \<lparr>v_ip = 0, v_ops = [], v_locals = [], v_callers = [], v_ports = port_regs s,
     v_clock = clock_reads s, v_out = out s @ [Printf ''Starting VM\<newline>'' []], v_prog = prog,
     v_data = d, v_ops_size = 1024, v_calls_size = 4096, v_memory = dynamic_memory_usage s + 5404,
     v_time = env_time s, v_add = f32_add s, v_sub = f32_sub s, v_mul = f32_mul s, v_div = f32_div s\<rparr>"

lemma fresh_rep:
  assumes "fresh_machine m prog n d u" and "length prog = unat n" and "untouched s u"
    and "out u = out s @ [Printf ''Starting VM\<newline>'' []]"
    and "dynamic_memory_usage u = dynamic_memory_usage s + 5404"
  shows "rep u (a_start prog d s) u"
proof -
  let ?v = "a_start prog d s"
  have u: "cpu_opstack u = Ptr (m + 5)" "stacks u (m + 5) = Some (empty_stack 1024)"
    "cpu_stack u = Ptr (m + 7)" "stacks u (m + 7) = Some (empty_stack 4096)" "cpu_ip u = 0"
    using assms(1) by (simp_all add: fresh_machine_def)
  have same: "(stacks u)(m + 5 \<mapsto> empty_stack 1024, m + 7 \<mapsto> empty_stack 4096) = stacks u"
    using u(2,4) by (simp add: fun_upd_idem)
  have eq: "u = u\<lparr>out := v_out ?v, stacks := (stacks u)(m + 5 \<mapsto> empty_stack 1024, m + 7 \<mapsto> empty_stack 4096),
      port_regs := v_ports ?v, clock_reads := v_clock ?v, cpu_ip := v_ip ?v\<rparr>"
    unfolding same using assms(3,4) u(5) by (simp add: a_start_def untouched_def)
  have calls: "calls_at [] [] (empty_stack 4096)"
    by (simp add: calls_at_def empty_stack_def stack_wf_def image_of_def)
  have "rep_at (m + 5) (m + 7) u ?v u"
    unfolding rep_at_def
    by (rule exI [of _ "empty_stack 1024"], rule exI [of _ "empty_stack 4096"], intro conjI, rule eq)
      (use calls in \<open>simp_all add: a_start_def\<close>)
  moreover have "surroundings u ?v"
    using assms u
    by (simp add: surroundings_def a_start_def fresh_machine_def untouched_def opstack_capacity_def
        opstack_addr_def stack_at_def)
  ultimately show ?thesis unfolding rep_def using u(1,3)
    by (intro conjI exI [of _ "m + 5"] exI [of _ "m + 7"]) simp_all
qed

lemma main_simulates:
  fixes s :: cpu
  assumes "length prog = unat n" and "power_on s" and "network_up s" and "env_accept s = (\<lambda>_. WouldBlock)"
  shows "simulates (mallocs s) (dynamic_memory_usage s + 5404) (a_run (255 * Suc rounds) (a_start prog d s))
    (vm_main prog n d (Suc (Suc fuel)) (Suc rounds) s)"
proof -
  let ?m = "mallocs s" and ?d = "dynamic_memory_usage s + 5404" and ?v = "a_start prog d s"
  obtain t u where boot: "boot prog n d s = Inr ((), t)"
      "cpu_run_cycle (Ptr (?m + 9)) t = run_cycles (unat CONTEXT_MAX_CYCLES) u"
      "fresh_machine ?m prog n d u" "cpu_task_tree_root t = Ptr (?m + 9)"
      "dynamic_memory_usage u = ?d" "cpu_server u = Ptr (?m + 3)" "servers u (?m + 3) \<noteq> None"
      "env_accept u = env_accept s" "untouched s u" "out u = out s @ [Printf ''Starting VM\<newline>'' []]"
    using boot_slice [OF assms(2,3), of prog n d] assms(4) by auto
  have cycles: "unat CONTEXT_MAX_CYCLES = 255" by (simp add: CONTEXT_MAX_CYCLES_def)
  have lone: "lone ?m ?d u"
    using boot(3,5-8) assms(4) fresh_machine_stacks(3) [OF boot(3)]
    by (auto simp: lone_def fresh_machine_def main_task_def)
  note first = cycles_simulate [OF lone fresh_rep [OF boot(3) assms(1) boot(9,10,5)], of 255, folded boot(2) [unfolded cycles]]
  let ?children = "traverse_children (Suc fuel) (Ptr (?m + 9)) 0 cpu_run_cycle"
  have "simulates ?m ?d (Inr ((), v')) (?children t')" if "lone ?m ?d t'" "rep t' v' t'" for v' t'
    unfolding lone_round(2) [OF that(1)] using that by (simp add: simulates_def)
  then have "simulates ?m ?d (a_run (255 * rounds) v') (seq ?children (cpu_run (Suc (Suc fuel)) rounds) t')"
    if "lone ?m ?d t'" "rep t' v' t'" for v' t'
    using rounds_simulate that lone_round(2) [OF that(1)] by (simp add: st_simps)
  from simulates_seq [OF first, of "a_run (255 * rounds)" "seq ?children (cpu_run (Suc (Suc fuel)) rounds)", OF this]
  have "simulates ?m ?d (seq (a_run 255) (a_run (255 * rounds)) ?v)
      (seq (cpu_run_cycle (Ptr (?m + 9))) (seq ?children (cpu_run (Suc (Suc fuel)) rounds)) t)"
    unfolding seq_apply .
  moreover have "vm_main prog n d (Suc (Suc fuel)) (Suc rounds) s
      = seq (cpu_run_cycle (Ptr (?m + 9))) (seq ?children (cpu_run (Suc (Suc fuel)) rounds)) t"
    using boot(1,4) by (simp add: vm_main_boot cpu_round_def st_simps split: sum.split)
  ultimately show ?thesis using a_run_add [of 255 "255 * rounds"] by simp
qed

lemma whole_run:
  fixes s :: cpu
  assumes "length prog = unat n" and "power_on s" and "network_up s" and "env_accept s = (\<lambda>_. WouldBlock)"
  shows "case a_run (255 * Suc rounds) (a_start prog d s) of
      Inr (_, v) \<Rightarrow> \<exists>t. vm_main prog n d (Suc (Suc fuel)) (Suc rounds) s = Inr ((), t)
        \<and> cpu_ip t = v_ip v \<and> operands t = v_ops v \<and> port_regs t = v_ports v \<and> out t = v_out v
    | Inl (w, v) \<Rightarrow> w \<noteq> OutOfFuel \<longrightarrow> (\<exists>t es. vm_main prog n d (Suc (Suc fuel)) (Suc rounds) s = Inl (w, t)
        \<and> out t = v_out v @ es
        \<and> (w = ExitSuccess \<longrightarrow> es = [Printf ''Exit\<newline>'' []]
             \<and> dynamic_memory_usage t = dynamic_memory_usage s + 49))"
proof -
  have ops: "operands t = v_ops v" if "rep t v t" for t :: cpu and v
    using rep_opsE [OF that] by (metis operands_def opstack_addr_def stack_at_def addr_of_ptr.simps(1) option.sel)
  show ?thesis
    using main_simulates [OF assms, of rounds d fuel]
    by (auto simp: simulates_def ops rep_fields split: sum.splits)
qed

text \<open>A run of the abstract machine that stops within the scheduled instructions.\<close>

lemma whole_run_stops:
  fixes s :: cpu
  assumes "length prog = unat n" and "power_on s" and "network_up s" and "env_accept s = (\<lambda>_. WouldBlock)"
    and "a_run k (a_start prog d s) = Inl (w, v)" and "k \<le> 255 * Suc rounds" and "w \<noteq> OutOfFuel"
  shows "\<exists>t es. vm_main prog n d (Suc (Suc fuel)) (Suc rounds) s = Inl (w, t) \<and> out t = v_out v @ es
    \<and> (w = ExitSuccess \<longrightarrow> es = [Printf ''Exit\<newline>'' []])"
  using whole_run [where rounds = rounds and d = d and fuel = fuel, OF assms(1-4)] a_run_stop [OF assms(5,6)] assms(7)
  by (auto simp del: mult_Suc_right)

section \<open>Property\<close>

text \<open>C1: the machine implements the abstract machine. Take any program and the whole machine:
  \<open>main\<close> is run with this program, and no message arrives. Then after any number of rounds of
  the scheduler the machine is where the abstract machine is after 255 instructions per round:
  it is running, with the same instruction pointer, operands, port registers and output; or it
  has stopped for the same reason, with at least the same output. Where the abstract machine
  halts, the process exits with success, prints nothing but \<open>Exit\<close> after the abstract output,
  and has released its objects. The abstract machine has byte lists for the operand stack and
  a list of frames for the call stack; where it gives up (\<open>OutOfFuel\<close>: task instructions,
  absolute call stack addresses, variables outside the running function or not yet assigned,
  a fetch at the end of the program) nothing is claimed.\<close>

theorem machine_implements_abstract:
  fixes s :: cpu
  assumes "length prog = unat n" and "power_on s" and "network_up s" and "env_accept s = (\<lambda>_. WouldBlock)"
  shows "case a_run (255 * Suc rounds) (a_start prog d s) of
      Inr (_, v) \<Rightarrow> \<exists>t. vm_main prog n d (Suc (Suc fuel)) (Suc rounds) s = Inr ((), t)
        \<and> cpu_ip t = v_ip v \<and> operands t = v_ops v \<and> port_regs t = v_ports v \<and> out t = v_out v
    | Inl (w, v) \<Rightarrow> w \<noteq> OutOfFuel \<longrightarrow> (\<exists>t es. vm_main prog n d (Suc (Suc fuel)) (Suc rounds) s = Inl (w, t)
        \<and> out t = v_out v @ es
        \<and> (w = ExitSuccess \<longrightarrow> es = [Printf ''Exit\<newline>'' []]
             \<and> dynamic_memory_usage t = dynamic_memory_usage s + 49))"
  using assms by (rule whole_run)

text \<open>A function that stores 7 in a local variable, reads it back and prints it.\<close>

theorem machine_implements_abstract_witness:
  "\<exists>t. vm_main [9, 4, 0, 0, 14, 2, 0, 23, 0, 0, 14, 7, 0, 14, 2, 0, 14, 0, 0, 25,
         14, 2, 0, 14, 0, 0, 24, 16, 10] 29 29 2 1 (blank_cpu 3) = Inl (ExitSuccess, t)
     \<and> out t = out (blank_cpu 3) @ [Printf ''Starting VM\<newline>'' [], Printf ''%hu\<newline>'' [AInt 7],
         Printf ''Exit\<newline>'' []]"
proof -
  let ?p = "[9, 4, 0, 0, 14, 2, 0, 23, 0, 0, 14, 7, 0, 14, 2, 0, 14, 0, 0, 25,
    14, 2, 0, 14, 0, 0, 24, 16, 10] :: u8 list"
  let ?v = "a_start ?p 29 (blank_cpu 3)"
  have s: "power_on (blank_cpu 3)" "network_up (blank_cpu 3)" "env_accept (blank_cpu 3) = (\<lambda>_. WouldBlock)"
    by (simp_all add: blank_cpu_def demo_cpu_def power_on_def network_up_def)
  have len: "length ?p = unat (29 :: u16)" and n: "Suc (Suc 0) = 2" "255 * Suc 0 = 255" by simp_all
  have start: "word_state ?v 0 [] [] [] = ?v" by (simp add: word_state_def a_start_def)
  have v: "v_prog ?v = ?p" "v_ops ?v = []" "v_callers ?v = []" "v_ops_size ?v = 1024" "v_calls_size ?v = 4096"
    "v_out ?v = out (blank_cpu 3) @ [Printf ''Starting VM\<newline>'' []]"
    by (simp_all add: a_start_def)
  have "\<exists>w. a_run 13 (word_state ?v 0 [] [] []) = Inl (ExitSuccess, w)
      \<and> v_out w = v_out ?v @ [Printf ''%hu\<newline>'' [AInt 7]]"
    by (simp add: execution v(1-5) del: a_run.simps(2)) (simp add: word_state_def)
  then obtain w where "a_run 255 ?v = Inl (ExitSuccess, w)" "v_out w = v_out ?v @ [Printf ''%hu\<newline>'' [AInt 7]]"
    unfolding start using a_run_stop [of 13 ?v _ 255] by auto
  then show ?thesis
    using machine_implements_abstract [where prog = ?p and d = 29 and rounds = 0 and fuel = 0, OF len s] v(6)
    unfolding n by auto
qed

end
