(* ===== verification/Compiler_Py.thy ===== *)
theory Compiler_Py
  imports Main
begin

text \<open>
  The compiler src/compiler.py, from the lines of a source file to the bytes of the program, and
  src/generate_instructions_enum.py. A line is a list of characters below 256, a dictionary is a map, and an exception of Python
  is a value. \<open>fl\<close> stands for \<open>struct.pack("f", float(text))\<close>, the four bytes of a decimal
  number as a float, and \<open>read\<close> for the files that an \<open>#include\<close> names.
\<close>

section \<open>Python\<close>

datatype py_error = ValueError | KeyError | IndexError | NameError | TypeError | FileNotFoundError
  | RecursionError | Allocated string | NotFound string

definition and_then :: "py_error + 'a \<Rightarrow> ('a \<Rightarrow> py_error + 'b) \<Rightarrow> py_error + 'b" where
  "and_then r f = (case r of Inl e \<Rightarrow> Inl e | Inr x \<Rightarrow> f x)"

fun each :: "('a \<Rightarrow> py_error + 'b) \<Rightarrow> 'a list \<Rightarrow> py_error + 'b list" where
  "each f [] = Inr []"
| "each f (x # xs) = and_then (f x) (\<lambda>y. and_then (each f xs) (\<lambda>ys. Inr (y # ys)))"

fun split_on :: "char \<Rightarrow> string \<Rightarrow> string list" where
  "split_on d [] = [[]]"
| "split_on d (c # cs) =
     (if c = d then [] # split_on d cs
      else case split_on d cs of [] \<Rightarrow> [[c]] | w # ws \<Rightarrow> (c # w) # ws)"

definition split_words :: "string \<Rightarrow> string list" where
  "split_words = split_on (CHR '' '')"

fun starts_with :: "string \<Rightarrow> string \<Rightarrow> bool" where
  "starts_with [] s \<longleftrightarrow> True"
| "starts_with (p # ps) [] \<longleftrightarrow> False"
| "starts_with (p # ps) (c # cs) \<longleftrightarrow> p = c \<and> starts_with ps cs"

fun has_substring :: "string \<Rightarrow> string \<Rightarrow> bool" where
  "has_substring p [] \<longleftrightarrow> p = []"
| "has_substring p (c # cs) \<longleftrightarrow> starts_with p (c # cs) \<or> has_substring p cs"

fun join :: "string \<Rightarrow> string list \<Rightarrow> string" where
  "join d [] = []"
| "join d [s] = s"
| "join d (s # ss) = s @ d @ join d ss"

text \<open>\<open>s.replace(old, new)\<close> for an \<open>old\<close> that is not empty.\<close>

function replace_all :: "string \<Rightarrow> string \<Rightarrow> string \<Rightarrow> string" where
  "replace_all old new s =
     (if old \<noteq> [] \<and> s \<noteq> [] \<and> starts_with old s then new @ replace_all old new (drop (length old) s)
      else case s of [] \<Rightarrow> [] | c # cs \<Rightarrow> c # replace_all old new cs)"
  by pat_completeness auto
termination
  by (relation "measure (\<lambda>(old, new, s). length s)") auto

declare replace_all.simps [simp del]

text \<open>The white space of \<open>strip\<close> and \<open>int\<close>.\<close>

definition is_space :: "char \<Rightarrow> bool" where
  "is_space c \<longleftrightarrow> c = CHR '' '' \<or> c \<in> set [CHR 0x09, CHR 0x0A, CHR 0x0B, CHR 0x0C, CHR 0x0D,
     CHR 0x1C, CHR 0x1D, CHR 0x1E, CHR 0x1F, CHR 0x85, CHR 0xA0]"

definition strip_line :: "string \<Rightarrow> string" where
  "strip_line s = rev (dropWhile is_space (rev (dropWhile is_space s)))"

definition is_digit :: "char \<Rightarrow> bool" where
  "is_digit c \<longleftrightarrow> 48 \<le> (of_char c :: nat) \<and> (of_char c :: nat) \<le> 57"

fun digits_value :: "int \<Rightarrow> string \<Rightarrow> int option" where
  "digits_value acc [] = Some acc"
| "digits_value acc (c # cs) =
     (if is_digit c then digits_value (10 * acc + (of_char c - 48)) cs
      else if c = CHR ''_'' \<and> cs \<noteq> [] \<and> is_digit (hd cs) then digits_value acc cs
      else None)"

definition unsigned_int :: "string \<Rightarrow> int option" where
  "unsigned_int s = (case s of [] \<Rightarrow> None | c # cs \<Rightarrow> if is_digit c then digits_value 0 s else None)"

definition py_int :: "string \<Rightarrow> py_error + int" where
  "py_int s =
     (case (case strip_line s of
        [] \<Rightarrow> None
      | c # cs \<Rightarrow> if c = CHR ''-'' then map_option uminus (unsigned_int cs)
                  else if c = CHR ''+'' then unsigned_int cs else unsigned_int (c # cs))
      of None \<Rightarrow> Inl ValueError | Some i \<Rightarrow> Inr i)"

fun nat_text :: "nat \<Rightarrow> string" where
  "nat_text n = (if n < 10 then [char_of (48 + n)] else nat_text (n div 10) @ [char_of (48 + n mod 10)])"

declare nat_text.simps [simp del]

definition py_str :: "int \<Rightarrow> string" where
  "py_str i = (if i < 0 then CHR ''-'' # nat_text (nat (- i)) else nat_text (nat i))"

section \<open>The instructions\<close>

text \<open>The classes \<open>NoOperandInstruction\<close>, \<open>U16OperandInstruction\<close> and so on; no instruction is a
  \<open>TwoU16OperandInstruction\<close>.\<close>

datatype kind = NoOperand | U16Operand | TwoU16Operand | I16Operand | F32Operand

fun kind_size :: "kind \<Rightarrow> int" where
  "kind_size NoOperand = 1"
| "kind_size U16Operand = 3"
| "kind_size TwoU16Operand = 5"
| "kind_size I16Operand = 3"
| "kind_size F32Operand = 5"

definition instruction_classes :: "(string \<times> int \<times> kind) list" where
  "instruction_classes =
    [(''HALT'', 0, NoOperand), (''DELAY'', 1, U16Operand), (''JUMP'', 2, U16Operand),
     (''POP_JUMP_IF_FALSE'', 3, U16Operand), (''COMPARE_EQ'', 4, NoOperand), (''COMPARE_LT'', 5, NoOperand),
     (''COMPARE_GT'', 6, NoOperand), (''COMPARE_LE'', 7, NoOperand), (''COMPARE_GE'', 8, NoOperand),
     (''CALL'', 9, U16Operand), (''RETURN'', 10, NoOperand), (''SYSCALL'', 11, U16Operand),
     (''ASYNC_CALL'', 12, U16Operand), (''ASYNC_RETURN'', 13, NoOperand), (''PUSHL_U16'', 14, U16Operand),
     (''POP_U16'', 15, NoOperand), (''TOP_U16'', 16, NoOperand), (''ADD_U16'', 17, NoOperand),
     (''SUB_U16'', 18, NoOperand), (''MUL_U16'', 19, NoOperand), (''DIV_U16'', 20, NoOperand),
     (''POPA_U16'', 21, U16Operand), (''PUSH_U16'', 22, U16Operand), (''ALLOC_LOCAL'', 23, U16Operand),
     (''PUSH_LOCAL'', 24, NoOperand), (''POP_LOCAL'', 25, NoOperand), (''PUSHL_I16'', 26, I16Operand),
     (''POP_I16'', 27, NoOperand), (''TOP_I16'', 28, NoOperand), (''ADD_I16'', 29, NoOperand),
     (''SUB_I16'', 30, NoOperand), (''MUL_I16'', 31, NoOperand), (''DIV_I16'', 32, NoOperand),
     (''READ_I16'', 33, I16Operand), (''WRITE_I16'', 34, I16Operand), (''ALLOC_I16'', 35, U16Operand),
     (''FREE_I16'', 36, I16Operand), (''PUSHL_F32'', 37, F32Operand), (''POP_F32'', 38, NoOperand),
     (''TOP_F32'', 39, NoOperand), (''ADD_F32'', 40, NoOperand), (''SUB_F32'', 41, NoOperand),
     (''MUL_F32'', 42, NoOperand), (''DIV_F32'', 43, NoOperand), (''PUSH_MILLIS'', 44, NoOperand),
     (''LSHIFT_U16'', 45, NoOperand), (''RSHIFT_U16'', 46, NoOperand), (''OR_U16'', 47, NoOperand),
     (''XOR_U16'', 48, NoOperand), (''AND_U16'', 49, NoOperand), (''NOT_U16'', 50, NoOperand)]"

definition INSTRUCTIONS :: "string \<Rightarrow> (int \<times> kind) option" where
  "INSTRUCTIONS = map_of instruction_classes"

definition string_to_uint8_list :: "string \<Rightarrow> nat \<Rightarrow> py_error + int list" where
  "string_to_uint8_list text n = and_then (py_int text) (\<lambda>i.
     let v = i mod 2 ^ (n * 8) in Inr (map (\<lambda>k. v div 2 ^ (k * 8) mod 256) [0..<n]))"

definition string_to_int8_list :: "string \<Rightarrow> nat \<Rightarrow> py_error + int list" where
  "string_to_int8_list text n = and_then (string_to_uint8_list text n) (\<lambda>bs.
     Inr (map (\<lambda>b. if 128 \<le> b then b - 256 else b) bs))"

text \<open>\<open>Instruction.encode\<close>\<close>

definition encode_instruction :: "(string \<Rightarrow> int list option) \<Rightarrow> int \<times> kind \<Rightarrow> string list \<Rightarrow> py_error + int list" where
  "encode_instruction fl ins operands = (case snd ins of
     NoOperand \<Rightarrow> Inr [fst ins]
   | TwoU16Operand \<Rightarrow> and_then (each (\<lambda>text. string_to_uint8_list text 2) operands)
       (\<lambda>bss. Inr (fst ins # concat bss))
   | k \<Rightarrow> (case operands of [] \<Rightarrow> Inl IndexError | text # _ \<Rightarrow>
       and_then (case k of
           U16Operand \<Rightarrow> string_to_uint8_list text 2
         | I16Operand \<Rightarrow> string_to_int8_list text 2
         | _ \<Rightarrow> (case fl text of None \<Rightarrow> Inl ValueError | Some bs \<Rightarrow> Inr bs))
       (\<lambda>bs. Inr (fst ins # bs))))"

subsection \<open>The generator of the enumeration\<close>

definition upper_char :: "char \<Rightarrow> char" where
  "upper_char c = (let n = of_char c :: nat in if 97 \<le> n \<and> n \<le> 122 then char_of (n - 32) else c)"

definition generate_c_enum :: "(string \<times> int \<times> kind) list \<Rightarrow> string \<Rightarrow> string \<Rightarrow> string" where
  "generate_c_enum classes enum_name prefix =
     (let sorted_instr = sort_key (\<lambda>(_, opc, _). opc) classes in
      join ''\<newline>'' ([''typedef enum {'']
        @ map (\<lambda>(name, opc, _). ''    '' @ prefix @ replace_all '' '' ''_'' (map upper_char name)
                @ '' = '' @ py_str opc @ '','') sorted_instr
        @ [''} '' @ enum_name @ '';'']))"

section \<open>The passes\<close>

subsection \<open>Lines\<close>

fun process_includes :: "(string \<Rightarrow> string list option) \<Rightarrow> string \<Rightarrow> nat \<Rightarrow> string list \<Rightarrow> string list
    \<Rightarrow> py_error + string list \<times> string list" where
  "process_includes read base n included [] = Inr ([], included)"
| "process_includes read base n included (line # lines) =
     (if starts_with ''#include'' line then
        (case split_words line of
           [_, source_file] \<Rightarrow>
             let full_path = base @ ''/'' @ strip_line source_file in
             if full_path \<in> set included then process_includes read base n included lines
             else (case n of 0 \<Rightarrow> Inl RecursionError | Suc m \<Rightarrow>
               (case read full_path of
                  None \<Rightarrow> Inl FileNotFoundError
                | Some included_lines \<Rightarrow>
                    (case process_includes read base m (full_path # included) included_lines of
                       Inl e \<Rightarrow> Inl e
                     | Inr (xs, included) \<Rightarrow>
                         (case process_includes read base n included lines of
                            Inl e \<Rightarrow> Inl e
                          | Inr (ys, included) \<Rightarrow> Inr (xs @ ys, included)))))
         | _ \<Rightarrow> Inl ValueError)
      else (case process_includes read base n included lines of
              Inl e \<Rightarrow> Inl e
            | Inr (ys, included) \<Rightarrow> Inr (line # ys, included)))"

definition include_main_call :: "string list \<Rightarrow> string list" where
  "include_main_call lines = ''CALL .main\<newline>'' # ''HALT'' # lines"

definition remove_comments :: "string list \<Rightarrow> string list" where
  "remove_comments = map (takeWhile (\<lambda>c. c \<noteq> CHR '';''))"

definition remove_blank_lines :: "string list \<Rightarrow> string list" where
  "remove_blank_lines = filter (\<lambda>line. line \<noteq> [])"

subsection \<open>Strings and constants\<close>

definition utf8_bytes :: "char \<Rightarrow> nat list" where
  "utf8_bytes c = (let n = of_char c in if n < 128 then [n] else [192 + n div 64, 128 + n mod 64])"

definition to_utf8 :: "string \<Rightarrow> string" where
  "to_utf8 s = join '','' (map nat_text (concat (map utf8_bytes s))) @ '',0''"

text \<open>The characters after the first quotation mark up to the next.\<close>

fun quoted :: "bool \<Rightarrow> string \<Rightarrow> string" where
  "quoted found [] = []"
| "quoted found (c # cs) =
     (if c = CHR 0x22 then if found then [] else quoted True cs
      else if found then c # quoted True cs else quoted False cs)"

definition build_utf8_string :: "string \<Rightarrow> string" where
  "build_utf8_string line =
     (let content = replace_all [CHR 0x5C, CHR ''n''] ''\<newline>'' line in
      if CHR 0x22 \<in> set content then
        let s = quoted False content in replace_all ([CHR 0x22] @ s @ [CHR 0x22]) (to_utf8 s) content
      else line)"

definition PORTS :: "string \<Rightarrow> string option" where
  "PORTS = [''ddrb'' \<mapsto> ''0'', ''portb'' \<mapsto> ''1'', ''pinb'' \<mapsto> ''2'']"

fun const_definitions :: "(string \<Rightarrow> string option) \<Rightarrow> int list \<Rightarrow> string list
    \<Rightarrow> py_error + (string \<Rightarrow> string option) \<times> int list" where
  "const_definitions addresses data [] = Inr (addresses, data)"
| "const_definitions addresses data (line # lines) =
     (if starts_with ''CONST'' line then
        (case tl (split_words line) of
           [const_name, const_type, const_value] \<Rightarrow>
             and_then (if const_type = ''STRING'' then each py_int (split_on (CHR '','') const_value)
                       else if const_type = ''U16'' then string_to_uint8_list const_value 2
                       else Inr [])
             (\<lambda>bs. const_definitions (addresses(const_name \<mapsto> py_str (int (length data) + 3))) (data @ bs) lines)
         | _ \<Rightarrow> Inl ValueError)
      else const_definitions addresses data lines)"

definition const_reference :: "(string \<Rightarrow> string option) \<Rightarrow> string \<Rightarrow> py_error + string" where
  "const_reference addresses content =
     (if CHR ''$'' \<in> set content then
        (case split_words content of
           ins # const_name # _ \<Rightarrow>
             (case addresses (tl const_name) of
                Some address \<Rightarrow> Inr (ins @ '' '' @ address) | None \<Rightarrow> Inr content)
         | _ \<Rightarrow> Inl ValueError)
      else Inr content)"

definition build_const_data :: "string list \<Rightarrow> py_error + string list \<times> int list" where
  "build_const_data lines = and_then (const_definitions PORTS [] lines) (\<lambda>(addresses, data).
     and_then (each (const_reference addresses) (filter (\<lambda>line. \<not> starts_with ''CONST'' line) lines))
     (\<lambda>new_lines. Inr (new_lines, data)))"

subsection \<open>Local variables\<close>

definition var_prefix_of :: "string \<Rightarrow> string option \<Rightarrow> string option" where
  "var_prefix_of content prefix =
     (if starts_with ''fn .'' content then Some (drop 4 content @ ''_'') else prefix)"

text \<open>The first pass; every line comes with the line before it (\<open>lines[line-1]\<close>).\<close>

fun local_definitions :: "(string \<Rightarrow> int option) \<Rightarrow> int \<Rightarrow> string option \<Rightarrow> (string \<times> string) list
    \<Rightarrow> py_error + (string \<Rightarrow> int option) \<times> string option" where
  "local_definitions addresses offset prefix [] = Inr (addresses, prefix)"
| "local_definitions addresses offset prefix ((previous, content) # rest) =
     (let offset = (if starts_with ''fn .'' content then 0 else offset);
          prefix = var_prefix_of content prefix
      in if starts_with ''ALLOC_LOCAL'' content then
           (case (split_words previous, split_words content) of
              (_ # var_size # _, _ # var_name # _) \<Rightarrow>
                (case prefix of None \<Rightarrow> Inl NameError | Some p \<Rightarrow>
                   let name = p @ tl var_name in
                   if addresses name \<noteq> None then Inl (Allocated name)
                   else and_then (py_int var_size) (\<lambda>n.
                     local_definitions (addresses(name \<mapsto> offset)) (offset + n) (Some p) rest))
            | _ \<Rightarrow> Inl IndexError)
         else local_definitions addresses offset prefix rest)"

fun local_references :: "(string \<Rightarrow> int option) \<Rightarrow> string option \<Rightarrow> string list \<Rightarrow> py_error + string list" where
  "local_references addresses prefix [] = Inr []"
| "local_references addresses prefix (content # rest) =
     (let prefix = var_prefix_of content prefix in
      and_then
        (if CHR ''$'' \<in> set content then
           (case split_words content of
              [ins, var_name] \<Rightarrow>
                (case prefix of None \<Rightarrow> Inl NameError | Some p \<Rightarrow>
                  (case addresses (p @ tl var_name) of
                     Some address \<Rightarrow> Inr (ins @ '' '' @ py_str address)
                   | None \<Rightarrow> Inl (NotFound (p @ tl var_name))))
            | _ \<Rightarrow> Inl ValueError)
         else Inr content)
        (\<lambda>line. and_then (local_references addresses prefix rest) (\<lambda>lines. Inr (line # lines))))"

definition build_local_variables :: "string list \<Rightarrow> py_error + string list" where
  "build_local_variables lines =
     and_then (local_definitions Map.empty 0 None (zip (last lines # lines) lines)) (\<lambda>(addresses, prefix).
     local_references addresses prefix lines)"

subsection \<open>Labels and code\<close>

definition label_of :: "string \<Rightarrow> string option" where
  "label_of content =
     (if starts_with ''.'' content then Some (drop 1 content)
      else if starts_with ''fn .'' content then Some (drop 4 content) else None)"

fun label_definitions :: "(string \<Rightarrow> int option) \<Rightarrow> int \<Rightarrow> string list
    \<Rightarrow> py_error + (string \<Rightarrow> int option) \<times> string list" where
  "label_definitions addresses address [] = Inr (addresses, [])"
| "label_definitions addresses address (content # rest) =
     (case label_of content of
        Some label \<Rightarrow> label_definitions (addresses(label \<mapsto> address)) address rest
      | None \<Rightarrow>
          (case INSTRUCTIONS (hd (split_words content)) of
             None \<Rightarrow> Inl KeyError
           | Some (opc, k) \<Rightarrow>
               and_then (label_definitions addresses (address + kind_size k) rest)
               (\<lambda>(addresses, new_lines). Inr (addresses, content # new_lines))))"

definition label_reference :: "(string \<Rightarrow> int option) \<Rightarrow> string \<Rightarrow> py_error + string" where
  "label_reference addresses content =
     (if has_substring '' .'' content then
        (case split_words content of
           [ins, label] \<Rightarrow>
             (case addresses (tl label) of
                Some address \<Rightarrow> Inr (ins @ '' '' @ py_str address) | None \<Rightarrow> Inl KeyError)
         | _ \<Rightarrow> Inl ValueError)
      else Inr content)"

definition build_jumps :: "string list \<Rightarrow> py_error + string list" where
  "build_jumps lines = and_then (label_definitions Map.empty 0 lines) (\<lambda>(addresses, new_lines).
     each (label_reference addresses) new_lines)"

definition map_port :: "string \<Rightarrow> string" where
  "map_port content = (case split_words content of
     [ins, port] \<Rightarrow> (case PORTS port of Some address \<Rightarrow> replace_all port address content | None \<Rightarrow> content)
   | _ \<Rightarrow> content)"

text \<open>An exception of \<open>encode\<close> is caught; then the result is \<open>None\<close>, with which \<open>extend\<close> fails.\<close>

definition encode_line :: "(string \<Rightarrow> int list option) \<Rightarrow> string \<Rightarrow> py_error + int list" where
  "encode_line fl line = (case split_words line of inst_name # operands \<Rightarrow>
     (case INSTRUCTIONS inst_name of
        None \<Rightarrow> Inl KeyError
      | Some ins \<Rightarrow> (case encode_instruction fl ins operands of Inl e \<Rightarrow> Inl TypeError | Inr bs \<Rightarrow> Inr bs))
   | [] \<Rightarrow> Inl ValueError)"

definition compile_lines :: "(string \<Rightarrow> int list option) \<Rightarrow> string list \<Rightarrow> py_error + int list \<times> int \<times> int" where
  "compile_lines fl lines =
     (let lines = map build_utf8_string (remove_blank_lines (map strip_line (remove_comments (include_main_call lines))))
      in and_then (build_const_data lines) (\<lambda>(lines, data).
         and_then (build_local_variables lines) (\<lambda>lines.
         and_then (build_jumps lines) (\<lambda>lines.
         and_then (each (encode_line fl) (map map_port lines)) (\<lambda>code.
         let program = concat code in
         Inr (program @ data, int (length (program @ data)), int (length program)))))))"

text \<open>The recursion limit of Python bounds the depth of includes. Every include adds a file to
  those already included, so that the number of files is enough.\<close>

definition compile_rfl :: "(string \<Rightarrow> int list option) \<Rightarrow> (string \<Rightarrow> string list option) \<Rightarrow> string
    \<Rightarrow> nat \<Rightarrow> string list \<Rightarrow> py_error + int list \<times> int \<times> int" where
  "compile_rfl fl read base n lines =
     and_then (process_includes read base n [] lines) (\<lambda>(lines, _). compile_lines fl lines)"

end
