(* ===== verification/Compiler_Spec.thy ===== *)
theory Compiler_Spec
  imports Compiler_Py
begin

text \<open>
  What the passes of src/compiler.py do: numbers survive their way through the text; a jump is
  encoded with the offset of the code behind its label; the local variables of a function get
  consecutive offsets; a constant gets the address of its bytes in the data.
\<close>

section \<open>Exceptions\<close>

lemma and_then_Inr: "and_then r f = Inr y \<longleftrightarrow> (\<exists>x. r = Inr x \<and> f x = Inr y)"
  by (cases r) (simp_all add: and_then_def)

lemma and_then_simps [simp]: "and_then (Inr x) f = f x" "and_then (Inl e) f = Inl e"
  by (simp_all add: and_then_def)

lemma each_Inr: "each f xs = Inr ys \<longleftrightarrow> list_all2 (\<lambda>x y. f x = Inr y) xs ys"
proof (induction xs arbitrary: ys)
  case Nil
  then show ?case by (cases ys) simp_all
next
  case (Cons x xs)
  then show ?case by (cases ys) (auto simp: and_then_Inr)
qed

lemma each_in_set: "each f xs = Inr ys \<Longrightarrow> x \<in> set xs \<Longrightarrow> \<exists>y \<in> set ys. f x = Inr y"
  by (induction xs arbitrary: ys) (auto simp: and_then_Inr)

section \<open>Words of a line\<close>

lemma split_on_last [simp]: "d \<notin> set w \<Longrightarrow> split_on d w = [w]"
  by (induction w) auto

lemma split_on_append [simp]: "d \<notin> set w \<Longrightarrow> split_on d (w @ d # s) = w # split_on d s"
  by (induction w) auto

lemma split_on_not_Nil [simp]: "split_on d s \<noteq> []"
  by (cases s) (auto split: list.splits)

lemma split_on_Cons: "split_on d s = w # ws \<Longrightarrow>
    d \<notin> set w \<and> (ws = [] \<and> s = w \<or> (\<exists>t. s = w @ d # t \<and> split_on d t = ws))"
proof (induction s arbitrary: w ws)
  case (Cons c s)
  show ?case
  proof (cases "c = d")
    case True
    with Cons.prems show ?thesis by auto
  next
    case False
    obtain v vs where vs: "split_on d s = v # vs" by (meson neq_Nil_conv split_on_not_Nil)
    from Cons.IH [OF this] False Cons.prems vs show ?thesis by auto
  qed
qed simp

lemma split_words_two: "split_words s = [v, w] \<longleftrightarrow> s = v @ '' '' @ w \<and> CHR '' '' \<notin> set v \<and> CHR '' '' \<notin> set w"
proof
  assume "split_words s = [v, w]"
  from split_on_Cons [OF this [unfolded split_words_def]]
  obtain t where "CHR '' '' \<notin> set v" "s = v @ CHR '' '' # t" "split_on (CHR '' '') t = [w]" by auto
  with split_on_Cons [OF this(3)] show "s = v @ '' '' @ w \<and> CHR '' '' \<notin> set v \<and> CHR '' '' \<notin> set w" by auto
qed (simp add: split_words_def)

lemma hd_split_words: "CHR '' '' \<notin> set v \<Longrightarrow> hd (split_words (v @ CHR '' '' # s)) = v"
  by (simp add: split_words_def)

section \<open>Numbers\<close>

lemma digit_char:
  assumes "k < 10"
  shows "is_digit (char_of (48 + k))" "(of_char (char_of (48 + k) :: char) :: int) = 48 + int k"
proof -
  have nat: "(of_char (char_of (48 + k) :: char) :: nat) = 48 + k" using assms by simp
  then show "is_digit (char_of (48 + k))" using assms by (simp add: is_digit_def)
  have "(of_char (char_of (48 + k) :: char) :: int) = int (of_char (char_of (48 + k) :: char))"
    by (rule of_nat_of_char [symmetric])
  with nat show "(of_char (char_of (48 + k) :: char) :: int) = 48 + int k" by (simp del: of_char_of)
qed

lemma nat_text_digits: "c \<in> set (nat_text n) \<Longrightarrow> is_digit c"
proof (induction n rule: nat_text.induct)
  case (1 n)
  then show ?case
    by (subst (asm) nat_text.simps) (auto split: if_splits intro: digit_char(1))
qed

lemma nat_text_not_Nil [simp]: "nat_text n \<noteq> []"
  by (subst nat_text.simps) simp

lemma digits_value_nat_text:
  "digits_value acc (nat_text n @ s) = digits_value (acc * 10 ^ length (nat_text n) + int n) s"
proof (induction n arbitrary: acc s rule: nat_text.induct)
  case (1 n)
  show ?case
  proof (cases "n < 10")
    case True
    then have "nat_text n = [char_of (48 + n)]" by (subst nat_text.simps) simp
    with True digit_char [of n] show ?thesis by (simp add: mult.commute)
  next
    case False
    then have digits: "nat_text n = nat_text (n div 10) @ [char_of (48 + n mod 10)]"
      by (subst nat_text.simps) simp
    have parts: "int n = 10 * int (n div 10) + int (n mod 10)" by presburger
    show ?thesis
      using "1.IH" [OF False] digit_char [of "n mod 10"]
      by (simp add: digits distrib_left add.assoc mult.left_commute parts del: of_char_of)
  qed
qed

lemma unsigned_int_nat_text [simp]: "unsigned_int (nat_text n) = Some (int n)"
proof -
  obtain c cs where "nat_text n = c # cs" by (meson nat_text_not_Nil neq_Nil_conv)
  with nat_text_digits [of c n] digits_value_nat_text [of 0 n "[]"] show ?thesis
    by (simp add: unsigned_int_def)
qed

lemma digit_not_space: "is_digit c \<Longrightarrow> \<not> is_space c"
  by (auto simp: is_digit_def is_space_def)

lemma strip_line_id: "(\<And>c. c \<in> set s \<Longrightarrow> \<not> is_space c) \<Longrightarrow> strip_line s = s"
proof -
  assume "\<And>c. c \<in> set s \<Longrightarrow> \<not> is_space c"
  then have "dropWhile is_space s = s" "dropWhile is_space (rev s) = rev s"
    by (simp_all add: dropWhile_eq_self_iff) (metis hd_in_set rev_is_Nil_conv set_rev)
  then show ?thesis by (simp add: strip_line_def)
qed

lemma py_str_chars: "c \<in> set (py_str i) \<Longrightarrow> is_digit c \<or> c = CHR ''-''"
  by (auto simp: py_str_def nat_text_digits split: if_splits)

lemma py_str_not [simp]: "CHR '' '' \<notin> set (py_str i)" "CHR ''$'' \<notin> set (py_str i)" "CHR ''.'' \<notin> set (py_str i)"
  using py_str_chars [of "CHR '' ''" i] py_str_chars [of "CHR ''$''" i] py_str_chars [of "CHR ''.''" i]
  by (auto simp: is_digit_def)

text \<open>The decimal text of a number is read back as the number.\<close>

lemma py_int_py_str: "py_int (py_str i) = Inr i"
proof -
  have "\<not> is_space c" if "c \<in> set (py_str i)" for c
    using py_str_chars [OF that]
  proof
    assume "c = CHR ''-''"
    then show ?thesis by (simp add: is_space_def)
  qed (rule digit_not_space)
  then have strip: "strip_line (py_str i) = py_str i" by (rule strip_line_id)
  show ?thesis
  proof (cases "i < 0")
    case True
    then show ?thesis using strip by (simp add: py_int_def py_str_def)
  next
    case False
    obtain c cs where first: "nat_text (nat i) = c # cs" by (meson nat_text_not_Nil neq_Nil_conv)
    then have "is_digit c" using nat_text_digits [of c "nat i"] by simp
    then have "c \<noteq> CHR ''-''" "c \<noteq> CHR ''+''" by (auto simp: is_digit_def)
    with False strip first unsigned_int_nat_text [of "nat i"] show ?thesis
      by (simp add: py_int_def py_str_def)
  qed
qed

section \<open>Instructions\<close>

definition size_of :: "string \<Rightarrow> int" where
  "size_of line = kind_size (snd (the (INSTRUCTIONS (hd (split_words line)))))"

definition float_bytes :: "(string \<Rightarrow> int list option) \<Rightarrow> bool" where
  "float_bytes fl \<longleftrightarrow> (\<forall>s bs. fl s = Some bs \<longrightarrow> length bs = 4)"

lemma length_string_to_uint8_list: "string_to_uint8_list s n = Inr bs \<Longrightarrow> length bs = n"
  by (auto simp: string_to_uint8_list_def and_then_Inr)

lemma operand_at_most:
  assumes "INSTRUCTIONS w = Some (opc, k)"
  shows "k \<noteq> TwoU16Operand"
proof -
  have "\<forall>ins \<in> set instruction_classes. snd (snd ins) \<noteq> TwoU16Operand" by (simp add: instruction_classes_def)
  with map_of_SomeD [OF assms [unfolded INSTRUCTIONS_def]] show ?thesis by auto
qed

lemma length_encode_line:
  assumes "float_bytes fl" and "encode_line fl line = Inr bs"
  shows "INSTRUCTIONS (hd (split_words line)) \<noteq> None" "int (length bs) = size_of line"
proof -
  obtain w ws where w: "split_words line = w # ws" using split_on_not_Nil unfolding split_words_def by (metis neq_Nil_conv)
  with assms(2) obtain opc k where k: "INSTRUCTIONS w = Some (opc, k)"
    by (auto simp: encode_line_def split: option.splits)
  with w show "INSTRUCTIONS (hd (split_words line)) \<noteq> None" by simp
  have "encode_instruction fl (opc, k) ws = Inr bs"
    using assms(2) w k by (auto simp: encode_line_def split: sum.splits)
  with assms(1) w k operand_at_most [OF k] show "int (length bs) = size_of line"
    by (cases k) (auto simp: encode_instruction_def size_of_def string_to_int8_list_def and_then_Inr float_bytes_def
        dest!: length_string_to_uint8_list split: list.splits option.splits)
qed

text \<open>The bytes of an instruction with a 16-bit operand.\<close>

lemma encode_number:
  assumes "INSTRUCTIONS ins = Some (opc, U16Operand)" and "CHR '' '' \<notin> set ins"
  shows "encode_line fl (ins @ '' '' @ py_str i) = Inr [opc, i mod 256, i div 256 mod 256]"
proof -
  have low: "i mod 65536 div 1 mod 256 = i mod 256"
    unfolding div_by_1 by (rule mod_mod_cancel) (simp add: dvd_def)
  have "i mod (256 * 256) = 256 * (i div 256 mod 256) + i mod 256" by (rule zmod_zmult2_eq) simp
  then have "i mod 65536 = 256 * (i div 256 mod 256) + i mod 256" by simp
  then have high: "i mod 65536 div 256 mod 256 = i div 256 mod 256" by (simp only:) simp
  have range: "[0..<2] = [0, 1 :: nat]" by (simp add: numeral_2_eq_2)
  have powers: "(2 :: int) ^ (2 * 8) = 65536" "(2 :: int) ^ (0 * 8) = 1" "(2 :: int) ^ (1 * 8) = 256" by simp_all
  have "string_to_uint8_list (py_str i) 2 = Inr [i mod 256, i div 256 mod 256]"
    by (simp only: string_to_uint8_list_def py_int_py_str and_then_simps Let_def range list.map powers low high)
  moreover have "split_words (ins @ '' '' @ py_str i) = [ins, py_str i]" using assms(2) by (simp add: split_words_two)
  ultimately show ?thesis using assms(1) by (simp add: encode_line_def encode_instruction_def)
qed

section \<open>The enumeration\<close>

text \<open>The lines of the enumeration in src/instructions.h.\<close>

definition header_lines :: "string list" where
  "header_lines =
  [''    OP_HALT = 0,'',
   ''    OP_DELAY = 1,'',
   ''    OP_JUMP = 2,'',
   ''    OP_POP_JUMP_IF_FALSE = 3,'',
   ''    OP_COMPARE_EQ = 4,'',
   ''    OP_COMPARE_LT = 5,'',
   ''    OP_COMPARE_GT = 6,'',
   ''    OP_COMPARE_LE = 7,'',
   ''    OP_COMPARE_GE = 8,'',
   ''    OP_CALL = 9,'',
   ''    OP_RETURN = 10,'',
   ''    OP_SYSCALL = 11,'',
   ''    OP_ASYNC_CALL = 12,'',
   ''    OP_ASYNC_RETURN = 13,'',
   ''    OP_PUSHL_U16 = 14,'',
   ''    OP_POP_U16 = 15,'',
   ''    OP_TOP_U16 = 16,'',
   ''    OP_ADD_U16 = 17,'',
   ''    OP_SUB_U16 = 18,'',
   ''    OP_MUL_U16 = 19,'',
   ''    OP_DIV_U16 = 20,'',
   ''    OP_POPA_U16 = 21,'',
   ''    OP_PUSH_U16 = 22,'',
   ''    OP_ALLOC_LOCAL = 23,'',
   ''    OP_PUSH_LOCAL = 24,'',
   ''    OP_POP_LOCAL = 25,'',
   ''    OP_PUSHL_I16 = 26,'',
   ''    OP_POP_I16 = 27,'',
   ''    OP_TOP_I16 = 28,'',
   ''    OP_ADD_I16 = 29,'',
   ''    OP_SUB_I16 = 30,'',
   ''    OP_MUL_I16 = 31,'',
   ''    OP_DIV_I16 = 32,'',
   ''    OP_READ_I16 = 33,'',
   ''    OP_WRITE_I16 = 34,'',
   ''    OP_ALLOC_I16 = 35,'',
   ''    OP_FREE_I16 = 36,'',
   ''    OP_PUSHL_F32 = 37,'',
   ''    OP_POP_F32 = 38,'',
   ''    OP_TOP_F32 = 39,'',
   ''    OP_ADD_F32 = 40,'',
   ''    OP_SUB_F32 = 41,'',
   ''    OP_MUL_F32 = 42,'',
   ''    OP_DIV_F32 = 43,'',
   ''    OP_PUSH_MILLIS = 44,'',
   ''    OP_LSHIFT_U16 = 45,'',
   ''    OP_RSHIFT_U16 = 46,'',
   ''    OP_OR_U16 = 47,'',
   ''    OP_XOR_U16 = 48,'',
   ''    OP_AND_U16 = 49,'',
   ''    OP_NOT_U16 = 50,'']"

text \<open>They are the ones that the generator makes of the compiler's table.\<close>

lemma generated_enumeration:
  "generate_c_enum instruction_classes ''OpCode'' ''OP_''
    = join ''\<newline>'' (''typedef enum {'' # header_lines @ [''} OpCode;''])"
  by code_simp

section \<open>Labels\<close>

text \<open>The lines that are instructions, and the length of their code.\<close>

definition instructions :: "string list \<Rightarrow> string list" where
  "instructions lines = filter (\<lambda>line. label_of line = None) lines"

definition code_size :: "string list \<Rightarrow> int" where
  "code_size lines = sum_list (map size_of (instructions lines))"

lemma instructions_simps [simp]:
  "instructions [] = []" "instructions (xs @ ys) = instructions xs @ instructions ys"
  "instructions (line # lines) = (if label_of line = None then line # instructions lines else instructions lines)"
  by (simp_all add: instructions_def)

lemma code_size_simps [simp]:
  "code_size [] = 0" "code_size (xs @ ys) = code_size xs + code_size ys"
  "code_size (line # lines) = (if label_of line = None then size_of line else 0) + code_size lines"
  by (simp_all add: code_size_def)

lemma label_definitions_lines:
  "label_definitions A a lines = Inr (B, out) \<Longrightarrow> out = instructions lines"
  by (induction A a lines arbitrary: B out rule: label_definitions.induct)
    (auto simp: and_then_Inr split: option.splits prod.splits)

lemma label_definitions_other:
  "label_definitions A a lines = Inr (B, out) \<Longrightarrow> \<forall>line \<in> set lines. label_of line \<noteq> Some l \<Longrightarrow> B l = A l"
proof (induction lines arbitrary: A a out)
  case (Cons line lines)
  then show ?case
    by (cases "label_of line") (fastforce simp: and_then_Inr split: option.splits prod.splits)+
qed simp

text \<open>The last definition of a label counts.\<close>

lemma label_definitions_address:
  "label_definitions A a (pre @ target # post) = Inr (B, out) \<Longrightarrow> label_of target = Some l \<Longrightarrow>
   \<forall>line \<in> set post. label_of line \<noteq> Some l \<Longrightarrow> B l = Some (a + code_size pre)"
proof (induction pre arbitrary: A a out)
  case Nil
  then show ?case using label_definitions_other by fastforce
next
  case (Cons line pre)
  show ?case
  proof (cases "label_of line")
    case None
    with Cons show ?thesis by (auto simp: and_then_Inr size_of_def add.assoc split: option.splits prod.splits)
  next
    case (Some k)
    with Cons show ?thesis by auto
  qed
qed

text \<open>The passes behind do not change the instruction's name.\<close>

lemma hd_label_reference:
  assumes "label_reference A line = Inr out"
  shows "hd (split_words out) = hd (split_words line)"
proof (cases "split_words line")
  case (Cons w ws)
  with assms split_on_Cons [OF Cons [unfolded split_words_def]] show ?thesis
    by (auto simp: label_reference_def hd_split_words split: if_splits list.splits option.splits)
qed (simp add: split_words_def)

lemma map_port_instruction:
  assumes "INSTRUCTIONS ins \<noteq> None" and "PORTS port = Some address"
  shows "map_port (ins @ '' '' @ port) = ins @ '' '' @ address"
proof -
  have "\<forall>(ins, _) \<in> set instruction_classes. \<forall>(port, address) \<in> set [(''ddrb'', ''0''), (''portb'', ''1''), (''pinb'', ''2'')].
      map_port (ins @ '' '' @ port) = ins @ '' '' @ address"
    by code_simp
  moreover obtain k where "(ins, k) \<in> set instruction_classes"
    using assms(1) map_of_SomeD by (fastforce simp: INSTRUCTIONS_def)
  moreover have "(port, address) \<in> set [(''ddrb'', ''0''), (''portb'', ''1''), (''pinb'', ''2'')]"
    using assms(2) by (auto simp: PORTS_def split: if_splits)
  ultimately show ?thesis by blast
qed

lemma hd_map_port:
  assumes "INSTRUCTIONS (hd (split_words line)) \<noteq> None"
  shows "hd (split_words (map_port line)) = hd (split_words line)"
proof (cases "\<exists>ins port address. split_words line = [ins, port] \<and> PORTS port = Some address")
  case True
  then obtain ins port address where p: "split_words line = [ins, port]" "PORTS port = Some address" by blast
  with assms map_port_instruction [of ins port address] show ?thesis
    by (auto simp: split_words_two [THEN iffD1, OF p(1)] hd_split_words)
qed (auto simp: map_port_def split: list.splits option.splits)

lemma label_definitions_known:
  "label_definitions A a lines = Inr (B, out) \<Longrightarrow> line \<in> set (instructions lines) \<Longrightarrow>
   INSTRUCTIONS (hd (split_words line)) \<noteq> None"
  by (induction A a lines arbitrary: B out rule: label_definitions.induct)
    (auto simp: and_then_Inr split: option.splits prod.splits if_splits)

text \<open>From a line behind the pass over labels to its code.\<close>

definition line_code :: "(string \<Rightarrow> int list option) \<Rightarrow> (string \<Rightarrow> int option) \<Rightarrow> string \<Rightarrow> py_error + int list" where
  "line_code fl A line = and_then (label_reference A line) (\<lambda>out. encode_line fl (map_port out))"

lemma length_line_code:
  assumes "float_bytes fl" and "INSTRUCTIONS (hd (split_words line)) \<noteq> None" and "line_code fl A line = Inr bs"
  shows "int (length bs) = size_of line"
proof -
  obtain out where out: "label_reference A line = Inr out" "encode_line fl (map_port out) = Inr bs"
    using assms(3) by (auto simp: line_code_def and_then_Inr)
  have "hd (split_words out) = hd (split_words line)" by (rule hd_label_reference [OF out(1)])
  moreover from this have "hd (split_words (map_port out)) = hd (split_words out)"
    using assms(2) by (intro hd_map_port) simp
  ultimately show ?thesis using length_encode_line(2) [OF assms(1) out(2)] by (simp add: size_of_def)
qed

lemma length_code_before:
  assumes "list_all2 (\<lambda>x y. f x = Inr y) xs code" and "\<And>x y. x \<in> set xs \<Longrightarrow> f x = Inr y \<Longrightarrow> int (length y) = g x"
  shows "int (length (concat (take m code))) = sum_list (map g (take m xs))"
  using assms
proof (induction arbitrary: m rule: list_all2_induct)
  case (Cons x xs y ys)
  then show ?case by (cases m) simp_all
qed simp

text \<open>The passes from \<open>build_jumps\<close> on: every instruction becomes its code.\<close>

lemma jumps_code:
  assumes "build_jumps lines = Inr out" and "each (encode_line fl) (map map_port out) = Inr code"
  obtains A where "label_definitions Map.empty 0 lines = Inr (A, instructions lines)"
    and "list_all2 (\<lambda>line bs. line_code fl A line = Inr bs) (instructions lines) code"
proof -
  obtain A ls where A: "label_definitions Map.empty 0 lines = Inr (A, ls)" "each (label_reference A) ls = Inr out"
    using assms(1) by (auto simp: build_jumps_def and_then_Inr)
  have ls: "ls = instructions lines" by (rule label_definitions_lines [OF A(1)])
  have "list_all2 (\<lambda>line out. label_reference A line = Inr out) ls out" using A(2) by (simp add: each_Inr)
  moreover have "list_all2 (\<lambda>out bs. encode_line fl (map_port out) = Inr bs) out code"
    using assms(2) by (simp add: each_Inr list.rel_map)
  ultimately have "list_all2 (\<lambda>line bs. line_code fl A line = Inr bs) ls code"
    by (rule list_all2_trans [rotated]) (simp add: line_code_def)
  with A(1) show ?thesis unfolding ls by (rule that)
qed

lemma instruction_not_label:
  assumes "INSTRUCTIONS ins \<noteq> None"
  shows "label_of (ins @ s) = None"
proof -
  have "\<forall>(ins, _) \<in> set instruction_classes. ins \<noteq> [] \<and> hd ins \<noteq> CHR ''.'' \<and> hd ins \<noteq> CHR ''f''" by code_simp
  moreover obtain k where "(ins, k) \<in> set instruction_classes"
    using assms map_of_SomeD by (fastforce simp: INSTRUCTIONS_def)
  ultimately have "ins \<noteq> []" "hd ins \<noteq> CHR ''.''" "hd ins \<noteq> CHR ''f''" by auto
  then show ?thesis by (cases ins) (simp_all add: label_of_def)
qed

lemma has_substring_append: "has_substring p (s @ p @ t)"
proof (induction s)
  case Nil
  have "starts_with p (p @ t)" by (induction p) simp_all
  then show ?case by (cases "p @ t") simp_all
qed simp

lemma code_of_jump:
  assumes "INSTRUCTIONS ins = Some (opc, U16Operand)" and "CHR '' '' \<notin> set ins" "CHR '' '' \<notin> set l" and "A l = Some i"
  shows "line_code fl A (ins @ '' .'' @ l) = Inr [opc, i mod 256, i div 256 mod 256]"
proof -
  have "split_words (ins @ '' .'' @ l) = [ins, CHR ''.'' # l]" using assms(2,3) by (simp add: split_words_two)
  then have "label_reference A (ins @ '' .'' @ l) = Inr (ins @ '' '' @ py_str i)"
    using has_substring_append [of "'' .''" ins l] assms(4) by (simp add: label_reference_def)
  moreover have "map_port (ins @ '' '' @ py_str i) = ins @ '' '' @ py_str i"
  proof -
    have "PORTS (py_str i) = None"
      using py_str_chars [of "CHR ''b''" i] by (auto simp: PORTS_def is_digit_def)
    moreover have "split_words (ins @ '' '' @ py_str i) = [ins, py_str i]" using assms(2) by (simp add: split_words_two)
    ultimately show ?thesis by (simp add: map_port_def)
  qed
  ultimately show ?thesis using encode_number [OF assms(1,2)] by (simp add: line_code_def)
qed

text \<open>A jump to a label.\<close>

lemma jump_code:
  assumes "build_jumps lines = Inr out" and "each (encode_line fl) (map map_port out) = Inr code" and "float_bytes fl"
    and "lines = pre @ target # post" and "label_of target = Some l" and "\<forall>line \<in> set post. label_of line \<noteq> Some l"
    and "lines = before @ (ins @ '' .'' @ l) # after" and "INSTRUCTIONS ins = Some (opc, U16Operand)"
    and "CHR '' '' \<notin> set ins" and "CHR '' '' \<notin> set l"
  defines "a \<equiv> int (length (concat (take (length (instructions pre)) code)))"
  shows "code ! length (instructions before) = [opc, a mod 256, a div 256 mod 256]"
proof -
  obtain A where A: "label_definitions Map.empty 0 lines = Inr (A, instructions lines)"
      "list_all2 (\<lambda>line bs. line_code fl A line = Inr bs) (instructions lines) code"
    by (rule jumps_code [OF assms(1,2)])
  have "a = sum_list (map size_of (take (length (instructions pre)) (instructions lines)))"
    unfolding a_def
    by (rule length_code_before [OF A(2)]) (metis label_definitions_known [OF A(1)] length_line_code [OF assms(3)])
  also have "\<dots> = code_size pre" by (simp add: assms(4,5) code_size_def)
  finally have a: "A l = Some a"
    using label_definitions_address [OF A(1) [unfolded assms(4)] assms(5,6)] by simp
  have here: "label_of (ins @ '' .'' @ l) = None" using assms(8) by (intro instruction_not_label) simp
  have "instructions lines ! length (instructions before) = ins @ '' .'' @ l"
    "length (instructions before) < length (instructions lines)" using here by (simp_all add: assms(7))
  from list_all2_nthD [OF A(2) this(2)] this(1) code_of_jump [where fl = fl and A = A, OF assms(8-10) a]
  show ?thesis by (metis sum.inject(2))
qed

section \<open>Local variables\<close>

text \<open>Every line with the line before it.\<close>

fun with_previous :: "string \<Rightarrow> string list \<Rightarrow> (string \<times> string) list" where
  "with_previous x [] = []"
| "with_previous x (y # ys) = (x, y) # with_previous y ys"

lemma zip_with_previous: "zip (x # lines) lines = with_previous x lines"
  by (induction x lines rule: with_previous.induct) simp_all

lemma with_previous_append:
  "with_previous x (xs @ ys) = with_previous x xs @ with_previous (last (x # xs)) ys"
  by (induction x xs rule: with_previous.induct) simp_all

lemma snd_with_previous: "map snd (with_previous x lines) = lines"
  by (induction x lines rule: with_previous.induct) simp_all

text \<open>The bytes that the \<open>ALLOC_LOCAL\<close> lines among \<open>rows\<close> allocate: the number is the operand
  of the line before, the literal that the instruction pops.\<close>

fun alloc_size :: "string \<times> string \<Rightarrow> int" where
  "alloc_size (previous, content) =
     (if starts_with ''ALLOC_LOCAL'' content then projr (py_int (split_words previous ! 1)) else 0)"

definition allocated :: "string \<Rightarrow> string list \<Rightarrow> int" where
  "allocated previous lines = sum_list (map alloc_size (with_previous previous lines))"

lemma local_definitions_step:
  assumes "local_definitions A off p ((previous, content) # rest) = Inr r"
  obtains B where "local_definitions B ((if starts_with ''fn .'' content then 0 else off) + alloc_size (previous, content))
      (var_prefix_of content p) rest = Inr r"
    and "\<And>name i. A name = Some i \<Longrightarrow> B name = Some i"
    and "\<And>w v ws. starts_with ''ALLOC_LOCAL'' content \<Longrightarrow> split_words content = w # v # ws \<Longrightarrow>
      \<exists>f. var_prefix_of content p = Some f \<and> B (f @ tl v) = Some (if starts_with ''fn .'' content then 0 else off)"
proof (cases "starts_with ''ALLOC_LOCAL'' content")
  case False
  with assms that [of A] show ?thesis by (simp add: Let_def)
next
  case True
  let ?off = "if starts_with ''fn .'' content then 0 else off"
  from assms True obtain a size as b v bs f n where
    "split_words previous = a # size # as" "split_words content = b # v # bs" "var_prefix_of content p = Some f"
    "A (f @ tl v) = None" "py_int size = Inr n"
    "local_definitions (A(f @ tl v \<mapsto> ?off)) (?off + n) (Some f) rest = Inr r"
    by (auto simp: Let_def and_then_Inr split: list.splits option.splits if_splits)
  with True show ?thesis by (intro that [of "A(f @ tl v \<mapsto> ?off)"]) auto
qed

lemma local_definitions_keep:
  "local_definitions A off p rows = Inr (B, q) \<Longrightarrow> A name = Some i \<Longrightarrow> B name = Some i"
proof (induction rows arbitrary: A off p)
  case (Cons row rows)
  then show ?case by (cases row) (metis local_definitions_step)
qed simp

lemma local_definitions_append:
  "local_definitions A off p (xs @ ys) = Inr r \<Longrightarrow> \<exists>A off p. local_definitions A off p ys = Inr r"
proof (induction xs arbitrary: A off p)
  case (Cons row rows)
  then show ?case by (cases row) (metis append_Cons local_definitions_step)
qed auto

lemma local_definitions_address:
  "local_definitions A off (Some f) (rows @ (previous, alloc) # rest) = Inr (B, q) \<Longrightarrow>
   \<forall>content \<in> set (map snd rows @ [alloc]). \<not> starts_with ''fn .'' content \<Longrightarrow>
   starts_with ''ALLOC_LOCAL'' alloc \<Longrightarrow> split_words alloc = w # v # ws \<Longrightarrow>
   B (f @ tl v) = Some (off + sum_list (map alloc_size rows))"
proof (induction rows arbitrary: A off)
  case Nil
  from Nil(1) have "local_definitions A off (Some f) ((previous, alloc) # rest) = Inr (B, q)" by simp
  then show ?case
  proof (rule local_definitions_step)
    fix C o2 p2
    assume "local_definitions C o2 p2 rest = Inr (B, q)"
      and "\<And>w v ws. starts_with ''ALLOC_LOCAL'' alloc \<Longrightarrow> split_words alloc = w # v # ws \<Longrightarrow>
        \<exists>g. var_prefix_of alloc (Some f) = Some g
          \<and> C (g @ tl v) = Some (if starts_with ''fn .'' alloc then 0 else off)"
    with Nil(2) this(2) [OF Nil(3,4)] show ?case by (auto simp: var_prefix_of_def local_definitions_keep)
  qed
next
  case (Cons row rows)
  obtain x y where row: "row = (x, y)" by (cases row)
  with Cons.prems(1) have "local_definitions A off (Some f) ((x, y) # rows @ (previous, alloc) # rest) = Inr (B, q)"
    by simp
  then show ?case
  proof (rule local_definitions_step)
    fix C
    assume "local_definitions C ((if starts_with ''fn .'' y then 0 else off) + alloc_size (x, y)) (var_prefix_of y (Some f))
        (rows @ (previous, alloc) # rest) = Inr (B, q)"
    then have "local_definitions C (off + alloc_size (x, y)) (Some f) (rows @ (previous, alloc) # rest) = Inr (B, q)"
      using Cons.prems(2) by (simp add: row var_prefix_of_def)
    from Cons.IH [OF this] Cons.prems(2-4) show ?case by (simp add: row add.assoc)
  qed
qed

lemma local_references_append:
  "local_references A p (xs @ ys) = Inr out \<Longrightarrow>
   \<exists>us vs. out = us @ vs \<and> length us = length xs \<and> local_references A (fold var_prefix_of xs p) ys = Inr vs"
proof (induction xs arbitrary: p out)
  case (Cons x xs)
  then obtain line lines where out: "out = line # lines" "local_references A (var_prefix_of x p) (xs @ ys) = Inr lines"
    by (auto simp: Let_def and_then_Inr)
  from Cons.IH [OF out(2)] obtain us vs where "lines = us @ vs" "length us = length xs"
      "local_references A (fold var_prefix_of xs (var_prefix_of x p)) ys = Inr vs" by blast
  then show ?case by (intro exI [of _ "line # us"] exI [of _ vs]) (simp add: out(1))
qed simp

lemma fold_var_prefix_of:
  "\<forall>line \<in> set xs. \<not> starts_with ''fn .'' line \<Longrightarrow> fold var_prefix_of xs p = p"
  by (induction xs arbitrary: p) (simp_all add: var_prefix_of_def)

text \<open>A reference to a local variable is replaced by the number of bytes that its function
  allocates before it.\<close>

lemma local_reference_offset:
  assumes "build_local_variables lines = Inr out"
    and "lines = pre @ (''fn .'' @ f) # body @ (''ALLOC_LOCAL $'' @ x) # rest"
    and "lines = pre' @ (''fn .'' @ f) # body' @ (ins @ '' $'' @ x) # rest'"
    and "\<forall>line \<in> set (body @ body' @ [ins]). \<not> starts_with ''fn .'' line"
    and "CHR '' '' \<notin> set ins" and "CHR '' '' \<notin> set x" and "INSTRUCTIONS ins \<noteq> None"
  shows "out ! length (pre' @ (''fn .'' @ f) # body') = ins @ '' '' @ py_str (allocated (''fn .'' @ f) body)"
proof -
  let ?fn = "''fn .'' @ f" and ?alloc = "''ALLOC_LOCAL $'' @ x" and ?ref = "ins @ '' $'' @ x"
  obtain B q where B: "local_definitions Map.empty 0 None (with_previous (last lines) lines) = Inr (B, q)"
      "local_references B q lines = Inr out"
    using assms(1) by (auto simp: build_local_variables_def and_then_Inr zip_with_previous)
  have fn: "var_prefix_of ?fn p = Some (f @ ''_'')" "starts_with ''fn .'' ?fn" "\<not> starts_with ''ALLOC_LOCAL'' ?fn" for p
    by (simp_all add: var_prefix_of_def)
  obtain A off p where "local_definitions A off p ((last (last lines # pre), ?fn) # with_previous ?fn body
      @ (last (?fn # body), ?alloc) # with_previous ?alloc rest) = Inr (B, q)"
    using local_definitions_append [OF B(1) [unfolded assms(2) with_previous_append with_previous.simps append_Cons]]
    by (auto simp: assms(2) with_previous_append)
  then obtain C where "local_definitions C 0 (Some (f @ ''_'')) (with_previous ?fn body
      @ (last (?fn # body), ?alloc) # with_previous ?alloc rest) = Inr (B, q)"
    using fn by (auto elim!: local_definitions_step)
  then have "B ((f @ ''_'') @ tl (CHR ''$'' # x)) = Some (0 + allocated ?fn body)"
    unfolding allocated_def
    by (rule local_definitions_address)
      (use assms(4,6) in \<open>simp_all add: snd_with_previous split_words_def\<close>)
  then have address: "B (f @ ''_'' @ x) = Some (allocated ?fn body)" by simp
  have "lines = (pre' @ ?fn # body') @ ?ref # rest'" by (simp add: assms(3))
  from local_references_append [OF B(2) [unfolded this]] obtain us vs where
    us: "out = us @ vs" "length us = length (pre' @ ?fn # body')"
      "local_references B (fold var_prefix_of (pre' @ ?fn # body') q) (?ref # rest') = Inr vs" by blast
  have "fold var_prefix_of (pre' @ ?fn # body') q = Some (f @ ''_'')"
    using assms(4) fn by (simp add: fold_var_prefix_of)
  moreover have "var_prefix_of ?ref (Some (f @ ''_'')) = Some (f @ ''_'')"
    using instruction_not_label [OF assms(7), of "'' $'' @ x"] by (simp add: var_prefix_of_def label_of_def split: if_splits)
  moreover have "split_words ?ref = [ins, CHR ''$'' # x]" using assms(5,6) by (simp add: split_words_two)
  ultimately have "hd vs = ins @ '' '' @ py_str (allocated ?fn body)" "vs \<noteq> []"
    using us(3) address by (auto simp: Let_def and_then_Inr)
  with us(1,2) show ?thesis by (simp add: nth_append hd_conv_nth)
qed

section \<open>Constants\<close>

definition const_bytes :: "string \<Rightarrow> string \<Rightarrow> py_error + int list" where
  "const_bytes const_type const_value =
     (if const_type = ''STRING'' then each py_int (split_on (CHR '','') const_value)
      else if const_type = ''U16'' then string_to_uint8_list const_value 2
      else Inr [])"

lemma const_definitions_other_line:
  "\<not> starts_with ''CONST'' line \<Longrightarrow> const_definitions A data (line # lines) = const_definitions A data lines"
  by simp

lemma const_definitions_line:
  assumes "const_definitions A data (line # lines) = Inr r" and "starts_with ''CONST'' line"
  obtains name ct cv bs where "tl (split_words line) = [name, ct, cv]" and "const_bytes ct cv = Inr bs"
    and "const_definitions (A(name \<mapsto> py_str (int (length data) + 3))) (data @ bs) lines = Inr r"
proof -
  obtain name ct cv where words: "tl (split_words line) = [name, ct, cv]"
    using assms by (auto split: list.splits)
  with assms obtain bs where "const_bytes ct cv = Inr bs"
      "const_definitions (A(name \<mapsto> py_str (int (length data) + 3))) (data @ bs) lines = Inr r"
    unfolding const_definitions.simps const_bytes_def by (simp only: if_True list.case and_then_Inr) blast
  with words show ?thesis by (rule that)
qed

declare const_definitions.simps(2) [simp del]

lemma const_definitions_grow:
  "const_definitions A data lines = Inr (B, all) \<Longrightarrow> \<exists>more. all = data @ more"
proof (induction lines arbitrary: A data)
  case (Cons line lines)
  show ?case
  proof (cases "starts_with ''CONST'' line")
    case True
    from const_definitions_line [OF Cons.prems True] show ?thesis using Cons.IH by (metis append.assoc)
  next
    case False
    with Cons show ?thesis by (simp add: const_definitions_other_line)
  qed
qed simp

text \<open>A line that defines the constant \<open>name\<close>.\<close>

definition declares :: "string \<Rightarrow> string \<Rightarrow> bool" where
  "declares name line \<longleftrightarrow> starts_with ''CONST'' line \<and> split_words line ! 1 = name"

lemma const_definitions_other:
  "const_definitions A data lines = Inr (B, all) \<Longrightarrow> \<forall>line \<in> set lines. \<not> declares name line \<Longrightarrow> B name = A name"
proof (induction lines arbitrary: A data)
  case (Cons line lines)
  show ?case
  proof (cases "starts_with ''CONST'' line")
    case True
    obtain n ct cv bs where step: "tl (split_words line) = [n, ct, cv]"
        "const_definitions (A(n \<mapsto> py_str (int (length data) + 3))) (data @ bs) lines = Inr (B, all)"
      by (rule const_definitions_line [OF Cons.prems(1) True])
    have "split_words line ! 1 = n" using step(1) by (cases "split_words line") simp_all
    with True Cons.prems(2) have "n \<noteq> name" by (auto simp: declares_def)
    with Cons.IH [OF step(2)] Cons.prems(2) show ?thesis by simp
  next
    case False
    with Cons show ?thesis by (simp add: const_definitions_other_line)
  qed
qed simp

lemma const_definitions_address:
  "const_definitions A data (pre @ line # post) = Inr (B, all) \<Longrightarrow>
   line = ''CONST '' @ name @ '' '' @ ct @ '' '' @ cv \<Longrightarrow> CHR '' '' \<notin> set (name @ ct @ cv) \<Longrightarrow>
   \<forall>line \<in> set post. \<not> declares name line \<Longrightarrow>
   \<exists>xs bs ys. all = xs @ bs @ ys \<and> const_bytes ct cv = Inr bs \<and> B name = Some (py_str (int (length xs) + 3))"
proof (induction pre arbitrary: A data)
  case Nil
  have words: "tl (split_words line) = [name, ct, cv]"
    using Nil(2,3) split_on_append [of "CHR '' ''" "''CONST''" "name @ '' '' @ ct @ '' '' @ cv"]
    by (simp add: split_words_def)
  have "starts_with ''CONST'' line" using Nil(2) by simp
  then obtain bs where bs: "const_bytes ct cv = Inr bs"
      "const_definitions (A(name \<mapsto> py_str (int (length data) + 3))) (data @ bs) post = Inr (B, all)"
    using const_definitions_line [of A data line post "(B, all)"] Nil(1) words by auto
  obtain ys where "all = (data @ bs) @ ys" using const_definitions_grow [OF bs(2)] by blast
  with bs(1) const_definitions_other [OF bs(2) Nil(4)] show ?case by (intro exI) auto
next
  case (Cons other pre)
  have "\<exists>C more. const_definitions C (data @ more) (pre @ line # post) = Inr (B, all)"
  proof (cases "starts_with ''CONST'' other")
    case True
    from Cons.prems(1) have "const_definitions A data (other # (pre @ line # post)) = Inr (B, all)" by simp
    from const_definitions_line [OF this True] show ?thesis by metis
  next
    case False
    with Cons.prems(1) show ?thesis by (metis append.right_neutral append_Cons const_definitions_other_line)
  qed
  then obtain C more where "const_definitions C (data @ more) (pre @ line # post) = Inr (B, all)" by blast
  from Cons.IH [OF this Cons.prems(2-4)] show ?case .
qed

text \<open>A reference to a constant is replaced by an address at which the machine finds its bytes.\<close>

lemma const_reference_found:
  assumes "build_const_data lines = Inr (out, data)"
    and "lines = pre @ (''CONST '' @ name @ '' '' @ ct @ '' '' @ cv) # post"
    and "CHR '' '' \<notin> set (name @ ct @ cv)" and "\<forall>line \<in> set post. \<not> declares name line"
    and "(ins @ '' $'' @ name) \<in> set lines" and "CHR '' '' \<notin> set ins" and "\<not> starts_with ''CONST'' (ins @ '' $'' @ name)"
  obtains k bs where "const_bytes ct cv = Inr bs" and "take (length bs) (drop k data) = bs" and "k \<le> length data"
    and "(ins @ '' '' @ py_str (int k + 3)) \<in> set out"
proof -
  obtain B where B: "const_definitions PORTS [] lines = Inr (B, data)"
      "each (const_reference B) (filter (\<lambda>line. \<not> starts_with ''CONST'' line) lines) = Inr out"
    using assms(1) by (auto simp: build_const_data_def and_then_Inr)
  obtain xs bs ys where bs: "data = xs @ bs @ ys" "const_bytes ct cv = Inr bs" "B name = Some (py_str (int (length xs) + 3))"
    using const_definitions_address [OF B(1) [unfolded assms(2)] refl assms(3,4)] by blast
  have "split_words (ins @ '' $'' @ name) = [ins, CHR ''$'' # name]" using assms(3,6) by (simp add: split_words_two)
  then have "const_reference B (ins @ '' $'' @ name) = Inr (ins @ '' '' @ py_str (int (length xs) + 3))"
    using bs(3) by (simp add: const_reference_def)
  moreover have "(ins @ '' $'' @ name) \<in> set (filter (\<lambda>line. \<not> starts_with ''CONST'' line) lines)"
    using assms(5,7) by simp
  then obtain y where "const_reference B (ins @ '' $'' @ name) = Inr y" "y \<in> set out"
    using each_in_set [OF B(2)] by blast
  ultimately have "(ins @ '' '' @ py_str (int (length xs) + 3)) \<in> set out" by simp
  with bs show ?thesis by (intro that [of bs "length xs"]) simp_all
qed

section \<open>Properties\<close>

text \<open>C24: jumps. Take lines that \<open>build_jumps\<close> and the passes behind it turn into code, and a line
  \<open>INS .l\<close> among them, where \<open>INS\<close> has a 16-bit operand. Then the code of this line is the opcode
  followed by the low and the high byte of the offset in the program at which the code behind
  the last definition of the label \<open>l\<close> begins. (Labels of all functions share one name space;
  an earlier label of the same name is not seen.)\<close>

theorem jump_reaches_label:
  assumes "build_jumps lines = Inr out" and "each (encode_line fl) (map map_port out) = Inr code" and "float_bytes fl"
    and "lines = pre @ target # post" and "label_of target = Some l" and "\<forall>line \<in> set post. label_of line \<noteq> Some l"
    and "lines = before @ (ins @ '' .'' @ l) # after" and "INSTRUCTIONS ins = Some (opc, U16Operand)"
    and "CHR '' '' \<notin> set ins" and "CHR '' '' \<notin> set l"
  shows "let a = int (length (concat (take (length (instructions pre)) code)))
    in code ! length (instructions before) = [opc, a mod 256, a div 256 mod 256]"
  unfolding Let_def using assms by (rule jump_code)

text \<open>A jump back over a literal: the label is behind the seven bytes of the first three lines.\<close>

theorem jump_reaches_label_witness:
  "build_jumps [''CALL .main'', ''HALT'', ''fn .main'', ''PUSHL_U16 1'', ''.loop'', ''TOP_U16'', ''JUMP .loop'']
     = Inr [''CALL 4'', ''HALT'', ''PUSHL_U16 1'', ''TOP_U16'', ''JUMP 7'']
   \<and> [[9, 4, 0], [0], [14, 1, 0], [16], [2, 7, 0]] ! 4 = [2, 7, 0 :: int]"
proof -
  let ?lines = "[''CALL .main'', ''HALT'', ''fn .main'', ''PUSHL_U16 1'', ''.loop'', ''TOP_U16'', ''JUMP .loop'']"
  have build: "build_jumps ?lines = Inr [''CALL 4'', ''HALT'', ''PUSHL_U16 1'', ''TOP_U16'', ''JUMP 7'']" by code_simp
  have code: "each (encode_line (\<lambda>_. None)) (map map_port [''CALL 4'', ''HALT'', ''PUSHL_U16 1'', ''TOP_U16'', ''JUMP 7''])
      = Inr [[9, 4, 0], [0], [14, 1, 0], [16], [2, 7, 0]]" by code_simp
  have split: "?lines = take 4 ?lines @ ''.loop'' # [''TOP_U16'', ''JUMP .loop'']"
    "?lines = take 6 ?lines @ (''JUMP'' @ '' .'' @ ''loop'') # []" by simp_all
  have counts: "length (instructions (take 4 ?lines)) = 3" "length (instructions (take 6 ?lines)) = 4" by code_simp+
  have "\<forall>line \<in> set [''TOP_U16'', ''JUMP .loop'']. label_of line \<noteq> Some ''loop''"
    "label_of ''.loop'' = Some ''loop''" "INSTRUCTIONS ''JUMP'' = Some (2, U16Operand)" by code_simp+
  then have "[[9, 4, 0], [0], [14, 1, 0], [16], [2, 7, 0]] ! 4 = [2, 7, 0 :: int]"
    using jump_reaches_label [OF build code _ split(1) _ _ split(2)]
    unfolding counts by (simp add: float_bytes_def Let_def)
  with build show ?thesis by simp
qed

text \<open>C25: local variables. The reference to a variable in a function is replaced by the number of
  bytes that the lines \<open>ALLOC_LOCAL\<close> of this function before the one of the variable allocate,
  each with the literal that the line before it pushes. So the variables of a function lie
  one behind the other, in the order of their allocations.\<close>

theorem local_variable_offsets:
  assumes "build_local_variables lines = Inr out"
    and "lines = pre @ (''fn .'' @ f) # body @ (''ALLOC_LOCAL $'' @ x) # rest"
    and "lines = pre' @ (''fn .'' @ f) # body' @ (ins @ '' $'' @ x) # rest'"
    and "\<forall>line \<in> set (body @ body' @ [ins]). \<not> starts_with ''fn .'' line"
    and "CHR '' '' \<notin> set ins" and "CHR '' '' \<notin> set x" and "INSTRUCTIONS ins \<noteq> None"
  shows "out ! length (pre' @ (''fn .'' @ f) # body') = ins @ '' '' @ py_str (allocated (''fn .'' @ f) body)"
  using assms by (rule local_reference_offset)

theorem local_variable_offsets_witness:
  "build_local_variables [''fn .main'', ''PUSHL_U16 10'', ''ALLOC_LOCAL $a'', ''PUSHL_U16 2'', ''ALLOC_LOCAL $i'', ''PUSHL_U16 $i'']
     = Inr [''fn .main'', ''PUSHL_U16 10'', ''ALLOC_LOCAL 0'', ''PUSHL_U16 2'', ''ALLOC_LOCAL 10'', ''PUSHL_U16 10'']
   \<and> ''PUSHL_U16 10'' = ''PUSHL_U16'' @ '' '' @ py_str (allocated ''fn .main'' [''PUSHL_U16 10'', ''ALLOC_LOCAL $a'', ''PUSHL_U16 2''])"
proof -
  let ?lines = "[''fn .main'', ''PUSHL_U16 10'', ''ALLOC_LOCAL $a'', ''PUSHL_U16 2'', ''ALLOC_LOCAL $i'', ''PUSHL_U16 $i'']"
  have build: "build_local_variables ?lines
      = Inr [''fn .main'', ''PUSHL_U16 10'', ''ALLOC_LOCAL 0'', ''PUSHL_U16 2'', ''ALLOC_LOCAL 10'', ''PUSHL_U16 10'']" by code_simp
  have split: "?lines = [] @ (''fn .'' @ ''main'') # [''PUSHL_U16 10'', ''ALLOC_LOCAL $a'', ''PUSHL_U16 2'']
        @ (''ALLOC_LOCAL $'' @ ''i'') # [''PUSHL_U16 $i'']"
    "?lines = [] @ (''fn .'' @ ''main'') # [''PUSHL_U16 10'', ''ALLOC_LOCAL $a'', ''PUSHL_U16 2'', ''ALLOC_LOCAL $i'']
        @ (''PUSHL_U16'' @ '' $'' @ ''i'') # []" by simp_all
  have "INSTRUCTIONS ''PUSHL_U16'' \<noteq> None" by code_simp
  with local_variable_offsets [OF build split] build show ?thesis by simp
qed

end
