(* ===== verification/Sample_Spec.thy ===== *)
theory Sample_Spec
  imports Whole_Spec
begin

text \<open>
  Two sample programs, src/programs/recursion.rfl (calls) and src/programs/fibonacci.rfl (loops),
  run on the whole machine. They are run symbolically on the abstract machine, by induction on
  the calls and on the rounds of the loop, and the machine implements the abstract one.
\<close>

section \<open>Programs at the start\<close>

text \<open>The abstract machine with this program and data address and nothing below the operands and
  the calls.\<close>

definition loaded :: "u8 list \<Rightarrow> u16 \<Rightarrow> vm \<Rightarrow> bool" where
  "loaded prog d v \<longleftrightarrow> v_prog v = prog \<and> v_data v = d \<and> v_ops v = [] \<and> v_callers v = []
     \<and> v_ops_size v = 1024 \<and> v_calls_size v = 4096"

lemma loaded_said [simp]: "loaded prog d (said v es) = loaded prog d v"
  by (simp add: loaded_def said_def)

lemma loaded_start [simp]: "loaded prog d (a_start prog d s)"
  by (simp add: loaded_def a_start_def)

text \<open>From a run of the abstract machine to a run of \<open>main\<close>.\<close>

lemma program_runs:
  fixes s :: cpu
  assumes "power_on s" and "network_up s" and "env_accept s = (\<lambda>_. WouldBlock)"
    and "length prog = unat n" and "k \<le> 255 * Suc rounds" and "w \<noteq> OutOfFuel"
    and "\<And>v. loaded prog d v \<Longrightarrow> \<exists>u. a_run k (word_state v 0 [] [] []) = Inl (w, u) \<and> v_out u = v_out v @ es"
  shows "\<exists>t gs. vm_main prog n d (Suc (Suc fuel)) (Suc rounds) s = Inl (w, t)
    \<and> out t = out s @ [Printf ''Starting VM\<newline>'' []] @ es @ gs
    \<and> (w = ExitSuccess \<longrightarrow> gs = [Printf ''Exit\<newline>'' []])"
proof -
  let ?v = "a_start prog d s"
  have start: "word_state ?v 0 [] [] [] = ?v" by (simp add: word_state_def a_start_def)
  obtain u where u: "a_run k ?v = Inl (w, u)" "v_out u = v_out ?v @ es"
    using assms(7) [OF loaded_start [of prog d s]] unfolding start by blast
  have "v_out ?v = out s @ [Printf ''Starting VM\<newline>'' []]" by (simp add: a_start_def)
  with u(2) whole_run_stops [where fuel = fuel, OF assms(4,1-3) u(1) assms(5,6)] show ?thesis by fastforce
qed

section \<open>The recursive counter\<close>

text \<open>The code of src/programs/recursion.rfl with the argument \<open>n\<close>.\<close>

definition recursion_rfl :: "u16 \<Rightarrow> u8 list" where
  "recursion_rfl n =
    [9, 4, 0, 0,
     14, ucast n, ucast (drop_bit 8 n), 14, 1, 0, 9, 20, 0, 14, 3, 0, 11, 0, 0, 10,
     14, 2, 0, 23, 0, 0, 14, 2, 0, 14, 0, 0, 25,
     14, 2, 0, 23, 2, 0, 14, 2, 0, 14, 2, 0, 25,
     14, 2, 0, 14, 2, 0, 24, 14, 2, 0, 14, 0, 0, 24, 4, 3, 72, 0,
     14, 2, 0, 14, 0, 0, 24, 10,
     14, 2, 0, 14, 2, 0, 24, 14, 2, 0, 14, 0, 0, 24, 14, 1, 0, 17, 9, 20, 0, 10,
     114, 101, 115, 117, 108, 116, 58, 32, 37, 117, 10, 0]"

lemma length_recursion_rfl [simp]: "length (recursion_rfl n) = 106"
  by (simp add: recursion_rfl_def)

lemma main_calls:
  assumes "loaded (recursion_rfl n) 94 v"
  shows "a_run 4 (word_state v 0 [] [] []) = Inr ((), word_state v 20 [1, n] [] [(13, []), (3, [])])"
  using assms by (simp add: loaded_def execution recursion_rfl_def st_simps del: a_run.simps(2))

text \<open>A call of \<open>incr\<close> stores its arguments and compares them.\<close>

lemma incr_compares:
  assumes "loaded (recursion_rfl n) 94 v" and "frames_size fs \<le> 4092"
  shows "a_run 18 (word_state v 20 [i, m] [] fs)
    = Inr ((), word_state v (if m = i then 64 else 72) [] [Some i, Some m] fs)"
  using assms by (simp add: loaded_def execution recursion_rfl_def st_simps del: a_run.simps(2))

lemma incr_returns:
  assumes "loaded (recursion_rfl n) 94 v"
  shows "a_run 4 (word_state v 64 [] [Some i, Some m] ((a, ys) # fs)) = Inr ((), word_state v (unat a) [i] ys fs)"
  using assms by (simp add: loaded_def execution recursion_rfl_def st_simps del: a_run.simps(2))

lemma incr_calls:
  assumes "loaded (recursion_rfl n) 94 v" and "frames_size fs \<le> 4088"
  shows "a_run 9 (word_state v 72 [] [Some i, Some m] fs)
    = Inr ((), word_state v 20 [i + 1, m] [] ((93, [Some i, Some m]) # fs))"
  using assms by (simp add: loaded_def execution recursion_rfl_def st_simps del: a_run.simps(2))

lemma incr_returns_again:
  assumes "loaded (recursion_rfl n) 94 v"
  shows "a_run 1 (word_state v 93 [r] xs ((a, ys) # fs)) = Inr ((), word_state v (unat a) [r] ys fs)"
  using assms by (simp add: loaded_def execution recursion_rfl_def st_simps del: a_run.simps(2))

text \<open>The calls nest until the counter reaches \<open>m\<close>, and return one after the other.\<close>

lemma incr_counts:
  assumes "loaded (recursion_rfl n) 94 v" and "frames_size ((a, ys) # fs) + 8 * d \<le> 4092"
  shows "a_run (28 * d + 22) (word_state v 20 [m - of_nat d, m] [] ((a, ys) # fs))
    = Inr ((), word_state v (unat a) [m] ys fs)"
  using assms(2)
proof (induction d arbitrary: a ys fs)
  case 0
  then have "frames_size ((a, ys) # fs) \<le> 4092" by simp
  note compare = incr_compares [OF assms(1) this, of m m]
  have "a_run (18 + 4) (word_state v 20 [m, m] [] ((a, ys) # fs)) = Inr ((), word_state v (unat a) [m] ys fs)"
    unfolding a_run_add seq_apply compare by (simp add: incr_returns [OF assms(1)] del: a_run.simps)
  then show ?case by simp
next
  case (Suc d)
  let ?i = "m - of_nat (Suc d)" and ?fs = "(a, ys) # fs"
  have small: "Suc d < 65536" using Suc.prems by simp
  have "m \<noteq> ?i"
  proof
    assume "m = ?i"
    then have "(of_nat (Suc d) :: u16) = 0" by (metis add_left_cancel diff_add_cancel add.right_neutral)
    then have "unat (of_nat (Suc d) :: u16) = 0" by simp
    with small show False by (simp add: unat_of_nat del: of_nat_Suc)
  qed
  moreover have "?i + 1 = m - of_nat d" by simp
  moreover have "frames_size ((93, [Some ?i, Some m]) # ?fs) + 8 * d \<le> 4092" using Suc.prems by simp
  note inner = Suc.IH [OF this]
  ultimately have "a_run (18 + (9 + ((28 * d + 22) + 1))) (word_state v 20 [?i, m] [] ?fs)
      = Inr ((), word_state v (unat a) [m] ys fs)"
    unfolding a_run_add seq_apply
    using incr_compares [OF assms(1), of ?fs ?i m] incr_calls [OF assms(1), of ?fs ?i m] Suc.prems inner
      incr_returns_again [OF assms(1), of m "[Some ?i, Some m]" a ys fs] by (simp del: a_run.simps)
  moreover have "18 + (9 + ((28 * d + 22) + 1)) = 28 * Suc d + 22" by simp
  ultimately show ?case by metis
qed

text \<open>With fewer frames left than calls to make, the store of an argument overflows the call stack.\<close>

lemma incr_overflows:
  assumes "loaded (recursion_rfl n) 94 v" and "frames_size fs + 8 * d = 4096" and "\<And>j. j < d \<Longrightarrow> i + of_nat j \<noteq> m"
  shows "\<exists>t. a_run (27 * d + 5) (word_state v 20 [i, m] [] fs) = Inl (ExitFailure, t) \<and> v_out t = v_out v"
  using assms(2,3)
proof (induction d arbitrary: i fs)
  case 0
  have "a_run (4 + 1) (word_state v 20 [i, m] [] fs) = a_run 1 (word_state v 32 [0, 2, i, m] [None] fs)"
    unfolding a_run_add seq_apply using assms(1) 0
    by (simp add: loaded_def execution recursion_rfl_def st_simps del: a_run.simps(2))
  moreover have "\<exists>t. a_run 1 (word_state v 32 [0, 2, i, m] [None] fs) = Inl (ExitFailure, t) \<and> v_out t = v_out v"
    by (rule run_store_overflow)
      (use assms(1) 0 in \<open>simp_all add: loaded_def op_at_iff opcode_numbers recursion_rfl_def fits_def depth_of_def\<close>)
  ultimately show ?case by simp
next
  case (Suc d)
  have "m \<noteq> i" using Suc.prems(2) [of 0] by auto
  moreover have "\<exists>t. a_run (27 * d + 5) (word_state v 20 [i + 1, m] [] ((93, [Some i, Some m]) # fs))
      = Inl (ExitFailure, t) \<and> v_out t = v_out v"
    by (rule Suc.IH) (use Suc.prems(1) Suc.prems(2) [of "Suc _"] in \<open>auto simp: add.assoc\<close>)
  ultimately have "\<exists>t. a_run (18 + (9 + (27 * d + 5))) (word_state v 20 [i, m] [] fs) = Inl (ExitFailure, t)
      \<and> v_out t = v_out v"
    unfolding a_run_add seq_apply
    using incr_compares [OF assms(1), of fs i m] incr_calls [OF assms(1), of fs i m] Suc.prems by (auto simp del: a_run.simps)
  moreover have "18 + (9 + (27 * d + 5)) = 27 * Suc d + 5" by simp
  ultimately show ?case by metis
qed

subsection \<open>The whole program\<close>

definition result_events :: "u16 \<Rightarrow> event list" where
  "result_events n = map (\<lambda>c. Printf ''%c'' [AInt (of_char c)]) ''result: ''
     @ [Printf ''%hu'' [AInt (uint n)], Printf ''%c'' [AInt 10]]"

lemma format_prints:
  "a_format (drop 94 (recursion_rfl n)) (word_state v i (m # ws) xs fs)
    = Inr ((), word_state (said v (result_events m)) i ws xs fs)"
  by (simp add: recursion_rfl_def a_conversion_def st_simps pop_u16_word_state result_events_def)

lemma main_prints:
  assumes "loaded (recursion_rfl n) 94 v"
  shows "\<exists>w. a_run 4 (word_state v 13 [m] [] [(3, [])]) = Inl (ExitSuccess, w)
    \<and> v_out w = v_out v @ result_events m"
proof -
  let ?w = "said v (result_events m)"
  have "a_run 4 (word_state v 13 [m] [] [(3, [])]) = a_run 3 (word_state v 16 [3, m] [] [(3, [])])"
    using assms by (simp add: loaded_def execution recursion_rfl_def del: a_run.simps(2))
  also have "\<dots> = a_run (3 - 1) (word_state ?w 19 [] [] [(3, [])])"
    by (rule run_print [where cs = "drop 94 (recursion_rfl n)" and j = 19, OF _ _ _ _ _ trans [OF _ format_prints]])
      (use assms in \<open>simp_all add: loaded_def op_at_iff opcode_numbers u16_at_def u16_of_small recursion_rfl_def
        fits_def program_suffix_def\<close>)
  also have "\<dots> = Inl (ExitSuccess, word_state ?w 4 [] [] [])"
    using assms by (simp add: loaded_def execution recursion_rfl_def del: a_run.simps(2))
  finally show ?thesis by (simp add: word_state_def)
qed

lemma recursion_prints:
  assumes "loaded (recursion_rfl n) 94 v" and "0 < n" and "n \<le> 511"
  shows "\<exists>w. a_run (28 * unat n + 2) (word_state v 0 [] [] []) = Inl (ExitSuccess, w)
    \<and> v_out w = v_out v @ result_events n"
proof -
  define d where "d = unat n - 1"
  have n: "unat n = Suc d" "d \<le> 510" using assms(2,3) by (auto simp: d_def word_less_nat_alt word_le_nat_alt)
  then have "n = of_nat (Suc d)" by (simp add: word_unat_eq_iff unat_of_nat del: of_nat_Suc)
  then have "n - of_nat d = 1" by simp
  then have "a_run (28 * d + 22) (word_state v 20 [1, n] [] [(13, []), (3, [])]) = Inr ((), word_state v 13 [n] [] [(3, [])])"
    using incr_counts [OF assms(1), of 13 "[]" "[(3, [])]" d n] n(2) by simp
  then have "\<exists>w. a_run (4 + ((28 * d + 22) + 4)) (word_state v 0 [] [] []) = Inl (ExitSuccess, w)
      \<and> v_out w = v_out v @ result_events n"
    unfolding a_run_add seq_apply main_calls [OF assms(1)] using main_prints [OF assms(1), of n] by simp
  moreover have "4 + ((28 * d + 22) + 4) = 28 * unat n + 2" using n by simp
  ultimately show ?thesis by metis
qed

lemma recursion_fails:
  assumes "loaded (recursion_rfl n) 94 v" and "n = 0 \<or> 511 < n"
  shows "\<exists>w. a_run 13806 (word_state v 0 [] [] []) = Inl (ExitFailure, w) \<and> v_out w = v_out v"
proof -
  have "1 + of_nat j \<noteq> n" if "j < 511" for j
  proof
    assume "1 + of_nat j = n"
    then have "n = of_nat (Suc j)" by simp
    then have "unat n = Suc j" using that by (simp add: unat_of_nat del: of_nat_Suc)
    with assms(2) that show False by (auto simp: word_less_nat_alt)
  qed
  then have "\<exists>w. a_run (27 * 511 + 5) (word_state v 20 [1, n] [] [(13, []), (3, [])]) = Inl (ExitFailure, w) \<and> v_out w = v_out v"
    by (intro incr_overflows [OF assms(1)]) simp_all
  then have "\<exists>w. a_run (4 + (27 * 511 + 5)) (word_state v 0 [] [] []) = Inl (ExitFailure, w) \<and> v_out w = v_out v"
    unfolding a_run_add seq_apply main_calls [OF assms(1)] by simp
  then show ?thesis by simp
qed

section \<open>The Fibonacci numbers\<close>

text \<open>The code of src/programs/fibonacci.rfl with the argument \<open>n\<close>.\<close>

definition fibonacci_rfl :: "u16 \<Rightarrow> u8 list" where
  "fibonacci_rfl n =
    [9, 4, 0, 0,
     14, 2, 0, 23, 0, 0, 14, 0, 0, 14, 2, 0, 14, 0, 0, 25,
     14, 2, 0, 23, 2, 0, 14, 1, 0, 14, 2, 0, 14, 2, 0, 25,
     14, 2, 0, 23, 4, 0, 14, 2, 0, 23, 6, 0,
     14, 2, 0, 23, 8, 0, 14, ucast n, ucast (drop_bit 8 n), 14, 2, 0, 14, 8, 0, 25,
     14, 2, 0, 14, 8, 0, 24, 14, 3, 0, 11, 0, 0,
     14, 2, 0, 14, 8, 0, 24, 14, 1, 0, 17, 14, 2, 0, 14, 8, 0, 25,
     14, 2, 0, 14, 8, 0, 24, 14, 1, 0, 8, 3, 116, 0, 14, 2, 0, 14, 8, 0, 24,
     14, 2, 0, 14, 8, 0, 24, 14, 2, 0, 8, 3, 138, 0, 14, 2, 0, 14, 2, 0, 24, 16,
     14, 3, 0, 14, 2, 0, 14, 6, 0, 25,
     14, 2, 0, 23, 10, 0, 14, 1, 0, 14, 2, 0, 14, 10, 0, 25,
     14, 2, 0, 14, 0, 0, 24, 14, 2, 0, 14, 2, 0, 24, 17, 16, 14, 2, 0, 14, 4, 0, 25,
     14, 2, 0, 14, 2, 0, 24, 14, 2, 0, 14, 0, 0, 25,
     14, 2, 0, 14, 4, 0, 24, 14, 2, 0, 14, 2, 0, 25,
     14, 2, 0, 14, 6, 0, 14, 2, 0, 24, 14, 2, 0, 14, 10, 0, 24, 17, 14, 2, 0, 14, 6, 0, 25,
     14, 2, 0, 14, 6, 0, 24, 14, 2, 0, 14, 8, 0, 14, 2, 0, 24, 6, 3, 164, 0, 0,
     110, 61, 37, 117, 10, 0]"

lemma length_fibonacci_rfl [simp]: "length (fibonacci_rfl n) = 268"
  by (simp add: fibonacci_rfl_def)

fun fib :: "nat \<Rightarrow> nat" where
  "fib 0 = 0"
| "fib (Suc 0) = 1"
| "fib (Suc (Suc k)) = fib k + fib (Suc k)"

definition fib_event :: "nat \<Rightarrow> event" where
  "fib_event k = Printf ''%hu\<newline>'' [AInt (int (fib k) mod 65536)]"

text \<open>One round of the loop. It leaves seven words on the operand stack.\<close>

lemma fib_round:
  assumes "loaded (fibonacci_rfl n) 262 v" and "length ws \<le> 500"
  shows "a_run 43 (word_state v 164 ws [Some a, Some b, c, Some i, Some m, Some 1] [(3, [])])
    = Inr ((), word_state (said v [Printf ''%hu\<newline>'' [AInt (uint (a + b))]])
        (if sint m < sint (i + 1) then 261 else 164)
        ([a + b, a + b, 2, i + 1, a + b, a + b, 2] @ ws)
        [Some b, Some (a + b), Some (a + b), Some (i + 1), Some m, Some 1] [(3, [])])"
proof -
  let ?v = "said v [Printf ''%hu\<newline>'' [AInt (uint (a + b))]]" and ?s = "a + b" and ?fs = "[(3, [])]"
  let ?xs = "\<lambda>i. [Some b, Some ?s, Some ?s, Some i, Some m, Some 1]"
  note run = loaded_def execution fibonacci_rfl_def st_simps
  have body: "a_run 26 (word_state v 164 ws [Some a, Some b, c, Some i, Some m, Some 1] ?fs)
      = Inr ((), word_state ?v 224 (2 # 6 # 2 # ws) (?xs i) ?fs)"
    using assms by (simp add: run del: a_run.simps(2))
  have read1: "a_run 1 (word_state ?v 224 (2 # 6 # 2 # ws) (?xs i) ?fs)
      = Inr ((), word_state ?v 225 ([i, ?s, ?s] @ 2 # ws) (?xs i) ?fs)"
    by (subst run_read_many [where vs = "[i, ?s, ?s]" and j = 1])
      (use assms in \<open>simp_all add: run del: a_run.simps(2)\<close>)
  have count: "a_run 13 (word_state ?v 225 ([i, ?s, ?s] @ 2 # ws) (?xs i) ?fs)
      = Inr ((), word_state ?v 256 (2 # 8 # 2 # (i + 1) # ?s # ?s # 2 # ws) (?xs (i + 1)) ?fs)"
    using assms by (simp add: run del: a_run.simps(2))
  have read2: "a_run 1 (word_state ?v 256 (2 # 8 # 2 # (i + 1) # ?s # ?s # 2 # ws) (?xs (i + 1)) ?fs)
      = Inr ((), word_state ?v 257 ([m, i + 1, ?s, ?s] @ 2 # (i + 1) # ?s # ?s # 2 # ws) (?xs (i + 1)) ?fs)"
    by (subst run_read_many [where vs = "[m, i + 1, ?s, ?s]" and j = 1])
      (use assms in \<open>simp_all add: run del: a_run.simps(2)\<close>)
  have test: "a_run 2 (word_state ?v 257 ([m, i + 1, ?s, ?s] @ 2 # (i + 1) # ?s # ?s # 2 # ws) (?xs (i + 1)) ?fs)
      = Inr ((), word_state ?v (if sint m < sint (i + 1) then 261 else 164)
          ([?s, ?s, 2, i + 1, ?s, ?s, 2] @ ws) (?xs (i + 1)) ?fs)"
    using assms by (simp add: run del: a_run.simps(2))
  have "a_run (26 + (1 + (13 + (1 + 2)))) (word_state v 164 ws [Some a, Some b, c, Some i, Some m, Some 1] ?fs)
      = Inr ((), word_state ?v (if sint m < sint (i + 1) then 261 else 164)
          ([?s, ?s, 2, i + 1, ?s, ?s, 2] @ ws) (?xs (i + 1)) ?fs)"
    unfolding a_run_add seq_apply body read1 count read2 test sum.case prod.case ..
  then show ?thesis by simp
qed

lemma sint_of_nat: "k < 32768 \<Longrightarrow> sint (of_nat k :: u16) = int k"
  by (subst sint_uint) (simp add: uint_nat unat_of_nat signed_take_bit_eq_if_positive take_bit_eq_mod bit_iff_odd)

lemma fib_event_word: "fib_event k = Printf ''%hu\<newline>'' [AInt (uint (of_nat (fib k) :: u16))]"
  by (simp add: fib_event_def unsigned_of_nat take_bit_eq_mod of_nat_mod)

lemma fib_round_numbers:
  assumes "loaded (fibonacci_rfl n) 262 v" and "length ws \<le> 500" and "i < 32766" "l < 32768"
  shows "a_run 43 (word_state v 164 ws
      [Some (of_nat (fib j)), Some (of_nat (fib (Suc j))), c, Some (of_nat i), Some (of_nat l), Some 1] [(3, [])])
    = Inr ((), word_state (said v [fib_event (Suc (Suc j))]) (if l < Suc i then 261 else 164)
        ([of_nat (fib (Suc (Suc j))), of_nat (fib (Suc (Suc j))), 2, of_nat (Suc i),
          of_nat (fib (Suc (Suc j))), of_nat (fib (Suc (Suc j))), 2] @ ws)
        [Some (of_nat (fib (Suc j))), Some (of_nat (fib (Suc (Suc j)))), Some (of_nat (fib (Suc (Suc j)))),
         Some (of_nat (Suc i)), Some (of_nat l), Some 1] [(3, [])])"
proof -
  have sums: "of_nat (fib j) + of_nat (fib (Suc j)) = (of_nat (fib (Suc (Suc j))) :: u16)"
    "of_nat i + 1 = (of_nat (Suc i) :: u16)" by simp_all
  have order: "sint (of_nat l :: u16) < sint (of_nat (Suc i) :: u16) \<longleftrightarrow> l < Suc i"
    unfolding sint_of_nat [OF assms(4)] using sint_of_nat [of "Suc i"] assms(3) by (simp del: of_nat_Suc)
  show ?thesis
    using fib_round [OF assms(1,2), of "of_nat (fib j)" "of_nat (fib (Suc j))" c "of_nat i" "of_nat l"]
    unfolding sums order fib_event_word .
qed

text \<open>The rounds of the loop, from the one that finds \<open>fib j\<close> and its successor.\<close>

lemma fib_rounds:
  assumes "loaded (fibonacci_rfl n) 262 v" and "length ws + 7 * k \<le> 500" and "i + k < 32766"
  shows "\<exists>vs xs. a_run (43 * Suc k)
      (word_state v 164 ws [Some (of_nat (fib j)), Some (of_nat (fib (Suc j))), c, Some (of_nat i), Some (of_nat (i + k)), Some 1] [(3, [])])
    = Inr ((), word_state (said v (map fib_event [Suc (Suc j)..<Suc (Suc (Suc (j + k)))])) 261 vs xs [(3, [])])"
  using assms
proof (induction k arbitrary: v ws i j c)
  case 0
  then have "length ws \<le> 500" "i < 32766" "i < 32768" by simp_all
  from fib_round_numbers [OF 0(1) this, of j c] show ?case
    by (intro exI) (simp del: a_run.simps fib.simps of_nat_Suc)
next
  case (Suc k)
  then have bounds: "length ws \<le> 500" "i < 32766" "i + Suc k < 32768" by simp_all
  let ?f = "of_nat (fib (Suc (Suc j)))"
  note round = fib_round_numbers [OF Suc.prems(1) bounds, of j c]
  have "\<exists>vs xs. a_run (43 * Suc k) (word_state (said v [fib_event (Suc (Suc j))]) 164
      ([?f, ?f, 2, of_nat (Suc i), ?f, ?f, 2] @ ws)
      [Some (of_nat (fib (Suc j))), Some ?f, Some ?f, Some (of_nat (Suc i)), Some (of_nat (Suc i + k)), Some 1] [(3, [])])
    = Inr ((), word_state (said (said v [fib_event (Suc (Suc j))]) (map fib_event [Suc (Suc (Suc j))..<Suc (Suc (Suc (Suc j + k)))]))
        261 vs xs [(3, [])])"
    by (rule Suc.IH) (use Suc.prems in simp_all)
  then obtain vs xs where rest: "a_run (43 * Suc k) (word_state (said v [fib_event (Suc (Suc j))]) 164
      ([?f, ?f, 2, of_nat (Suc i), ?f, ?f, 2] @ ws)
      [Some (of_nat (fib (Suc j))), Some ?f, Some ?f, Some (of_nat (Suc i)), Some (of_nat (i + Suc k)), Some 1] [(3, [])])
    = Inr ((), word_state (said (said v [fib_event (Suc (Suc j))]) (map fib_event [Suc (Suc (Suc j))..<Suc (Suc (Suc (Suc j + k)))]))
        261 vs xs [(3, [])])"
    unfolding add_Suc add_Suc_right by blast
  have events: "fib_event (Suc (Suc j)) # map fib_event [Suc (Suc (Suc j))..<Suc (Suc (Suc (Suc j + k)))]
      = map fib_event [Suc (Suc j)..<Suc (Suc (Suc (j + Suc k)))]"
    by (subst (2) upt_conv_Cons) simp_all
  have steps: "43 * Suc (Suc k) = 43 + 43 * Suc k" by simp
  have loop: "(if i + Suc k < Suc i then 261 else 164 :: nat) = 164" by simp
  show ?case
    unfolding steps a_run_add seq_apply round loop sum.case prod.case rest [unfolded append.simps] append.simps
      said_fields events by blast
qed

text \<open>What comes before the loop, and the end.\<close>

definition fib_header :: "u16 \<Rightarrow> event list" where
  "fib_header n = [Printf ''%c'' [AInt 110], Printf ''%c'' [AInt 61], Printf ''%hu'' [AInt (uint n)], Printf ''%c'' [AInt 10]]"

lemma fib_format:
  "a_format (drop 262 (fibonacci_rfl n)) (word_state v i (m # ws) xs fs)
    = Inr ((), word_state (said v (fib_header m)) i ws xs fs)"
  by (simp add: fibonacci_rfl_def a_conversion_def st_simps pop_u16_word_state fib_header_def)

lemma fib_start:
  assumes "loaded (fibonacci_rfl n) 262 v"
  shows "a_run 27 (word_state v 0 [] [] []) = Inr ((), word_state v 74 [3, n] [Some 0, Some 1, None, None, Some n] [(3, [])])"
  using assms by (simp add: loaded_def execution fibonacci_rfl_def st_simps del: a_run.simps(2))

lemma fib_prints_n:
  assumes "loaded (fibonacci_rfl n) 262 v"
  shows "a_run 1 (word_state v 74 [3, m] xs fs) = Inr ((), word_state (said v (fib_header m)) 77 [] xs fs)"
  by (subst run_print [where cs = "drop 262 (fibonacci_rfl n)" and j = 77, OF _ _ _ _ _ trans [OF _ fib_format]])
    (use assms in \<open>simp_all add: loaded_def op_at_iff opcode_numbers u16_at_def u16_of_small fibonacci_rfl_def
        fits_def program_suffix_def st_simps\<close>)

lemma fib_prepares:
  assumes "loaded (fibonacci_rfl n) 262 v" and "2 \<le> sint (n + 1)"
  shows "a_run 37 (word_state v 77 [] [Some 0, Some 1, None, None, Some n] [(3, [])])
    = Inr ((), word_state (said v [fib_event 1]) 164 [1, n + 1] [Some 0, Some 1, None, Some 3, Some (n + 1), Some 1] [(3, [])])"
  using assms by (simp add: loaded_def execution fibonacci_rfl_def st_simps fib_event_def del: a_run.simps(2))

lemma fib_halts:
  assumes "loaded (fibonacci_rfl n) 262 v"
  shows "a_run 1 (word_state v 261 ws xs fs) = Inl (ExitSuccess, word_state v 262 ws xs fs)"
  using assms by (simp add: loaded_def execution fibonacci_rfl_def del: a_run.simps(2))

lemma fib_prints:
  assumes "loaded (fibonacci_rfl n) 262 v" and "2 \<le> n" and "n \<le> 73"
  shows "\<exists>w. a_run (43 * unat n + 23) (word_state v 0 [] [] []) = Inl (ExitSuccess, w)
    \<and> v_out w = v_out v @ fib_header n @ map fib_event [1..<Suc (unat n)]"
proof -
  define k where "k = unat n - 2"
  have n: "unat n = Suc (Suc k)" "k \<le> 71" using assms(2,3) by (auto simp: k_def word_le_nat_alt)
  have "n = of_nat (Suc (Suc k))" using n by (simp add: word_unat_eq_iff unat_of_nat del: of_nat_Suc)
  then have word: "n + 1 = of_nat (3 + k)" by simp
  have "2 \<le> sint (n + 1)" unfolding word using n(2) by (subst sint_of_nat) simp_all
  note prepare = fib_prepares [OF _ this]
  let ?v = "said v (fib_header n @ [fib_event 1])"
  have "\<exists>vs xs. a_run (43 * Suc k) (word_state ?v 164 [1, of_nat (3 + k)]
        [Some (of_nat (fib 0)), Some (of_nat (fib (Suc 0))), None, Some (of_nat 3), Some (of_nat (3 + k)), Some 1] [(3, [])])
      = Inr ((), word_state (said ?v (map fib_event [Suc (Suc 0)..<Suc (Suc (Suc (0 + k)))])) 261 vs xs [(3, [])])"
    by (rule fib_rounds) (use assms(1) n(2) in simp_all)
  then obtain vs xs where loop: "a_run (43 * Suc k) (word_state ?v 164 [1, n + 1] [Some 0, Some 1, None, Some 3, Some (n + 1), Some 1] [(3, [])])
      = Inr ((), word_state (said ?v (map fib_event [2..<Suc (Suc (Suc k))])) 261 vs xs [(3, [])])"
    unfolding word numeral_2_eq_2 by (auto simp del: a_run.simps mult_Suc_right upt_Suc)
  have "a_run (27 + (1 + (37 + (43 * Suc k + 1)))) (word_state v 0 [] [] [])
      = Inl (ExitSuccess, word_state (said ?v (map fib_event [2..<Suc (Suc (Suc k))])) 262 vs xs [(3, [])])"
    unfolding a_run_add seq_apply fib_start [OF assms(1)] sum.case prod.case fib_prints_n [OF assms(1)]
      prepare [OF loaded_said [THEN iffD2, OF assms(1)]] said_fields loop
    by (rule fib_halts) (use assms(1) in simp)
  moreover have steps: "27 + (1 + (37 + (43 * Suc k + 1))) = 43 * unat n + 23" using n by simp
  moreover have range: "1 # [2..<Suc (Suc (Suc k))] = [1..<Suc (unat n)]" using n by (simp add: upt_conv_Cons numeral_2_eq_2)
  have "v_out (word_state (said ?v (map fib_event [2..<Suc (Suc (Suc k))])) 262 vs xs [(3, [])])
      = v_out v @ fib_header n @ map fib_event [1..<Suc (unat n)]"
    unfolding range [symmetric] by (simp add: word_state_def del: upt_Suc)
  ultimately show ?thesis by metis
qed

section \<open>Properties\<close>

lemma recursion_runs:
  fixes s :: cpu
  assumes "power_on s" and "network_up s" and "env_accept s = (\<lambda>_. WouldBlock)"
  shows "if 1 \<le> n \<and> n \<le> 511
     then 28 * unat n + 2 \<le> 255 * Suc rounds \<longrightarrow>
       (\<exists>t. vm_main (recursion_rfl n) 106 94 (Suc (Suc fuel)) (Suc rounds) s = Inl (ExitSuccess, t)
         \<and> out t = out s @ [Printf ''Starting VM\<newline>'' []] @ result_events n @ [Printf ''Exit\<newline>'' []])
     else 54 \<le> rounds \<longrightarrow>
       (\<exists>t es. vm_main (recursion_rfl n) 106 94 (Suc (Suc fuel)) (Suc rounds) s = Inl (ExitFailure, t)
         \<and> out t = out s @ [Printf ''Starting VM\<newline>'' []] @ es)"
proof (cases "1 \<le> n \<and> n \<le> 511")
  case True
  have "0 < n" using True by (simp add: word_less_nat_alt word_le_nat_alt)
  with True show ?thesis
    using program_runs [where n = 106 and fuel = fuel and rounds = rounds, OF assms _ _ _ recursion_prints [of n]]
    by auto
next
  case False
  then have "unat n = 0 \<or> 511 < n" by (auto simp: word_le_nat_alt not_le word_less_nat_alt)
  then have "n = 0 \<or> 511 < n" by (simp add: unat_0_iff)
  then have fails: "loaded (recursion_rfl n) 94 v \<Longrightarrow>
      \<exists>w. a_run 13806 (word_state v 0 [] [] []) = Inl (ExitFailure, w) \<and> v_out w = v_out v @ []" for v
    using recursion_fails by simp
  have "\<exists>t gs. vm_main (recursion_rfl n) 106 94 (Suc (Suc fuel)) (Suc rounds) s = Inl (ExitFailure, t)
      \<and> out t = out s @ [Printf ''Starting VM\<newline>'' []] @ gs" if "54 \<le> rounds"
    using program_runs [where n = 106 and rounds = rounds and fuel = fuel, OF assms _ _ _ fails] that by auto
  with False show ?thesis by auto
qed

text \<open>C22: the sample program src/programs/recursion.rfl on the whole machine. With a number \<open>n\<close>
  from 1 to 511 as its argument the run prints \<open>result: n\<close> and ends with success, as soon as
  the scheduler has given it 28 n + 2 instructions. With 0 or a larger number (which the
  recursion would reach only after more calls than the call stack has room for) the process
  ends with a failure: the 512th call stores its argument beyond the end of the call stack.\<close>

theorem recursion_rfl_runs:
  fixes s :: cpu
  assumes "power_on s" and "network_up s" and "env_accept s = (\<lambda>_. WouldBlock)"
  shows "if 1 \<le> n \<and> n \<le> 511
     then 28 * unat n + 2 \<le> 255 * Suc rounds \<longrightarrow>
       (\<exists>t. vm_main (recursion_rfl n) 106 94 (Suc (Suc fuel)) (Suc rounds) s = Inl (ExitSuccess, t)
         \<and> out t = out s @ [Printf ''Starting VM\<newline>'' []] @ result_events n @ [Printf ''Exit\<newline>'' []])
     else 54 \<le> rounds \<longrightarrow>
       (\<exists>t es. vm_main (recursion_rfl n) 106 94 (Suc (Suc fuel)) (Suc rounds) s = Inl (ExitFailure, t)
         \<and> out t = out s @ [Printf ''Starting VM\<newline>'' []] @ es)"
  using assms by (rule recursion_runs)

theorem recursion_rfl_runs_witness:
  "(\<exists>t. vm_main (recursion_rfl 5) 106 94 2 1 (blank_cpu 3) = Inl (ExitSuccess, t)
     \<and> out t = out (blank_cpu 3) @ [Printf ''Starting VM\<newline>'' []] @ result_events 5 @ [Printf ''Exit\<newline>'' []])
   \<and> (\<exists>t. vm_main (recursion_rfl 600) 106 94 2 55 (blank_cpu 3) = Inl (ExitFailure, t))"
proof
  have s: "power_on (blank_cpu 3)" "network_up (blank_cpu 3)" "env_accept (blank_cpu 3) = (\<lambda>_. WouldBlock)"
    by (simp_all add: blank_cpu_def demo_cpu_def power_on_def network_up_def)
  have n: "Suc (Suc 0) = 2" "Suc 54 = 55" by simp_all
  show "\<exists>t. vm_main (recursion_rfl 5) 106 94 2 1 (blank_cpu 3) = Inl (ExitSuccess, t)
     \<and> out t = out (blank_cpu 3) @ [Printf ''Starting VM\<newline>'' []] @ result_events 5 @ [Printf ''Exit\<newline>'' []]"
    using recursion_rfl_runs [OF s, of 5 0 0] unfolding n by simp
  show "\<exists>t. vm_main (recursion_rfl 600) 106 94 2 55 (blank_cpu 3) = Inl (ExitFailure, t)"
    using recursion_rfl_runs [OF s, of 600 54 0] unfolding n by auto
qed

lemma fibonacci_runs:
  fixes s :: cpu
  assumes "power_on s" and "network_up s" and "env_accept s = (\<lambda>_. WouldBlock)"
    and "2 \<le> n" and "n \<le> 73" and "43 * unat n + 23 \<le> 255 * Suc rounds"
  shows "\<exists>t. vm_main (fibonacci_rfl n) 268 262 (Suc (Suc fuel)) (Suc rounds) s = Inl (ExitSuccess, t)
     \<and> out t = out s @ [Printf ''Starting VM\<newline>'' []] @ fib_header n @ map fib_event [1..<Suc (unat n)]
         @ [Printf ''Exit\<newline>'' []]"
  using program_runs [where n = 268 and fuel = fuel, OF assms(1-3) _ assms(6) _ fib_prints [of n, OF _ assms(4,5)]]
  by auto

text \<open>C23: the sample program src/programs/fibonacci.rfl on the whole machine. With a number \<open>n\<close>
  from 2 to 73 as its argument the run prints \<open>n\<close> and then the first \<open>n\<close> Fibonacci numbers, from
  1, modulo 65536 (from the 25th on they do not fit in 16 bits), and ends with success within
  43 n + 23 instructions. The two reads with a stray operand in the source compile to reads
  of six and eight bytes; they leave seven words on the operand stack in every round, which
  is why 73 is the bound.\<close>

theorem fibonacci_rfl_runs:
  fixes s :: cpu
  assumes "power_on s" and "network_up s" and "env_accept s = (\<lambda>_. WouldBlock)"
    and "2 \<le> n" and "n \<le> 73" and "43 * unat n + 23 \<le> 255 * Suc rounds"
  shows "\<exists>t. vm_main (fibonacci_rfl n) 268 262 (Suc (Suc fuel)) (Suc rounds) s = Inl (ExitSuccess, t)
     \<and> out t = out s @ [Printf ''Starting VM\<newline>'' []] @ fib_header n @ map fib_event [1..<Suc (unat n)]
         @ [Printf ''Exit\<newline>'' []]"
  using assms by (rule fibonacci_runs)

theorem fibonacci_rfl_runs_witness:
  "\<exists>t. vm_main (fibonacci_rfl 3) 268 262 2 1 (blank_cpu 3) = Inl (ExitSuccess, t)
     \<and> out t = out (blank_cpu 3) @ [Printf ''Starting VM\<newline>'' []] @ fib_header 3
         @ map (\<lambda>i. Printf ''%hu\<newline>'' [AInt i]) [1, 1, 2] @ [Printf ''Exit\<newline>'' []]"
proof -
  have s: "power_on (blank_cpu 3)" "network_up (blank_cpu 3)" "env_accept (blank_cpu 3) = (\<lambda>_. WouldBlock)"
    by (simp_all add: blank_cpu_def demo_cpu_def power_on_def network_up_def)
  have n: "Suc (Suc 0) = 2" "unat (3 :: u16) = 3" by simp_all
  have "map fib_event [1..<Suc 3] = map (\<lambda>i. Printf ''%hu\<newline>'' [AInt i]) [1, 1, 2]"
    by (simp add: fib_event_def eval_nat_numeral)
  then show ?thesis
    using fibonacci_rfl_runs [OF s, of 3 0 0] unfolding n by simp
qed

end
