(* ===== verification/Sample_Source.thy ===== *)
theory Sample_Source
  imports Compiler_Spec Sample_Spec
begin

text \<open>
  The texts of src/programs/recursion.rfl and src/programs/fibonacci.rfl, what the compiler
  makes of them, and their runs; and the way of a constant from its definition in a text to
  the machine.
\<close>

section \<open>The texts\<close>

definition recursion_source :: "string list" where
  "recursion_source =
  [''; Example of calling a function recursively\<newline>'',
   ''; def incr(i, n):\<newline>'',
   '';     if i == n:\<newline>'',
   '';         return i\<newline>'',
   '';     else:\<newline>'',
   '';         return incr(i+1, n)\<newline>'',
   '';\<newline>'',
   ''; res = incr(1, 5)\<newline>'',
   ''; print(f'' @ [CHR 0x22] @ ''result: {res}'' @ [CHR 0x22] @ '')\<newline>'',
   ''\<newline>'',
   ''CONST ret STRING '' @ [CHR 0x22] @ ''result: %u'' @ [CHR 0x5C] @ ''n'' @ [CHR 0x22] @ ''\<newline>'',
   ''\<newline>'',
   ''fn .main\<newline>'',
   ''    PUSHL_U16 5  ; <- Update n here, but be cautious of stack overflow.\<newline>'',
   ''    PUSHL_U16 1\<newline>'',
   ''    CALL .incr\<newline>'',
   ''    PUSHL_U16 $ret\<newline>'',
   ''    SYSCALL 0\<newline>'',
   ''    RETURN\<newline>'',
   ''\<newline>'',
   ''fn .incr\<newline>'',
   ''    PUSHL_U16 2\<newline>'',
   ''    ALLOC_LOCAL $i\<newline>'',
   ''    PUSHL_U16 2\<newline>'',
   ''    PUSHL_U16 $i\<newline>'',
   ''    POP_LOCAL\<newline>'',
   ''    PUSHL_U16 2\<newline>'',
   ''    ALLOC_LOCAL $n\<newline>'',
   ''    PUSHL_U16 2\<newline>'',
   ''    PUSHL_U16 $n\<newline>'',
   ''    POP_LOCAL\<newline>'',
   ''    PUSHL_U16 2\<newline>'',
   ''    PUSHL_U16 $n\<newline>'',
   ''    PUSH_LOCAL\<newline>'',
   ''    PUSHL_U16 2\<newline>'',
   ''    PUSHL_U16 $i\<newline>'',
   ''    PUSH_LOCAL\<newline>'',
   ''    COMPARE_EQ\<newline>'',
   ''    POP_JUMP_IF_FALSE .call_incr\<newline>'',
   ''    PUSHL_U16 2\<newline>'',
   ''    PUSHL_U16 $i\<newline>'',
   ''    PUSH_LOCAL\<newline>'',
   ''    RETURN\<newline>'',
   ''    .call_incr\<newline>'',
   ''        PUSHL_U16 2\<newline>'',
   ''        PUSHL_U16 $n\<newline>'',
   ''        PUSH_LOCAL\<newline>'',
   ''        PUSHL_U16 2\<newline>'',
   ''        PUSHL_U16 $i\<newline>'',
   ''        PUSH_LOCAL\<newline>'',
   ''        PUSHL_U16 1\<newline>'',
   ''        ADD_U16\<newline>'',
   ''        CALL .incr\<newline>'',
   ''        RETURN\<newline>'']"

definition fibonacci_source :: "string list" where
  "fibonacci_source =
  [''; Generates the first n fibonacci numbers\<newline>'',
   ''; Since max supported unsigned integer size is 16 bits, max n is 24 = 46368\<newline>'',
   ''; output example:\<newline>'',
   ''; n=24\<newline>'',
   ''; 1, 1, 2, 3, 5, 8, 13, 21, 34, 55, 89, 144, 233, 377, 610, 987, 1597, 2584, 4181, 6765, 10946, 17711, 28657, 46368\<newline>'',
   ''\<newline>'',
   ''CONST print_n STRING '' @ [CHR 0x22] @ ''n=%u'' @ [CHR 0x5C] @ ''n'' @ [CHR 0x22] @ ''\<newline>'',
   ''\<newline>'',
   ''fn .main\<newline>'',
   ''    PUSHL_U16 2\<newline>'',
   ''    ALLOC_LOCAL $a    ; a\<newline>'',
   ''    PUSHL_U16 0\<newline>'',
   ''    PUSHL_U16 2\<newline>'',
   ''    PUSHL_U16 $a\<newline>'',
   ''    POP_LOCAL\<newline>'',
   ''    \<newline>'',
   ''    PUSHL_U16 2\<newline>'',
   ''    ALLOC_LOCAL $b    ; b\<newline>'',
   ''    PUSHL_U16 1\<newline>'',
   ''    PUSHL_U16 2\<newline>'',
   ''    PUSHL_U16 $b\<newline>'',
   ''    POP_LOCAL\<newline>'',
   ''    \<newline>'',
   ''    PUSHL_U16 2\<newline>'',
   ''    ALLOC_LOCAL $c    ; c\<newline>'',
   ''    PUSHL_U16 2\<newline>'',
   ''    ALLOC_LOCAL $i    ; i\<newline>'',
   ''\<newline>'',
   ''    PUSHL_U16 2\<newline>'',
   ''    ALLOC_LOCAL $n    ; n\<newline>'',
   ''    PUSHL_U16 24      ; <- update n here\<newline>'',
   ''    PUSHL_U16 2\<newline>'',
   ''    PUSHL_U16 $n\<newline>'',
   ''    POP_LOCAL\<newline>'',
   ''\<newline>'',
   ''    PUSHL_U16 2\<newline>'',
   ''    PUSHL_U16 $n\<newline>'',
   ''    PUSH_LOCAL\<newline>'',
   ''    PUSHL_U16 $print_n\<newline>'',
   ''    SYSCALL 0\<newline>'',
   ''\<newline>'',
   ''    PUSHL_U16 2\<newline>'',
   ''    PUSHL_U16 $n\<newline>'',
   ''    PUSH_LOCAL\<newline>'',
   ''    PUSHL_U16 1\<newline>'',
   ''    ADD_U16\<newline>'',
   ''    PUSHL_U16 2\<newline>'',
   ''    PUSHL_U16 $n\<newline>'',
   ''    POP_LOCAL\<newline>'',
   ''\<newline>'',
   ''    PUSHL_U16 2\<newline>'',
   ''    PUSHL_U16 $n\<newline>'',
   ''    PUSH_LOCAL\<newline>'',
   ''    PUSHL_U16 1\<newline>'',
   ''    COMPARE_GE\<newline>'',
   ''    POP_JUMP_IF_FALSE .false_1\<newline>'',
   ''    PUSHL_U16 2\<newline>'',
   ''    PUSHL_U16 $n\<newline>'',
   ''    PUSH_LOCAL\<newline>'',
   ''    .false_1\<newline>'',
   ''    PUSHL_U16 2\<newline>'',
   ''    PUSHL_U16 $n\<newline>'',
   ''    PUSH_LOCAL\<newline>'',
   ''    PUSHL_U16 2\<newline>'',
   ''    COMPARE_GE\<newline>'',
   ''    POP_JUMP_IF_FALSE .false_2\<newline>'',
   ''    PUSHL_U16 2\<newline>'',
   ''    PUSHL_U16 $b\<newline>'',
   ''    PUSH_LOCAL\<newline>'',
   ''    TOP_U16\<newline>'',
   ''    .false_2\<newline>'',
   ''    PUSHL_U16 3\<newline>'',
   ''    PUSHL_U16 2\<newline>'',
   ''    PUSHL_U16 $i\<newline>'',
   ''    POP_LOCAL\<newline>'',
   ''\<newline>'',
   ''    PUSHL_U16 2\<newline>'',
   ''    ALLOC_LOCAL $inc ; inc\<newline>'',
   ''    PUSHL_U16 1\<newline>'',
   ''    PUSHL_U16 2\<newline>'',
   ''    PUSHL_U16 $inc\<newline>'',
   ''    POP_LOCAL\<newline>'',
   ''    .for\<newline>'',
   ''        ; for content\<newline>'',
   ''        PUSHL_U16 2\<newline>'',
   ''        PUSHL_U16 $a\<newline>'',
   ''        PUSH_LOCAL\<newline>'',
   ''        PUSHL_U16 2\<newline>'',
   ''        PUSHL_U16 $b\<newline>'',
   ''        PUSH_LOCAL\<newline>'',
   ''        ADD_U16\<newline>'',
   ''        TOP_U16\<newline>'',
   ''        PUSHL_U16 2\<newline>'',
   ''        PUSHL_U16 $c\<newline>'',
   ''        POP_LOCAL\<newline>'',
   ''        PUSHL_U16 2\<newline>'',
   ''        PUSHL_U16 $b\<newline>'',
   ''        PUSH_LOCAL\<newline>'',
   ''        PUSHL_U16 2\<newline>'',
   ''        PUSHL_U16 $a\<newline>'',
   ''        POP_LOCAL\<newline>'',
   ''        PUSHL_U16 2\<newline>'',
   ''        PUSHL_U16 $c\<newline>'',
   ''        PUSH_LOCAL\<newline>'',
   ''        PUSHL_U16 2\<newline>'',
   ''        PUSHL_U16 $b\<newline>'',
   ''        POP_LOCAL\<newline>'',
   ''\<newline>'',
   ''        ; for increment\<newline>'',
   ''        PUSHL_U16 2\<newline>'',
   ''        PUSHL_U16 $i\<newline>'',
   ''        PUSHL_U16 2\<newline>'',
   ''        PUSH_LOCAL $i\<newline>'',
   ''        PUSHL_U16 2\<newline>'',
   ''        PUSHL_U16 $inc\<newline>'',
   ''        PUSH_LOCAL\<newline>'',
   ''        ADD_U16\<newline>'',
   ''        PUSHL_U16 2\<newline>'',
   ''        PUSHL_U16 $i\<newline>'',
   ''        POP_LOCAL\<newline>'',
   ''\<newline>'',
   ''        ; check for condition\<newline>'',
   ''        PUSHL_U16 2\<newline>'',
   ''        PUSHL_U16 $i\<newline>'',
   ''        PUSH_LOCAL\<newline>'',
   ''        PUSHL_U16 2\<newline>'',
   ''        PUSHL_U16 $n\<newline>'',
   ''        PUSHL_U16 2\<newline>'',
   ''        PUSH_LOCAL $n\<newline>'',
   ''        COMPARE_GT\<newline>'',
   ''        POP_JUMP_IF_FALSE .for\<newline>'',
   ''        HALT\<newline>'']"

section \<open>Their compilation\<close>

lemma recursion_compiles:
  "compile_rfl fl read base n recursion_source = Inr (map uint (recursion_rfl 5), 106, 94)"
proof -
  have "map uint (recursion_rfl 5) = [9, 4, 0, 0, 14, 5, 0, 14, 1, 0, 9, 20, 0, 14, 3, 0, 11, 0, 0, 10,
       14, 2, 0, 23, 0, 0, 14, 2, 0, 14, 0, 0, 25, 14, 2, 0, 23, 2, 0, 14, 2, 0, 14, 2, 0, 25,
       14, 2, 0, 14, 2, 0, 24, 14, 2, 0, 14, 0, 0, 24, 4, 3, 72, 0, 14, 2, 0, 14, 0, 0, 24, 10,
       14, 2, 0, 14, 2, 0, 24, 14, 2, 0, 14, 0, 0, 24, 14, 1, 0, 17, 9, 20, 0, 10,
       114, 101, 115, 117, 108, 116, 58, 32, 37, 117, 10, 0]"
    by (simp add: recursion_rfl_def)
  then show ?thesis unfolding recursion_source_def by code_simp
qed

lemma fibonacci_compiles:
  "compile_rfl fl read base n fibonacci_source = Inr (map uint (fibonacci_rfl 24), 268, 262)"
proof -
  have "map uint (fibonacci_rfl 24) =
    [9, 4, 0, 0, 14, 2, 0, 23, 0, 0, 14, 0, 0, 14, 2, 0, 14, 0, 0, 25, 14,
       2, 0, 23, 2, 0, 14, 1, 0, 14, 2, 0, 14, 2, 0, 25, 14, 2, 0, 23, 4, 0,
       14, 2, 0, 23, 6, 0, 14, 2, 0, 23, 8, 0, 14, 24, 0, 14, 2, 0, 14, 8,
       0, 25, 14, 2, 0, 14, 8, 0, 24, 14, 3, 0, 11, 0, 0, 14, 2, 0, 14, 8,
       0, 24, 14, 1, 0, 17, 14, 2, 0, 14, 8, 0, 25, 14, 2, 0, 14, 8, 0, 24,
       14, 1, 0, 8, 3, 116, 0, 14, 2, 0, 14, 8, 0, 24, 14, 2, 0, 14, 8, 0,
       24, 14, 2, 0, 8, 3, 138, 0, 14, 2, 0, 14, 2, 0, 24, 16, 14, 3, 0, 14,
       2, 0, 14, 6, 0, 25, 14, 2, 0, 23, 10, 0, 14, 1, 0, 14, 2, 0, 14, 10,
       0, 25, 14, 2, 0, 14, 0, 0, 24, 14, 2, 0, 14, 2, 0, 24, 17, 16, 14, 2,
       0, 14, 4, 0, 25, 14, 2, 0, 14, 2, 0, 24, 14, 2, 0, 14, 0, 0, 25, 14,
       2, 0, 14, 4, 0, 24, 14, 2, 0, 14, 2, 0, 25, 14, 2, 0, 14, 6, 0, 14,
       2, 0, 24, 14, 2, 0, 14, 10, 0, 24, 17, 14, 2, 0, 14, 6, 0, 25, 14, 2,
       0, 14, 6, 0, 24, 14, 2, 0, 14, 8, 0, 14, 2, 0, 24, 6, 3, 164, 0, 0,
       110, 61, 37, 117, 10, 0]"
    by (simp add: fibonacci_rfl_def)
  then show ?thesis unfolding fibonacci_source_def by code_simp
qed

section \<open>From the text to the run\<close>

text \<open>The Makefile: the compiler's three results become the program of \<open>main\<close>.\<close>

definition build_and_run :: "(string \<Rightarrow> int list option) \<Rightarrow> (string \<Rightarrow> string list option) \<Rightarrow> string \<Rightarrow> nat
    \<Rightarrow> string list \<Rightarrow> nat \<Rightarrow> nat \<Rightarrow> cpu \<Rightarrow> py_error + ((stop \<times> cpu) + (unit \<times> cpu))" where
  "build_and_run fl read base n source fuel rounds s =
     and_then (compile_rfl fl read base n source) (\<lambda>(prog, size, d).
       Inr (vm_main (map word_of_int prog) (word_of_int size) (word_of_int d) fuel rounds s))"

section \<open>Properties\<close>

text \<open>C7: the two sample programs, from their texts to their output. The compiler accepts
  src/programs/recursion.rfl, and the machine built with its result prints \<open>result: 5\<close> and
  ends with success in the first round of the scheduler. It accepts
  src/programs/fibonacci.rfl, and the machine prints \<open>n=24\<close> and the Fibonacci numbers from the
  first to the 24th, and ends with success within five rounds.\<close>

theorem sample_sources_run:
  fixes s :: cpu
  assumes "power_on s" and "network_up s" and "env_accept s = (\<lambda>_. WouldBlock)"
  shows "(\<exists>t. build_and_run fl read base n recursion_source (Suc (Suc fuel)) (Suc rounds) s = Inr (Inl (ExitSuccess, t))
      \<and> out t = out s @ [Printf ''Starting VM\<newline>'' []] @ result_events 5 @ [Printf ''Exit\<newline>'' []])
    \<and> (4 \<le> rounds \<longrightarrow>
      (\<exists>t. build_and_run fl read base n fibonacci_source (Suc (Suc fuel)) (Suc rounds) s = Inr (Inl (ExitSuccess, t))
        \<and> out t = out s @ [Printf ''Starting VM\<newline>'' []] @ fib_header 24 @ map fib_event [1..<25]
            @ [Printf ''Exit\<newline>'' []]))"
proof (intro conjI impI)
  have words: "map word_of_int (map uint p) = p" for p :: "u8 list" by (simp add: map_idI)
  have sizes: "(word_of_int 106 :: u16) = 106" "(word_of_int 94 :: u16) = 94"
    "(word_of_int 268 :: u16) = 268" "(word_of_int 262 :: u16) = 262" by simp_all
  show "\<exists>t. build_and_run fl read base n recursion_source (Suc (Suc fuel)) (Suc rounds) s = Inr (Inl (ExitSuccess, t))
      \<and> out t = out s @ [Printf ''Starting VM\<newline>'' []] @ result_events 5 @ [Printf ''Exit\<newline>'' []]"
    using recursion_runs [OF assms, of 5 rounds fuel]
    unfolding build_and_run_def recursion_compiles and_then_simps prod.case words sizes by simp
  assume rounds: "4 \<le> rounds"
  have "unat (24 :: u16) = 24" "[1..<Suc 24] = [1..<25]" by simp_all
  with fibonacci_runs [OF assms, of 24 rounds fuel] rounds
  show "\<exists>t. build_and_run fl read base n fibonacci_source (Suc (Suc fuel)) (Suc rounds) s = Inr (Inl (ExitSuccess, t))
        \<and> out t = out s @ [Printf ''Starting VM\<newline>'' []] @ fib_header 24 @ map fib_event [1..<25]
            @ [Printf ''Exit\<newline>'' []]"
    unfolding build_and_run_def fibonacci_compiles and_then_simps prod.case words sizes by (simp del: upt.simps upt_Suc)
qed

text \<open>The two programs on a host that has just been switched on.\<close>

theorem sample_sources_run_witness:
  "\<exists>t u. build_and_run (\<lambda>_. None) (\<lambda>_. None) ''programs'' 0 recursion_source 2 1 (blank_cpu 3) = Inr (Inl (ExitSuccess, t))
     \<and> out t = out (blank_cpu 3) @ [Printf ''Starting VM\<newline>'' []] @ result_events 5 @ [Printf ''Exit\<newline>'' []]
     \<and> build_and_run (\<lambda>_. None) (\<lambda>_. None) ''programs'' 0 fibonacci_source 2 5 (blank_cpu 3) = Inr (Inl (ExitSuccess, u))"
proof -
  have s: "power_on (blank_cpu 3)" "network_up (blank_cpu 3)" "env_accept (blank_cpu 3) = (\<lambda>_. WouldBlock)"
    by (simp_all add: blank_cpu_def demo_cpu_def power_on_def network_up_def)
  have n: "Suc (Suc 0) = 2" "Suc 4 = 5" by simp_all
  note run = sample_sources_run [where fl = "\<lambda>_. None" and read = "\<lambda>_. None" and base = "''programs''" and n = 0 and fuel = 0, OF s]
  show ?thesis
    using run [of 0] run [of 4] unfolding n by auto
qed

text \<open>C26: constants, from the text to the machine. Let a text define the constant \<open>name\<close> with the
  value \<open>cv\<close>, and refer to it in a line \<open>INS $name\<close>; \<open>code\<close> is what the later passes make of the
  instructions. Then the reference becomes a line with a number, and in a machine that was
  loaded with the compiled program this number is an address at which it finds the bytes of
  the value: the pointer that \<open>SYSCALL 0\<close> and \<open>PUSH_U16\<close> compute from it points to them.\<close>

theorem constant_is_found:
  fixes t :: "'z cpu_scheme"
  assumes "build_const_data lines = Inr (new_lines, data)"
    and "lines = pre @ (''CONST '' @ name @ '' '' @ ct @ '' '' @ cv) # post"
    and "CHR '' '' \<notin> set (name @ ct @ cv)" and "\<forall>line \<in> set post. \<not> declares name line"
    and "(ins @ '' $'' @ name) \<in> set lines" and "CHR '' '' \<notin> set ins" and "\<not> starts_with ''CONST'' (ins @ '' $'' @ name)"
    and "cpu_program t = map word_of_int (code @ data)" and "cpu_data_address t = of_nat (length code)"
    and "has_bank t" and "length (code @ data) < 65533"
  shows "\<exists>a bs more. (ins @ '' '' @ py_str (uint a)) \<in> set new_lines \<and> const_bytes ct cv = Inr bs
    \<and> data_pointer a t = Inr (map word_of_int bs @ more, t)"
proof -
  obtain k bs where k: "const_bytes ct cv = Inr bs" "take (length bs) (drop k data) = bs" "k \<le> length data"
      "(ins @ '' '' @ py_str (int k + 3)) \<in> set new_lines"
    by (rule const_reference_found [OF assms(1-7)])
  define a :: u16 where "a = of_nat (k + 3)"
  have a: "uint a = int k + 3" using k(3) assms(11) by (simp only: a_def unsigned_of_nat) (simp add: take_bit_eq_mod)
  have code: "uint (of_nat (length code) :: u16) = int (length code)" using assms(11) by (simp add: unsigned_of_nat take_bit_eq_mod)
  obtain b where b: "cpu_port_bank t = Ptr b" "port_banks t b = Some host_bank" using assms(10) by (auto simp: has_bank_def)
  have suffix: "drop (nat (int (length code) + int k)) (code @ data) = bs @ drop (length bs) (drop k data)"
    using append_take_drop_id [of "length bs" "drop k data"] k(2) by (simp add: nat_int_add)
  have "data_pointer a t = Inr (map word_of_int (drop (nat (int (length code) + int k)) (code @ data)), t)"
    using b k(3) by (simp add: data_pointer_def st_simps deref_Ptr host_bank_def program_suffix_def in_bounds_def
        assms(8,9) a code drop_map)
  with suffix k a show ?thesis by (intro exI [of _ a]) auto
qed

text \<open>A machine with the code of \<open>PUSHL_U16 $hi\<close> and the string \<open>hi\<close>.\<close>

theorem constant_is_found_witness:
  "let t = (blank_cpu 3)\<lparr>cpu_program := [14, 3, 0, 104, 105, 0], cpu_data_address := 3,
      cpu_port_bank := Ptr 0, port_banks := [0 \<mapsto> host_bank]\<rparr>
   in \<exists>a more. ''PUSHL_U16 '' @ py_str (uint a) = ''PUSHL_U16 3'' \<and> data_pointer a t = Inr ([104, 105, 0] @ more, t)"
proof -
  let ?t = "(blank_cpu 3)\<lparr>cpu_program := [14, 3, 0, 104, 105, 0], cpu_data_address := 3,
      cpu_port_bank := Ptr 0, port_banks := [0 \<mapsto> host_bank]\<rparr>"
  let ?lines = "[''CONST hi STRING 104,105,0'', ''PUSHL_U16 $hi'']"
  have build: "build_const_data ?lines = Inr ([''PUSHL_U16 3''], [104, 105, 0])" by code_simp
  have bytes: "const_bytes ''STRING'' ''104,105,0'' = Inr [104, 105, 0]" by code_simp
  have other: "\<forall>line \<in> set [''PUSHL_U16 $hi'']. \<not> declares ''hi'' line" by code_simp
  have split: "?lines = [] @ (''CONST '' @ ''hi'' @ '' '' @ ''STRING'' @ '' '' @ ''104,105,0'') # [''PUSHL_U16 $hi'']" by simp
  have "\<exists>a bs more. (''PUSHL_U16'' @ '' '' @ py_str (uint a)) \<in> set [''PUSHL_U16 3''] \<and> const_bytes ''STRING'' ''104,105,0'' = Inr bs
      \<and> data_pointer a ?t = Inr (map word_of_int bs @ more, ?t)"
    by (rule constant_is_found [OF build split _ other, where code = "[14, 3, 0]"]) (simp_all add: has_bank_def)
  then show ?thesis unfolding bytes Let_def by auto
qed

end
