(* ===== verification/Crew_Vm.thy ===== *)
theory Crew_Vm
  imports Whole_Spec Schedule_Spec
begin

text \<open>
  An abstract machine with several tasks, and the proof that the instructions of the running
  task implement it, \<open>OP_ASYNC_CALL\<close> included. A task is an abstract machine of its own; the
  tasks are numbered in the order of their creation, and a tree of numbers says which task
  created which.
\<close>

section \<open>The abstract machine\<close>

text \<open>The task with the number \<open>i\<close> is entry \<open>i\<close> of the list, and \<open>x_now\<close> is the running one. Of
  the ports, the clock, the output and the memory counter, which the tasks share, the running
  task's are the current ones.\<close>

record crew_vm =
  x_tasks :: "vm list"
  x_tree :: tree
  x_now :: nat

type_synonym 'a xm = "(crew_vm, 'a) st"

definition now_task :: "crew_vm \<Rightarrow> vm" where
  "now_task x = x_tasks x ! x_now x"

definition put_now :: "vm \<Rightarrow> crew_vm \<Rightarrow> crew_vm" where
  "put_now v x = x\<lparr>x_tasks := (x_tasks x)[x_now x := v]\<rparr>"

text \<open>What the running task does.\<close>

definition on_now :: "'a ma \<Rightarrow> 'a xm" where
  "on_now m x = (case m (now_task x) of
     Inl (w, v) \<Rightarrow> Inl (w, put_now v x)
   | Inr (r, v) \<Rightarrow> Inr (r, put_now v x))"

definition new_vm :: "u16 \<Rightarrow> vm \<Rightarrow> vm" where
  "new_vm address v = v\<lparr>v_ip := address, v_ops := [], v_locals := [], v_callers := [],
     v_ops_size := 1024, v_calls_size := 4096\<rparr>"

definition x_spawn :: "u16 \<Rightarrow> unit xm" where
  "x_spawn address = bind (gets (\<lambda>x. length (x_tasks x))) (\<lambda>i.
     if i = 5 then on_now (a_emit (Printf ''reached max tasks\<newline>'' []))
     else bind (on_now a_pop_u16) (\<lambda>_.
       seq (on_now (modify (\<lambda>v. v\<lparr>v_memory := v_memory v + 5264\<rparr>)))
           (modify (\<lambda>x. x\<lparr>x_tasks := x_tasks x @ [new_vm address (now_task x)],
              x_tree := add_kid (x_now x) i (x_tree x)\<rparr>))))"

definition x_exec :: "u8 \<Rightarrow> unit xm" where
  "x_exec b = (case opcode_of b of
     None \<Rightarrow> on_now (a_emit (Printf ''unknown opcode %d\<newline>'' [AInt (uint b)]))
   | Some opc \<Rightarrow> if opc = OP_ASYNC_CALL then bind (on_now a_fetch_u16) x_spawn else on_now (a_exec opc))"

definition x_step :: "unit xm" where
  "x_step = bind (on_now (a_fetch 1)) (\<lambda>w. x_exec (w ! 0))"

fun x_run :: "nat \<Rightarrow> unit xm" where
  "x_run 0 = return ()"
| "x_run (Suc n) = seq x_step (x_run n)"

text \<open>The processor goes to the task \<open>i\<close>, which takes over what the tasks share.\<close>

definition hand_over :: "vm \<Rightarrow> vm \<Rightarrow> vm" where
  "hand_over v w = w\<lparr>v_ports := v_ports v, v_clock := v_clock v, v_out := v_out v, v_memory := v_memory v\<rparr>"

definition x_switch :: "nat \<Rightarrow> unit xm" where
  "x_switch i = modify (\<lambda>x. x\<lparr>x_tasks := (x_tasks x)[i := hand_over (now_task x) (x_tasks x ! i)], x_now := i\<rparr>)"

definition x_slice :: "nat \<Rightarrow> unit xm" where
  "x_slice i = seq (x_switch i) (x_run 255)"

text \<open>A round: the first, second, and so on, of the tasks in the preorder of the tree. A task
  that is created during the round comes after its creator, so it has its turn in this round.\<close>

definition x_turn :: "nat \<Rightarrow> unit xm" where
  "x_turn k = bind (gets (\<lambda>x. preorder (x_tree x))) (\<lambda>order.
     if k < length order then x_slice (order ! k) else return ())"

fun x_turns :: "nat list \<Rightarrow> unit xm" where
  "x_turns [] = return ()"
| "x_turns (k # ks) = seq (x_turn k) (x_turns ks)"

definition x_round :: "unit xm" where
  "x_round = x_turns [0..<5]"

fun x_rounds :: "nat \<Rightarrow> unit xm" where
  "x_rounds 0 = return ()"
| "x_rounds (Suc n) = seq x_round (x_rounds n)"

section \<open>What it stands for\<close>

text \<open>The objects of a task: its node, the task record, the two stacks and the inbox.\<close>

record seat =
  s_node :: nat
  s_task :: nat
  s_ops :: nat
  s_calls :: nat
  s_box :: nat

text \<open>The task's record at the seat \<open>p\<close> is \<open>k\<close>; its inbox is empty.\<close>

definition seated :: "'z cpu_scheme \<Rightarrow> seat \<Rightarrow> task \<Rightarrow> bool" where
  "seated s p k \<longleftrightarrow> (\<exists>n. nodes s (s_node p) = Some n \<and> roomy n \<and> n_task n = Ptr (s_task p))
     \<and> tasks s (s_task p) = Some k \<and> t_opstack k = Ptr (s_ops p) \<and> t_stack k = Ptr (s_calls p)
     \<and> t_inbox k = Ptr (s_box p)
     \<and> (\<exists>q. queues s (s_box p) = Some q \<and> q_count q = 0 \<and> q_head q = Null)
     \<and> {s_node p, s_task p, s_ops p, s_calls p, s_box p} \<subseteq> {..<mallocs s}"

text \<open>The stacks at the seat are those of the abstract task \<open>v\<close>.\<close>

definition stacks_of :: "'z cpu_scheme \<Rightarrow> seat \<Rightarrow> vm \<Rightarrow> bool" where
  "stacks_of s p v \<longleftrightarrow>
     (\<exists>k. stacks s (s_ops p) = Some k \<and> stack_ok k \<and> contents k = v_ops v \<and> unat (stk_size k) = v_ops_size v)
   \<and> (\<exists>l. stacks s (s_calls p) = Some l \<and> calls_at (v_locals v) (v_callers v) l
        \<and> unat (stk_size l) = v_calls_size v)"

definition machine_of :: "'z cpu_scheme \<Rightarrow> vm \<Rightarrow> bool" where
  "machine_of s v \<longleftrightarrow> cpu_program s = v_prog v \<and> unat (cpu_program_size s) = length (v_prog v)
     \<and> cpu_data_address s = v_data v \<and> env_time s = v_time v
     \<and> f32_add s = v_add v \<and> f32_sub s = v_sub v \<and> f32_mul s = v_mul v \<and> f32_div s = v_div v
     \<and> v_ops_size v = 1024 \<and> v_calls_size v = 4096"

definition shared_of :: "'z cpu_scheme \<Rightarrow> vm \<Rightarrow> bool" where
  "shared_of s v \<longleftrightarrow> out s = v_out v \<and> port_regs s = v_ports v \<and> clock_reads s = v_clock v
     \<and> dynamic_memory_usage s = v_memory v"

text \<open>The tree of numbers with the addresses of the nodes.\<close>

fun rename :: "(nat \<Rightarrow> nat) \<Rightarrow> tree \<Rightarrow> tree" where
  "rename f (Node a ts) = Node (f a) (map (rename f) ts)"

definition tree_ok :: "nat \<Rightarrow> tree \<Rightarrow> bool" where
  "tree_ok n t \<longleftrightarrow> set (preorder t) = {..<n} \<and> distinct (preorder t) \<and> node_addr t = 0"

definition seats_ok :: "seat list \<Rightarrow> bool" where
  "seats_ok ss \<longleftrightarrow> distinct (map s_node ss) \<and> distinct (map s_task ss) \<and> distinct (map s_box ss)
     \<and> distinct (map s_ops ss @ map s_calls ss)"

text \<open>The machine \<open>s\<close> represents \<open>x\<close>, with the tasks at the seats \<open>ss\<close>.\<close>

definition crew_at :: "seat list \<Rightarrow> crew_vm \<Rightarrow> 'z cpu_scheme \<Rightarrow> bool" where
  "crew_at ss x s \<longleftrightarrow> length ss = length (x_tasks x) \<and> x_now x < length ss \<and> length ss \<le> 5
     \<and> tree_ok (length ss) (x_tree x) \<and> seats_ok ss
     \<and> (\<forall>i < length ss. (\<exists>k. seated s (ss ! i) k \<and> (i \<noteq> x_now x \<longrightarrow> t_ip k = v_ip (x_tasks x ! i)))
          \<and> stacks_of s (ss ! i) (x_tasks x ! i) \<and> machine_of s (x_tasks x ! i))
     \<and> tree_at (nodes s) (rename (\<lambda>i. s_node (ss ! i)) (x_tree x))
     \<and> cpu_task_tree_root s = Ptr (s_node (ss ! 0))
     \<and> cpu_task_tree_current_node s = Ptr (s_node (ss ! x_now x))
     \<and> cpu_opstack s = Ptr (s_ops (ss ! x_now x)) \<and> cpu_stack s = Ptr (s_calls (ss ! x_now x))
     \<and> cpu_ip s = v_ip (now_task x) \<and> shared_of s (now_task x)
     \<and> inboxes s (cpu_message_queues s) (map s_box ss) \<and> cpu_tasks_number s = of_nat (length ss - 1)
     \<and> nextId s = int (length ss) \<and> malloc_ok s = (\<lambda>_. True) \<and> has_bank s \<and> quiet s"

text \<open>Two seats share no object.\<close>

lemma seats_okD:
  assumes "seats_ok ss" and "i < length ss" and "j < length ss"
  shows "s_node (ss ! i) = s_node (ss ! j) \<longleftrightarrow> i = j" and "s_task (ss ! i) = s_task (ss ! j) \<longleftrightarrow> i = j"
    and "s_box (ss ! i) = s_box (ss ! j) \<longleftrightarrow> i = j" and "s_ops (ss ! i) = s_ops (ss ! j) \<longleftrightarrow> i = j"
    and "s_calls (ss ! i) = s_calls (ss ! j) \<longleftrightarrow> i = j" and "s_ops (ss ! i) \<noteq> s_calls (ss ! j)"
proof -
  have inj: "map f ss ! i = map f ss ! j \<longleftrightarrow> i = j" if "distinct (map f ss)" for f :: "seat \<Rightarrow> nat"
    using that assms(2,3) by (metis length_map nth_eq_iff_index_eq)
  show "s_node (ss ! i) = s_node (ss ! j) \<longleftrightarrow> i = j" "s_task (ss ! i) = s_task (ss ! j) \<longleftrightarrow> i = j"
    "s_box (ss ! i) = s_box (ss ! j) \<longleftrightarrow> i = j" "s_ops (ss ! i) = s_ops (ss ! j) \<longleftrightarrow> i = j"
    "s_calls (ss ! i) = s_calls (ss ! j) \<longleftrightarrow> i = j"
    using inj [of s_node] inj [of s_task] inj [of s_box] inj [of s_ops] inj [of s_calls] assms
    by (simp_all add: seats_ok_def)
  have "s_ops (ss ! i) \<in> set (map s_ops ss)" "s_calls (ss ! j) \<in> set (map s_calls ss)" using assms(2,3) by simp_all
  moreover have "set (map s_ops ss) \<inter> set (map s_calls ss) = {}" using assms(1) by (simp add: seats_ok_def)
  ultimately show "s_ops (ss ! i) \<noteq> s_calls (ss ! j)" by (metis disjoint_iff)
qed

section \<open>The running task\<close>

lemma rep_self:
  assumes "cpu_opstack s = Ptr (s_ops p)" and "cpu_stack s = Ptr (s_calls p)" and "s_ops p \<noteq> s_calls p"
    and "stacks_of s p v" and "machine_of s v" and "shared_of s v" and "cpu_ip s = v_ip v" and "has_bank s"
  shows "rep s v s"
proof -
  obtain k l where k: "stacks s (s_ops p) = Some k" "stack_ok k" "contents k = v_ops v"
      "unat (stk_size k) = v_ops_size v" "stacks s (s_calls p) = Some l"
      "calls_at (v_locals v) (v_callers v) l" "unat (stk_size l) = v_calls_size v"
    using assms(4) by (auto simp: stacks_of_def)
  have same: "(stacks s)(s_ops p \<mapsto> k, s_calls p \<mapsto> l) = stacks s" using k by (simp add: fun_upd_idem)
  have "rep_at (s_ops p) (s_calls p) s v s"
    unfolding rep_at_def using k same assms(6,7)
    by (intro exI [of _ k] exI [of _ l]) (simp add: shared_of_def)
  moreover have "surroundings s v"
    using assms k by (simp add: surroundings_def machine_of_def shared_of_def opstack_capacity_def
        opstack_addr_def stack_at_def)
  ultimately show ?thesis unfolding rep_def using assms(1-3) by blast
qed

lemma crew_rep:
  assumes "crew_at ss x s"
  shows "rep s (now_task x) s"
  by (rule rep_self [of s "ss ! x_now x"])
    (use assms seats_okD(6) [of ss "x_now x" "x_now x"] in \<open>simp_all add: crew_at_def now_task_def\<close>)

lemma put_now_simps [simp]:
  "x_tree (put_now v x) = x_tree x" "x_now (put_now v x) = x_now x"
  "length (x_tasks (put_now v x)) = length (x_tasks x)"
  "x_now x < length (x_tasks x) \<Longrightarrow> now_task (put_now v x) = v"
  "x_now x < length (x_tasks x) \<Longrightarrow> put_now (now_task x) x = x"
  by (simp_all add: put_now_def now_task_def)

lemma crew_back:
  assumes "crew_at ss x s" and "rep s v t"
  shows "crew_at ss (put_now v x) t"
proof -
  let ?j = "x_now x"
  let ?p = "ss ! ?j"
  note c = assms(1) [unfolded crew_at_def]
  have j: "?j < length ss" "length ss = length (x_tasks x)" "seats_ok ss" using c by simp_all
  have ptrs: "cpu_opstack s = Ptr (s_ops ?p)" "cpu_stack s = Ptr (s_calls ?p)" using c by simp_all
  then obtain k l where r: "t = s\<lparr>out := v_out v, stacks := (stacks s)(s_ops ?p \<mapsto> k, s_calls ?p \<mapsto> l),
       port_regs := v_ports v, clock_reads := v_clock v, cpu_ip := v_ip v\<rparr>"
    "stack_ok k" "contents k = v_ops v" "unat (stk_size k) = v_ops_size v"
    "calls_at (v_locals v) (v_callers v) l" "unat (stk_size l) = v_calls_size v" "surroundings s v"
    using assms(2) by (auto simp: rep_def rep_at_def)
  have machine: "machine_of t w = machine_of s w" for w by (simp add: r(1) machine_of_def)
  have seated: "seated t p = seated s p" for p by (simp add: r(1) seated_def fun_eq_iff)
  have now: "machine_of s v" "dynamic_memory_usage s = v_memory v"
  proof -
    have "stacks_of s ?p (now_task x)" "machine_of s (now_task x)" using c by (simp_all add: now_task_def)
    then have "v_ops_size v = 1024" "v_calls_size v = 4096"
      using r(7) ptrs by (auto simp: surroundings_def stacks_of_def machine_of_def opstack_capacity_def
          opstack_addr_def stack_at_def)
    with r(7) show "machine_of s v" "dynamic_memory_usage s = v_memory v"
      by (simp_all add: surroundings_def machine_of_def)
  qed
  have here: "stacks_of t ?p v"
    using r(2-6) seats_okD(6) [OF j(3,1,1)] by (simp add: r(1) stacks_of_def)
  have other: "stacks_of t (ss ! i) w = stacks_of s (ss ! i) w" if "i < length ss" "i \<noteq> ?j" for i w
    using seats_okD(4-6) [OF j(3) that(1) j(1)] seats_okD(6) [OF j(3,1) that(1)] that(2)
    by (simp add: r(1) stacks_of_def)
  have "(\<exists>k. seated t (ss ! i) k \<and> (i \<noteq> ?j \<longrightarrow> t_ip k = v_ip (x_tasks (put_now v x) ! i)))
      \<and> stacks_of t (ss ! i) (x_tasks (put_now v x) ! i) \<and> machine_of t (x_tasks (put_now v x) ! i)"
    if "i < length ss" for i
    using c that here other [OF that] now(1) j unfolding seated machine
    by (cases "i = ?j") (auto simp: put_now_def)
  moreover have "shared_of t v" using now(2) by (simp add: r(1) shared_of_def)
  moreover have "has_bank t = has_bank s" "quiet t = quiet s" "inboxes t = inboxes s"
    by (simp_all add: r(1) has_bank_def quiet_def inboxes_def fun_eq_iff)
  moreover have "nodes t = nodes s" "cpu_task_tree_root t = cpu_task_tree_root s" "cpu_ip t = v_ip v"
    "cpu_task_tree_current_node t = cpu_task_tree_current_node s" "cpu_opstack t = cpu_opstack s"
    "cpu_stack t = cpu_stack s" "cpu_message_queues t = cpu_message_queues s"
    "cpu_tasks_number t = cpu_tasks_number s" "nextId t = nextId s" "malloc_ok t = malloc_ok s"
    by (simp_all add: r(1))
  ultimately show ?thesis using c j by (simp add: crew_at_def)
qed

section \<open>Simulation\<close>

text \<open>The counterparts of \<open>agrees\<close> and \<open>refines\<close>; the seats of a later state may be more.\<close>

definition crew_agrees :: "seat list \<Rightarrow> (stop \<times> crew_vm) + ('a \<times> crew_vm)
  \<Rightarrow> (stop \<times> 'z cpu_scheme) + ('a \<times> 'z cpu_scheme) \<Rightarrow> bool" where
  "crew_agrees ss r c \<longleftrightarrow> (case r of
     Inr (y, x) \<Rightarrow> \<exists>t new. c = Inr (y, t) \<and> crew_at (ss @ new) x t
   | Inl (w, x) \<Rightarrow> w = OutOfFuel
       \<or> (if w = ExitSuccess then \<exists>t ss e. crew_at ss x t \<and> halt t = Inl e \<and> c = Inl e
          else \<exists>t es. c = Inl (w, t) \<and> out t = v_out (now_task x) @ es))"

definition crew_refines :: "'a xm \<Rightarrow> ('z cpu_scheme, 'a) st \<Rightarrow> bool" where
  "crew_refines A C \<longleftrightarrow> (\<forall>ss x s. crew_at ss x s \<longrightarrow> crew_agrees ss (A x) (C s))"

lemma crew_refinesI: "(\<And>ss x s. crew_at ss x s \<Longrightarrow> crew_agrees ss (A x) (C s)) \<Longrightarrow> crew_refines A C"
  by (simp add: crew_refines_def)

lemma crew_refinesD: "crew_refines A C \<Longrightarrow> crew_at ss x s \<Longrightarrow> crew_agrees ss (A x) (C s)"
  by (auto simp: crew_refines_def)

lemma crew_return: "crew_refines (return x) (return x)"
  by (auto simp: crew_refines_def crew_agrees_def st_simps intro: exI [of _ "[]"])

lemma crew_agrees_later: "crew_agrees (ss @ new) r c \<Longrightarrow> crew_agrees ss r c"
  by (fastforce simp: crew_agrees_def split: sum.splits prod.splits)

lemma crew_bind_value:
  assumes "crew_refines A C" and "\<And>x y z. A x = Inr (z, y) \<Longrightarrow> P z"
    and "\<And>z. P z \<Longrightarrow> crew_refines (F z) (G z)"
  shows "crew_refines (bind A F) (bind C G)"
proof (rule crew_refinesI)
  fix ss x and s :: "'b cpu_scheme" assume c: "crew_at ss x s"
  show "crew_agrees ss (bind A F x) (bind C G s)"
  proof (cases "A x")
    case (Inl e)
    with crew_refinesD [OF assms(1) c] show ?thesis
      by (cases e) (fastforce simp: crew_agrees_def st_simps split: if_splits)
  next
    case (Inr p)
    then obtain z y where z: "A x = Inr (z, y)" by (cases p) simp
    with crew_refinesD [OF assms(1) c] obtain t new where "C s = Inr (z, t)" "crew_at (ss @ new) y t"
      by (auto simp: crew_agrees_def)
    with crew_agrees_later [OF crew_refinesD [OF assms(3) [OF assms(2) [OF z]]]] z show ?thesis by (simp add: st_simps)
  qed
qed

lemma crew_bind:
  "crew_refines A C \<Longrightarrow> (\<And>z. crew_refines (F z) (G z)) \<Longrightarrow> crew_refines (bind A F) (bind C G)"
  by (rule crew_bind_value [where P = "\<lambda>_. True"]) simp_all

lemma crew_seq: "crew_refines A C \<Longrightarrow> crew_refines B D \<Longrightarrow> crew_refines (seq A B) (seq C D)"
  unfolding seq_def by (rule crew_bind)

text \<open>What the running task does is implemented as for a single task.\<close>

lemma crew_on_now:
  assumes "\<And>s :: 'z cpu_scheme. refines s A C"
  shows "crew_refines (on_now A) C"
proof (rule crew_refinesI)
  fix ss x and s :: "'z cpu_scheme" assume c: "crew_at ss x s"
  then have now: "x_now x < length (x_tasks x)" by (simp add: crew_at_def)
  from refinesD [OF assms crew_rep [OF c]] show "crew_agrees ss (on_now A x) (C s)"
    using crew_back [OF c] now
    by (fastforce simp: agrees_def crew_agrees_def on_now_def split: sum.splits if_splits intro: exI [of _ "[]"])
qed

section \<open>Trees of numbers\<close>

lemma node_addr_rename [simp]: "node_addr (rename f t) = f (node_addr t)"
  by (cases t) simp

lemma preorder_rename [simp]: "preorder (rename f t) = map f (preorder t)"
  by (induction t) (auto simp: map_concat comp_def intro!: arg_cong [of _ _ concat])

lemma rename_cong: "(\<And>a. a \<in> set (preorder t) \<Longrightarrow> f a = g a) \<Longrightarrow> rename f t = rename g t"
  by (induction t) auto

lemma rename_add_kid:
  "inj_on f (insert a (set (preorder t))) \<Longrightarrow> rename f (add_kid a c t) = add_kid (f a) (f c) (rename f t)"
proof (induction t)
  case (Node b ts)
  have "rename f (add_kid a c t) = add_kid (f a) (f c) (rename f t)" if "t \<in> set ts" for t
    using that by (intro Node.IH inj_on_subset [OF Node.prems]) auto
  moreover have "f a = f b \<longleftrightarrow> a = b" using Node.prems by (auto dest: inj_onD)
  ultimately show ?case by auto
qed

lemma set_preorder_add_kid:
  "set (preorder (add_kid a c t)) = (if a \<in> set (preorder t) then insert c (set (preorder t)) else set (preorder t))"
proof (cases "a \<in> set (preorder t)")
  case True
  then have "set (preorder (add_kid a c t)) = insert c (set (preorder t))"
  proof (induction t)
    case (Node b ts)
    have each: "set (preorder (add_kid a c t)) = (if a \<in> set (preorder t) then insert c (set (preorder t)) else set (preorder t))"
      if "t \<in> set ts" for t
      using Node.IH [OF that] add_kid_other by auto
    show ?case
      using Node.prems each by (auto split: if_splits)
  qed
  with True show ?thesis by simp
qed (simp add: add_kid_other)

lemma length_preorder_add_kid:
  "length (preorder (add_kid a c t)) = length (preorder t) + count_list (preorder t) a"
proof (induction t)
  case (Node b ts)
  have "length (concat (map (preorder \<circ> add_kid a c) us))
      = length (concat (map preorder us)) + count_list (concat (map preorder us)) a" if "set us \<subseteq> set ts" for us
    using that by (induction us) (simp_all add: Node.IH)
  from this [of ts] show ?case by (simp add: comp_def)
qed

lemma distinct_preorder_add_kid:
  assumes "distinct (preorder t)" and "c \<notin> set (preorder t)"
  shows "distinct (preorder (add_kid a c t))"
proof (cases "a \<in> set (preorder t)")
  case True
  then have "length (preorder (add_kid a c t)) = Suc (length (preorder t))"
    using assms(1) by (simp add: length_preorder_add_kid count_distinct)
  moreover have "card (set (preorder (add_kid a c t))) = Suc (length (preorder t))"
    using True assms by (simp add: set_preorder_add_kid distinct_card)
  ultimately show ?thesis by (intro card_distinct) simp
qed (simp add: assms(1) add_kid_other)

lemma tree_ok_add_kid:
  assumes "tree_ok n t" and "a < n"
  shows "tree_ok (Suc n) (add_kid a n t)"
proof -
  have t: "set (preorder t) = {..<n}" "distinct (preorder t)" "node_addr t = 0"
    using assms(1) by (simp_all add: tree_ok_def)
  have "distinct (preorder (add_kid a n t))" by (rule distinct_preorder_add_kid [OF t(2)]) (simp add: t(1))
  moreover have "set (preorder (add_kid a n t)) = {..<Suc n}"
    using assms(2) by (simp only: set_preorder_add_kid t(1) lessThan_iff if_True lessThan_Suc)
  ultimately show ?thesis using t(3) by (simp add: tree_ok_def)
qed

text \<open>A node has fewer children than the tree has nodes.\<close>

lemma childCount_small:
  "tree_at h t \<Longrightarrow> a \<in> set (preorder t) \<Longrightarrow> h a = Some n \<Longrightarrow> unat (childCount n) < length (preorder t)"
proof (induction t)
  case (Node b ts)
  have kids: "length ts \<le> length (concat (map preorder ts))"
  proof (induction ts)
    case (Cons t ts)
    then show ?case by (cases t) auto
  qed simp
  show ?case
  proof (cases "a = b")
    case True
    with Node.prems(1,3) have "unat (childCount n) = length ts" by simp
    with kids show ?thesis by simp
  next
    case False
    then obtain t where t: "t \<in> set ts" "a \<in> set (preorder t)" using Node.prems(2) by auto
    have "length (preorder t) \<le> length (concat (map preorder ts))"
      using member_le_sum_list [of "length (preorder t)" "map (length \<circ> preorder) ts"] t(1)
      by (simp add: length_concat comp_def)
    moreover have "tree_at h t" using Node.prems(1) t(1) by simp
    ultimately show ?thesis using Node.IH [OF t(1) _ t(2) Node.prems(3)] by simp
  qed
qed

section \<open>New tasks\<close>

lemma inj_on_nodes: "seats_ok ss \<Longrightarrow> inj_on (\<lambda>i. s_node (ss ! i)) {..<length ss}"
  by (auto simp: inj_on_def seats_okD(1))

lemma crew_can_spawn:
  assumes "crew_at ss x s"
  shows "can_spawn (map s_box ss) (rename (\<lambda>i. s_node (ss ! i)) (x_tree x)) (s_node (ss ! x_now x)) s"
proof -
  let ?f = "\<lambda>i. s_node (ss ! i)"
  note c = assms [unfolded crew_at_def]
  have t: "set (preorder (x_tree x)) = {..<length ss}" "distinct (preorder (x_tree x))"
    using c by (simp_all add: tree_ok_def)
  have seat: "\<exists>k. seated s (ss ! i) k" if "i < length ss" for i using c that by blast
  then have low: "s_node (ss ! i) < mallocs s" "s_box (ss ! i) < mallocs s" "s_ops (ss ! i) < mallocs s" if "i < length ss" for i
    using that by (fastforce simp: seated_def)+
  have "\<exists>n. nodes s (?f (x_now x)) = Some n \<and> node_ok n" using seat c by (fastforce simp: seated_def roomy_def)
  moreover have "distinct (map ?f (preorder (x_tree x)))"
    using t inj_on_nodes [of ss] c by (simp add: distinct_map)
  moreover have "\<forall>a \<in> set (map s_box ss). a < mallocs s" using low(2) by (auto simp: in_set_conv_nth)
  moreover have "opstack_addr s < mallocs s" using c low(3) by (simp add: opstack_addr_def)
  moreover have "distinct (map s_box ss)" using c by (simp add: seats_ok_def)
  moreover have "\<forall>a \<in> set (map ?f (preorder (x_tree x))). a < mallocs s"
    "?f (x_now x) \<in> set (map ?f (preorder (x_tree x)))"
    using t(1) low(1) c by simp_all
  moreover have "map s_box ss \<noteq> []" "nextId s < 2147483647" using c by auto
  moreover have "malloc_ok s = (\<lambda>_. True)" "inboxes s (cpu_message_queues s) (map s_box ss)" using c by blast+
  then have "\<forall>i. malloc_ok s i" "inboxes s (cpu_message_queues s) (map s_box ss)" by simp_all
  moreover have "tree_at (nodes s) (rename ?f (x_tree x))" "cpu_task_tree_current_node s = Ptr (?f (x_now x))"
    using c by simp_all
  ultimately show ?thesis unfolding can_spawn_def preorder_rename by blast
qed

text \<open>The abstract machine with the new task, and the seat of it.\<close>

definition spawned_x :: "u16 \<Rightarrow> vm \<Rightarrow> crew_vm \<Rightarrow> crew_vm" where
  "spawned_x address v x = (put_now v x)\<lparr>x_tasks := x_tasks (put_now v x) @ [new_vm address v],
     x_tree := add_kid (x_now x) (length (x_tasks x)) (x_tree x)\<rparr>"

definition new_seat :: "nat \<Rightarrow> nat \<Rightarrow> seat" where
  "new_seat m q = \<lparr>s_node = m + 5, s_task = m, s_ops = m + 1, s_calls = m + 3, s_box = q\<rparr>"

lemma seats_ok_new:
  assumes "seats_ok ss" and "\<forall>p \<in> set ss. {s_node p, s_task p, s_ops p, s_calls p, s_box p} \<subseteq> {..<m}" and "m < q"
  shows "seats_ok (ss @ [new_seat m q])"
  using assms by (force simp: seats_ok_def new_seat_def)

lemma seated_spawn:
  assumes "seated s p k" and "roomy n \<Longrightarrow> roomy (with_kid (m + 5) n)" and "m = mallocs s"
    and "task_added s y l (Ptr c) n q address h u" and "nodes s c = Some n"
  shows "seated u p k"
proof -
  note added = assms(4) [unfolded task_added_def Let_def, folded assms(3)]
  obtain n' x where p: "nodes s (s_node p) = Some n'" "roomy n'" "n_task n' = Ptr (s_task p)"
      "tasks s (s_task p) = Some k" "queues s (s_box p) = Some x" "q_count x = 0" "q_head x = Null"
      "{s_node p, s_task p, s_ops p, s_calls p, s_box p} \<subseteq> {..<m}"
      "t_opstack k = Ptr (s_ops p)" "t_stack k = Ptr (s_calls p)" "t_inbox k = Ptr (s_box p)"
    using assms(1,3) by (auto simp: seated_def)
  have "\<exists>n. nodes u (s_node p) = Some n \<and> roomy n \<and> n_task n = Ptr (s_task p)"
  proof (cases "s_node p = c")
    case True
    with p(1-3) assms(2,5) added show ?thesis by simp
  next
    case False
    with p(1-3,8) added show ?thesis by simp
  qed
  moreover have "\<exists>q. queues u (s_box p) = Some q \<and> q_count q = 0 \<and> q_head q = Null"
    using p(5-8) added by (cases "s_box p = l") auto
  moreover have "tasks u (s_task p) = Some k" "{s_node p, s_task p, s_ops p, s_calls p, s_box p} \<subseteq> {..<mallocs u}"
    using p(4,8) added by auto
  ultimately show ?thesis using p(9-11) unfolding seated_def by blast
qed

text \<open>The creation of a task in the concrete machine: from \<open>s\<close> to \<open>u\<close>, where \<open>v\<close> is the creator
  afterwards, \<open>y\<close> its operand stack, \<open>n\<close> its node before and \<open>q\<close> the new inbox.\<close>

definition spawning :: "seat list \<Rightarrow> crew_vm \<Rightarrow> 'z cpu_scheme \<Rightarrow> vm \<Rightarrow> stack \<Rightarrow> node \<Rightarrow> nat \<Rightarrow> u16 \<Rightarrow> u16
  \<Rightarrow> 'z cpu_scheme \<Rightarrow> bool" where
  "spawning ss x s v y n q address h u \<longleftrightarrow> crew_at ss x s \<and> length ss < 5
     \<and> v = (now_task x)\<lparr>v_ops := contents y, v_memory := v_memory (now_task x) + 5264\<rparr>
     \<and> stack_ok y \<and> unat (stk_size y) = 1024 \<and> nodes s (s_node (ss ! x_now x)) = Some n
     \<and> task_added s y (last (map s_box ss)) (Ptr (s_node (ss ! x_now x))) n q address h u
     \<and> last (map s_box ss) \<noteq> q"

lemma crew_at_seat:
  assumes "crew_at ss x s" and "i < length ss"
  shows "{s_node (ss ! i), s_task (ss ! i), s_ops (ss ! i), s_calls (ss ! i), s_box (ss ! i)} \<subseteq> {..<mallocs s}"
    and "stacks_of s (ss ! i) (x_tasks x ! i)" and "machine_of s (x_tasks x ! i)"
    and "\<exists>k. seated s (ss ! i) k \<and> (i \<noteq> x_now x \<longrightarrow> t_ip k = v_ip (x_tasks x ! i))"
  using assms by (fastforce simp: crew_at_def seated_def)+

lemma spawning_fields:
  assumes "spawning ss x s v y n q address h u"
  shows "nodes u = (nodes s)(mallocs s + 5 \<mapsto> new_node (nextId s) (Ptr (s_node (ss ! x_now x))) (Ptr (mallocs s)),
      s_node (ss ! x_now x) \<mapsto> with_kid (mallocs s + 5) n)"
    and "tasks u = (tasks s)(mallocs s \<mapsto> spawned (mallocs s) q (cpu_tasks_number s + 1) address h)"
    and "stacks u = (stacks s)(s_ops (ss ! x_now x) \<mapsto> y, mallocs s + 1 \<mapsto> empty_stack 1024, mallocs s + 3 \<mapsto> empty_stack 4096)"
    and "queues u q = Some (main_inbox\<lparr>q_task_id := cpu_tasks_number s + 1\<rparr>)"
    and "mallocs u = Suc q" and "mallocs s + 5 < q" and "machine_of u w = machine_of s w" and "has_bank u = has_bank s"
    and "quiet u = quiet s" and "malloc_ok u = malloc_ok s"
proof -
  have added: "task_added s y (last (map s_box ss)) (Ptr (s_node (ss ! x_now x))) n q address h u"
    and "last (map s_box ss) \<noteq> q" and "opstack_addr s = s_ops (ss ! x_now x)"
    using assms by (auto simp: spawning_def crew_at_def opstack_addr_def)
  then show "nodes u = (nodes s)(mallocs s + 5 \<mapsto> new_node (nextId s) (Ptr (s_node (ss ! x_now x))) (Ptr (mallocs s)),
      s_node (ss ! x_now x) \<mapsto> with_kid (mallocs s + 5) n)"
    "tasks u = (tasks s)(mallocs s \<mapsto> spawned (mallocs s) q (cpu_tasks_number s + 1) address h)"
    "stacks u = (stacks s)(s_ops (ss ! x_now x) \<mapsto> y, mallocs s + 1 \<mapsto> empty_stack 1024, mallocs s + 3 \<mapsto> empty_stack 4096)"
    "queues u q = Some (main_inbox\<lparr>q_task_id := cpu_tasks_number s + 1\<rparr>)"
    "mallocs u = Suc q" "mallocs s + 5 < q" "machine_of u w = machine_of s w" "has_bank u = has_bank s"
    "quiet u = quiet s" "malloc_ok u = malloc_ok s"
    by (simp_all add: task_added_def Let_def machine_of_def has_bank_def quiet_def)
qed

lemma spawning_seats:
  assumes "spawning ss x s v y n q address h u"
  shows "seats_ok (ss @ [new_seat (mallocs s) q])"
proof (rule seats_ok_new)
  have c: "crew_at ss x s" using assms by (simp add: spawning_def)
  show "seats_ok ss" using c by (simp add: crew_at_def)
  show "\<forall>p \<in> set ss. {s_node p, s_task p, s_ops p, s_calls p, s_box p} \<subseteq> {..<mallocs s}"
    using crew_at_seat(1) [OF c] by (fastforce simp: in_set_conv_nth)
  show "mallocs s < q" using spawning_fields(6) [OF assms] by simp
qed

text \<open>The tree of numbers with the new one stands for the tree of nodes with the new one.\<close>

lemma spawning_tree:
  assumes "spawning ss x s v y n q address h u"
  shows "rename (\<lambda>i. s_node ((ss @ [new_seat (mallocs s) q]) ! i)) (add_kid (x_now x) (length ss) (x_tree x))
    = add_kid (s_node (ss ! x_now x)) (mallocs s + 5) (rename (\<lambda>i. s_node (ss ! i)) (x_tree x))"
proof -
  let ?g = "\<lambda>i. s_node ((ss @ [new_seat (mallocs s) q]) ! i)" and ?j = "x_now x" and ?n = "length ss"
  have "crew_at ss x s" using assms by (simp add: spawning_def)
  then have t: "set (preorder (x_tree x)) = {..<?n}" and j: "?j < ?n" by (simp_all add: crew_at_def tree_ok_def)
  from inj_on_nodes [OF spawning_seats [OF assms]] have "inj_on ?g (insert ?j (set (preorder (x_tree x))))"
    by (rule inj_on_subset) (use t j in auto)
  from rename_add_kid [OF this] have "rename ?g (add_kid ?j ?n (x_tree x)) = add_kid (?g ?j) (?g ?n) (rename ?g (x_tree x))" .
  moreover have "rename ?g (x_tree x) = rename (\<lambda>i. s_node (ss ! i)) (x_tree x)"
    by (rule rename_cong) (simp add: t nth_append)
  ultimately show ?thesis using j by (simp add: nth_append new_seat_def)
qed

text \<open>The children's array of the creator has room: there are at most five tasks.\<close>

lemma spawning_roomy:
  assumes "spawning ss x s v y n q address h u" and "roomy n"
  shows "roomy (with_kid (mallocs s + 5) n)"
proof (rule roomy_with_kid [OF assms(2)])
  let ?t = "rename (\<lambda>i. s_node (ss ! i)) (x_tree x)"
  have c: "crew_at ss x s" and s: "nodes s (s_node (ss ! x_now x)) = Some n" using assms(1) by (simp_all add: spawning_def)
  have "length (preorder (x_tree x)) = length ss"
    using c distinct_card [of "preorder (x_tree x)"] by (simp add: crew_at_def tree_ok_def)
  moreover have "s_node (ss ! x_now x) \<in> set (preorder ?t)" using c by (simp add: crew_at_def tree_ok_def)
  ultimately show "unat (childCount n) < 100"
    using childCount_small [of "nodes s" ?t "s_node (ss ! x_now x)" n] s c by (simp add: crew_at_def)
qed

text \<open>The tasks that were there.\<close>

lemma spawning_old:
  assumes "spawning ss x s v y n q address h u" and i: "i < length ss"
  defines "w \<equiv> (if i = x_now x then v else x_tasks x ! i)"
  shows "\<exists>k. seated u (ss ! i) k \<and> (i \<noteq> x_now x \<longrightarrow> t_ip k = v_ip w)" and "stacks_of u (ss ! i) w" and "machine_of u w"
proof -
  let ?j = "x_now x" and ?m = "mallocs s"
  have c: "crew_at ss x s" and n: "nodes s (s_node (ss ! ?j)) = Some n"
    and added: "task_added s y (last (map s_box ss)) (Ptr (s_node (ss ! ?j))) n q address h u"
    and y: "stack_ok y" "unat (stk_size y) = 1024"
    and v: "v = (now_task x)\<lparr>v_ops := contents y, v_memory := v_memory (now_task x) + 5264\<rparr>"
    using assms(1) by (simp_all add: spawning_def)
  have j: "?j < length ss" "seats_ok ss" using c by (simp_all add: crew_at_def)
  note fields = spawning_fields [OF assms(1)]
  note old = crew_at_seat [OF c i]
  have same: "v_calls_size w = v_calls_size (x_tasks x ! i)" "v_ops_size w = v_ops_size (x_tasks x ! i)"
    "v_locals w = v_locals (x_tasks x ! i)" "v_callers w = v_callers (x_tasks x ! i)"
    "v_ops w = (if i = ?j then contents y else v_ops (x_tasks x ! i))" "machine_of s w = machine_of s (x_tasks x ! i)"
    by (simp_all add: w_def v now_task_def machine_of_def)
  have ne: "s_calls (ss ! i) \<noteq> s_ops (ss ! ?j)" "s_ops (ss ! i) = s_ops (ss ! ?j) \<longleftrightarrow> i = ?j"
    using seats_okD(4) [OF j(2) i j(1)] seats_okD(6) [OF j(2,1) i] by metis+
  have fresh: "s_ops (ss ! i) < ?m" "s_calls (ss ! i) < ?m" using old(1) by simp_all
  show "machine_of u w" using old(3) by (simp add: fields(7) same(6))
  from old(3) have "v_ops_size w = 1024" by (simp add: same(2) machine_of_def)
  with old(2) ne fresh y show "stacks_of u (ss ! i) w"
    unfolding stacks_of_def fields(3) same by (cases "i = ?j") simp_all
  obtain k where k: "seated s (ss ! i) k" "i \<noteq> ?j \<longrightarrow> t_ip k = v_ip (x_tasks x ! i)" using old(4) by blast
  have "seated u (ss ! i) k" by (rule seated_spawn [OF k(1) spawning_roomy [OF assms(1)] refl added n])
  with k(2) show "\<exists>k. seated u (ss ! i) k \<and> (i \<noteq> ?j \<longrightarrow> t_ip k = v_ip w)" by (auto simp: w_def)
qed

text \<open>The new one.\<close>

lemma spawning_new:
  assumes "spawning ss x s v y n q address h u"
  shows "seated u (new_seat (mallocs s) q) (spawned (mallocs s) q (cpu_tasks_number s + 1) address h)"
    and "stacks_of u (new_seat (mallocs s) q) (new_vm address v)" and "machine_of u (new_vm address v)"
proof -
  have c: "crew_at ss x s" using assms by (simp add: spawning_def)
  then have j: "x_now x < length ss" by (simp add: crew_at_def)
  note fields = spawning_fields [OF assms]
  note low = crew_at_seat(1) [OF c j]
  show "seated u (new_seat (mallocs s) q) (spawned (mallocs s) q (cpu_tasks_number s + 1) address h)"
    using low fields(1,2,4-6)
    by (auto simp: seated_def new_seat_def spawned_def main_inbox_def new_node_def roomy_def node_ok_def)
  show "stacks_of u (new_seat (mallocs s) q) (new_vm address v)"
    using low by (simp add: stacks_of_def new_seat_def fields(3) new_vm_def calls_at_def image_of_def
        empty_stack_def stack_ok_def stack_wf_def contents_def)
  show "machine_of u (new_vm address v)"
    using assms crew_at_seat(3) [OF c j] unfolding fields(7) by (simp add: spawning_def machine_of_def new_vm_def now_task_def)
qed

lemma spawning_crew:
  assumes "spawning ss x s v y n q address h u"
    and tree: "tree_at (nodes u) (add_kid (s_node (ss ! x_now x)) (mallocs s + 5) (rename (\<lambda>i. s_node (ss ! i)) (x_tree x)))"
    and boxes: "inboxes u (cpu_message_queues u) (map s_box ss @ [q])"
  shows "crew_at (ss @ [new_seat (mallocs s) q]) (spawned_x address v x) u"
proof -
  let ?n = "length ss" and ?j = "x_now x" and ?ss = "ss @ [new_seat (mallocs s) q]" and ?x = "spawned_x address v x"
  have c: "crew_at ss x s" and added: "task_added s y (last (map s_box ss)) (Ptr (s_node (ss ! ?j))) n q address h u"
    and five: "?n < 5" and v: "v_memory v = v_memory (now_task x) + 5264" "v_ip v = v_ip (now_task x)"
      "v_out v = v_out (now_task x)" "v_ports v = v_ports (now_task x)" "v_clock v = v_clock (now_task x)"
    using assms(1) by (simp_all add: spawning_def)
  note c' = c [unfolded crew_at_def] and added' = added [unfolded task_added_def Let_def]
  note fields = spawning_fields [OF assms(1)]
  have j: "?j < ?n" "?n = length (x_tasks x)" "0 < ?n" using c' by auto
  have tasks: "x_tasks ?x ! i = (if i = ?n then new_vm address v else if i = ?j then v else x_tasks x ! i)" if "i < Suc ?n" for i
    using that j by (auto simp: spawned_x_def put_now_def nth_append)
  have "(\<exists>k. seated u (?ss ! i) k \<and> (i \<noteq> ?j \<longrightarrow> t_ip k = v_ip (x_tasks ?x ! i)))
      \<and> stacks_of u (?ss ! i) (x_tasks ?x ! i) \<and> machine_of u (x_tasks ?x ! i)" if "i < Suc ?n" for i
  proof (cases "i = ?n")
    case True
    with spawning_new [OF assms(1)] tasks [OF that] show ?thesis by (auto simp: spawned_def new_vm_def)
  next
    case False
    with that have "i < ?n" by simp
    from spawning_old [OF assms(1) this] tasks [OF that] False this show ?thesis by (auto simp: nth_append)
  qed
  moreover have "tree_ok (Suc ?n) (x_tree ?x)"
  proof -
    have "tree_ok ?n (x_tree x)" using c' by blast
    from tree_ok_add_kid [OF this j(1)] show ?thesis by (simp only: spawned_x_def j(2)) simp
  qed
  moreover have "tree_at (nodes u) (rename (\<lambda>i. s_node (?ss ! i)) (x_tree ?x))"
    using tree spawning_tree [OF assms(1)] j(2) by (simp add: spawned_x_def)
  moreover have "shared_of u v" "cpu_ip u = v_ip v" using c' added' by (simp_all add: shared_of_def v)
  moreover have "now_task ?x = v" "x_now ?x = ?j" "length (x_tasks ?x) = Suc ?n"
    using j by (simp_all add: spawned_x_def now_task_def put_now_def nth_append)
  moreover have "cpu_tasks_number u = of_nat ?n"
  proof -
    have "cpu_tasks_number u = cpu_tasks_number s + 1" using added' by simp
    also have "\<dots> = of_nat (Suc (?n - 1))" using c' by simp
    finally show ?thesis using j(1) by simp
  qed
  moreover have "has_bank u" "quiet u" "malloc_ok u = (\<lambda>_. True)" using c' unfolding fields(8-10) by blast+
  moreover have "nextId u = int (Suc ?n)"
    "cpu_task_tree_root u = Ptr (s_node (ss ! 0))" "cpu_task_tree_current_node u = Ptr (s_node (ss ! ?j))"
    "cpu_opstack u = Ptr (s_ops (ss ! ?j))" "cpu_stack u = Ptr (s_calls (ss ! ?j))"
    using c' added' by simp_all
  moreover have "?ss ! ?j = ss ! ?j" "?ss ! 0 = ss ! 0" using j(1,3) by (simp_all add: nth_append)
  ultimately show ?thesis
    unfolding crew_at_def using boxes five j(1) spawning_seats [OF assms(1)] by (simp add: new_seat_def)
qed

lemma crew_spawn:
  assumes "crew_at ss x s" and "length ss < 5" and "v_ops (now_task x) = bs @ rev (bytes_of_u16 h)"
    and "v = (now_task x)\<lparr>v_ops := bs, v_memory := v_memory (now_task x) + 5264\<rparr>"
  shows "\<exists>u p. cpu_create_task address s = Inr ((), u) \<and> crew_at (ss @ [p]) (spawned_x address v x) u"
proof -
  let ?p = "ss ! x_now x" and ?f = "\<lambda>i. s_node (ss ! i)"
  note c = assms(1) [unfolded crew_at_def]
  have ops: "opstack_addr s = s_ops ?p" using c by (simp add: opstack_addr_def)
  obtain k where k: "stacks s (s_ops ?p) = Some k" "stack_ok k" "contents k = v_ops (now_task x)" "unat (stk_size k) = 1024"
    using c by (auto simp: stacks_of_def machine_of_def now_task_def)
  have live: "live_opstack s" "operands s = bs @ rev (bytes_of_u16 h)"
    using c k ops assms(3) by (simp_all add: live_opstack_def live_stack_def operands_def stack_at_def)
  have number: "cpu_tasks_number s \<le> MAX_TASKS" "cpu_tasks_number s \<noteq> MAX_TASKS"
    using c assms(2) by (auto simp: MAX_TASKS_def word_le_nat_alt unat_of_nat word_unat_eq_iff)
  obtain u y n q where u: "cpu_create_task address s = Inr ((), u)" "stack_ok y" "contents y = bs"
      "stk_size y = stk_size k" "task_added s y (last (map s_box ss)) (Ptr (s_node ?p)) n q address h u"
      "nodes s (s_node ?p) = Some n" "tree_at (nodes u) (add_kid (s_node ?p) (mallocs s + 5) (rename ?f (x_tree x)))"
      "inboxes u (cpu_message_queues u) (map s_box ss @ [q])" "last (map s_box ss) \<noteq> q"
    using create_task_result [OF live crew_can_spawn [OF assms(1)] number, of address] k(1) ops
    by (auto simp: stack_at_def)
  then have "spawning ss x s v y n q address h u" using assms(1,2,4) k(4) by (simp add: spawning_def)
  from spawning_crew [OF this u(7,8)] u(1) show ?thesis by blast
qed

end
