(* ===== verification/Crew_Spec.thy ===== *)
theory Crew_Spec
  imports Crew_Vm
begin

text \<open>
  The whole machine with several tasks implements the abstract one: instructions, the end by
  \<open>HALT\<close>, time slices, and rounds of the scheduler, whose traversal of a growing tree gives
  the tasks their turns in preorder.
\<close>

section \<open>Halt\<close>

text \<open>The tasks with numbers in \<open>D\<close> are still there.\<close>

definition seats_left :: "seat list \<Rightarrow> nat set \<Rightarrow> 'z cpu_scheme \<Rightarrow> bool" where
  "seats_left ss D s \<longleftrightarrow> seats_ok ss \<and> (\<forall>i \<in> D. i < length ss \<and> (\<exists>k. seated s (ss ! i) k)
     \<and> (\<exists>k. stacks s (s_ops (ss ! i)) = Some k \<and> stk_size k = 1024)
     \<and> (\<exists>l. stacks s (s_calls (ss ! i)) = Some l \<and> stk_size l = 4096))"

lemma free_seat:
  assumes "seats_left ss D s" and "i \<in> D"
  shows "\<exists>u. task_free (Ptr (s_task (ss ! i))) s = Inr ((), u) \<and> seats_left ss (D - {i}) u
    \<and> nodes u = nodes s \<and> out u = out s \<and> dynamic_memory_usage u = dynamic_memory_usage s - 5224"
proof -
  let ?p = "ss ! i"
  obtain k y l q where p: "tasks s (s_task ?p) = Some k" "t_opstack k = Ptr (s_ops ?p)" "t_stack k = Ptr (s_calls ?p)"
      "t_inbox k = Ptr (s_box ?p)" "stacks s (s_ops ?p) = Some y" "stk_size y = 1024"
      "stacks s (s_calls ?p) = Some l" "stk_size l = 4096" "queues s (s_box ?p) = Some q" "q_head q = Null" "i < length ss"
    using assms by (fastforce simp: seats_left_def seated_def)
  have ok: "seats_ok ss" using assms(1) by (simp add: seats_left_def)
  have ne: "s_calls ?p \<noteq> s_ops ?p" using seats_okD(6) [OF ok p(11,11)] by simp
  let ?u = "s\<lparr>dynamic_memory_usage := dynamic_memory_usage s - 5224,
    stacks := (stacks s)(s_ops ?p := None, s_calls ?p := None), queues := (queues s)(s_box ?p := None),
    tasks := (tasks s)(s_task ?p := None)\<rparr>"
  let ?a = "s\<lparr>dynamic_memory_usage := dynamic_memory_usage s - 1024 - 16, stacks := (stacks s)(s_ops ?p := None)\<rparr>"
  let ?b = "?a\<lparr>dynamic_memory_usage := dynamic_memory_usage ?a - 4096 - 16,
    stacks := (stacks ?a)(s_calls ?p := None)\<rparr>"
  have "stack_free (Ptr (s_ops ?p)) s = Inr ((), ?a)" "stack_free (Ptr (s_calls ?p)) ?a = Inr ((), ?b)"
    using stack_free_apply [of s "s_ops ?p"] stack_free_apply [of ?a "s_calls ?p"] p(5-8) ne by simp_all
  moreover have "message_queue_free (Ptr (s_box ?p)) ?b = Inr ((), ?b\<lparr>dynamic_memory_usage := dynamic_memory_usage ?b - 40,
      queues := (queues ?b)(s_box ?p := None)\<rparr>)"
    by (rule free_empty_inbox) (use p(9,10) in simp_all)
  ultimately have "task_free (Ptr (s_task ?p)) s = Inr ((), ?u)"
    using p(1-4) by (simp add: task_free_def st_simps sizeof_Task_def diff_diff_eq)
  moreover have "seats_left ss (D - {i}) ?u"
  proof -
    have "seated ?u (ss ! j) k' = seated s (ss ! j) k'" "stacks ?u (s_ops (ss ! j)) = stacks s (s_ops (ss ! j))"
      "stacks ?u (s_calls (ss ! j)) = stacks s (s_calls (ss ! j))" if "j < length ss" "j \<noteq> i" for j k'
      using seats_okD [OF ok that(1) p(11)] seats_okD(6) [OF ok p(11) that(1)] that(2)
      by (simp_all add: seated_def fun_upd_apply)
    with assms show ?thesis by (auto simp: seats_left_def)
  qed
  ultimately show ?thesis by (intro exI [of _ ?u]) simp
qed

lemma seats_left_node:
  assumes "seats_left ss D s" and "i \<notin> D" and "i < length ss"
  shows "seats_left ss D (s\<lparr>nodes := (nodes s)(s_node (ss ! i) := None), dynamic_memory_usage := d\<rparr>)"
proof -
  have "seated (s\<lparr>nodes := (nodes s)(s_node (ss ! i) := None), dynamic_memory_usage := d\<rparr>) (ss ! j) k
      = seated s (ss ! j) k" if "j \<in> D" for j k
    using assms that seats_okD(1) [of ss j i] by (auto simp: seats_left_def seated_def)
  with assms(1) show ?thesis by (simp add: seats_left_def)
qed

text \<open>A node whose children are released.\<close>

lemma free_node:
  assumes "seats_left ss D u" and "a \<in> D" and "nodes s (s_node (ss ! a)) = Some m" and "nodes u (s_node (ss ! a)) = Some m"
    and "task_tree_free_from n (Ptr (s_node (ss ! a))) 0 s = Inr ((), u)"
  shows "\<exists>v. task_tree_free (Suc n) (Ptr (s_node (ss ! a))) s = Inr ((), v) \<and> seats_left ss (D - {a}) v \<and> out v = out u
    \<and> dynamic_memory_usage v = dynamic_memory_usage u - 5264 - 40 * childCount m
    \<and> (\<forall>i \<in> D - {a}. nodes v (s_node (ss ! i)) = nodes u (s_node (ss ! i)))"
proof -
  have a: "a < length ss" and ok: "seats_ok ss" and low: "i < length ss" if "i \<in> D" for i
    using assms(1,2) that by (simp_all add: seats_left_def)
  obtain v where v: "task_free (Ptr (s_task (ss ! a))) u = Inr ((), v)" "seats_left ss (D - {a}) v"
      "nodes v = nodes u" "out v = out u" "dynamic_memory_usage v = dynamic_memory_usage u - 5224"
    using free_seat [OF assms(1,2)] by blast
  let ?v = "v\<lparr>nodes := (nodes v)(s_node (ss ! a) := None),
    dynamic_memory_usage := dynamic_memory_usage v - 40 * childCount m - 40\<rparr>"
  have "n_task m = Ptr (s_task (ss ! a))" using assms(1,2,4) by (auto simp: seats_left_def seated_def)
  then have "task_tree_free (Suc n) (Ptr (s_node (ss ! a))) s = Inr ((), ?v)"
    using assms(3-5) v(1) by (simp add: st_simps sizeof_TaskTreeNode_def)
  moreover have "seats_left ss (D - {a}) ?v" using seats_left_node [OF v(2) _ a [OF assms(2)]] by simp
  moreover have "s_node (ss ! i) \<noteq> s_node (ss ! a)" if "i \<in> D - {a}" for i
    using seats_okD(1) [OF ok low a] assms(2) that by auto
  ultimately show ?thesis using v(3-5) by (intro exI [of _ ?v]) simp
qed

lemma count_children_memory: "unat (w :: u16) = k \<Longrightarrow> 40 * w = of_nat (40 * k)"
  by auto

text \<open>The release of a tree takes from the memory counter what its tasks took, and once more the
  size of a node for every child.\<close>

lemma tree_free_crew:
  fixes s :: "'z cpu_scheme"
  defines "f ss \<equiv> \<lambda>i. s_node (ss ! i)"
  shows "tree_at (nodes s) (rename (f ss) t) \<Longrightarrow> seats_left ss D s \<Longrightarrow> set (preorder t) \<subseteq> D \<Longrightarrow> distinct (preorder t) \<Longrightarrow>
      2 * length (preorder t) \<le> n \<Longrightarrow>
      \<exists>u. task_tree_free n (Ptr (f ss (node_addr t))) s = Inr ((), u) \<and> seats_left ss (D - set (preorder t)) u
        \<and> out u = out s \<and> dynamic_memory_usage u = dynamic_memory_usage s - of_nat (5304 * length (preorder t)) + 40
        \<and> (\<forall>i \<in> D - set (preorder t). nodes u (f ss i) = nodes s (f ss i))"
    and "nodes s (f ss a) = Some m \<Longrightarrow> unat (childCount m) = length ts \<Longrightarrow> length ts \<le> length (children m) \<Longrightarrow>
      take (length ts) (children m) = map (\<lambda>t. Ptr (f ss (node_addr t))) ts \<Longrightarrow>
      \<forall>t \<in> set (drop i ts). tree_at (nodes s) (rename (f ss) t) \<Longrightarrow>
      seats_left ss D s \<Longrightarrow> a \<in> D \<Longrightarrow> set (concat (map preorder (drop i ts))) \<subseteq> D - {a} \<Longrightarrow>
      distinct (concat (map preorder (drop i ts))) \<Longrightarrow> i \<le> length ts \<Longrightarrow>
      2 * length (concat (map preorder (drop i ts))) < n \<Longrightarrow>
      \<exists>u. task_tree_free_from n (Ptr (f ss a)) i s = Inr ((), u)
        \<and> seats_left ss (D - set (concat (map preorder (drop i ts)))) u \<and> out u = out s
        \<and> dynamic_memory_usage u = dynamic_memory_usage s - of_nat (5304 * length (concat (map preorder (drop i ts))))
            + of_nat (40 * (length ts - i))
        \<and> (\<forall>j \<in> D - set (concat (map preorder (drop i ts))). nodes u (f ss j) = nodes s (f ss j))"
proof (induction n arbitrary: s t D a m ts i)
  case 0
  { case 1 then show ?case by (cases t) simp
  next case 2 then show ?case by simp }
next
  case (Suc n)
  { case 1
    obtain a ts where t: "t = Node a ts" by (cases t) auto
    let ?kids = "concat (map preorder ts)"
    obtain m where m: "nodes s (f ss a) = Some m" "unat (childCount m) = length ts" "length ts \<le> length (children m)"
        "take (length ts) (children m) = map (\<lambda>t. Ptr (f ss (node_addr t))) ts"
      using 1(1) by (auto simp: t comp_def split: option.splits)
    have kids: "a \<in> D" "set ?kids \<subseteq> D - {a}" "distinct ?kids" "2 * length ?kids < n"
      and trees: "\<forall>t \<in> set ts. tree_at (nodes s) (rename (f ss) t)" using 1(1,3-5) by (auto simp: t)
    obtain u where u: "task_tree_free_from n (Ptr (f ss a)) 0 s = Inr ((), u)" "seats_left ss (D - set ?kids) u" "out u = out s"
        "dynamic_memory_usage u = dynamic_memory_usage s - of_nat (5304 * length ?kids) + of_nat (40 * length ts)"
        "\<forall>j \<in> D - set ?kids. nodes u (f ss j) = nodes s (f ss j)"
      using Suc.IH(2) [of s a m ts 0, OF m _ 1(2) kids(1)] kids trees by auto
    have aD: "a \<in> D - set ?kids" using kids(1,2) by blast
    with u(5) m(1) have m': "nodes u (f ss a) = Some m" by metis
    obtain v where v: "task_tree_free (Suc n) (Ptr (f ss a)) s = Inr ((), v)" "seats_left ss (D - set ?kids - {a}) v"
        "out v = out u" "dynamic_memory_usage v = dynamic_memory_usage u - 5264 - 40 * childCount m"
        "\<forall>i \<in> D - set ?kids - {a}. nodes v (f ss i) = nodes u (f ss i)"
      using free_node [OF u(2) aD m(1) [unfolded f_def] m' [unfolded f_def] u(1) [unfolded f_def]] unfolding f_def by blast
    have "dynamic_memory_usage v = dynamic_memory_usage s - of_nat (5304 * length (preorder t)) + 40"
      unfolding v(4) u(4) count_children_memory [OF m(2)] by (simp add: t)
    moreover have "D - set ?kids - {a} = D - set (preorder t)" by (auto simp: t)
    ultimately show ?case using v(1-3,5) u(3,5) by (auto simp: t)
  next
    case 2
    show ?case
    proof (cases "i < length ts")
      case False
      with 2 show ?thesis by (auto simp: st_simps)
    next
      case True
      let ?t = "ts ! i" and ?rest = "concat (map preorder (drop (Suc i) ts))"
      have drop: "drop i ts = ?t # drop (Suc i) ts" using True by (simp add: Cons_nth_drop_Suc)
      have "children m ! i = take (length ts) (children m) ! i" using True by simp
      also have "\<dots> = Ptr (f ss (node_addr ?t))" unfolding 2(4) using True by simp
      finally have kid: "nth_opt (children m) i = Some (Ptr (f ss (node_addr ?t)))"
        using 2(3) True by (simp add: nth_opt_def)
      obtain u where u: "task_tree_free n (Ptr (f ss (node_addr ?t))) s = Inr ((), u)"
          "seats_left ss (D - set (preorder ?t)) u" "out u = out s"
          "dynamic_memory_usage u = dynamic_memory_usage s - of_nat (5304 * length (preorder ?t)) + 40"
          "\<forall>j \<in> D - set (preorder ?t). nodes u (f ss j) = nodes s (f ss j)"
        using Suc.IH(1) [of s ?t D] 2(5,6,8,9,11) by (auto simp: drop)
      let ?D = "D - set (preorder ?t)"
      have "0 < length (preorder ?t)" by (cases ?t) simp
      moreover have "2 * length (preorder ?t) + 2 * length ?rest < Suc n" using 2(11) by (simp add: drop)
      ultimately have "2 * length ?rest < n" by linarith
      with 2(7-9) have rest: "set ?rest \<subseteq> ?D - {a}" "distinct ?rest" "2 * length ?rest < n" "a \<in> ?D"
        by (auto simp: drop)
      have "tree_at (nodes u) (rename (f ss) t) = tree_at (nodes s) (rename (f ss) t)" if "t \<in> set (drop (Suc i) ts)" for t
        using u(5) rest(1) that by (intro tree_at_cong) auto
      then have trees: "\<forall>t \<in> set (drop (Suc i) ts). tree_at (nodes u) (rename (f ss) t)" using 2(5) by (simp add: drop)
      have m: "nodes u (f ss a) = Some m" using u(5) rest(4) 2(1) by simp
      obtain v where v: "task_tree_free_from n (Ptr (f ss a)) (Suc i) u = Inr ((), v)"
          "seats_left ss (?D - set ?rest) v" "out v = out u"
          "dynamic_memory_usage v = dynamic_memory_usage u - of_nat (5304 * length ?rest) + of_nat (40 * (length ts - Suc i))"
          "\<forall>j \<in> ?D - set ?rest. nodes v (f ss j) = nodes u (f ss j)"
        using Suc.IH(2) [OF m 2(2-4) trees u(2) rest(4,1,2) _ rest(3)] True by auto
      have "length ts - i = Suc (length ts - Suc i)" using True by simp
      then have "dynamic_memory_usage v = dynamic_memory_usage s - of_nat (5304 * length (concat (map preorder (drop i ts))))
          + of_nat (40 * (length ts - i))"
        by (simp add: v(4) u(4) drop algebra_simps del: of_nat_mult)
      moreover have "?D - set ?rest = D - set (concat (map preorder (drop i ts)))" by (auto simp: drop)
      moreover have "task_tree_free_from (Suc n) (Ptr (f ss a)) i s = Inr ((), v)"
        using 2(1,2) True kid u(1) v(1) by (simp add: st_simps)
      ultimately show ?thesis using u(3,5) v(2,3,5) by auto
    qed
  }
qed

lemma halt_crew:
  assumes "crew_at ss x s"
  shows "\<exists>u. halt s = Inl (ExitSuccess, u) \<and> out u = out s @ [Printf ''Exit\<newline>'' []]
    \<and> dynamic_memory_usage u = dynamic_memory_usage s - of_nat (5304 * length (x_tasks x) + 51)"
proof -
  note c = assms [unfolded crew_at_def]
  let ?n = "length ss"
  obtain g where g: "cpu_port_bank s = Ptr g" "port_banks s g = Some host_bank" using c by (auto simp: has_bank_def)
  let ?s = "s\<lparr>out := out s @ [Printf ''Exit\<newline>'' []]\<rparr>"
  let ?t = "?s\<lparr>dynamic_memory_usage := dynamic_memory_usage s - 19, port_banks := (port_banks s)(g := None)\<rparr>"
  have bank: "port_bank_free (Ptr g) ?s = Inr ((), ?t)"
    using g by (simp add: port_bank_free_def st_simps host_bank_def sizeof_PortBank_def diff_diff_eq)
  have seat: "\<exists>k. seated s (ss ! i) k" "stacks_of s (ss ! i) (x_tasks x ! i)" "machine_of s (x_tasks x ! i)" if "i < ?n" for i
    using c that by blast+
  have size: "unat w = 1024 \<longleftrightarrow> w = 1024" "unat w = 4096 \<longleftrightarrow> w = 4096" for w :: u16
    by (simp_all add: word_unat_eq_iff)
  have "seated ?t p k = seated s p k" for p k by (simp add: seated_def)
  with seat(1) have "\<exists>k. seated ?t (ss ! i) k" if "i < ?n" for i using that by metis
  moreover have "(\<exists>k. stacks ?t (s_ops (ss ! i)) = Some k \<and> stk_size k = 1024)
      \<and> (\<exists>l. stacks ?t (s_calls (ss ! i)) = Some l \<and> stk_size l = 4096)" if "i < ?n" for i
    using seat(2,3) [OF that] unfolding stacks_of_def machine_of_def by (auto simp: word_unat_eq_iff)
  moreover have ok: "seats_ok ss" using c by blast
  ultimately have left: "seats_left ss {..<?n} ?t" unfolding seats_left_def by blast
  have t: "set (preorder (x_tree x)) = {..<?n}" "distinct (preorder (x_tree x))" "node_addr (x_tree x) = 0"
    using c by (simp_all add: tree_ok_def)
  then have len: "length (preorder (x_tree x)) = ?n" using distinct_card by fastforce
  have "s_node (ss ! i) < mallocs s" if "i < ?n" for i using seat(1) [OF that] by (auto simp: seated_def)
  then have "(\<lambda>i. s_node (ss ! i)) ` {..<?n} \<subseteq> {..<mallocs s}" by auto
  from card_mono [OF _ this] have "card ((\<lambda>i. s_node (ss ! i)) ` {..<?n}) \<le> mallocs s" by simp
  then have "?n \<le> mallocs s" using card_image [OF inj_on_nodes [OF ok]] by simp
  then have fuel: "2 * length (preorder (x_tree x)) \<le> tree_fuel ?t" unfolding tree_fuel_def len by simp
  have "tree_at (nodes ?t) (rename (\<lambda>i. s_node (ss ! i)) (x_tree x))" using c by simp
  from tree_free_crew(1) [OF this left _ t(2) fuel] obtain u where
    u: "task_tree_free (tree_fuel ?t) (Ptr (s_node (ss ! 0))) ?t = Inr ((), u)" "out u = out ?t"
      "dynamic_memory_usage u = dynamic_memory_usage ?t - of_nat (5304 * ?n) + 40"
    unfolding t(1,3) len by blast
  have "halt s = Inl (ExitSuccess, u\<lparr>dynamic_memory_usage := dynamic_memory_usage u - 72\<rparr>)"
    using c bank u(1) g(1) by (simp add: halt_def cpu_free_def st_simps sizeof_CPU_def)
  moreover have "?n = length (x_tasks x)" using c by simp
  ultimately show ?thesis using u(2,3) by (simp add: algebra_simps)
qed

section \<open>Instructions\<close>

lemma crew_pop:
  assumes "crew_at ss x s"
  shows "if length (v_ops (now_task x)) < 2
    then \<exists>t es. opstack_pop 2 (s\<lparr>cpu_tasks_number := n\<rparr>) = Inl (ExitFailure, t) \<and> out t = v_out (now_task x) @ es
    else \<exists>bs h. v_ops (now_task x) = bs @ rev (bytes_of_u16 h)
      \<and> a_pop_u16 (now_task x) = Inr (h, (now_task x)\<lparr>v_ops := bs\<rparr>)"
proof (cases "length (v_ops (now_task x)) < 2")
  case True
  let ?s = "s\<lparr>cpu_tasks_number := n\<rparr>" and ?p = "ss ! x_now x"
  note c = assms [unfolded crew_at_def]
  have "stacks_of s ?p (now_task x)" "machine_of s (now_task x)" using c by (auto simp: now_task_def)
  then have "rep ?s (now_task x) ?s"
    using c seats_okD(6) [of ss "x_now x" "x_now x"]
    by (intro rep_self [of ?s ?p]) (auto simp: stacks_of_def machine_of_def shared_of_def has_bank_def)
  from refinesD [OF refines_pop this, of 2 2] True show ?thesis by (simp add: agrees_def a_pop_def st_simps)
next
  case False
  let ?bs = "v_ops (now_task x)"
  let ?w = "rev (drop (length ?bs - 2) ?bs)"
  have w: "bytes_of_u16 (u16_of_bytes ?w) = ?w" by (rule bytes_of_u16_of_bytes) (use False in simp)
  have "a_pop_u16 (now_task x) = Inr (u16_of_bytes ?w, (now_task x)\<lparr>v_ops := take (length ?bs - 2) ?bs\<rparr>)"
    using False by (simp add: a_pop_u16_def a_pop_def st_simps)
  moreover have "?bs = take (length ?bs - 2) ?bs @ rev (bytes_of_u16 (u16_of_bytes ?w))" unfolding w by simp
  ultimately show ?thesis using False by auto
qed

lemma crew_create_task: "crew_refines (x_spawn address) (cpu_create_task address :: ('z cpu_scheme, unit) st)"
proof (rule crew_refinesI)
  fix ss x and s :: "'z cpu_scheme" assume c: "crew_at ss x s"
  then have n: "length ss = length (x_tasks x)" "length ss \<le> 5" "x_now x < length (x_tasks x)"
      "cpu_tasks_number s = of_nat (length ss - 1)" by (auto simp: crew_at_def)
  show "crew_agrees ss (x_spawn address x) (cpu_create_task address s)"
  proof (cases "length ss = 5")
    case True
    then have "cpu_tasks_number s = MAX_TASKS" using n(4) by (simp add: MAX_TASKS_def)
    with crew_refinesD [OF crew_on_now [OF refines_print] c] True n(1) show ?thesis
      by (simp add: x_spawn_def cpu_create_task_def st_simps)
  next
    case False
    define k where "k = length ss - 1"
    have "k < 4" "cpu_tasks_number s = of_nat k" using False n by (auto simp: k_def)
    then have "unat (cpu_tasks_number s) < 4" by (simp add: unat_of_nat)
    then have max: "cpu_tasks_number s \<noteq> MAX_TASKS" by (auto simp: MAX_TASKS_def)
    let ?s = "s\<lparr>cpu_tasks_number := cpu_tasks_number s + 1\<rparr>" and ?v = "now_task x"
    show ?thesis
    proof (cases "length (v_ops ?v) < 2")
      case True
      with crew_pop [OF c, of "cpu_tasks_number s + 1"] obtain t es where
        t: "opstack_pop 2 ?s = Inl (ExitFailure, t)" "out t = v_out ?v @ es" by auto
      have "cpu_create_task address s = Inl (ExitFailure, t)"
        using max t(1) by (simp add: cpu_create_task_def opstack_pop_def st_simps)
      moreover have "x_spawn address x = Inl (ExitFailure, put_now ?v x)"
        using False True n(1) by (simp add: x_spawn_def on_now_def a_pop_u16_def a_pop_def st_simps)
      ultimately show ?thesis using t(2) n(3) by (auto simp: crew_agrees_def)
    next
      case False
      with crew_pop [OF c] obtain bs h where
        h: "v_ops ?v = bs @ rev (bytes_of_u16 h)" "a_pop_u16 ?v = Inr (h, ?v\<lparr>v_ops := bs\<rparr>)" by auto
      let ?w = "?v\<lparr>v_ops := bs, v_memory := v_memory ?v + 5264\<rparr>"
      have "length ss < 5" using \<open>length ss \<noteq> 5\<close> n(2) by simp
      from crew_spawn [OF c this h(1) refl] obtain u p where
        u: "cpu_create_task address s = Inr ((), u)" "crew_at (ss @ [p]) (spawned_x address ?w x) u" by blast
      have "x_spawn address x = Inr ((), spawned_x address ?w x)"
        using \<open>length ss \<noteq> 5\<close> n(1,3) h(2)
        by (simp add: x_spawn_def on_now_def st_simps spawned_x_def put_now_def now_task_def)
      with u show ?thesis by (auto simp: crew_agrees_def)
    qed
  qed
qed

text \<open>One instruction that does not end the task, and a sequence of them.\<close>

lemma crew_execute: "crew_refines (x_exec b) (cpu_execute b :: ('z cpu_scheme, unit) st)"
proof (cases "opcode_of b")
  case None
  then show ?thesis by (simp add: x_exec_def cpu_execute_def crew_on_now refines_print)
next
  case (Some opc)
  show ?thesis
  proof (cases "opc = OP_ASYNC_CALL")
    case True
    have "refines s (bind a_fetch_u16 return) (bind (bind fetch_u16 the_init) return)" for s :: "'z cpu_scheme"
      by (rule refines_fetch_u16) (rule refines_return)
    then have "refines s a_fetch_u16 (bind fetch_u16 the_init)" for s :: "'z cpu_scheme" by simp
    with True Some show ?thesis
      by (simp add: x_exec_def cpu_execute_def execute_op_def async_call_def crew_bind crew_on_now crew_create_task)
  next
    case False
    with Some show ?thesis by (simp add: x_exec_def cpu_execute_def crew_on_now refines_exec)
  qed
qed

lemma crew_run: "crew_refines (x_run n) (run_cycles n :: ('z cpu_scheme, unit) st)"
proof (induction n)
  case (Suc n)
  have "refines s (bind (a_fetch 1) return) (bind (cpu_fetch_data 1) the_init)" for s :: "'z cpu_scheme"
    by (rule refines_fetch) (simp_all add: the_init_simps refines_return)
  then have "refines s (a_fetch 1) (bind (cpu_fetch_data 1) the_init)" for s :: "'z cpu_scheme" by simp
  then have fetch: "crew_refines (on_now (a_fetch 1)) (bind (cpu_fetch_data 1) the_init :: ('z cpu_scheme, u8 list) st)"
    by (rule crew_on_now)
  have rest: "crew_refines (bind (x_exec (w ! 0)) (\<lambda>_. x_run n))
      (bind (cpu_execute (w ! 0)) (\<lambda>_. if opcode_of (w ! 0) = Some OP_ASYNC_RETURN then return () else run_cycles n) :: ('z cpu_scheme, unit) st)" for w
  proof (cases "opcode_of (w ! 0) = Some OP_ASYNC_RETURN")
    case True
    have "a_exec OP_ASYNC_RETURN = give_up" by (simp add: a_exec_def a_alu_def alu_def)
    with True show ?thesis
      by (auto simp: crew_refines_def crew_agrees_def x_exec_def on_now_def st_simps)
  next
    case False
    then show ?thesis by (simp add: crew_bind crew_execute Suc.IH)
  qed
  have x: "x_run (Suc n) = bind (on_now (a_fetch 1)) (\<lambda>w. bind (x_exec (w ! 0)) (\<lambda>_. x_run n))"
    by (simp add: x_step_def seq_def bind_assoc)
  have c: "run_cycles (Suc n) = bind (bind (cpu_fetch_data 1) the_init) (\<lambda>w. bind (cpu_execute (w ! 0)) (\<lambda>_.
      if opcode_of (w ! 0) = Some OP_ASYNC_RETURN then return () else run_cycles n))"
    by (simp add: run_instruction_def seq_def bind_assoc Let_def)
  show ?case unfolding x c by (rule crew_bind [OF fetch rest])
qed (simp add: crew_return)

section \<open>Time slices\<close>

lemma crew_switch_to:
  assumes "crew_at ss x s" and "i < length ss"
  shows "\<exists>u y. cpu_run_cycle (Ptr (s_node (ss ! i))) s = run_cycles 255 u \<and> x_switch i x = Inr ((), y) \<and> crew_at ss y u"
proof -
  let ?p = "ss ! i" and ?j = "x_now x"
  let ?c = "ss ! ?j"
  note c = assms(1) [unfolded crew_at_def]
  have j: "?j < length ss" "length ss = length (x_tasks x)" and ok: "seats_ok ss" using c by simp_all
  obtain k where k: "seated s ?c k" using c by blast
  obtain l where l: "seated s ?p l" "i \<noteq> ?j \<longrightarrow> t_ip l = v_ip (x_tasks x ! i)" using c assms(2) by blast
  obtain q where q: "t_inbox l = Ptr (s_box ?p)" "queues s (s_box ?p) = Some q" "q_count q = 0"
    using l(1) by (auto simp: seated_def)
  have node: "node_task s (s_node ?p) (s_task ?p) l" using l(1) by (auto simp: seated_def node_task_iff)
  have run: "running s (s_node ?c) (s_task ?c) k"
    using c k by (auto simp: running_def seated_def node_task_iff)
  obtain z sv where z: "cpu_server s = Ptr z" "servers s z = Some sv" "env_accept s (accepts s) = WouldBlock"
    using c by (auto simp: quiet_def)

  define u where "u = switched (s_task ?c) k (s_node ?p) (s_task ?p) l (s\<lparr>accepts := Suc (accepts s)\<rparr>)"
  define y where "y = x\<lparr>x_tasks := (x_tasks x)[i := hand_over (now_task x) (x_tasks x ! i)], x_now := i\<rparr>"
  have slice: "cpu_run_cycle (Ptr (s_node ?p)) s = run_cycles 255 u"
    using quiet_slice [OF z run node q] by (simp add: u_def CONTEXT_MAX_CYCLES_def)
  have same: "s_task ?c = s_task ?p \<longleftrightarrow> ?j = i" by (rule seats_okD(2) [OF ok j(1) assms(2)])
  have kl: "k = l" if "?j = i" using that k l(1) by (simp add: seated_def)
  have fields: "nodes u = nodes s" "stacks u = stacks s" "queues u = queues s" "mallocs u = mallocs s"
    "cpu_opstack u = Ptr (s_ops ?p)" "cpu_stack u = Ptr (s_calls ?p)" "cpu_task_tree_current_node u = Ptr (s_node ?p)"
    "cpu_task_tree_root u = cpu_task_tree_root s" "cpu_message_queues u = cpu_message_queues s"
    "cpu_tasks_number u = cpu_tasks_number s" "nextId u = nextId s" "malloc_ok u = malloc_ok s"
    using l(1) by (simp_all add: u_def switched_def seated_def)
  have preds: "machine_of u w = machine_of s w" "shared_of u w = shared_of s w" "has_bank u = has_bank s" "quiet u = quiet s"
    "stacks_of u p w = stacks_of s p w" "inboxes u = inboxes s" for p w
    by (simp_all add: u_def switched_def machine_of_def shared_of_def has_bank_def quiet_def stacks_of_def inboxes_def fun_eq_iff)
  have tasks: "x_tasks y ! n = (if n = i then hand_over (now_task x) (x_tasks x ! i) else x_tasks x ! n)"
    if "n < length ss" for n using that j(2) by (simp add: y_def)
  have seat: "\<exists>k'. seated u (ss ! n) k' \<and> (n \<noteq> i \<longrightarrow> t_ip k' = v_ip (x_tasks y ! n))" if n: "n < length ss" for n
  proof -
    obtain k0 where k0: "seated s (ss ! n) k0" "n \<noteq> ?j \<longrightarrow> t_ip k0 = v_ip (x_tasks x ! n)" using c n by blast
    have eq: "s_task (ss ! n) = s_task ?c \<longleftrightarrow> n = ?j" "s_task (ss ! n) = s_task ?p \<longleftrightarrow> n = i"
      using seats_okD(2) [OF ok n] j(1) assms(2) by simp_all
    have "k0 = k" if "n = ?j" using that k k0(1) by (simp add: seated_def)
    moreover have "k0 = l" if "n = i" using that l(1) k0(1) by (simp add: seated_def)
    moreover have "cpu_ip s = v_ip (x_tasks x ! ?j)" using c by (simp add: now_task_def)
    ultimately show ?thesis
      using k0 eq same kl tasks [OF n] by (auto simp: seated_def fields u_def switched_def)
  qed
  have hand: "machine_of s (hand_over v w) = machine_of s w" "stacks_of s p (hand_over v w) = stacks_of s p w"
    "shared_of s (hand_over v w) = shared_of s v" for p v w
    by (simp_all add: hand_over_def machine_of_def stacks_of_def shared_of_def)
  have now: "now_task y = hand_over (now_task x) (x_tasks x ! i)" using assms(2) j(2) by (simp add: now_task_def y_def)
  have "cpu_ip s = v_ip (x_tasks x ! ?j)" using c by (simp add: now_task_def)
  then have "cpu_ip u = v_ip (x_tasks x ! i)" using same l(2) by (auto simp: u_def switched_def)
  then have ip: "cpu_ip u = v_ip (now_task y)" by (simp add: now hand_over_def)
  have each: "stacks_of u (ss ! n) (x_tasks y ! n) \<and> machine_of u (x_tasks y ! n)" if n: "n < length ss" for n
    using c n tasks [OF n] hand by (auto simp: preds)
  have "shared_of u (now_task y)" unfolding now preds hand using c by blast
  moreover have "x_now y = i" "length (x_tasks y) = length (x_tasks x)" "x_tree y = x_tree x" by (simp_all add: y_def)
  moreover have "malloc_ok u = (\<lambda>_. True)" "tree_ok (length ss) (x_tree x)" "has_bank u" "quiet u" "inboxes u (cpu_message_queues u) (map s_box ss)"
    using c unfolding preds fields by blast+
  ultimately have "crew_at ss y u"
    unfolding crew_at_def using c seat each ip assms(2) by (simp add: fields)
  moreover have "x_switch i x = Inr ((), y)" by (simp add: x_switch_def y_def st_simps)
  ultimately show ?thesis using slice by blast
qed

lemma crew_slice_agrees:
  assumes "crew_at ss x s" and "i < length ss"
  shows "crew_agrees ss (x_slice i x) (cpu_run_cycle (Ptr (s_node (ss ! i))) s)"
proof -
  obtain u y where "cpu_run_cycle (Ptr (s_node (ss ! i))) s = run_cycles 255 u" "x_switch i x = Inr ((), y)" "crew_at ss y u"
    using crew_switch_to [OF assms] by blast
  with crew_refinesD [OF crew_run, of ss y u 255] show ?thesis by (simp add: x_slice_def st_simps)
qed

section \<open>The traversal\<close>

text \<open>A subtree and what is around it: \<open>F t\<close> is the whole tree, \<open>ps\<close> the tasks before and \<open>qs\<close>
  those behind the tasks of \<open>t\<close>.\<close>

inductive around :: "(tree \<Rightarrow> tree) \<Rightarrow> nat list \<Rightarrow> nat list \<Rightarrow> bool" where
  top: "around (\<lambda>t. t) [] []"
| kid: "around F ps qs \<Longrightarrow> around (\<lambda>t. F (Node a (ts @ t # us)))
    (ps @ a # concat (map preorder ts)) (concat (map preorder us) @ qs)"

lemma around_preorder: "around F ps qs \<Longrightarrow> preorder (F t) = ps @ preorder t @ qs"
  by (induction arbitrary: t rule: around.induct) simp_all

lemma around_add_kid:
  "around F ps qs \<Longrightarrow> d \<notin> set (ps @ qs) \<Longrightarrow> add_kid d c (F t) = F (add_kid d c t)"
proof (induction arbitrary: t rule: around.induct)
  case (kid F ps qs a ts us)
  have "map (add_kid d c) ts = ts" "map (add_kid d c) us = us"
    using kid.prems by (auto intro!: map_idI add_kid_other)
  with kid show ?case by simp
qed simp

text \<open>What a slice does to the tree: the running task gets more children.\<close>

definition sprouts :: "crew_vm \<Rightarrow> crew_vm \<Rightarrow> bool" where
  "sprouts x y \<longleftrightarrow> x_now y = x_now x \<and> length (x_tasks x) \<le> length (x_tasks y)
     \<and> (\<exists>cs. (\<forall>c \<in> set cs. length (x_tasks x) \<le> c) \<and> x_tree y = fold (add_kid (x_now x)) cs (x_tree x))"

lemma sprouts_refl: "sprouts x x"
  unfolding sprouts_def by (auto intro: exI [of _ "[]"])

lemma sprouts_trans:
  assumes "sprouts x y" and "sprouts y z"
  shows "sprouts x z"
proof -
  obtain cs ds where "x_now y = x_now x" "length (x_tasks x) \<le> length (x_tasks y)"
      "\<forall>c \<in> set cs. length (x_tasks x) \<le> c" "x_tree y = fold (add_kid (x_now x)) cs (x_tree x)"
      "x_now z = x_now y" "length (x_tasks y) \<le> length (x_tasks z)"
      "\<forall>c \<in> set ds. length (x_tasks y) \<le> c" "x_tree z = fold (add_kid (x_now y)) ds (x_tree y)"
    using assms by (auto simp: sprouts_def)
  then show ?thesis unfolding sprouts_def by (intro conjI exI [of _ "cs @ ds"]) auto
qed

definition grows :: "'a xm \<Rightarrow> bool" where
  "grows m \<longleftrightarrow> (\<forall>x y r. m x = Inr (r, y) \<longrightarrow> sprouts x y)"

lemma grows_bind: "grows m \<Longrightarrow> (\<And>r. grows (f r)) \<Longrightarrow> grows (bind m f)"
  unfolding grows_def by (auto simp: st_simps split: sum.splits) (meson sprouts_trans)

lemma grows_gets: "grows (gets f)"
  by (simp add: grows_def st_simps sprouts_refl)

lemma grows_on_now: "grows (on_now m)"
  by (auto simp: grows_def on_now_def put_now_def sprouts_def split: sum.splits intro: exI [of _ "[]"])

lemma grows_run: "grows (x_run n)"
proof (induction n)
  case 0
  show ?case by (simp add: grows_def st_simps sprouts_refl)
next
  case (Suc n)
  have "grows (x_spawn address)" for address
    by (auto simp: grows_def x_spawn_def on_now_def put_now_def sprouts_def st_simps split: sum.splits if_splits
        intro: exI [of _ "[]"]) (auto intro: exI [of _ "[length xs]" for xs])
  then have "grows (x_exec b)" for b
    unfolding x_exec_def by (auto intro!: grows_bind grows_on_now split: option.split)
  with Suc show ?case unfolding x_run.simps x_step_def seq_def by (intro grows_bind grows_on_now)
qed

lemma sprouts_around:
  assumes "sprouts x y" and "x_tree x = F (Node (x_now x) ts)" and "around F ps qs"
    and "distinct (preorder (x_tree x))" and "x_now x < length (x_tasks x)"
  shows "\<exists>us. x_tree y = F (Node (x_now x) us)"
proof -
  let ?i = "x_now x"
  have "distinct (ps @ ?i # concat (map preorder ts) @ qs)"
    using assms(4) unfolding assms(2) around_preorder [OF assms(3)] by simp
  then have i: "?i \<notin> set (ps @ qs)" "?i \<notin> set (concat (map preorder ts))" by auto
  have "\<exists>us. fold (add_kid ?i) cs (F (Node ?i ts)) = F (Node ?i us)" if "\<forall>c \<in> set cs. length (x_tasks x) \<le> c" for cs
    using i(2) that
  proof (induction cs arbitrary: ts)
    case (Cons c cs)
    have "map (add_kid ?i c) ts = ts" using Cons.prems(1) by (auto intro!: map_idI add_kid_other)
    then have step: "add_kid ?i c (F (Node ?i ts)) = F (Node ?i (ts @ [Node c []]))"
      by (simp add: around_add_kid [OF assms(3) i(1)])
    have "c \<noteq> ?i" using Cons.prems(2) assms(5) by auto
    with Cons.IH [of "ts @ [Node c []]"] Cons.prems step show ?case by simp
  qed auto
  with assms(1,2) show ?thesis by (auto simp: sprouts_def)
qed

text \<open>One turn.\<close>

lemma slice_grows:
  assumes "x_slice i x = Inr ((), y)" and "x_tree x = F (Node i ts)" and "around F ps qs" and "crew_at ss x s"
  shows "\<exists>us. x_tree y = F (Node i us)"
proof -
  let ?x = "x\<lparr>x_tasks := (x_tasks x)[i := hand_over (now_task x) (x_tasks x ! i)], x_now := i\<rparr>"
  have t: "distinct (preorder (x_tree x))" "set (preorder (x_tree x)) = {..<length (x_tasks x)}"
    using assms(4) by (simp_all add: crew_at_def tree_ok_def)
  have "i \<in> set (preorder (x_tree x))" by (simp add: assms(2) around_preorder [OF assms(3)])
  then have "i < length (x_tasks x)" by (simp add: t(2))
  moreover have "x_run 255 ?x = Inr ((), y)" using assms(1) by (simp add: x_slice_def x_switch_def st_simps)
  then have "sprouts ?x y" using grows_run by (auto simp: grows_def)
  ultimately show ?thesis using sprouts_around [of ?x y F ts ps qs] assms(2,3) t(1) by simp
qed

lemma around_tree_at: "around F ps qs \<Longrightarrow> tree_at h (rename f (F t)) \<Longrightarrow> tree_at h (rename f t)"
proof (induction arbitrary: t rule: around.induct)
  case (kid F ps qs a ts us)
  from kid.IH [OF kid.prems] show ?case by simp
qed

lemma crew_agrees_seq:
  assumes "crew_agrees ss (A x) (C s)"
    and "\<And>y t new. A x = Inr ((), y) \<Longrightarrow> crew_at (ss @ new) y t \<Longrightarrow> crew_agrees (ss @ new) (B y) (D t)"
  shows "crew_agrees ss (seq A B x) (seq C D s)"
proof (cases "A x")
  case (Inl e)
  with assms(1) show ?thesis by (cases e) (auto simp: crew_agrees_def st_simps split: if_splits)
next
  case (Inr r)
  then obtain y where y: "A x = Inr ((), y)" by (cases r) simp
  with assms(1) obtain t new where "C s = Inr ((), t)" "crew_at (ss @ new) y t" by (auto simp: crew_agrees_def)
  with crew_agrees_later [OF assms(2) [OF y]] y show ?thesis by (simp add: st_simps)
qed

text \<open>The traversal from the node of a subtree, followed by \<open>K\<close>, against the turns from the
  position of this subtree in the order; and the traversal of the children behind those in \<open>ts\<close>.\<close>

definition dfs_turns :: "nat \<Rightarrow> ('z cpu_scheme, unit) st \<Rightarrow> bool" where
  "dfs_turns n K \<longleftrightarrow> (\<forall>ss x s t F ps qs. crew_at ss x s \<longrightarrow> x_tree x = F t \<longrightarrow> around F ps qs \<longrightarrow>
     2 * (5 - length ps) \<le> n \<longrightarrow>
     (\<forall>y u new t'. crew_at (ss @ new) y u \<longrightarrow> x_tree y = F t' \<longrightarrow> node_addr t' = node_addr t \<longrightarrow>
        crew_agrees (ss @ new) (x_turns [length ps + length (preorder t')..<5] y) (K u)) \<longrightarrow>
     crew_agrees ss (x_turns [length ps..<5] x)
       (seq (task_tree_traverse_dfs n (Ptr (s_node (ss ! node_addr t))) cpu_run_cycle) K s))"

definition children_turns :: "nat \<Rightarrow> ('z cpu_scheme, unit) st \<Rightarrow> bool" where
  "children_turns n K \<longleftrightarrow> (\<forall>ss x s F i ts us ps qs. crew_at ss x s \<longrightarrow> x_tree x = F (Node i (ts @ us)) \<longrightarrow> around F ps qs \<longrightarrow>
     2 * (4 - (length ps + length (concat (map preorder ts)))) < n \<longrightarrow>
     (\<forall>y u new ks. crew_at (ss @ new) y u \<longrightarrow> x_tree y = F (Node i ks) \<longrightarrow>
        crew_agrees (ss @ new) (x_turns [length ps + length (preorder (Node i ks))..<5] y) (K u)) \<longrightarrow>
     crew_agrees ss (x_turns [Suc (length ps + length (concat (map preorder ts)))..<5] x)
       (seq (traverse_children n (Ptr (s_node (ss ! i))) (length ts) cpu_run_cycle) K s))"

lemma dfs_turnsD:
  assumes "dfs_turns n K" and "crew_at ss x s" and "x_tree x = F t" and "around F ps qs" and "2 * (5 - length ps) \<le> n"
    and "\<And>y u new t'. crew_at (ss @ new) y u \<Longrightarrow> x_tree y = F t' \<Longrightarrow> node_addr t' = node_addr t \<Longrightarrow>
      crew_agrees (ss @ new) (x_turns [length ps + length (preorder t')..<5] y) (K u)"
  shows "crew_agrees ss (x_turns [length ps..<5] x)
    (seq (task_tree_traverse_dfs n (Ptr (s_node (ss ! node_addr t))) cpu_run_cycle) K s)"
  using assms unfolding dfs_turns_def by blast

lemma children_turnsD:
  assumes "children_turns n K" and "crew_at ss x s" and "x_tree x = F (Node i (ts @ us))" and "around F ps qs"
    and "2 * (4 - (length ps + length (concat (map preorder ts)))) < n"
    and "\<And>y u new ks. crew_at (ss @ new) y u \<Longrightarrow> x_tree y = F (Node i ks) \<Longrightarrow>
      crew_agrees (ss @ new) (x_turns [length ps + length (preorder (Node i ks))..<5] y) (K u)"
  shows "crew_agrees ss (x_turns [Suc (length ps + length (concat (map preorder ts)))..<5] x)
    (seq (traverse_children n (Ptr (s_node (ss ! i))) (length ts) cpu_run_cycle) K s)"
  using assms unfolding children_turns_def by blast

lemma crew_order:
  assumes "crew_at ss x s"
  shows "length (preorder (x_tree x)) \<le> 5" and "set (preorder (x_tree x)) = {..<length ss}"
  using assms distinct_card [of "preorder (x_tree x)"] by (auto simp: crew_at_def tree_ok_def)

lemma dfs_turns_step:
  fixes K :: "('z cpu_scheme, unit) st"
  assumes children: "\<And>K :: ('z cpu_scheme, unit) st. children_turns n K"
  shows "dfs_turns (Suc n) K"
  unfolding dfs_turns_def
proof (intro allI impI)
  fix ss x and s :: "'z cpu_scheme" and t F ps qs
  assume at: "crew_at ss x s" and F: "x_tree x = F t" and F': "around F ps qs" and fuel: "2 * (5 - length ps) \<le> Suc n"
    and K: "\<forall>y u new t'. crew_at (ss @ new) y u \<longrightarrow> x_tree y = F t' \<longrightarrow> node_addr t' = node_addr t \<longrightarrow>
      crew_agrees (ss @ new) (x_turns [length ps + length (preorder t')..<5] y) (K u)"
  obtain i ts where t: "t = Node i ts" by (cases t) auto
  have order: "preorder (x_tree x) = ps @ i # concat (map preorder ts) @ qs"
    unfolding F around_preorder [OF F'] t by simp
  have i: "length ps < 5" "i < length ss" using crew_order [OF at] unfolding order by auto
  have "x_turn (length ps) x = x_slice i x" by (simp add: x_turn_def st_simps order)
  moreover have "[length ps..<5] = length ps # [Suc (length ps)..<5]" using i(1) by (simp add: upt_conv_Cons)
  ultimately have turns: "x_turns [length ps..<5] x = seq (x_slice i) (x_turns [Suc (length ps)..<5]) x"
    by (simp add: seq_apply)
  have "crew_agrees ss (seq (x_slice i) (x_turns [Suc (length ps)..<5]) x)
      (seq (cpu_run_cycle (Ptr (s_node (ss ! i)))) (seq (traverse_children n (Ptr (s_node (ss ! i))) 0 cpu_run_cycle) K) s)"
  proof (rule crew_agrees_seq [where A = "x_slice i" and C = "cpu_run_cycle (Ptr (s_node (ss ! i)))"])
    show "crew_agrees ss (x_slice i x) (cpu_run_cycle (Ptr (s_node (ss ! i))) s)"
      by (rule crew_slice_agrees [OF at i(2)])
  next
    fix y new and u :: "'z cpu_scheme" assume y: "x_slice i x = Inr ((), y)" "crew_at (ss @ new) y u"
    obtain us where us: "x_tree y = F (Node i ([] @ us))" using slice_grows [OF y(1) F [unfolded t] F' at] by auto
    have "crew_agrees (ss @ new) (x_turns [Suc (length ps + length (concat (map preorder [])))..<5] y)
        (seq (traverse_children n (Ptr (s_node ((ss @ new) ! i))) (length ([] :: tree list)) cpu_run_cycle) K u)"
    proof (rule children_turnsD [OF children y(2) us F'])
      show "2 * (4 - (length ps + length (concat (map preorder [])))) < n" using fuel i(1) by simp
      fix z new' ks and v :: "'z cpu_scheme"
      assume "crew_at ((ss @ new) @ new') z v" "x_tree z = F (Node i ks)"
      with K [rule_format, of "new @ new'" z v "Node i ks"]
      show "crew_agrees ((ss @ new) @ new') (x_turns [length ps + length (preorder (Node i ks))..<5] z) (K v)"
        by (simp add: t)
    qed
    then show "crew_agrees (ss @ new) (x_turns [Suc (length ps)..<5] y)
        (seq (traverse_children n (Ptr (s_node (ss ! i))) 0 cpu_run_cycle) K u)" using i(2) by (simp add: nth_append)
  qed
  moreover have "task_tree_traverse_dfs (Suc n) (Ptr a) f = seq (f (Ptr a)) (traverse_children n (Ptr a) 0 f)" for a and f :: "ptr \<Rightarrow> ('z cpu_scheme, unit) st"
    by (rule ext) (simp add: st_simps)
  ultimately show "crew_agrees ss (x_turns [length ps..<5] x)
      (seq (task_tree_traverse_dfs (Suc n) (Ptr (s_node (ss ! node_addr t))) cpu_run_cycle) K s)"
    unfolding turns t tree.sel by (simp only: seq_assoc)
qed

text \<open>The traversal comes to the first child of \<open>us\<close>.\<close>

lemma traverse_next_child:
  fixes s :: "'z cpu_scheme"
  assumes "crew_at ss x s" and "x_tree x = F (Node i (ts @ us))" and "around F ps qs"
  shows "us = [] \<Longrightarrow> seq (traverse_children (Suc n) (Ptr (s_node (ss ! i))) (length ts) cpu_run_cycle) K s = K s"
    and "us = u # vs \<Longrightarrow> seq (traverse_children (Suc n) (Ptr (s_node (ss ! i))) (length ts) cpu_run_cycle) K s
      = seq (task_tree_traverse_dfs n (Ptr (s_node (ss ! node_addr u))) cpu_run_cycle)
          (seq (traverse_children n (Ptr (s_node (ss ! i))) (Suc (length ts)) cpu_run_cycle) K) s"
proof -
  let ?f = "\<lambda>i. s_node (ss ! i)"
  have "tree_at (nodes s) (rename ?f (x_tree x))" using assms(1) by (simp add: crew_at_def)
  then have "tree_at (nodes s) (rename ?f (Node i (ts @ us)))" unfolding assms(2) by (rule around_tree_at [OF assms(3)])
  then obtain m where m: "nodes s (?f i) = Some m" "unat (childCount m) = length (ts @ us)"
      "length (ts @ us) \<le> length (children m)"
      "take (length (ts @ us)) (children m) = map (\<lambda>t. Ptr (?f (node_addr t))) (ts @ us)"
    by (auto simp: comp_def split: option.splits)
  show "us = [] \<Longrightarrow> seq (traverse_children (Suc n) (Ptr (?f i)) (length ts) cpu_run_cycle) K s = K s"
    using m(1,2) by (simp add: st_simps)
  assume us: "us = u # vs"
  have "children m ! length ts = take (length (ts @ us)) (children m) ! length ts" by (simp add: us)
  also have "\<dots> = Ptr (?f (node_addr u))" unfolding m(4) by (simp add: us nth_append)
  finally have "nth_opt (children m) (length ts) = Some (Ptr (?f (node_addr u)))"
    using m(3) us by (simp add: nth_opt_def)
  with m(1,2) us show "seq (traverse_children (Suc n) (Ptr (?f i)) (length ts) cpu_run_cycle) K s
      = seq (task_tree_traverse_dfs n (Ptr (?f (node_addr u))) cpu_run_cycle)
          (seq (traverse_children n (Ptr (?f i)) (Suc (length ts)) cpu_run_cycle) K) s"
    by (simp add: st_simps split: sum.split)
qed

lemma children_turns_step:
  fixes K :: "('z cpu_scheme, unit) st"
  assumes dfs: "\<And>K :: ('z cpu_scheme, unit) st. dfs_turns n K"
    and children: "\<And>K :: ('z cpu_scheme, unit) st. children_turns n K"
  shows "children_turns (Suc n) K"
  unfolding children_turns_def
proof (intro allI impI)
  fix ss x and s :: "'z cpu_scheme" and F i ts us ps qs
  assume at: "crew_at ss x s" and F: "x_tree x = F (Node i (ts @ us))" and F': "around F ps qs"
    and fuel: "2 * (4 - (length ps + length (concat (map preorder ts)))) < Suc n"
    and K: "\<forall>y u new ks. crew_at (ss @ new) y u \<longrightarrow> x_tree y = F (Node i ks) \<longrightarrow>
      crew_agrees (ss @ new) (x_turns [length ps + length (preorder (Node i ks))..<5] y) (K u)"
  let ?k = "length ps + length (concat (map preorder ts))"
  have order: "preorder (x_tree x) = ps @ i # concat (map preorder ts) @ concat (map preorder us) @ qs"
    unfolding F around_preorder [OF F'] by simp
  have i: "?k + length (concat (map preorder us)) < 5" "i < length ss" using crew_order [OF at] unfolding order by auto
  show "crew_agrees ss (x_turns [Suc ?k..<5] x)
      (seq (traverse_children (Suc n) (Ptr (s_node (ss ! i))) (length ts) cpu_run_cycle) K s)"
  proof (cases us)
    case Nil
    have "crew_agrees ss (x_turns [Suc ?k..<5] x) (K s)" using K [rule_format, of "[]" x s ts] at F Nil by simp
    then show ?thesis unfolding traverse_next_child(1) [OF at F F' Nil] .
  next
    case (Cons u vs)
    let ?G = "\<lambda>t. F (Node i (ts @ t # vs))" and ?ps = "ps @ i # concat (map preorder ts)"
    let ?rest = "seq (traverse_children n (Ptr (s_node (ss ! i))) (Suc (length ts)) cpu_run_cycle) K"
    have pos: "0 < length (preorder t)" for t by (cases t) simp
    have "?k + length (preorder u) < 5" using i(1) Cons by simp
    then have k: "?k < 4" using pos [of u] by linarith
    have G: "x_tree x = ?G u" using F Cons by simp
    have "crew_agrees ss (x_turns [length ?ps..<5] x)
        (seq (task_tree_traverse_dfs n (Ptr (s_node (ss ! node_addr u))) cpu_run_cycle) ?rest s)"
    proof (rule dfs_turnsD [OF dfs at G around.kid [OF F']])
      show "2 * (5 - length ?ps) \<le> n" using fuel k by simp
      fix y new t' and w :: "'z cpu_scheme" assume y: "crew_at (ss @ new) y w" "x_tree y = ?G t'" "node_addr t' = node_addr u"
      have G': "x_tree y = F (Node i ((ts @ [t']) @ vs))" using y(2) by simp
      have "2 * (4 - (?k + length (preorder t'))) < n" using k pos [of t'] fuel by linarith
      then have small: "2 * (4 - (length ps + length (concat (map preorder (ts @ [t']))))) < n" by (simp add: add.assoc)
      have "crew_agrees (ss @ new) (x_turns [Suc (length ps + length (concat (map preorder (ts @ [t']))))..<5] y)
          (seq (traverse_children n (Ptr (s_node ((ss @ new) ! i))) (length (ts @ [t'])) cpu_run_cycle) K w)"
      proof (rule children_turnsD [OF children y(1) G' F' small])
        fix z new' ks and v :: "'z cpu_scheme"
        assume "crew_at ((ss @ new) @ new') z v" "x_tree z = F (Node i ks)"
        with K [rule_format, of "new @ new'" z v ks]
        show "crew_agrees ((ss @ new) @ new') (x_turns [length ps + length (preorder (Node i ks))..<5] z) (K v)" by simp
      qed
      then show "crew_agrees (ss @ new) (x_turns [length ?ps + length (preorder t')..<5] y) (?rest w)"
        using i(2) by (simp add: nth_append add.assoc)
    qed
    then show ?thesis unfolding traverse_next_child(2) [OF at F F' Cons] by simp
  qed
qed

lemma traversal_turns: "dfs_turns n (K :: ('z cpu_scheme, unit) st)" "children_turns n K"
proof -
  have "(\<forall>K :: ('z cpu_scheme, unit) st. dfs_turns n K) \<and> (\<forall>K :: ('z cpu_scheme, unit) st. children_turns n K)"
  proof (induction n)
    case 0
    have "length ps < 5" if "crew_at ss x s" "x_tree x = F t" "around F ps qs" for ss x t F ps qs and s :: "'z cpu_scheme"
      using crew_order(1) [OF that(1)] unfolding that(2) around_preorder [OF that(3)] by (cases t) simp
    then show ?case by (fastforce simp: dfs_turns_def children_turns_def)
  next
    case (Suc n)
    then show ?case by (simp add: dfs_turns_step children_turns_step)
  qed
  then show "dfs_turns n K" "children_turns n K" by simp_all
qed

section \<open>Rounds\<close>

lemma x_turns_done: "length (preorder (x_tree x)) \<le> k \<Longrightarrow> x_turns [k..<n] x = Inr ((), x)"
proof (induction "n - k" arbitrary: k)
  case (Suc m)
  then have "[k..<n] = k # [Suc k..<n]" by (simp add: upt_conv_Cons)
  with Suc show ?case by (simp add: x_turn_def st_simps)
qed (simp add: st_simps)

lemma crew_refines_round:
  assumes "10 \<le> fuel"
  shows "crew_refines x_round (cpu_round fuel :: ('z cpu_scheme, unit) st)"
proof (rule crew_refinesI)
  fix ss x and s :: "'z cpu_scheme" assume c: "crew_at ss x s"
  have "crew_agrees ss (x_turns [length ([] :: nat list)..<5] x)
      (seq (task_tree_traverse_dfs fuel (Ptr (s_node (ss ! node_addr (x_tree x)))) cpu_run_cycle) (return ()) s)"
  proof (rule dfs_turnsD [OF traversal_turns(1) c refl around.top])
    show "2 * (5 - length ([] :: nat list)) \<le> fuel" using assms by simp
    fix y new t and u :: "'z cpu_scheme" assume "crew_at (ss @ new) y u" "x_tree y = t"
    then show "crew_agrees (ss @ new) (x_turns [length ([] :: nat list) + length (preorder t)..<5] y) (return () u)"
      by (auto simp: x_turns_done st_simps crew_agrees_def intro: exI [of _ "[]"])
  qed
  moreover have "node_addr (x_tree x) = 0" "cpu_task_tree_root s = Ptr (s_node (ss ! 0))"
    using c by (simp_all add: crew_at_def tree_ok_def)
  moreover have "seq m (return ()) = m" for m :: "('z cpu_scheme, unit) st"
    by (rule ext) (simp add: st_simps split: sum.splits)
  ultimately show "crew_agrees ss (x_round x) (cpu_round fuel s)"
    by (simp add: x_round_def cpu_round_def st_simps)
qed

lemma crew_refines_rounds:
  "10 \<le> fuel \<Longrightarrow> crew_refines (x_rounds n) (cpu_run fuel n :: ('z cpu_scheme, unit) st)"
  by (induction n) (simp_all add: crew_return crew_seq crew_refines_round)

section \<open>From the start\<close>

definition x_start :: "u8 list \<Rightarrow> u16 \<Rightarrow> 'z cpu_scheme \<Rightarrow> crew_vm" where
  "x_start prog d s = \<lparr>x_tasks = [a_start prog d s], x_tree = Node 0 [], x_now = 0\<rparr>"

definition main_seat :: "nat \<Rightarrow> seat" where
  "main_seat m = \<lparr>s_node = m + 9, s_task = m + 4, s_ops = m + 5, s_calls = m + 7, s_box = m + 10\<rparr>"

lemma fresh_crew:
  assumes "fresh_machine m prog n d u" and "length prog = unat n" and "power_on s" and "untouched s u"
    and "out u = out s @ [Printf ''Starting VM\<newline>'' []]" and "quiet u"
    and "dynamic_memory_usage u = dynamic_memory_usage s + 5404"
  shows "crew_at [main_seat m] (x_start prog d s) u"
proof -
  note u = assms(1) [unfolded fresh_machine_def]
  have "seated u (main_seat m) ((main_task m)\<lparr>t_active := 1\<rparr>)"
    using u by (simp add: seated_def main_seat_def main_task_def main_inbox_def new_node_def roomy_def node_ok_def)
  moreover have "stacks_of u (main_seat m) (a_start prog d s)"
    using u by (simp add: stacks_of_def main_seat_def a_start_def calls_at_def image_of_def empty_stack_def
        stack_ok_def stack_wf_def contents_def)
  moreover have "machine_of u (a_start prog d s)" "shared_of u (a_start prog d s)"
    using u assms(2,4,5,7) by (simp_all add: machine_of_def shared_of_def a_start_def untouched_def)
  moreover have "seats_ok [main_seat m]" "tree_ok 1 (Node 0 [])"
    by (auto simp: seats_ok_def main_seat_def tree_ok_def)
  moreover have "tree_at (nodes u) (rename (\<lambda>i. s_node ([main_seat m] ! i)) (Node 0 []))"
    using u by (simp add: main_seat_def new_node_def)
  moreover have "inboxes u (Ptr (m + 10)) [m + 10]" using u by (simp add: inboxes_def main_inbox_def)
  moreover have "malloc_ok u = (\<lambda>_. True)" using assms(3,4) by (simp add: power_on_def untouched_def fun_eq_iff)
  moreover have "s_node (main_seat m) = m + 9" "s_ops (main_seat m) = m + 5" "s_calls (main_seat m) = m + 7"
    "s_box (main_seat m) = m + 10" by (simp_all add: main_seat_def)
  moreover have "v_ip (a_start prog d s) = 0" by (simp add: a_start_def)
  ultimately show ?thesis
    using u assms(6) by (auto simp: crew_at_def x_start_def now_task_def simp del: tree_at.simps rename.simps)
qed

lemma main_crew:
  fixes s :: cpu
  assumes "length prog = unat n" and "power_on s" and "network_up s" and "env_accept s = (\<lambda>_. WouldBlock)"
    and "10 \<le> fuel"
  shows "crew_agrees [main_seat (mallocs s)] (x_rounds (Suc rounds) (x_start prog d s))
    (vm_main prog n d fuel (Suc rounds) s)"
proof -
  let ?m = "mallocs s" and ?x = "x_start prog d s"
  let ?ss = "[main_seat ?m]"
  obtain t u where boot: "boot prog n d s = Inr ((), t)"
      "cpu_run_cycle (Ptr (?m + 9)) t = run_cycles (unat CONTEXT_MAX_CYCLES) u"
      "fresh_machine ?m prog n d u" "cpu_task_tree_root t = Ptr (?m + 9)"
      "dynamic_memory_usage u = dynamic_memory_usage s + 5404" "cpu_server u = Ptr (?m + 3)" "servers u (?m + 3) \<noteq> None"
      "env_accept u = env_accept s" "untouched s u" "out u = out s @ [Printf ''Starting VM\<newline>'' []]"
    using boot_slice [OF assms(2,3), of prog n d] assms(4) by auto
  have "quiet u" using boot(6-8) assms(4) by (auto simp: quiet_def)
  from fresh_crew [OF boot(3) assms(1,2) boot(9,10) this boot(5)] have c: "crew_at ?ss ?x u" .
  obtain k where fuel: "fuel = Suc k" "9 \<le> k" using assms(5) by (cases fuel) auto
  have root: "Ptr (?m + 9) = Ptr (s_node (?ss ! 0))" by (simp add: main_seat_def)
  have slice: "cpu_run_cycle (Ptr (?m + 9)) t = run_cycles 255 u" using boot(2) by (simp add: CONTEXT_MAX_CYCLES_def)
  let ?children = "\<lambda>ss. traverse_children k (Ptr (s_node (ss ! 0))) 0 cpu_run_cycle"
  have rest: "crew_agrees (?ss @ new) (seq (x_turns [1..<5]) (x_rounds rounds) y) (seq (?children ?ss) (cpu_run fuel rounds) w)"
    if y: "x_run 255 ?x = Inr ((), y)" "crew_at (?ss @ new) y w" for y new and w :: cpu
  proof (rule crew_agrees_seq [where A = "x_turns [1..<5]" and C = "?children ?ss"])
    have "sprouts ?x y" using grows_run y(1) by (auto simp: grows_def)
    from sprouts_around [OF this _ around.top, of "[]"] obtain us where us: "x_tree y = Node 0 ([] @ us)"
      by (auto simp: x_start_def)
    have "crew_agrees (?ss @ new) (x_turns [Suc (length ([] :: nat list) + length (concat (map preorder [])))..<5] y)
        (seq (traverse_children k (Ptr (s_node ((?ss @ new) ! 0))) (length ([] :: tree list)) cpu_run_cycle) (return ()) w)"
    proof (rule children_turnsD [OF traversal_turns(2) y(2) us around.top])
      show "2 * (4 - (length ([] :: nat list) + length (concat (map preorder [])))) < k" using fuel(2) by simp
      fix z new' ks and v :: cpu assume "crew_at ((?ss @ new) @ new') z v" "x_tree z = Node 0 ks"
      then show "crew_agrees ((?ss @ new) @ new') (x_turns [length ([] :: nat list) + length (preorder (Node 0 ks))..<5] z) (return () v)"
        by (auto simp: x_turns_done st_simps crew_agrees_def intro: exI [of _ "[]"])
    qed
    moreover have "seq m (return ()) = m" for m :: "(cpu, unit) st"
      by (rule ext) (simp add: st_simps split: sum.splits)
    ultimately show "crew_agrees (?ss @ new) (x_turns [1..<5] y) (?children ?ss w)" by simp
  qed (rule crew_refinesD [OF crew_refines_rounds [OF assms(5)]])
  have "crew_agrees ?ss (seq (x_run 255) (seq (x_turns [1..<5]) (x_rounds rounds)) ?x)
      (seq (run_cycles 255) (seq (?children ?ss) (cpu_run fuel rounds)) u)"
    by (rule crew_agrees_seq [where A = "x_run 255" and C = "run_cycles 255", OF crew_refinesD [OF crew_run c] rest])
  moreover have "x_turn 0 ?x = x_run 255 ?x"
  proof -
    have "hand_over v v = v" for v by (simp add: hand_over_def)
    then show ?thesis by (simp add: x_turn_def x_slice_def x_switch_def x_start_def now_task_def st_simps)
  qed
  then have "x_rounds (Suc rounds) ?x = seq (x_run 255) (seq (x_turns [1..<5]) (x_rounds rounds)) ?x"
    by (simp add: x_round_def upt_conv_Cons st_simps split: sum.splits del: x_run.simps)
  moreover have "vm_main prog n d fuel (Suc rounds) s = seq (run_cycles 255) (seq (?children ?ss) (cpu_run fuel rounds)) u"
    using boot(1,4) slice root
    by (simp add: vm_main_boot cpu_round_def st_simps fuel(1) split: sum.split del: run_cycles.simps)
  ultimately show ?thesis by simp
qed

end
