(* ===== verification/Crew_Run.thy ===== *)
theory Crew_Run
  imports Crew_Spec
begin

text \<open>
  Runs of the abstract machine with several tasks: what it does to the memory counter, how
  results about single tasks carry over, the property that the whole machine implements it,
  and a program that creates a task.
\<close>

lemma put_now_again: "put_now u (put_now v x) = put_now u x" "(put_now v x)\<lparr>x_tasks := vs\<rparr> = x\<lparr>x_tasks := vs\<rparr>"
  by (simp_all add: put_now_def)

section \<open>The memory counter\<close>

text \<open>Nothing a task does but the creation of another changes the counter.\<close>

abbreviation memory_is :: "u16 \<Rightarrow> vm \<Rightarrow> bool" where
  "memory_is m v \<equiv> v_memory v = m"

lemma keeps_memory_basic:
  "keeps (memory_is m) (a_pop n)" "keeps (memory_is m) (a_push w)" "keeps (memory_is m) (a_top n)"
  "keeps (memory_is m) (a_emit e)" "keeps (memory_is m) (a_goto i)" "keeps (memory_is m) (a_fetch n)"
  "keeps (memory_is m) (a_call i)" "keeps (memory_is m) a_return" "keeps (memory_is m) (a_alloc i)"
  "keeps (memory_is m) (a_read i j)" "keeps (memory_is m) (a_write w i)" "keeps (memory_is m) (a_data i)"
  "keeps (memory_is m) a_millis"
  by (auto simp: keeps_def st_simps in_bounds_def a_pop_def a_push_def a_top_def a_emit_def a_goto_def a_fetch_def a_call_def a_return_def
      a_alloc_def a_read_def a_write_def a_data_def a_millis_def Let_def split: sum.splits list.splits option.splits if_splits)

lemma keeps_memory_words:
  "keeps (memory_is m) a_pop_u16" "keeps (memory_is m) (a_push_u16 w)" "keeps (memory_is m) a_pop_f32"
  "keeps (memory_is m) (a_push_f32 y)""keeps (memory_is m) a_fetch_u16" "keeps (memory_is m) (a_cell i)"
  unfolding a_pop_u16_def a_push_u16_def a_pop_f32_def a_push_f32_def a_fetch_u16_def a_cell_def
  by (intro keeps_intros keeps_memory_basic)+

lemmas keeps_memory = keeps_intros keeps_memory_basic keeps_memory_words

lemma keeps_memory_format: "keeps (memory_is m) (a_format bs)"
proof (induction bs rule: a_format.induct)
  case (2 c cs)
  consider "c = 0" | "c = 37" "cs = []" | d ds where "c = 37" "cs = d # ds" | "c \<noteq> 0" "c \<noteq> 37"
    by (cases cs) auto
  then show ?case
  proof cases
    case (3 d ds)
    have "keeps (memory_is m) (a_conversion d)" unfolding a_conversion_def by (intro keeps_memory)
    with 3 2 show ?thesis by (simp add: keeps_seq)
  next
    case 4
    with 2 show ?thesis by (simp add: keeps_seq keeps_memory_basic)
  qed (simp_all add: keeps_memory)
qed (simp add: keeps_intros)

lemma keeps_memory_exec: "keeps (memory_is m) (a_exec opc)"
proof -
  have alu: "keeps (memory_is m) (a_alu opc)" for opc
    unfolding a_alu_def by (auto intro!: keeps_memory split: sum.split)
  have flt: "keeps (memory_is m) (a_float f)" for f unfolding a_float_def by (intro keeps_memory)
  have sys: "keeps (memory_is m) (a_syscall f)" for f unfolding a_syscall_def by (intro keeps_memory keeps_memory_format)
  show ?thesis by (cases opc) (auto simp: a_exec_def intro!: alu flt sys keeps_memory keeps_modify)
qed

definition accounts :: "u16 \<Rightarrow> crew_vm \<Rightarrow> bool" where
  "accounts m x \<longleftrightarrow> x_now x < length (x_tasks x) \<and> set (preorder (x_tree x)) \<subseteq> {..<length (x_tasks x)}
     \<and> v_memory (now_task x) = m + 5264 * of_nat (length (x_tasks x))"

lemma accounts_on_now:
  assumes "\<And>k. keeps (memory_is k) A"
  shows "keeps (accounts m) (on_now A)"
proof (rule keepsI)
  fix x assume x: "accounts m x"
  have put: "accounts m (put_now v x)" if "v_memory v = v_memory (now_task x)" for v
    using x that by (simp add: accounts_def)
  from assms [of "v_memory (now_task x)"] have "case A (now_task x) of Inl (w, v) \<Rightarrow> v_memory v = v_memory (now_task x)
      | Inr (r, v) \<Rightarrow> v_memory v = v_memory (now_task x)"
    unfolding keeps_def by blast
  with put show "case on_now A x of Inl (w, t) \<Rightarrow> accounts m t | Inr (r, t) \<Rightarrow> accounts m t"
    by (auto simp: on_now_def split: sum.splits)
qed

lemma accounts_spawn: "keeps (accounts m) (x_spawn address)"
proof (rule keepsI)
  fix x assume x: "accounts m x"
  have simple: "keeps (accounts m) (on_now (a_emit e))" "keeps (accounts m) (on_now a_pop_u16)" for e
    by (intro accounts_on_now keeps_memory)+
  have add: "accounts m (y\<lparr>x_tasks := x_tasks (put_now v y) @ [new_vm address v],
      x_tree := add_kid (x_now y) (length (x_tasks y)) (x_tree y)\<rparr>)"
    if "accounts m y" "v = (now_task y)\<lparr>v_memory := v_memory (now_task y) + 5264\<rparr>" for y v
  proof -
    have "set (preorder (add_kid (x_now y) (length (x_tasks y)) (x_tree y))) \<subseteq> {..<Suc (length (x_tasks y))}"
      using that(1) by (auto simp: accounts_def set_preorder_add_kid)
    with that show ?thesis by (simp add: accounts_def now_task_def put_now_def nth_append algebra_simps)
  qed
  show "case x_spawn address x of Inl (w, t) \<Rightarrow> accounts m t | Inr (r, t) \<Rightarrow> accounts m t"
  proof (cases "length (x_tasks x) = 5")
    case True
    with x simple(1) show ?thesis by (auto simp: x_spawn_def st_simps keeps_def)
  next
    case False
    from simple(2) x have "case on_now a_pop_u16 x of Inl (w, t) \<Rightarrow> accounts m t | Inr (r, t) \<Rightarrow> accounts m t"
      by (simp add: keeps_def)
    moreover have "x_spawn address x = Inr ((), y\<lparr>x_tasks := x_tasks (put_now v y) @ [new_vm address v],
        x_tree := add_kid (x_now y) (length (x_tasks y)) (x_tree y)\<rparr>)"
      if "on_now a_pop_u16 x = Inr (h, y)" "accounts m y" "v = (now_task y)\<lparr>v_memory := v_memory (now_task y) + 5264\<rparr>" for h y v
    proof -
      have "length (x_tasks y) = length (x_tasks x)" "x_now y < length (x_tasks y)"
        using that(1,2) by (auto simp: on_now_def accounts_def split: sum.splits)
      with False that(1,3) show ?thesis
        by (simp add: x_spawn_def st_simps on_now_def [of "modify f" for f] put_now_again)
    qed
    ultimately show ?thesis
      using False add
      by (cases "on_now a_pop_u16 x") (auto simp: x_spawn_def st_simps)
  qed
qed

lemma accounts_run: "keeps (accounts m) (x_run n)"
proof (induction n)
  case (Suc n)
  have "keeps (accounts m) (x_exec b)" for b
    unfolding x_exec_def
    by (auto intro!: keeps_intros accounts_on_now accounts_spawn keeps_memory keeps_memory_exec split: option.split)
  then have "keeps (accounts m) x_step"
    unfolding x_step_def by (intro keeps_intros accounts_on_now keeps_memory)
  with Suc show ?case by (simp add: keeps_seq)
qed (simp add: keeps_intros)

lemma accounts_turns: "keeps (accounts m) (x_turns ks)"
proof (induction ks)
  case (Cons k ks)
  have "keeps (accounts m) (x_turn k)"
  proof (rule keepsI)
    fix x assume x: "accounts m x"
    let ?i = "preorder (x_tree x) ! k"
    let ?x = "x\<lparr>x_tasks := (x_tasks x)[?i := hand_over (now_task x) (x_tasks x ! ?i)], x_now := ?i\<rparr>"
    show "case x_turn k x of Inl (w, t) \<Rightarrow> accounts m t | Inr (r, t) \<Rightarrow> accounts m t"
    proof (cases "k < length (preorder (x_tree x))")
      case True
      then have "?i \<in> set (preorder (x_tree x))" by simp
      with x have "accounts m ?x" by (auto simp: accounts_def now_task_def hand_over_def)
      with accounts_run [of m 255] True show ?thesis
        by (simp add: x_turn_def x_slice_def x_switch_def st_simps keeps_def)
    qed (use x in \<open>simp add: x_turn_def st_simps\<close>)
  qed
  with Cons show ?case by (simp add: keeps_seq)
qed (simp add: keeps_intros)

lemma accounts_rounds: "keeps (accounts m) (x_rounds n)"
  by (induction n) (simp_all add: keeps_intros x_round_def accounts_turns)

lemma accounts_start: "accounts (dynamic_memory_usage s + 140) (x_start prog d s)"
  by (simp add: accounts_def x_start_def now_task_def a_start_def)

section \<open>Single tasks\<close>

text \<open>What a task does alone it does among others.\<close>

lemma x_step_now:
  assumes "x_now x < length (x_tasks x)"
  shows "a_step (now_task x) = Inr ((), w) \<Longrightarrow> x_step x = Inr ((), put_now w x)"
    and "a_step (now_task x) = Inl (e, w) \<Longrightarrow> e \<noteq> OutOfFuel \<Longrightarrow> x_step x = Inl (e, put_now w x)"
proof -
  have exec: "x_exec b (put_now v x) = (case (case opcode_of b of
        None \<Rightarrow> a_emit (Printf ''unknown opcode %d\<newline>'' [AInt (uint b)]) | Some opc \<Rightarrow> a_exec opc) v of
      Inl (e, w) \<Rightarrow> Inl (e, put_now w x) | Inr (r, w) \<Rightarrow> Inr (r, put_now w x))"
    if "opcode_of b \<noteq> Some OP_ASYNC_CALL" for b v
    using that assms by (auto simp: x_exec_def on_now_def put_now_again split: option.split sum.split)
  have gives_up: "a_exec OP_ASYNC_CALL v = Inl (OutOfFuel, v)" for v
    by (simp add: a_exec_def a_alu_def alu_def st_simps)
  note steps = x_step_def a_step_def on_now_def [of "a_fetch (Suc 0)"] st_simps
  show "x_step x = Inr ((), put_now w x)" if run: "a_step (now_task x) = Inr ((), w)"
  proof -
    obtain b v where b: "a_fetch 1 (now_task x) = Inr (b, v)"
      using run by (cases "a_fetch 1 (now_task x)") (auto simp: steps)
    then have "opcode_of (b ! 0) \<noteq> Some OP_ASYNC_CALL" using run by (auto simp: steps gives_up)
    with run exec b show ?thesis by (simp add: steps)
  qed
  show "x_step x = Inl (e, put_now w x)" if run: "a_step (now_task x) = Inl (e, w)" "e \<noteq> OutOfFuel"
  proof (cases "a_fetch 1 (now_task x)")
    case (Inl r)
    with run show ?thesis by (simp add: steps)
  next
    case (Inr r)
    then obtain b v where b: "a_fetch 1 (now_task x) = Inr (b, v)" by (cases r) simp
    then have "opcode_of (b ! 0) \<noteq> Some OP_ASYNC_CALL" using run by (auto simp: steps gives_up)
    with run exec b show ?thesis by (simp add: steps)
  qed
qed

lemma x_run_now:
  "x_now x < length (x_tasks x) \<Longrightarrow> a_run n (now_task x) = Inr ((), w) \<Longrightarrow> x_run n x = Inr ((), put_now w x)"
  "x_now x < length (x_tasks x) \<Longrightarrow> a_run n (now_task x) = Inl (e, w) \<Longrightarrow> e \<noteq> OutOfFuel \<Longrightarrow>
     x_run n x = Inl (e, put_now w x)"
proof (induction n arbitrary: x)
  case (Suc n)
  { case 1
    then obtain v where v: "a_step (now_task x) = Inr ((), v)" "a_run n v = Inr ((), w)"
      by (auto simp: st_simps split: sum.splits)
    from x_step_now(1) [OF 1(1) v(1)] Suc.IH(1) [of "put_now v x"] 1(1) v(2)
    show ?case by (simp add: st_simps put_now_again)
  next
    case 2
    then consider "a_step (now_task x) = Inl (e, w)"
      | v where "a_step (now_task x) = Inr ((), v)" "a_run n v = Inl (e, w)"
      by (auto simp: st_simps split: sum.splits)
    then show ?case
    proof cases
      case 1
      from x_step_now(2) [OF 2(1) this 2(3)] show ?thesis by (simp add: st_simps)
    next
      case (2 v)
      from x_step_now(1) [OF \<open>x_now x < length (x_tasks x)\<close> 2(1)] Suc.IH(2) [of "put_now v x"] 2(2)
        \<open>x_now x < length (x_tasks x)\<close> \<open>e \<noteq> OutOfFuel\<close>
      show ?thesis by (simp add: st_simps put_now_again)
    qed }
qed (auto simp: st_simps)

lemma x_run_add: "x_run (m + n) = seq (x_run m) (x_run n)"
  by (induction m) (simp_all add: seq_def bind_assoc)

text \<open>\<open>OP_ASYNC_CALL\<close> with the address of a message handler on top of the operands.\<close>

lemma x_async_call:
  assumes "now_task x = word_state v i (h # ws) xs fs" and "op_at v i OP_ASYNC_CALL" and "fits v (i + 3)"
    and "length (x_tasks x) < 5" and "x_now x < length (x_tasks x)"
  shows "x_step x = Inr ((), spawned_x (u16_at v (i + 1))
    (word_state (v\<lparr>v_memory := v_memory v + 5264\<rparr>) (i + 3) ws xs fs) x)"
proof -
  have fits: "fits v (i + 1)" "fits v (i + 1 + 2)" using assms(3) by (auto simp: fits_def)
  have "take 1 (drop i (v_prog v)) = [v_prog v ! i]" using assms(3) by (simp add: fits_def Cons_nth_drop_Suc [symmetric])
  then have "on_now (a_fetch (Suc 0)) x = Inr ([v_prog v ! i], put_now (word_state v (i + 1) (h # ws) xs fs) x)"
    using fetch_at [of "word_state v i (h # ws) xs fs" i v 1] fits(1) assms(1) by (simp add: on_now_def)
  then have step: "x_step x = bind (on_now a_fetch_u16) x_spawn (put_now (word_state v (i + 1) (h # ws) xs fs) x)"
    using assms(2) by (simp add: x_step_def st_simps x_exec_def op_at_def)
  have "word_state (v\<lparr>v_memory := m\<rparr>) j ws xs fs = (word_state v j ws xs fs)\<lparr>v_memory := m\<rparr>" for j m
    by (simp add: word_state_def)
  moreover have "v_memory (word_state v j ws xs fs) = v_memory v" for j by (simp add: word_state_def)
  ultimately show ?thesis
    using assms(2,4,5) fetch_u16_word_state [OF fits(2), of "h # ws" xs fs] pop_u16_word_state [of v "i + 3" h ws xs fs]
    unfolding step by (simp add: st_simps on_now_def x_spawn_def put_now_again spawned_x_def numeral_3_eq_3)
qed

section \<open>Property\<close>

lemma crew_fields:
  assumes "crew_at ss x (t :: cpu)"
  shows "cpu_ip t = v_ip (now_task x)" "operands t = v_ops (now_task x)" "port_regs t = v_ports (now_task x)"
    "out t = v_out (now_task x)" "cpu_tasks_number t = of_nat (length (x_tasks x) - 1)"
    "dynamic_memory_usage t = v_memory (now_task x)"
proof -
  have c: "cpu_ip t = v_ip (now_task x)" "shared_of t (now_task x)" "length ss = length (x_tasks x)"
    "cpu_tasks_number t = of_nat (length ss - 1)" using assms by (auto simp: crew_at_def)
  then show "cpu_ip t = v_ip (now_task x)" "port_regs t = v_ports (now_task x)" "out t = v_out (now_task x)"
    "cpu_tasks_number t = of_nat (length (x_tasks x) - 1)" "dynamic_memory_usage t = v_memory (now_task x)"
    by (simp_all add: shared_of_def)
  show "operands t = v_ops (now_task x)"
    using rep_opsE [OF crew_rep [OF assms]] by (metis operands_def opstack_addr_def stack_at_def addr_of_ptr.simps(1) option.sel)
qed

lemma crew_whole_run:
  fixes s :: cpu
  assumes "length prog = unat n" and "power_on s" and "network_up s" and "env_accept s = (\<lambda>_. WouldBlock)" and "10 \<le> fuel"
  shows "case x_rounds (Suc rounds) (x_start prog d s) of
      Inr (_, x) \<Rightarrow> \<exists>t. vm_main prog n d fuel (Suc rounds) s = Inr ((), t)
        \<and> cpu_ip t = v_ip (now_task x) \<and> operands t = v_ops (now_task x) \<and> port_regs t = v_ports (now_task x)
        \<and> out t = v_out (now_task x) \<and> cpu_tasks_number t = of_nat (length (x_tasks x) - 1)
        \<and> dynamic_memory_usage t = dynamic_memory_usage s + 140 + 5264 * of_nat (length (x_tasks x))
    | Inl (w, x) \<Rightarrow> w \<noteq> OutOfFuel \<longrightarrow> (\<exists>t es. vm_main prog n d fuel (Suc rounds) s = Inl (w, t)
        \<and> out t = v_out (now_task x) @ es
        \<and> (w = ExitSuccess \<longrightarrow> es = [Printf ''Exit\<newline>'' []]
             \<and> dynamic_memory_usage t = dynamic_memory_usage s + 89 - 40 * of_nat (length (x_tasks x))))"
proof -
  let ?d = "dynamic_memory_usage s"
  note main = main_crew [OF assms, of rounds d]
  have bill: "case x_rounds (Suc rounds) (x_start prog d s) of Inl (w, x) \<Rightarrow> accounts (?d + 140) x | Inr (r, x) \<Rightarrow> accounts (?d + 140) x"
    using accounts_rounds [of "?d + 140" "Suc rounds"] accounts_start [of s prog d] by (simp add: keeps_def)
  show ?thesis
  proof (cases "x_rounds (Suc rounds) (x_start prog d s)")
    case (Inr r)
    then obtain x where x: "x_rounds (Suc rounds) (x_start prog d s) = Inr ((), x)" by (cases r) simp
    then obtain t ss where t: "vm_main prog n d fuel (Suc rounds) s = Inr ((), t)" "crew_at ss x t"
      using main by (auto simp: crew_agrees_def)
    with x bill crew_fields [OF t(2)] show ?thesis by (simp add: accounts_def)
  next
    case (Inl r)
    then obtain w x where x: "x_rounds (Suc rounds) (x_start prog d s) = Inl (w, x)" by (cases r) simp
    show ?thesis
    proof (cases "w = ExitSuccess")
      case False
      with main x show ?thesis by (auto simp: crew_agrees_def)
    next
      case True
      with main x obtain t ss e where t: "crew_at ss x t" "halt t = Inl e" "vm_main prog n d fuel (Suc rounds) s = Inl e"
        by (auto simp: crew_agrees_def)
      obtain u where u: "halt t = Inl (ExitSuccess, u)" "out u = out t @ [Printf ''Exit\<newline>'' []]"
          "dynamic_memory_usage u = dynamic_memory_usage t - of_nat (5304 * length (x_tasks x) + 51)"
        using halt_crew [OF t(1)] by blast
      have "v_memory (now_task x) = ?d + 140 + 5264 * of_nat (length (x_tasks x))"
        using bill x by (simp add: accounts_def)
      then have "dynamic_memory_usage u = ?d + 89 - 40 * of_nat (length (x_tasks x))"
        unfolding u(3) crew_fields(6) [OF t(1)] by (simp add: algebra_simps)
      with x True t u(1,2) crew_fields(4) [OF t(1)] show ?thesis by (auto simp del: x_rounds.simps)
    qed
  qed
qed

text \<open>C2: the machine with several tasks implements an abstract machine with several tasks. Take
  any program and the whole machine: \<open>main\<close> is run with this program, and no message arrives.
  A task of the abstract machine has a byte list of operands and a list of frames;
  \<open>OP_ASYNC_CALL\<close> adds a task that begins at the operand address with empty stacks, and takes
  the handler's address from the operands of its creator, or with five tasks says that there
  are too many. In a round the tasks get their slices of 255 instructions in the preorder of
  the tree of creations, where a task created in the round has its first slice in this round.
  After any number of rounds the code is where the abstract machine is: it is running, with
  the same instruction pointer and operands of the last task, ports, output, number of tasks
  and memory counter; or it has stopped for the same reason, with at least the same output.
  A \<open>HALT\<close> in any task ends the process with success after \<open>Exit\<close>, and every task but the first
  leaves the memory counter 40 too low: the release of a node subtracts the size of its children's nodes
  once more. Where the abstract machine gives up (\<open>OutOfFuel\<close>, see Refine_Spec; a task that ends
  itself is one case, a message that is sent another) nothing is claimed. A traversal bound of
  ten is enough for every tree of five tasks.\<close>

theorem crew_implements_abstract:
  fixes s :: cpu
  assumes "length prog = unat n" and "power_on s" and "network_up s" and "env_accept s = (\<lambda>_. WouldBlock)" and "10 \<le> fuel"
  shows "case x_rounds (Suc rounds) (x_start prog d s) of
      Inr (_, x) \<Rightarrow> \<exists>t. vm_main prog n d fuel (Suc rounds) s = Inr ((), t)
        \<and> cpu_ip t = v_ip (now_task x) \<and> operands t = v_ops (now_task x) \<and> port_regs t = v_ports (now_task x)
        \<and> out t = v_out (now_task x) \<and> cpu_tasks_number t = of_nat (length (x_tasks x) - 1)
        \<and> dynamic_memory_usage t = dynamic_memory_usage s + 140 + 5264 * of_nat (length (x_tasks x))
    | Inl (w, x) \<Rightarrow> w \<noteq> OutOfFuel \<longrightarrow> (\<exists>t es. vm_main prog n d fuel (Suc rounds) s = Inl (w, t)
        \<and> out t = v_out (now_task x) @ es
        \<and> (w = ExitSuccess \<longrightarrow> es = [Printf ''Exit\<newline>'' []]
             \<and> dynamic_memory_usage t = dynamic_memory_usage s + 89 - 40 * of_nat (length (x_tasks x))))"
  using assms by (rule crew_whole_run)

text \<open>The first task creates a second one and loops; the second one prints 7 and halts.\<close>

lemma x_loop:
  assumes "op_at v i OP_JUMP" and "fits v (i + 3)" and "u16_at v (i + 1) = of_nat i" and "i < 65536"
  shows "a_run k (word_state v i ws xs fs) = Inr ((), word_state v i ws xs fs)"
proof (induction k)
  case (Suc k)
  have fits: "fits v (i + 1)" "fits v (i + 1 + 2)" using assms(2) by (auto simp: fits_def)
  have "a_goto (of_nat i) (word_state v j ws xs fs) = Inr ((), word_state v i ws xs fs)" for j
    by (simp add: a_goto_def st_simps word_state_def)
  with Suc fits assms fetch_u16_word_state [OF fits(2), of ws xs fs] show ?case
    by (simp add: run_op a_exec_def st_simps del: a_run.simps)
qed (simp add: st_simps)

theorem crew_implements_abstract_witness:
  "\<exists>t. vm_main [14, 0, 0, 12, 9, 0, 2, 6, 0, 14, 7, 0, 16, 0] 14 14 10 1 (blank_cpu 3) = Inl (ExitSuccess, t)
     \<and> out t = out (blank_cpu 3) @ [Printf ''Starting VM\<newline>'' [], Printf ''%hu\<newline>'' [AInt 7],
         Printf ''Exit\<newline>'' []]"
proof -
  let ?p = "[14, 0, 0, 12, 9, 0, 2, 6, 0, 14, 7, 0, 16, 0] :: u8 list"
  let ?x = "x_start ?p 14 (blank_cpu 3)" and ?v = "a_start ?p 14 (blank_cpu 3)"
  let ?w = "?v\<lparr>v_memory := v_memory ?v + 5264\<rparr>"
  have s: "power_on (blank_cpu 3)" "network_up (blank_cpu 3)" "env_accept (blank_cpu 3) = (\<lambda>_. WouldBlock)"
    by (simp_all add: blank_cpu_def demo_cpu_def power_on_def network_up_def)
  have len: "length ?p = unat (14 :: u16)" by simp
  have start: "word_state ?v 0 [] [] [] = ?v" by (simp add: word_state_def a_start_def)
  have v: "v_prog ?v = ?p" "v_ops ?v = []" "v_callers ?v = []" "v_ops_size ?v = 1024" "v_calls_size ?v = 4096"
    "v_out ?v = out (blank_cpu 3) @ [Printf ''Starting VM\<newline>'' []]"
    by (simp_all add: a_start_def)
  let ?y = "\<lparr>x_tasks = [word_state ?w 6 [] [] [], new_vm 9 (word_state ?w 6 [] [] [])],
    x_tree = Node 0 [Node 1 []], x_now = 0\<rparr>"
  have one: "x_run 1 ?x = Inr ((), put_now (word_state ?v 3 [0] [] []) ?x)"
  proof (rule x_run_now)
    show "a_run 1 (now_task ?x) = Inr ((), word_state ?v 3 [0] [] [])"
      using run_literal [of ?v 0 1 "[]" "[]" "[]"] v
      by (simp add: x_start_def now_task_def start op_at_iff opcode_numbers fits_def room_def u16_at_def u16_of_small st_simps)
  qed (simp add: x_start_def)
  have two: "x_run 1 (put_now (word_state ?v 3 [0] [] []) ?x) = Inr ((), ?y)"
  proof -
    have "x_step (put_now (word_state ?v 3 [0] [] []) ?x)
        = Inr ((), spawned_x (u16_at ?v 4) (word_state ?w 6 [] [] []) (put_now (word_state ?v 3 [0] [] []) ?x))"
      using x_async_call [of "put_now (word_state ?v 3 [0] [] []) ?x" ?v 3 0 "[]" "[]" "[]"] v(1)
      by (simp add: x_start_def op_at_iff opcode_number_def opcodes_def fits_def)
    moreover have "spawned_x (u16_at ?v 4) (word_state ?w 6 [] [] []) (put_now (word_state ?v 3 [0] [] []) ?x) = ?y"
      using v(1) by (simp add: spawned_x_def put_now_def x_start_def u16_at_def u16_of_small)
    ultimately show ?thesis by (simp add: st_simps)
  qed
  have loop: "a_run n (word_state ?w 6 [] [] []) = Inr ((), word_state ?w 6 [] [] [])" for n
    by (rule x_loop) (simp_all add: v(1) op_at_iff opcode_number_def opcodes_def fits_def u16_at_def u16_of_small)
  then have three: "x_run 253 ?y = Inr ((), ?y)"
    using x_run_now(1) [of ?y 253 "word_state ?w 6 [] [] []"] by (simp add: now_task_def put_now_def)
  have "x_run (1 + (1 + 253)) ?x = Inr ((), ?y)" unfolding x_run_add seq_apply using one two three by simp
  then have main: "x_run 255 ?x = Inr ((), ?y)" by simp
  let ?u = "hand_over (word_state ?w 6 [] [] []) (new_vm 9 (word_state ?w 6 [] [] []))"
  let ?z = "?y\<lparr>x_tasks := (x_tasks ?y)[1 := ?u], x_now := 1\<rparr>"
  have u: "v_prog ?u = ?p" "v_ops ?u = []" "v_callers ?u = []" "v_ops_size ?u = 1024" "v_out ?u = v_out ?v"
      "word_state ?u 9 [] [] [] = ?u"
    using v by (simp_all add: hand_over_def new_vm_def word_state_def)
  have "\<exists>w. a_run 3 (word_state ?u 9 [] [] []) = Inl (ExitSuccess, w) \<and> v_out w = v_out ?u @ [Printf ''%hu\<newline>'' [AInt 7]]"
    by (simp add: execution u(1-4) del: a_run.simps(2)) (simp add: word_state_def)
  then obtain w where w: "a_run 255 ?u = Inl (ExitSuccess, w)" "v_out w = v_out ?v @ [Printf ''%hu\<newline>'' [AInt 7]]"
    unfolding u(5,6) using a_run_stop [of 3 ?u _ 255] by auto
  then have "x_run 255 ?z = Inl (ExitSuccess, put_now w ?z)"
    by (intro x_run_now(2)) (simp_all add: now_task_def)
  moreover have "x_turn 1 ?y = x_run 255 ?z" by (simp add: x_turn_def x_slice_def x_switch_def now_task_def st_simps)
  moreover have "x_turn 0 ?x = x_run 255 ?x"
  proof -
    have "hand_over v v = v" for v by (simp add: hand_over_def)
    then show ?thesis by (simp add: x_turn_def x_slice_def x_switch_def x_start_def now_task_def st_simps)
  qed
  ultimately have "x_rounds 1 ?x = Inl (ExitSuccess, put_now w ?z)"
    using main by (simp add: x_round_def upt_conv_Cons st_simps del: x_run.simps)
  moreover have "v_out (now_task (put_now w ?z)) = v_out ?v @ [Printf ''%hu\<newline>'' [AInt 7]]" using w(2) by (simp add: now_task_def put_now_def)
  ultimately show ?thesis
    using crew_implements_abstract [where prog = ?p and d = 14 and rounds = 0 and fuel = 10, OF len s] v(6)
    by auto
qed

end
