(* ===== verification/Crew_Safe.thy ===== *)
theory Crew_Safe
  imports Crew_Run
begin

text \<open>
  Programs that create tasks, and never stop in an error. A budget says how many tasks the code
  of a task may still create. The contract \<open>task_code\<close> asks that every step of a task keeps a
  predicate on the task and its budget; with it no run of the abstract machine, and so none of
  the machine, stops in an error. The verifier of Typing_Spec, extended to the creation of
  tasks, gives such a predicate.
\<close>

section \<open>The contract\<close>

text \<open>A step that creates a task: the budget is shared between the creator and the new task.\<close>

definition creates :: "(nat \<Rightarrow> vm \<Rightarrow> bool) \<Rightarrow> nat \<Rightarrow> vm \<Rightarrow> bool" where
  "creates I b v \<longleftrightarrow> (\<exists>op u address w h x c d.
     a_fetch 1 v = Inr ([op], u) \<and> opcode_of op = Some OP_ASYNC_CALL
   \<and> a_fetch_u16 u = Inr (address, w) \<and> a_pop_u16 w = Inr (h, x) \<and> c + d < b
   \<and> I c (x\<lparr>v_memory := v_memory x + 5264\<rparr>) \<and> I d (new_vm address (x\<lparr>v_memory := v_memory x + 5264\<rparr>)))"

lemma hand_over_twice [simp]:
  "hand_over v v = v" "hand_over u (hand_over v w) = hand_over u w" "hand_over (hand_over u v) w = hand_over u w"
  by (simp_all add: hand_over_def)

lemma x_tasks_put_now: "x_tasks (put_now v x) = (x_tasks x)[x_now x := v]"
  by (simp add: put_now_def)

locale task_code =
  fixes I :: "nat \<Rightarrow> vm \<Rightarrow> bool" and fine :: "stop \<Rightarrow> bool"
  assumes step: "I b v \<Longrightarrow> creates I b v \<or>
      (case a_step v of Inl (w, _) \<Rightarrow> fine w | Inr (_, u) \<Rightarrow> \<exists>c \<le> b. I c u)"
    and hand: "I b v \<Longrightarrow> I c w \<Longrightarrow> I c (hand_over v w)"
    and fuel: "\<not> fine OutOfFuel"
begin

text \<open>All tasks are in order, with what the running task would hand over to them, and their
  budgets leave room for all tasks to come.\<close>

definition crew_fine :: "nat \<Rightarrow> crew_vm \<Rightarrow> bool" where
  "crew_fine n x \<longleftrightarrow> n \<le> 5 \<and> x_now x < length (x_tasks x) \<and> set (preorder (x_tree x)) \<subseteq> {..<length (x_tasks x)}
     \<and> (\<exists>bs. list_all2 I bs (map (hand_over (now_task x)) (x_tasks x)) \<and> sum_list bs + length (x_tasks x) \<le> n)"

definition keeps_fine :: "'a xm \<Rightarrow> bool" where
  "keeps_fine m \<longleftrightarrow> (\<forall>n x. crew_fine n x \<longrightarrow>
     (case m x of Inl (w, _) \<Rightarrow> fine w | Inr (_, y) \<Rightarrow> crew_fine n y))"

lemma keeps_fineI:
  "(\<And>n x. crew_fine n x \<Longrightarrow> case m x of Inl (w, _) \<Rightarrow> fine w | Inr (_, y) \<Rightarrow> crew_fine n y) \<Longrightarrow> keeps_fine m"
  by (simp add: keeps_fine_def)

lemma keeps_fine_seq:
  assumes "keeps_fine m" and "keeps_fine m'"
  shows "keeps_fine (seq m m')"
proof (rule keeps_fineI)
  fix n x assume "crew_fine n x"
  with assms(1) have "case m x of Inl (w, _) \<Rightarrow> fine w | Inr (_, y) \<Rightarrow> crew_fine n y" by (simp add: keeps_fine_def)
  with assms(2) show "case seq m m' x of Inl (w, _) \<Rightarrow> fine w | Inr (_, y) \<Rightarrow> crew_fine n y"
    by (cases "m x") (auto simp: st_simps keeps_fine_def)
qed

lemma keeps_fine_return: "keeps_fine (return r)"
  by (simp add: keeps_fine_def st_simps)

lemma sum_list_smaller:
  fixes bs :: "nat list"
  shows "i < length bs \<Longrightarrow> sum_list (bs[i := c]) + bs ! i = sum_list bs + c"
proof (induction bs arbitrary: i)
  case (Cons b bs)
  then show ?case by (cases i) simp_all
qed simp

lemma fine_now:
  assumes "list_all2 I bs (map (hand_over (now_task x)) (x_tasks x))" and "i < length (x_tasks x)"
  shows "I (bs ! i) (hand_over (now_task x) (x_tasks x ! i))"
  using list_all2_nthD2 [OF assms(1), of i] assms(2) by simp

text \<open>The running task becomes \<open>v\<close>.\<close>

lemma hand_over_all:
  assumes "x_now x < length (x_tasks x)" and "list_all2 I bs (map (hand_over (now_task x)) (x_tasks x))" and "I c v"
  shows "list_all2 I (bs[x_now x := c]) (map (hand_over v) ((x_tasks x)[x_now x := v]))"
proof (rule list_all2_all_nthI)
  show len: "length (bs[x_now x := c]) = length (map (hand_over v) ((x_tasks x)[x_now x := v]))"
    using list_all2_lengthD [OF assms(2)] by simp
  fix i assume "i < length (bs[x_now x := c])"
  then have i: "i < length (x_tasks x)" "i < length bs" using len by simp_all
  show "I (bs[x_now x := c] ! i) (map (hand_over v) ((x_tasks x)[x_now x := v]) ! i)"
    using hand [OF assms(3) fine_now [OF assms(2) i(1)]] assms(1,3) i
    by (cases "i = x_now x") simp_all
qed

lemma fine_put_now:
  assumes "n \<le> 5" and "x_now x < length (x_tasks x)" and "set (preorder (x_tree x)) \<subseteq> {..<length (x_tasks x)}"
    and "list_all2 I bs (map (hand_over (now_task x)) (x_tasks x))" and "I c v"
    and "sum_list (bs[x_now x := c]) + length (x_tasks x) \<le> n"
  shows "crew_fine n (put_now v x)"
  unfolding crew_fine_def using assms hand_over_all [OF assms(2,4,5)]
  by (auto simp: x_tasks_put_now)

lemma fine_spawned:
  assumes "n \<le> 5" and "x_now x < length (x_tasks x)" and "set (preorder (x_tree x)) \<subseteq> {..<length (x_tasks x)}"
    and "list_all2 I bs (map (hand_over (now_task x)) (x_tasks x))" and "I c v" and "I d (new_vm address v)"
    and "sum_list (bs[x_now x := c]) + d + Suc (length (x_tasks x)) \<le> n"
  shows "crew_fine n (spawned_x address v x)"
proof -
  have "now_task (spawned_x address v x) = v" using assms(2) by (simp add: now_task_def spawned_x_def put_now_def nth_append)
  moreover have "hand_over v (new_vm address v) = new_vm address v" by (simp add: hand_over_def new_vm_def)
  ultimately have "list_all2 I (bs[x_now x := c] @ [d])
      (map (hand_over (now_task (spawned_x address v x))) (x_tasks (spawned_x address v x)))"
    using hand_over_all [OF assms(2,4,5)] assms(6) by (simp add: spawned_x_def x_tasks_put_now list_all2_appendI)
  then show ?thesis
    unfolding crew_fine_def using assms(1-3,7)
    by (auto simp: spawned_x_def set_preorder_add_kid intro!: exI [of _ "bs[x_now x := c] @ [d]"])
qed

lemma keeps_fine_step: "keeps_fine x_step"
proof (rule keeps_fineI)
  fix n x assume "crew_fine n x"
  then obtain bs where x: "x_now x < length (x_tasks x)" "set (preorder (x_tree x)) \<subseteq> {..<length (x_tasks x)}"
      "list_all2 I bs (map (hand_over (now_task x)) (x_tasks x))" "sum_list bs + length (x_tasks x) \<le> n" and n: "n \<le> 5"
    by (auto simp: crew_fine_def)
  let ?b = "bs ! x_now x" and ?v = "now_task x"
  have len: "length bs = length (x_tasks x)" using list_all2_lengthD [OF x(3)] by simp
  have sum: "sum_list (bs[x_now x := c]) + ?b = sum_list bs + c" for c
    using sum_list_smaller [of "x_now x" bs c] x(1) len by simp
  have "I ?b ?v" using fine_now [OF x(3,1)] by (simp flip: now_task_def)
  from step [OF this] show "case x_step x of Inl (w, _) \<Rightarrow> fine w | Inr (_, y) \<Rightarrow> crew_fine n y"
  proof
    assume "case a_step ?v of Inl (w, _) \<Rightarrow> fine w | Inr (_, u) \<Rightarrow> \<exists>c \<le> ?b. I c u"
    then consider w u where "a_step ?v = Inl (w, u)" "fine w" "w \<noteq> OutOfFuel"
      | u c where "a_step ?v = Inr ((), u)" "c \<le> ?b" "I c u"
      using fuel by (auto split: sum.splits)
    then show ?thesis
    proof cases
      case (1 w u)
      with x_step_now(2) [OF x(1)] show ?thesis by simp
    next
      case (2 u c)
      have "sum_list (bs[x_now x := c]) + length (x_tasks x) \<le> n" using sum [of c] 2(2) x(4) by simp
      with fine_put_now [OF n x(1-3) 2(3)] x_step_now(1) [OF x(1) 2(1)] show ?thesis by simp
    qed
  next
    assume "creates I ?b ?v"
    then obtain op u address w h v c d where
      v: "a_fetch 1 ?v = Inr ([op], u)" "opcode_of op = Some OP_ASYNC_CALL" "a_fetch_u16 u = Inr (address, w)"
        "a_pop_u16 w = Inr (h, v)" "c + d < ?b" "I c (v\<lparr>v_memory := v_memory v + 5264\<rparr>)"
        "I d (new_vm address (v\<lparr>v_memory := v_memory v + 5264\<rparr>))"
      by (auto simp: creates_def)
    have room: "sum_list (bs[x_now x := c]) + d + Suc (length (x_tasks x)) \<le> n" using sum [of c] x(4) v(5) by linarith
    then have "length (x_tasks x) < 5" using n by linarith
    then have "x_step x = Inr ((), spawned_x address (v\<lparr>v_memory := v_memory v + 5264\<rparr>) x)"
      using v(1-4) x(1)
      by (simp add: x_step_def st_simps on_now_def x_exec_def x_spawn_def put_now_again spawned_x_def)
    with fine_spawned [OF n x(1-3) v(6,7) room] show ?thesis by simp
  qed
qed

lemma keeps_fine_run: "keeps_fine (x_run n)"
  by (induction n) (simp_all add: keeps_fine_return keeps_fine_seq keeps_fine_step)

lemma keeps_fine_switch:
  assumes "crew_fine n x" and "i < length (x_tasks x)"
  shows "\<exists>y. x_switch i x = Inr ((), y) \<and> crew_fine n y"
proof -
  let ?h = "hand_over (now_task x) (x_tasks x ! i)"
  let ?y = "x\<lparr>x_tasks := (x_tasks x)[i := ?h], x_now := i\<rparr>"
  have "now_task ?y = ?h" using assms(2) by (simp add: now_task_def)
  moreover have "map (hand_over ?h) ((x_tasks x)[i := ?h]) = map (hand_over (now_task x)) (x_tasks x)"
    by (rule nth_equalityI) (use assms(2) in \<open>auto simp: nth_list_update\<close>)
  ultimately have "crew_fine n ?y" using assms by (auto simp: crew_fine_def)
  then show ?thesis by (simp add: x_switch_def st_simps)
qed

lemma keeps_fine_turns: "keeps_fine (x_turns ks)"
proof (induction ks)
  case (Cons k ks)
  have "keeps_fine (x_turn k)"
  proof (rule keeps_fineI)
    fix n x assume x: "crew_fine n x"
    show "case x_turn k x of Inl (w, _) \<Rightarrow> fine w | Inr (_, y) \<Rightarrow> crew_fine n y"
    proof (cases "k < length (preorder (x_tree x))")
      case True
      then have "preorder (x_tree x) ! k \<in> {..<length (x_tasks x)}"
        using x nth_mem [OF True] unfolding crew_fine_def by blast
      with keeps_fine_switch [OF x] obtain y where
        "x_switch (preorder (x_tree x) ! k) x = Inr ((), y)" "crew_fine n y" by auto
      with keeps_fine_run [of 255] True show ?thesis
        by (simp add: x_turn_def x_slice_def st_simps keeps_fine_def del: x_run.simps)
    qed (simp add: x x_turn_def st_simps)
  qed
  with Cons show ?case by (simp add: keeps_fine_seq)
qed (simp add: keeps_fine_return)

lemma keeps_fine_rounds: "keeps_fine (x_rounds n)"
  by (induction n) (simp_all add: keeps_fine_return keeps_fine_seq x_round_def keeps_fine_turns)

lemma fine_rounds:
  "crew_fine n x \<Longrightarrow> case x_rounds k x of Inl (w, _) \<Rightarrow> fine w | Inr (_, y) \<Rightarrow> crew_fine n y"
  using keeps_fine_rounds by (simp add: keeps_fine_def)

end

section \<open>Typed tasks\<close>

text \<open>The abstract counterparts of \<open>typed\<close> and \<open>yields\<close>.\<close>

definition vm_typed :: "u8 list \<Rightarrow> nat \<Rightarrow> ty list \<Rightarrow> u16 \<Rightarrow> vm \<Rightarrow> bool" where
  "vm_typed prog cap ts i v \<longleftrightarrow> v_prog v = prog \<and> v_ops_size v = cap \<and> shape ts (v_ops v) \<and> v_ip v = i"

definition vm_yields :: "u8 list \<Rightarrow> nat \<Rightarrow> ty list \<Rightarrow> u16 \<Rightarrow> (stop \<times> vm) + ('a \<times> vm) \<Rightarrow> bool" where
  "vm_yields prog cap ts i r \<longleftrightarrow> (case r of
     Inl (w, _) \<Rightarrow> arithmetic_fault w | Inr (_, v) \<Rightarrow> vm_typed prog cap ts i v)"

named_theorems vm_rules \<open>how the pieces of an instruction change a typed task\<close>

lemma vm_return [vm_rules]: "vm_typed p c ts i v \<Longrightarrow> vm_yields p c ts i (return x v)"
  by (simp add: vm_yields_def st_simps)

lemma vm_fault [vm_rules]:
  "u \<in> {DivByZero, SignedOverflow, BadShift} \<Longrightarrow> vm_yields p c ts i (undef u v)"
  by (auto simp: vm_yields_def st_simps arithmetic_fault_def)

lemma vm_modify [vm_rules]: "vm_typed p c ts i (f v) \<Longrightarrow> vm_yields p c ts i (modify f v)"
  by (simp add: vm_yields_def st_simps)

lemma vm_gets [vm_rules]: "vm_yields p c ts i (f (g v) v) \<Longrightarrow> vm_yields p c ts i (bind (gets g) f v)"
  by (simp add: st_simps)

lemma vm_updates:
  assumes "vm_typed p c ts i v"
  shows "vm_typed p c ts j (v\<lparr>v_ip := j\<rparr>)" "vm_typed p c ts i (v\<lparr>v_out := o1\<rparr>)"
    "vm_typed p c ts i (v\<lparr>v_ports := q\<rparr>)" "vm_typed p c ts i (v\<lparr>v_clock := k\<rparr>)"
  using assms by (simp_all add: vm_typed_def)

lemma vm_emit [vm_rules]: "vm_typed p c ts i v \<Longrightarrow> vm_yields p c ts i (a_emit e v)"
  unfolding a_emit_def by (intro vm_modify vm_updates)

lemma vm_goto [vm_rules]: "vm_typed p c ts i v \<Longrightarrow> vm_yields p c ts j (a_goto j v)"
  unfolding a_goto_def by (intro vm_modify vm_updates)

lemma vm_pop:
  assumes "vm_typed p c (T # ts) i v" and "\<And>w u. has_ty T w \<Longrightarrow> vm_typed p c ts i u \<Longrightarrow> vm_yields p c us j (f w u)"
  shows "vm_yields p c us j (bind (a_pop (width T)) f v)"
  using assms by (auto simp: a_pop_def st_simps vm_typed_def)

lemma vm_push:
  assumes "vm_typed p c ts i v" and "has_ty T w" and "stack_bytes (T # ts) \<le> c"
  shows "vm_yields p c (T # ts) i (a_push w v)"
  using assms shape_length [of ts "v_ops v"]
  by (auto simp: a_push_def st_simps vm_yields_def vm_typed_def has_ty_length)

lemma vm_fetch:
  assumes "vm_typed p c ts i v" and "drop (unat i) p = bs @ cs" and "bs \<noteq> []"
    and "vm_yields p c us j (f bs (v\<lparr>v_ip := i + of_nat (length bs)\<rparr>))"
  shows "vm_yields p c us j (bind (a_fetch (length bs)) f v)"
  using assms by (auto simp: a_fetch_def st_simps vm_typed_def)

lemma vm_top:
  assumes "vm_typed p c (T # ts) i v" and "\<And>w. has_ty T w \<Longrightarrow> vm_yields p c us j (f w v)"
  shows "vm_yields p c us j (bind (a_top (width T)) f v)"
  using assms by (auto simp: a_top_def st_simps vm_typed_def)

lemmas vm_pop_word = vm_pop [where T = TWord, simplified]
lemmas vm_pop_float = vm_pop [where T = TFloat, simplified]
lemmas vm_pop_flag = vm_pop [where T = TFlag, simplified]
lemmas vm_top_word = vm_top [where T = TWord, simplified]
lemmas vm_top_float = vm_top [where T = TFloat, simplified]

lemma vm_pop_u16:
  "vm_typed p c (TWord # ts) i v \<Longrightarrow> (\<And>w u. vm_typed p c ts i u \<Longrightarrow> vm_yields p c us j (f w u)) \<Longrightarrow>
   vm_yields p c us j (bind a_pop_u16 f v)"
  unfolding a_pop_u16_def bind_assoc by (rule vm_pop_word) (simp_all add: st_simps)

lemma vm_pop_f32:
  "vm_typed p c (TFloat # ts) i v \<Longrightarrow> (\<And>w u. vm_typed p c ts i u \<Longrightarrow> vm_yields p c us j (f w u)) \<Longrightarrow>
   vm_yields p c us j (bind a_pop_f32 f v)"
  unfolding a_pop_f32_def bind_assoc by (rule vm_pop_float) (simp_all add: st_simps)

lemma vm_push_u16 [vm_rules]:
  "vm_typed p c ts i v \<Longrightarrow> stack_bytes (TWord # ts) \<le> c \<Longrightarrow> vm_yields p c (TWord # ts) i (a_push_u16 w v)"
  unfolding a_push_u16_def by (rule vm_push) simp_all

lemma vm_push_f32 [vm_rules]:
  "vm_typed p c ts i v \<Longrightarrow> stack_bytes (TFloat # ts) \<le> c \<Longrightarrow> vm_yields p c (TFloat # ts) i (a_push_f32 w v)"
  unfolding a_push_f32_def by (rule vm_push) simp_all

lemma vm_fetch_u16:
  assumes "vm_typed p c ts i v" and "drop (unat i) p = bs @ cs" and "length bs = 2"
    and "vm_yields p c us j (f (u16_of_bytes bs) (v\<lparr>v_ip := i + 2\<rparr>))"
  shows "vm_yields p c us j (bind a_fetch_u16 f v)"
proof -
  have "vm_yields p c us j (bind (a_fetch (length bs)) (\<lambda>w. f (u16_of_bytes w)) v)"
    by (rule vm_fetch [OF assms(1,2)]) (use assms(3,4) in auto)
  with assms(3) show ?thesis by (simp add: a_fetch_u16_def bind_assoc)
qed

lemma vm_alu:
  assumes "vm_typed p c (TWord # TWord # ts) i v" and "alu_ty opc = Some T" and "stack_bytes (T # ts) \<le> c"
  shows "vm_yields p c (T # ts) i (a_alu opc v)"
proof -
  have "alu opc 1 1 \<noteq> None" using assms(2) by (auto simp: alu_ty_def split: option.splits)
  then have all: "alu opc a b = Some (the (alu opc a b))" for a b
    using alu_total [of opc 1 1 a b] by (auto simp del: not_None_eq simp: option.collapse)
  have last: "vm_yields p c (T # ts) i ((case the (alu opc a b) of Inl u \<Rightarrow> undef u | Inr w \<Rightarrow> a_push w) u)"
    if "vm_typed p c ts i u" for a b u
    using alu_ty [OF assms(2) all [of a b]] vm_push [OF that _ assms(3)] by (cases "the (alu opc a b)") (simp_all add: vm_fault)
  have "alu opc 0 0 \<noteq> None" using all [of 0 0] by (metis option.distinct(1))
  then show ?thesis unfolding a_alu_def if_not_P
    by (simp only: if_False) (rule vm_pop_u16 [OF assms(1)], rule vm_pop_u16, assumption, rule last)
qed

lemma vm_branch:
  assumes "vm_typed p c (TFlag # ts) i v" and "drop (unat i) p = bs @ cs" and "length bs = 2"
  shows "\<exists>j \<in> {u16_of_bytes bs, i + 2}. vm_yields p c ts j (a_exec OP_POP_JUMP_IF_FALSE v)"
proof -
  let ?w = "u16_of_bytes bs" and ?v = "v\<lparr>v_ip := i + 2\<rparr>"
  have v: "vm_typed p c (TFlag # ts) (i + 2) ?v" by (rule vm_updates(1) [OF assms(1)])
  obtain xs w where w: "v_ops v = xs @ rev w" "w = [0] \<or> w = [1]" "shape ts xs"
    using assms(1) by (auto simp: vm_typed_def has_ty_def elim!: shape_pop simp del: shape.simps)
  let ?u = "?v\<lparr>v_ops := xs\<rparr>"
  have "vm_typed p c ts (i + 2) ?u" using v w(3) by (simp add: vm_typed_def)
  from vm_goto [OF this, of ?w] vm_return [OF this]
  have either: "vm_yields p c ts ?w (a_goto ?w ?u)" "vm_yields p c ts (i + 2) (return () ?u)" .
  have "a_fetch_u16 v = Inr (?w, ?v)"
    using assms by (auto simp: a_fetch_u16_def a_fetch_def st_simps vm_typed_def)
  moreover have "a_pop 1 ?v = Inr (w, ?u)" using w(1,2) by (auto simp: a_pop_def st_simps)
  ultimately have "a_exec OP_POP_JUMP_IF_FALSE v = (if w = [0] then a_goto ?w ?u else return () ?u)"
    using w(2) by (auto simp: a_exec_def st_simps bool_of_bytes_def)
  with either show ?thesis by auto
qed

lemma vm_signature_operand:
  assumes "vm_typed p c ts i v" and "drop (unat i) p = bs @ cs" and "length bs = operand_size opc"
    and "stack_bytes (res @ ts) \<le> c" and "signature opc = Some ([], res)"
    and "operand_size opc \<noteq> 0" and "operand_ok opc (u16_of_bytes bs)"
  shows "\<exists>j \<in> set (targets opc i (u16_of_bytes bs)). vm_yields p c (res @ ts) j (a_exec opc v)"
proof -
  let ?w = "u16_of_bytes bs" and ?v = "v\<lparr>v_ip := i + 2\<rparr>"
  have v: "vm_typed p c ts (i + 2) ?v" by (rule vm_updates(1) [OF assms(1)])
  note word = vm_fetch_u16 [OF assms(1,2)]
  consider "opc = OP_DELAY" | "opc = OP_JUMP" | "opc \<in> {OP_PUSHL_U16, OP_PUSHL_I16}" | "opc = OP_PUSHL_F32"
    | "opc = OP_PUSH_U16"
    using assms(5,6) by (auto simp: operand_size_def signature_def split: if_splits)
  then show ?thesis
  proof cases
    case 1
    then have "res = []" and len: "length bs = 2" using assms by (auto simp: operand_size_def signature_def)
    moreover have "vm_yields p c ts (i + 2) (bind a_fetch_u16 (\<lambda>w. a_emit (Call ''usleep'' [uint w * 1000])) v)"
      by (rule word [OF len], rule vm_emit [OF v])
    ultimately show ?thesis using 1 by (simp add: targets_def operand_size_def a_exec_def)
  next
    case 2
    then have "res = []" and len: "length bs = 2" using assms by (auto simp: operand_size_def signature_def)
    moreover have "vm_yields p c ts ?w (bind a_fetch_u16 a_goto v)" by (rule word [OF len], rule vm_goto [OF v])
    ultimately show ?thesis using 2 by (simp add: targets_def a_exec_def)
  next
    case 3
    then have "res = [TWord]" and len: "length bs = 2" using assms by (auto simp: operand_size_def signature_def)
    moreover have "vm_yields p c (TWord # ts) (i + 2) (bind a_fetch_u16 a_push_u16 v)"
      by (rule word [OF len], rule vm_push_u16 [OF v]) (use assms(4) \<open>res = [TWord]\<close> in simp)
    ultimately show ?thesis using 3 by (auto simp: targets_def operand_size_def a_exec_def)
  next
    case 4
    then have len: "length bs = 4" and res: "res = [TFloat]" and room: "stack_bytes (TFloat # ts) \<le> c"
      using assms(3-5) by (auto simp: operand_size_def signature_def)
    have "vm_yields p c (TFloat # ts) (i + of_nat (length bs))
        (bind (a_fetch (length bs)) (\<lambda>w. a_push_f32 (f32_of_bytes w)) v)"
    proof (rule vm_fetch [OF assms(1,2)])
      show "bs \<noteq> []" using len by auto
    qed (intro vm_push_f32 vm_updates(1) [OF assms(1)] room)
    with 4 res len show ?thesis by (simp add: targets_def operand_size_def a_exec_def)
  next
    case 5
    then have small: "?w < 3" and res: "res = [TWord]" and room: "stack_bytes (TWord # ts) \<le> c" and len: "length bs = 2"
      using assms(3-5,7) by (auto simp: operand_ok_def operand_size_def signature_def)
    have "vm_yields p c (TWord # ts) (i + 2) (bind (a_cell ?w) a_push_u16 ?v)"
      unfolding a_cell_def if_P [OF small] by (intro vm_gets vm_push_u16 v room)
    with 5 res len word show ?thesis by (simp add: targets_def operand_size_def a_exec_def)
  qed
qed

lemma vm_signature_plain:
  assumes "vm_typed p c (args @ ts) i v" and "signature opc = Some (args, res)"
    and "stack_bytes (res @ ts) \<le> c" and "operand_size opc = 0"
  shows "vm_yields p c (res @ ts) i (a_exec opc v)"
proof (cases "alu_ty opc")
  case (Some T)
  then have "args = [TWord, TWord] \<and> res = [T] \<and> a_exec opc = a_alu opc"
    using assms(2) by (cases opc) (auto simp: signature_def alu_ty_def alu_def a_exec_def)
  with assms(1,3) vm_alu [OF _ Some] show ?thesis by simp
next
  case None
  then consider "opc = OP_POP_U16" | "opc = OP_POP_I16" | "opc = OP_POP_F32" | "opc = OP_NOT_U16"
    | "opc = OP_PUSH_MILLIS" | "opc \<in> {OP_TOP_U16, OP_TOP_I16}" | "opc = OP_TOP_F32"
    | "opc \<in> {OP_ADD_F32, OP_SUB_F32, OP_MUL_F32, OP_DIV_F32}"
    using assms(2,4) by (cases opc) (auto simp: signature_def operand_size_def)
  then show ?thesis
  proof cases
    case 5
    then have v: "vm_typed p c ts i v" and "res = [TWord]" using assms by (auto simp: signature_def)
    with vm_push_u16 [OF vm_updates(4) [OF v]] 5 assms(3) show ?thesis
      by (simp add: a_exec_def a_millis_def st_simps)
  next
    case 8
    then have v: "vm_typed p c (TFloat # TFloat # ts) i v" and res: "res = [TFloat]" using assms by (auto simp: signature_def)
    have "vm_yields p c (TFloat # ts) i (a_float f v)" for f
      unfolding a_float_def
      by (rule vm_pop_f32 [OF v], rule vm_pop_f32, assumption, intro vm_gets vm_push_f32)
        (use assms(3) res in simp_all)
    with 8 res show ?thesis by (auto simp: a_exec_def)
  qed (use assms in \<open>auto simp: signature_def a_exec_def
      intro!: vm_pop_u16 vm_pop_f32 vm_pop_word vm_top_word vm_top_float vm_rules\<close>)
qed

lemma vm_signature:
  assumes "vm_typed p c (args @ ts) i v" and "signature opc = Some (args, res)"
    and "drop (unat i) p = bs @ cs" and "length bs = operand_size opc"
    and "stack_bytes (res @ ts) \<le> c" and "operand_ok opc (u16_of_bytes bs)"
  shows "\<exists>j \<in> set (targets opc i (u16_of_bytes bs)). vm_yields p c (res @ ts) j (a_exec opc v)"
proof -
  consider (plain) "operand_size opc = 0" | (branch) "opc = OP_POP_JUMP_IF_FALSE" | (pop) "opc = OP_POPA_U16"
    | (operand) "operand_size opc \<noteq> 0" "args = []"
    using assms(2) by (cases opc) (auto simp: operand_size_def signature_def)
  then show ?thesis
  proof cases
    case plain
    then have "targets opc i w = [i]" for w by (auto simp: targets_def operand_size_def)
    with vm_signature_plain [OF assms(1,2,5) plain] show ?thesis by simp
  next
    case branch
    then have v: "vm_typed p c (TFlag # ts) i v" and "res = []" "length bs = 2"
      using assms by (auto simp: signature_def operand_size_def)
    with vm_branch [OF v assms(3)] branch show ?thesis by (simp add: targets_def)
  next
    case pop
    then have v: "vm_typed p c (TWord # ts) i v" and res: "res = []" "length bs = 2" and small: "u16_of_bytes bs < 3"
      using assms by (auto simp: signature_def operand_size_def operand_ok_def)
    have "vm_yields p c ts (i + 2) (a_exec OP_POPA_U16 v)"
      unfolding a_exec_def opcode.case
      by (rule vm_fetch_u16 [OF v assms(3) res(2)], rule vm_pop_u16, rule vm_updates(1) [OF v], simp only: small if_True)
        (intro vm_modify vm_updates(3))
    with pop res show ?thesis by (simp add: targets_def operand_size_def)
  next
    case operand
    with assms vm_signature_operand [of p c ts i v bs cs opc res] show ?thesis by simp
  qed
qed

section \<open>The verifier with creation\<close>

text \<open>An address has the types of the operands and the number of tasks that may still be created
  from there on.\<close>

type_synonym crew_typing = "(nat \<times> nat \<times> ty list) list"

definition types_of :: "crew_typing \<Rightarrow> typing" where
  "types_of psi = map (\<lambda>(i, b, ts). (i, ts)) psi"

text \<open>An \<open>OP_ASYNC_CALL\<close> takes the handler's address from the operands; the rest of the budget
  is divided between the code that follows and the code of the new task.\<close>

definition check_create :: "crew_typing \<Rightarrow> nat \<Rightarrow> nat \<Rightarrow> ty list \<Rightarrow> u8 list \<Rightarrow> bool" where
  "check_create psi i b ts cs \<longleftrightarrow> 2 \<le> length cs \<and> take 1 ts = [TWord] \<and>
     (case map_of psi (unat (u16_of_bytes (take 2 cs))) of None \<Rightarrow> False | Some (d, us) \<Rightarrow> us = [] \<and>
     (case map_of psi (i + 3) of None \<Rightarrow> False | Some (c, us) \<Rightarrow> us = drop 1 ts \<and> c + d < b))"

definition check_budget :: "crew_typing \<Rightarrow> nat \<Rightarrow> nat \<Rightarrow> opcode \<Rightarrow> u8 list \<Rightarrow> bool" where
  "check_budget psi i b opc cs \<longleftrightarrow> opc = OP_HALT \<or>
     list_all (\<lambda>j. case map_of psi j of None \<Rightarrow> False | Some (c, _) \<Rightarrow> c \<le> b)
       (successors opc i (u16_of_bytes (take (operand_size opc) cs)))"

definition verify_crew :: "u8 list \<Rightarrow> nat \<Rightarrow> crew_typing \<Rightarrow> bool" where
  "verify_crew prog cap psi \<longleftrightarrow> length prog < 65536
     \<and> list_all (\<lambda>(i, b, ts). case drop i prog of
          [] \<Rightarrow> False
        | op # cs \<Rightarrow> (case opcode_of op of
            None \<Rightarrow> False
          | Some opc \<Rightarrow> if opc = OP_ASYNC_CALL then check_create psi i b ts cs
              else check_instr prog cap (types_of psi) i ts \<and> check_budget psi i b opc cs)) psi"

lemma verify_crewE:
  assumes "verify_crew prog cap psi" and "map_of psi i = Some (b, ts)"
  obtains op cs opc where "drop i prog = op # cs" "opcode_of op = Some opc"
    "if opc = OP_ASYNC_CALL then check_create psi i b ts cs
     else check_instr prog cap (types_of psi) i ts \<and> check_budget psi i b opc cs"
proof -
  let ?ok = "\<lambda>opc cs. if opc = OP_ASYNC_CALL then check_create psi i b ts cs
     else check_instr prog cap (types_of psi) i ts \<and> check_budget psi i b opc cs"
  have "case drop i prog of [] \<Rightarrow> False | op # cs \<Rightarrow>
      (case opcode_of op of None \<Rightarrow> False | Some opc \<Rightarrow> ?ok opc cs)"
    using assms(1) map_of_SomeD [OF assms(2)] by (auto simp only: verify_crew_def list_all_iff split: prod.splits)
  then show ?thesis by (auto split: list.split_asm option.split_asm intro: that)
qed

lemma map_of_types: "map_of (types_of psi) i = map_option snd (map_of psi i)"
  by (induction psi) (auto simp: types_of_def fun_upd_apply)

text \<open>The tasks of such a program.\<close>

definition crew_typed :: "u8 list \<Rightarrow> crew_typing \<Rightarrow> nat \<Rightarrow> vm \<Rightarrow> bool" where
  "crew_typed prog psi b v \<longleftrightarrow> verify_crew prog 1024 psi
     \<and> (\<exists>ts. map_of psi (unat (v_ip v)) = Some (b, ts) \<and> vm_typed prog 1024 ts (v_ip v) v)"

definition good_end :: "stop \<Rightarrow> bool" where
  "good_end w \<longleftrightarrow> arithmetic_fault w \<or> w = ExitSuccess"

lemma crew_typed_creates:
  assumes "vm_typed prog 1024 ts (v_ip v) v" and "verify_crew prog 1024 psi" and "drop (unat (v_ip v)) prog = op # cs"
    and "opcode_of op = Some OP_ASYNC_CALL" and "check_create psi (unat (v_ip v)) b ts cs"
  shows "creates (crew_typed prog psi) b v"
proof -
  let ?i = "v_ip v" and ?a = "u16_of_bytes (take 2 cs)"
  obtain us c d where t: "ts = TWord # us" "map_of psi (unat ?a) = Some (d, [])"
      "map_of psi (unat ?i + 3) = Some (c, us)" "c + d < b" "2 \<le> length cs"
    using assms(5) by (cases ts) (auto simp: check_create_def split: option.splits)
  have v: "v_prog v = prog" "v_ops_size v = 1024" "shape (TWord # us) (v_ops v)"
    using assms(1) t(1) by (simp_all add: vm_typed_def)
  obtain xs w where w: "v_ops v = xs @ rev w" "has_ty TWord w" "shape us xs" using v(3) by (rule shape_pop)
  have len: "length w = 2" using has_ty_length [OF w(2)] by simp
  have "unat ?i + length (op # cs) = length prog"
    using arg_cong [OF assms(3), of length] by simp
  then have "unat ?i + 3 < 65536" using assms(2) t(5) by (simp add: verify_crew_def)
  then have i: "unat (?i + 1) = unat ?i + 1" "unat (?i + 3) = unat ?i + 3"
    using unat_u16_add [of ?i 1] unat_u16_add [of ?i 3] by simp_all
  let ?u = "v\<lparr>v_ip := ?i + 1\<rparr>" and ?w = "v\<lparr>v_ip := ?i + 3\<rparr>"
  let ?x = "?w\<lparr>v_ops := xs\<rparr>"
  let ?y = "?x\<lparr>v_memory := v_memory ?x + 5264\<rparr>"
  have "drop (unat ?i + 1) prog = cs" using assms(3) by (simp add: drop_Suc drop_tl)
  then have "a_fetch_u16 ?u = Inr (?a, ?w)"
    using t(5) i(1) v(1) by (auto simp: a_fetch_u16_def a_fetch_def st_simps)
  moreover have "a_fetch 1 v = Inr ([op], ?u)" using assms(3) v(1) by (simp add: a_fetch_def st_simps)
  moreover have "a_pop_u16 ?w = Inr (u16_of_bytes w, ?x)"
    using w(1) len by (simp add: a_pop_u16_def a_pop_def st_simps)
  moreover have "crew_typed prog psi c ?y"
    using assms(2) t(3) i(2) v w(3) by (simp add: crew_typed_def vm_typed_def)
  moreover have "crew_typed prog psi d (new_vm ?a ?y)"
    using assms(2) t(2) v by (simp add: crew_typed_def vm_typed_def new_vm_def)
  ultimately show ?thesis using assms(4) t(4) unfolding creates_def by blast
qed

lemma crew_typed_step:
  assumes "vm_typed prog 1024 ts (v_ip v) v" and "verify_crew prog 1024 psi" and "drop (unat (v_ip v)) prog = op # cs"
    and "opcode_of op = Some opc" and "check_instr prog 1024 (types_of psi) (unat (v_ip v)) ts"
    and "check_budget psi (unat (v_ip v)) b opc cs"
  shows "case a_step v of Inl (w, _) \<Rightarrow> good_end w | Inr (_, u) \<Rightarrow> \<exists>c \<le> b. crew_typed prog psi c u"
proof -
  let ?i = "v_ip v" and ?u = "v\<lparr>v_ip := v_ip v + 1\<rparr>"
  have v: "v_prog v = prog" using assms(1) by (simp add: vm_typed_def)
  have "a_fetch 1 v = Inr ([op], ?u)" using assms(3) v by (simp add: a_fetch_def st_simps)
  then have run: "a_step v = a_exec opc ?u" using assms(4) by (simp add: a_step_def st_simps)
  from assms(5) show ?thesis
  proof (cases rule: check_instrE)
    case (1 o' cs')
    then have "opc = OP_HALT" using assms(3,4) by simp
    then show ?thesis by (simp add: run a_exec_def st_simps good_end_def)
  next
    case (2 o' bs cs' opc' args res us)
    then have opc: "opc' = opc" and cs: "cs = bs @ cs'" using assms(3,4) by auto
    have len: "unat ?i + length (op # cs) = length prog"
      using arg_cong [OF assms(3), of length] by simp
    then have small: "unat ?i + 1 + operand_size opc < 65536"
      using assms(2) 2(3) opc cs by (simp add: verify_crew_def)
    then have i: "unat (?i + 1) = unat ?i + 1" using unat_u16_add [of ?i 1] by simp
    have "drop (unat (?i + 1)) prog = bs @ cs'" using assms(3) i cs by (simp add: drop_Suc drop_tl)
    moreover have "vm_typed prog 1024 (args @ us) (?i + 1) ?u" using vm_updates(1) [OF assms(1)] 2(5) by simp
    ultimately obtain j where j: "j \<in> set (targets opc (?i + 1) (u16_of_bytes bs))"
        "vm_yields prog 1024 (res @ us) j (a_exec opc ?u)"
      using vm_signature [of prog 1024 args us "?i + 1" ?u opc res bs cs'] 2 opc by auto
    from successors_targets [OF j(1) small] have j': "unat j \<in> set (successors opc (unat ?i) (u16_of_bytes bs))" .
    have "opc \<noteq> OP_HALT" using 2(4) opc by (auto simp: signature_def alu_ty_def alu_def)
    then obtain c ts' where c: "map_of psi (unat j) = Some (c, ts')" "c \<le> b"
      using assms(6) j' 2(3) opc cs by (auto simp: check_budget_def list_all_iff split: option.splits)
    have "map_of (types_of psi) (unat j) = Some (res @ us)" using 2(8) j' opc by blast
    then have "ts' = res @ us" using c(1) by (simp add: map_of_types)
    with j(2) c assms(2) show ?thesis
      by (auto simp: run vm_yields_def good_end_def crew_typed_def vm_typed_def split: sum.splits)
  qed
qed

interpretation typed: task_code "crew_typed prog psi" good_end for prog psi
proof unfold_locales
  fix b v assume "crew_typed prog psi b v"
  then obtain ts where ts: "map_of psi (unat (v_ip v)) = Some (b, ts)" "vm_typed prog 1024 ts (v_ip v) v"
      "verify_crew prog 1024 psi" by (auto simp: crew_typed_def)
  from verify_crewE [OF ts(3,1)] obtain op cs opc where op: "drop (unat (v_ip v)) prog = op # cs" "opcode_of op = Some opc"
      "if opc = OP_ASYNC_CALL then check_create psi (unat (v_ip v)) b ts cs
       else check_instr prog 1024 (types_of psi) (unat (v_ip v)) ts \<and> check_budget psi (unat (v_ip v)) b opc cs" .
  show "creates (crew_typed prog psi) b v \<or>
      (case a_step v of Inl (w, _) \<Rightarrow> good_end w | Inr (_, u) \<Rightarrow> \<exists>c \<le> b. crew_typed prog psi c u)"
    using crew_typed_creates [OF ts(2,3) op(1)] crew_typed_step [OF ts(2,3) op(1,2)] op(2,3)
    by (cases "opc = OP_ASYNC_CALL") simp_all
next
  fix b c v w assume "crew_typed prog psi c w"
  then show "crew_typed prog psi c (hand_over v w)" by (simp add: crew_typed_def vm_typed_def hand_over_def)
qed (simp add: good_end_def arithmetic_fault_def image_iff)

section \<open>Property\<close>

text \<open>C4: verified programs that create tasks are safe. Take any program that the verifier accepts
  with an empty operand stack and a budget of at most four tasks at address 0, and the whole
  machine: \<open>main\<close> is run with this program, while no message arrives, whatever the clock says
  and however the floating point operations of the host behave. Then after any number of
  rounds of the scheduler the machine is still running, with no more tasks than the budget
  allows, the last of them at an address the verifier knows and with operands of the types it
  computed for this address; or it has stopped, by a \<open>HALT\<close> of one of its tasks or by one of the
  three arithmetic operations that C leaves undefined. No task makes an operand stack
  overflow or underflow, leaves the program, reads a byte as a bool that is none, or is
  refused: a task that is created beyond the fifth would leave the handler's address on the
  operand stack of its creator, so that the types behind the instruction depended on the
  number of tasks.\<close>

theorem verified_crew_is_safe:
  fixes s :: cpu
  assumes "verify_crew prog 1024 psi" and "map_of psi 0 = Some (b, [])" and "b \<le> 4"
    and "length prog = unat n" and "power_on s" and "network_up s" and "env_accept s = (\<lambda>_. WouldBlock)" and "10 \<le> fuel"
  shows "case vm_main prog n d fuel (Suc rounds) s of
      Inl (w, _) \<Rightarrow> arithmetic_fault w \<or> w = ExitSuccess
    | Inr (_, t) \<Rightarrow> cpu_tasks_number t \<le> of_nat b
        \<and> (\<exists>c ts. map_of psi (unat (cpu_ip t)) = Some (c, ts) \<and> shape ts (operands t))"
proof -
  have "typed.crew_fine prog psi (Suc b) (x_start prog d s)"
    using assms(1-3)
    by (auto simp: typed.crew_fine_def x_start_def crew_typed_def vm_typed_def a_start_def now_task_def intro!: exI [of _ "[b]"])
  note fine = typed.fine_rounds [OF this, of "Suc rounds"]
  note run = crew_whole_run [where rounds = rounds and d = d, OF assms(4-8)]
  show ?thesis
  proof (cases "x_rounds (Suc rounds) (x_start prog d s)")
    case (Inl r)
    then obtain w x where x: "x_rounds (Suc rounds) (x_start prog d s) = Inl (w, x)" by (cases r) simp
    with fine have "good_end w" by simp
    moreover from this have "w \<noteq> OutOfFuel" using typed.fuel by auto
    ultimately show ?thesis using run x by (auto simp: good_end_def)
  next
    case (Inr r)
    then obtain x where x: "x_rounds (Suc rounds) (x_start prog d s) = Inr ((), x)" by (cases r) simp
    with fine obtain bs where bs: "list_all2 (crew_typed prog psi) bs (map (hand_over (now_task x)) (x_tasks x))"
        "x_now x < length (x_tasks x)" "length (x_tasks x) \<le> Suc b" by (auto simp: typed.crew_fine_def)
    from typed.fine_now [OF bs(1,2)] have "crew_typed prog psi (bs ! x_now x) (now_task x)" by (simp flip: now_task_def)
    then have "\<exists>c ts. map_of psi (unat (v_ip (now_task x))) = Some (c, ts) \<and> shape ts (v_ops (now_task x))"
      by (auto simp: crew_typed_def vm_typed_def)
    moreover have "(of_nat (length (x_tasks x) - 1) :: u16) \<le> of_nat b"
      using bs(3) assms(3) by (simp add: word_le_nat_alt unat_of_nat)
    ultimately show ?thesis using run x by auto
  qed
qed

text \<open>The first task creates a second one and loops; the second one prints 7 for ever.\<close>

definition demo_pair :: "u8 list" where
  "demo_pair = [14, 0, 0, 12, 9, 0, 2, 6, 0, 14, 7, 0, 16, 15, 2, 9, 0]"

definition demo_pair_typing :: crew_typing where
  "demo_pair_typing = [(0, 1, []), (3, 1, [TWord]), (6, 0, []), (9, 0, []), (12, 0, [TWord]), (13, 0, [TWord]), (14, 0, [])]"

theorem verified_crew_is_safe_witness:
  "case vm_main demo_pair 17 17 10 1000 (blank_cpu 3) of
      Inl (w, _) \<Rightarrow> arithmetic_fault w \<or> w = ExitSuccess
    | Inr (_, t) \<Rightarrow> cpu_tasks_number t \<le> 1
        \<and> (\<exists>c ts. map_of demo_pair_typing (unat (cpu_ip t)) = Some (c, ts) \<and> shape ts (operands t))"
proof -
  have ops: "opcode_of 12 = Some OP_ASYNC_CALL" "opcode_of 15 = Some OP_POP_U16" "opcode_of 16 = Some OP_TOP_U16"
    by (simp_all add: opcode_of_def nth_opt_def opcodes_def)
  have v: "verify_crew demo_pair 1024 demo_pair_typing"
    by (simp add: verify_crew_def demo_pair_def demo_pair_typing_def check_instr_def check_budget_def check_create_def
        types_of_def opcode_of_control ops signature_def operand_size_def operand_ok_def successors_def
        u16_of_bytes_def fun_upd_apply flip: numeral_3_eq_3)
  have h: "map_of demo_pair_typing 0 = Some (1, [])" "(1 :: nat) \<le> 4" "length demo_pair = unat (17 :: u16)"
    "power_on (blank_cpu 3)" "network_up (blank_cpu 3)" "env_accept (blank_cpu 3) = (\<lambda>_. WouldBlock)" "(10 :: nat) \<le> 10"
    by (simp_all add: demo_pair_def demo_pair_typing_def blank_cpu_def demo_cpu_def power_on_def network_up_def)
  have n: "Suc 999 = 1000" "of_nat 1 = (1 :: u16)" by simp_all
  show ?thesis using verified_crew_is_safe [OF v h, of 17 999] unfolding n .
qed

end
