(* ===== verification/Sample_Tasks.thy ===== *)
theory Sample_Tasks
  imports Sample_Source Crew_Safe
begin

text \<open>
  A sample program with several tasks, src/programs/async_tasks_server.rfl, from its text and
  the texts of the files it includes to its runs. Its main task creates two tasks, which loop,
  and then reports the memory usage and waits, again and again.
\<close>

section \<open>The texts and the code\<close>

definition server_source :: "string list" where
  "server_source =
  [''#include delay.rfl\<newline>'',
   ''#include memory_usage.rfl\<newline>'',
   ''\<newline>'',
   ''CONST t1 STRING '' @ [CHR 0x22] @ ''task 1 received message'' @ [CHR 0x5C] @ ''n'' @ [CHR 0x22] @ ''\<newline>'',
   ''CONST t2 STRING '' @ [CHR 0x22] @ ''task 2 received message'' @ [CHR 0x5C] @ ''n'' @ [CHR 0x22] @ ''\<newline>'',
   ''\<newline>'',
   ''fn .main\<newline>'',
   ''    PUSHL_U16 .message_handler_1     ; task message handler\<newline>'',
   ''    ASYNC_CALL .task_1\<newline>'',
   ''    PUSHL_U16 .message_handler_2     ; task message handler\<newline>'',
   ''    ASYNC_CALL .task_2\<newline>'',
   ''    .loop\<newline>'',
   ''    CALL .print_memory_usage\<newline>'',
   ''    PUSHL_U16 1000\<newline>'',
   ''    CALL .delay_ms\<newline>'',
   ''    JUMP .loop\<newline>'',
   ''\<newline>'',
   ''fn .task_1\<newline>'',
   ''    .t1_loop\<newline>'',
   ''    JUMP .t1_loop\<newline>'',
   ''\<newline>'',
   ''fn .message_handler_1\<newline>'',
   ''    PUSHL_U16 $t1\<newline>'',
   ''    SYSCALL 0\<newline>'',
   ''    RETURN\<newline>'',
   ''\<newline>'',
   ''fn .task_2\<newline>'',
   ''    .t2_loop\<newline>'',
   ''    JUMP .t2_loop\<newline>'',
   ''\<newline>'',
   ''fn .message_handler_2\<newline>'',
   ''    PUSHL_U16 $t2\<newline>'',
   ''    SYSCALL 0\<newline>'',
   ''    RETURN'']"

definition delay_source :: "string list" where
  "delay_source =
  [''; Delay module. Cannot be compiled, only imported\<newline>'',
   ''\<newline>'',
   ''; delay milliseconds\<newline>'',
   ''; - param: ms (U16)\<newline>'',
   ''\<newline>'',
   ''fn .delay_ms\<newline>'',
   ''    PUSHL_U16 2\<newline>'',
   ''    ALLOC_LOCAL $ms\<newline>'',
   ''    PUSHL_U16 2\<newline>'',
   ''    PUSHL_U16 $ms\<newline>'',
   ''    POP_LOCAL\<newline>'',
   ''    PUSH_MILLIS\<newline>'',
   ''    PUSHL_U16 2\<newline>'',
   ''    ALLOC_LOCAL $current_millis\<newline>'',
   ''    PUSHL_U16 2\<newline>'',
   ''    PUSHL_U16 $current_millis\<newline>'',
   ''    POP_LOCAL\<newline>'',
   ''    .loop_delay\<newline>'',
   ''        PUSH_MILLIS\<newline>'',
   ''        PUSHL_U16 2\<newline>'',
   ''        PUSHL_U16 $current_millis\<newline>'',
   ''        PUSH_LOCAL\<newline>'',
   ''        SUB_U16\<newline>'',
   ''        PUSHL_U16 2\<newline>'',
   ''        PUSHL_U16 $ms\<newline>'',
   ''        PUSH_LOCAL\<newline>'',
   ''        COMPARE_GT\<newline>'',
   ''        POP_JUMP_IF_FALSE .loop_delay\<newline>'',
   ''        RETURN'']"

definition usage_source :: "string list" where
  "usage_source =
  [''; Memory usage module. Cannot be compiled, only imported\<newline>'',
   ''\<newline>'',
   ''CONST message STRING '' @ [CHR 0x22] @ ''memory usage: %u bytes'' @ [CHR 0x5C] @ ''n'' @ [CHR 0x22] @ ''\<newline>'',
   ''\<newline>'',
   ''fn .print_memory_usage\<newline>'',
   ''    SYSCALL 4\<newline>'',
   ''    PUSHL_U16 $message\<newline>'',
   ''    SYSCALL 0\<newline>'',
   ''    RETURN\<newline>'']"

definition server_code :: "u8 list" where
  "server_code =
    [9, 62, 0, 0,
     14, 2, 0, 23, 0, 0, 14, 2, 0, 14, 0, 0, 25, 44, 14, 2, 0, 23, 2, 0, 14, 2, 0, 14, 2, 0, 25,
     44, 14, 2, 0, 14, 2, 0, 24, 18, 14, 2, 0, 14, 0, 0, 24, 6, 3, 31, 0, 10,
     11, 4, 0, 14, 3, 0, 11, 0, 0, 10,
     14, 89, 0, 12, 86, 0, 14, 99, 0, 12, 96, 0,
     9, 52, 0, 14, 232, 3, 9, 4, 0, 2, 74, 0,
     2, 86, 0,
     14, 27, 0, 11, 0, 0, 10,
     2, 96, 0,
     14, 52, 0, 11, 0, 0, 10,
     109, 101, 109, 111, 114, 121, 32, 117, 115, 97, 103, 101, 58, 32, 37, 117, 32, 98, 121, 116, 101, 115, 10, 0,
     116, 97, 115, 107, 32, 49, 32, 114, 101, 99, 101, 105, 118, 101, 100, 32, 109, 101, 115, 115, 97, 103, 101, 10, 0,
     116, 97, 115, 107, 32, 50, 32, 114, 101, 99, 101, 105, 118, 101, 100, 32, 109, 101, 115, 115, 97, 103, 101, 10, 0]"

section \<open>More instructions on words\<close>

lemma more_opcode_numbers:
  "opcode_number OP_JUMP = 2" "opcode_number OP_ASYNC_CALL = 12" "opcode_number OP_SUB_U16 = 18"
  "opcode_number OP_PUSH_MILLIS = 44"
  by (simp_all add: opcode_number_def opcodes_def)

lemma run_jump:
  assumes "op_at v i OP_JUMP" and "0 < k" and "fits v (i + 3)"
  shows "a_run k (word_state v i ws xs fs) = a_run (k - 1) (word_state v (unat (u16_at v (i + 1))) ws xs fs)"
proof -
  have fits: "fits v (i + 1)" "fits v (i + 1 + 2)" using assms(3) by (auto simp: fits_def)
  have "a_goto a (word_state v j ws xs fs) = Inr ((), word_state v (unat a) ws xs fs)" for a j
    by (simp add: a_goto_def st_simps word_state_def)
  with fits assms fetch_u16_word_state [OF fits(2), of ws xs fs] show ?thesis
    by (simp add: run_op a_exec_def st_simps)
qed

lemma run_subtract:
  assumes "op_at v i OP_SUB_U16" and "0 < k" and "fits v (i + 1)" and "room v ws"
  shows "a_run k (word_state v i (b # a # ws) xs fs) = a_run (k - 1) (word_state v (i + 1) ((a - b) # ws) xs fs)"
  using assms(1-4) by (rule run_alu) (simp_all add: alu_def a_exec_def)

definition ticked :: "vm \<Rightarrow> vm" where
  "ticked v = v\<lparr>v_clock := Suc (v_clock v)\<rparr>"

lemma run_millis:
  assumes "op_at v i OP_PUSH_MILLIS" and "0 < k" and "fits v (i + 1)" and "room v ws"
  shows "\<exists>t. a_run k (word_state v i ws xs fs) = a_run (k - 1) (word_state (ticked v) (i + 1) (t # ws) xs fs)"
proof -
  have "word_state (ticked v) j vs xs fs = (word_state v j vs xs fs)\<lparr>v_clock := Suc (v_clock v)\<rparr>" for j vs
    by (simp add: word_state_def ticked_def)
  moreover have "v_clock (word_state v j vs xs fs) = v_clock v" for j vs by (simp add: word_state_def)
  moreover have "room (ticked v) ws" using assms(4) by (simp add: room_def ticked_def)
  ultimately show ?thesis
    using push_word_state(1) [of "ticked v" ws _ "i + 1" xs fs] assms(1-3)
    by (auto simp: run_op a_exec_def a_millis_def st_simps)
qed

lemma run_usage:
  assumes "op_at v i OP_SYSCALL" and "0 < k" and "fits v (i + 3)" and "u16_at v (i + 1) = 4" and "room v ws"
  shows "a_run k (word_state v i ws xs fs) = a_run (k - 1) (word_state v (i + 3) (v_memory v # ws) xs fs)"
proof -
  have fits: "fits v (i + 1)" "fits v (i + 1 + 2)" using assms(3) by (auto simp: fits_def)
  have "v_memory (word_state v j ws xs fs) = v_memory v" for j by (simp add: word_state_def)
  with fits assms fetch_u16_word_state [OF fits(2), of ws xs fs] push_word_state(1) [OF assms(5), of "v_memory v" "i + 3" xs fs]
  show ?thesis by (simp add: run_op a_exec_def st_simps a_syscall_def numeral_3_eq_3)
qed

section \<open>The states of its tasks\<close>

definition usage_report :: "u16 \<Rightarrow> event list" where
  "usage_report m = map (\<lambda>c. Printf ''%c'' [AInt (of_char c)]) ''memory usage: ''
     @ [Printf ''%hu'' [AInt (uint m)]] @ map (\<lambda>c. Printf ''%c'' [AInt (of_char c)]) '' bytes\<newline>''"

text \<open>What the tasks share: the memory counter is \<open>m\<close>, and behind \<open>es\<close> the output is reports.\<close>

definition on_duty :: "event list \<Rightarrow> u16 \<Rightarrow> vm \<Rightarrow> bool" where
  "on_duty es m v \<longleftrightarrow> loaded server_code 106 v \<and> v_memory v = m
     \<and> (\<exists>k. v_out v = es @ concat (replicate k (usage_report m)))"

text \<open>All the states between two instructions, of the two loops and of the main task from its
  \<open>.loop\<close> on. \<open>r\<close> and \<open>t\<close> are readings of the clock.\<close>

inductive serves :: "event list \<Rightarrow> u16 \<Rightarrow> vm \<Rightarrow> bool" for es m where
  task_1: "on_duty es m v \<Longrightarrow> serves es m (word_state v 86 [] [] [])"
| task_2: "on_duty es m v \<Longrightarrow> serves es m (word_state v 96 [] [] [])"
| loop: "on_duty es m v \<Longrightarrow> serves es m (word_state v 74 [] [] [(3, [])])"
| usage: "on_duty es m v \<Longrightarrow> serves es m (word_state v 52 [] [] [(77, []), (3, [])])"
| usage_text: "on_duty es m v \<Longrightarrow> serves es m (word_state v 55 [m] [] [(77, []), (3, [])])"
| usage_print: "on_duty es m v \<Longrightarrow> serves es m (word_state v 58 [3, m] [] [(77, []), (3, [])])"
| usage_return: "on_duty es m v \<Longrightarrow> serves es m (word_state v 61 [] [] [(77, []), (3, [])])"
| after_usage: "on_duty es m v \<Longrightarrow> serves es m (word_state v 77 [] [] [(3, [])])"
| call_delay: "on_duty es m v \<Longrightarrow> serves es m (word_state v 80 [1000] [] [(3, [])])"
| delay: "on_duty es m v \<Longrightarrow> serves es m (word_state v 4 [1000] [] [(83, []), (3, [])])"
| delay_7: "on_duty es m v \<Longrightarrow> serves es m (word_state v 7 [2, 1000] [] [(83, []), (3, [])])"
| delay_10: "on_duty es m v \<Longrightarrow> serves es m (word_state v 10 [1000] [None] [(83, []), (3, [])])"
| delay_13: "on_duty es m v \<Longrightarrow> serves es m (word_state v 13 [2, 1000] [None] [(83, []), (3, [])])"
| delay_16: "on_duty es m v \<Longrightarrow> serves es m (word_state v 16 [0, 2, 1000] [None] [(83, []), (3, [])])"
| delay_17: "on_duty es m v \<Longrightarrow> serves es m (word_state v 17 [] [Some 1000] [(83, []), (3, [])])"
| delay_18: "on_duty es m v \<Longrightarrow> serves es m (word_state v 18 [r] [Some 1000] [(83, []), (3, [])])"
| delay_21: "on_duty es m v \<Longrightarrow> serves es m (word_state v 21 [2, r] [Some 1000] [(83, []), (3, [])])"
| delay_24: "on_duty es m v \<Longrightarrow> serves es m (word_state v 24 [r] [Some 1000, None] [(83, []), (3, [])])"
| delay_27: "on_duty es m v \<Longrightarrow> serves es m (word_state v 27 [2, r] [Some 1000, None] [(83, []), (3, [])])"
| delay_30: "on_duty es m v \<Longrightarrow> serves es m (word_state v 30 [2, 2, r] [Some 1000, None] [(83, []), (3, [])])"
| poll: "on_duty es m v \<Longrightarrow> serves es m (word_state v 31 [] [Some 1000, Some r] [(83, []), (3, [])])"
| poll_32: "on_duty es m v \<Longrightarrow> serves es m (word_state v 32 [t] [Some 1000, Some r] [(83, []), (3, [])])"
| poll_35: "on_duty es m v \<Longrightarrow> serves es m (word_state v 35 [2, t] [Some 1000, Some r] [(83, []), (3, [])])"
| poll_38: "on_duty es m v \<Longrightarrow> serves es m (word_state v 38 [2, 2, t] [Some 1000, Some r] [(83, []), (3, [])])"
| poll_39: "on_duty es m v \<Longrightarrow> serves es m (word_state v 39 [r, t] [Some 1000, Some r] [(83, []), (3, [])])"
| poll_40: "on_duty es m v \<Longrightarrow> serves es m (word_state v 40 [t] [Some 1000, Some r] [(83, []), (3, [])])"
| poll_43: "on_duty es m v \<Longrightarrow> serves es m (word_state v 43 [2, t] [Some 1000, Some r] [(83, []), (3, [])])"
| poll_46: "on_duty es m v \<Longrightarrow> serves es m (word_state v 46 [0, 2, t] [Some 1000, Some r] [(83, []), (3, [])])"
| poll_47: "on_duty es m v \<Longrightarrow> serves es m (word_state v 47 [1000, t] [Some 1000, Some r] [(83, []), (3, [])])"
| delay_return: "on_duty es m v \<Longrightarrow> serves es m (word_state v 51 [] [Some 1000, Some r] [(83, []), (3, [])])"
| again: "on_duty es m v \<Longrightarrow> serves es m (word_state v 83 [] [] [(3, [])])"
| poll_48: "on_duty es m v \<Longrightarrow> serves es m (flag_state v 48 c [] [Some 1000, Some r] [(83, []), (3, [])])"

lemma length_server_code [simp]: "length server_code = 180"
  by (simp add: server_code_def)

lemma on_duty_ticked [simp]: "on_duty es m (ticked v) = on_duty es m v"
  by (simp add: on_duty_def loaded_def ticked_def)

lemma on_duty_said [simp]: "on_duty es m v \<Longrightarrow> on_duty es m (said v (usage_report m))"
proof -
  assume "on_duty es m v"
  then obtain k where "loaded server_code 106 v" "v_memory v = m" "v_out v = es @ concat (replicate k (usage_report m))"
    by (auto simp: on_duty_def)
  moreover have "concat (replicate k xs) @ xs = concat (replicate (Suc k) xs)" for xs :: "event list"
    by (induction k) simp_all
  ultimately show "on_duty es m (said v (usage_report m))"
    by (auto simp: on_duty_def said_def loaded_def intro: exI [of _ "Suc k"])
qed

lemma usage_prints:
  "a_format (drop 106 server_code) (word_state v i (m # ws) xs fs)
    = Inr ((), word_state (said v (usage_report m)) i ws xs fs)"
  by (simp add: server_code_def a_conversion_def st_simps pop_u16_word_state usage_report_def)

lemma on_dutyD:
  assumes "on_duty es m v"
  shows "v_prog v = server_code" "v_data v = 106" "v_ops v = []" "v_callers v = []" "v_ops_size v = 1024" "v_calls_size v = 4096"
    "v_memory v = m"
  using assms by (simp_all add: on_duty_def loaded_def)

lemma one_second: "u16_of_bytes [232, 3] = 1000"
  by (simp add: u16_of_bytes_def)

lemmas server_steps = execution run_jump run_subtract more_opcode_numbers server_code_def one_second st_simps

text \<open>The report, instruction by instruction.\<close>

lemma usage_steps:
  assumes "on_duty es m v" and "0 < k"
  shows "a_run k (word_state v 52 [] [] [(77, []), (3, [])]) = a_run (k - 1) (word_state v 55 [m] [] [(77, []), (3, [])])"
    and "a_run k (word_state v 58 [3, m] [] [(77, []), (3, [])])
      = a_run (k - 1) (word_state (said v (usage_report m)) 61 [] [] [(77, []), (3, [])])"
proof -
  note v = on_dutyD [OF assms(1)]
  show "a_run k (word_state v 52 [] [] [(77, []), (3, [])]) = a_run (k - 1) (word_state v 55 [m] [] [(77, []), (3, [])])"
    using run_usage [of v 52 k "[]" "[]"] assms(2) v by (simp del: a_run.simps add: server_steps)
  show "a_run k (word_state v 58 [3, m] [] [(77, []), (3, [])])
      = a_run (k - 1) (word_state (said v (usage_report m)) 61 [] [] [(77, []), (3, [])])"
    by (rule run_print [where cs = "drop 106 server_code" and j = 61, OF _ _ _ _ _ trans [OF _ usage_prints]])
      (use assms(2) v in \<open>simp_all add: server_steps program_suffix_def\<close>)
qed

lemma serves_step:
  assumes "serves es m v"
  shows "\<exists>w. a_run 1 v = Inr ((), w) \<and> serves es m w"
  using assms
proof (cases rule: serves.cases)
  case (usage v)
  with usage_steps(1) [of es m v 1] show ?thesis by (simp del: a_run.simps(2)) (simp add: st_simps serves.usage_text)
next
  case (usage_print v)
  with usage_steps(2) [of es m v 1] show ?thesis by (simp del: a_run.simps(2)) (simp add: st_simps serves.usage_return)
next
  case (delay_17 v)
  then obtain t where "a_run 1 (word_state v 17 [] [Some 1000] [(83, []), (3, [])])
      = a_run 0 (word_state (ticked v) 18 [t] [Some 1000] [(83, []), (3, [])])"
    using run_millis [of v 17 1 "[]" "[Some 1000]"] by (auto simp del: a_run.simps simp add: server_steps on_dutyD)
  with delay_17 show ?thesis by (simp add: st_simps serves.delay_18)
next
  case (poll v r)
  then obtain t where "a_run 1 (word_state v 31 [] [Some 1000, Some r] [(83, []), (3, [])])
      = a_run 0 (word_state (ticked v) 32 [t] [Some 1000, Some r] [(83, []), (3, [])])"
    using run_millis [of v 31 1 "[]" "[Some 1000, Some r]"] by (auto simp del: a_run.simps simp add: server_steps on_dutyD)
  with poll show ?thesis by (simp add: st_simps serves.poll_32)
next
  case (poll_48 v c r)
  then have "a_run 1 (flag_state v 48 c [] [Some 1000, Some r] [(83, []), (3, [])])
      = a_run 0 (word_state v (if c then 51 else 31) [] [Some 1000, Some r] [(83, []), (3, [])])"
    by (simp del: a_run.simps add: server_steps on_dutyD)
  with poll_48 show ?thesis by (auto simp: st_simps intro: serves.poll serves.delay_return)
qed (simp del: a_run.simps(2) add: server_steps on_dutyD, (intro serves.intros, assumption)?)+

lemma hand_over_states:
  "hand_over v (word_state u i ws xs fs) = word_state (hand_over v u) i ws xs fs"
  "hand_over v (flag_state u i c ws xs fs) = flag_state (hand_over v u) i c ws xs fs"
  by (simp_all add: hand_over_def word_state_def flag_state_def)

lemma serves_shares:
  assumes "serves es m v"
  shows "v_memory v = m" and "\<exists>k. v_out v = es @ concat (replicate k (usage_report m))"
  using assms by (auto simp: on_duty_def word_state_def flag_state_def elim!: serves.cases)

text \<open>A task that gets what a task in order hands over is in order.\<close>

lemma serves_handed:
  assumes "v_memory v = m" and "v_out v = es @ concat (replicate k (usage_report m))"
  shows "loaded server_code 106 u \<Longrightarrow> on_duty es m (hand_over v u)"
    and "serves es' m' w \<Longrightarrow> m' = m \<Longrightarrow> serves es m (hand_over v w)"
proof -
  show duty: "loaded server_code 106 u \<Longrightarrow> on_duty es m (hand_over v u)" for u
    using assms by (auto simp: on_duty_def loaded_def hand_over_def)
  assume "serves es' m' w" "m' = m"
  then show "serves es m (hand_over v w)"
    by (auto simp: hand_over_states on_duty_def [of es'] elim!: serves.cases intro!: serves.intros duty)
qed

interpretation server: task_code "\<lambda>b v. serves es m v" "\<lambda>_. False" for es m
proof unfold_locales
  fix b :: nat and v assume "serves es m v"
  then obtain w where w: "a_run 1 v = Inr ((), w)" "serves es m w" using serves_step by blast
  then have "a_step v = Inr ((), w)" by (auto simp: st_simps split: sum.splits)
  with w(2) show "creates (\<lambda>b v. serves es m v) b v \<or>
      (case a_step v of Inl (w, _) \<Rightarrow> False | Inr (_, u) \<Rightarrow> \<exists>c \<le> b. serves es m u)" by auto
next
  fix v w assume "serves es m v" "serves es m w"
  with serves_shares [of es m v] serves_handed(2) show "serves es m (hand_over v w)" by blast
qed simp

section \<open>From the text to the code\<close>

lemma process_includes_plain:
  "list_all (\<lambda>line. \<not> starts_with ''#include'' line) lines \<Longrightarrow> process_includes read base n included lines = Inr (lines, included)"
  by (induction lines) simp_all

lemma process_include:
  assumes "starts_with ''#include'' line" and "split_words line = [x, file]" and "base @ ''/'' @ strip_line file \<notin> set included"
    and "read (base @ ''/'' @ strip_line file) = Some xs" and "list_all (\<lambda>line. \<not> starts_with ''#include'' line) xs"
    and "process_includes read base (Suc n) ((base @ ''/'' @ strip_line file) # included) lines = Inr (ys, zs)"
  shows "process_includes read base (Suc n) included (line # lines) = Inr (xs @ ys, zs)"
  using assms by (simp add: process_includes_plain Let_def)

lemma server_includes:
  assumes "read (base @ ''/delay.rfl'') = Some delay_source" and "read (base @ ''/memory_usage.rfl'') = Some usage_source"
  shows "\<exists>zs. process_includes read base (Suc n) [] server_source = Inr (delay_source @ usage_source @ drop 2 server_source, zs)"
proof -
  have plain: "list_all (\<lambda>line. \<not> starts_with ''#include'' line) (drop 2 server_source)"
    "list_all (\<lambda>line. \<not> starts_with ''#include'' line) delay_source"
    "list_all (\<lambda>line. \<not> starts_with ''#include'' line) usage_source"
    unfolding server_source_def delay_source_def usage_source_def by code_simp+
  have lines: "server_source = ''#include delay.rfl\<newline>'' # ''#include memory_usage.rfl\<newline>'' # drop 2 server_source"
    by (simp add: server_source_def)
  have words: "starts_with ''#include'' ''#include delay.rfl\<newline>''" "starts_with ''#include'' ''#include memory_usage.rfl\<newline>''"
    "split_words ''#include delay.rfl\<newline>'' = [''#include'', ''delay.rfl\<newline>'']"
    "split_words ''#include memory_usage.rfl\<newline>'' = [''#include'', ''memory_usage.rfl\<newline>'']"
    "strip_line ''delay.rfl\<newline>'' = ''delay.rfl''" "strip_line ''memory_usage.rfl\<newline>'' = ''memory_usage.rfl''"
    by code_simp+
  let ?first = "base @ ''/delay.rfl''"
  have "process_includes read base (Suc n) [?first] (''#include memory_usage.rfl\<newline>'' # drop 2 server_source)
      = Inr (usage_source @ drop 2 server_source, [base @ ''/'' @ strip_line ''memory_usage.rfl\<newline>'', ?first])"
    by (rule process_include [OF words(2,4)]) (use words(6) assms(2) plain in \<open>simp_all add: process_includes_plain\<close>)
  then have "process_includes read base (Suc n) [] (''#include delay.rfl\<newline>'' # ''#include memory_usage.rfl\<newline>'' # drop 2 server_source)
      = Inr (delay_source @ usage_source @ drop 2 server_source, [base @ ''/'' @ strip_line ''memory_usage.rfl\<newline>'', ?first])"
    by (intro process_include [OF words(1,3)]) (use words(5) assms(1) plain in simp_all)
  then show ?thesis using lines by auto
qed

lemma server_compiles:
  assumes "read (base @ ''/delay.rfl'') = Some delay_source" and "read (base @ ''/memory_usage.rfl'') = Some usage_source"
  shows "compile_rfl fl read base (Suc n) server_source = Inr (map uint server_code, 180, 106)"
proof -
  have "compile_lines fl (delay_source @ usage_source @ drop 2 server_source) = Inr (map uint server_code, 180, 106)"
    unfolding server_source_def delay_source_def usage_source_def server_code_def by code_simp
  moreover obtain zs where "process_includes read base (Suc n) [] server_source
      = Inr (delay_source @ usage_source @ drop 2 server_source, zs)"
    using server_includes [OF assms] by blast
  ultimately show ?thesis by (simp add: compile_rfl_def and_then_simps)
qed

section \<open>The start\<close>

text \<open>The main task creates the two tasks and makes its first report.\<close>

lemma loaded_charged [simp]: "loaded prog d (v\<lparr>v_memory := m\<rparr>) = loaded prog d v"
  by (simp add: loaded_def)

lemma put_word_state:
  assumes "x_now x < length (x_tasks x)" and "a_run k (word_state v i ws xs fs) = Inr ((), w)"
  shows "x_run k (put_now (word_state v i ws xs fs) x) = Inr ((), put_now w x)"
  using x_run_now(1) [of "put_now (word_state v i ws xs fs) x" k w] assms by (simp add: put_now_again)

lemma server_starts:
  assumes "loaded server_code 106 v"
  shows "a_run 2 (word_state v 0 [] [] []) = Inr ((), word_state v 65 [89] [] [(3, [])])"
    and "a_run 1 (word_state v 68 [] [] [(3, [])]) = Inr ((), word_state v 71 [99] [] [(3, [])])"
    and "op_at v 65 OP_ASYNC_CALL" "op_at v 71 OP_ASYNC_CALL" "fits v 68" "fits v 74"
    and "u16_at v 66 = 86" "u16_at v 72 = 96"
  using assms by (simp_all add: loaded_def server_steps del: a_run.simps(2))

lemma server_reports:
  assumes "on_duty es m v"
  shows "a_run 5 (word_state v 74 [] [] [(3, [])]) = Inr ((), word_state (said v (usage_report m)) 77 [] [] [(3, [])])"
proof -
  note v = on_dutyD [OF assms] on_dutyD [OF on_duty_said [OF assms]]
  have "a_run 5 (word_state v 74 [] [] [(3, [])]) = a_run 4 (word_state v 52 [] [] [(77, []), (3, [])])"
    using v by (simp add: server_steps del: a_run.simps(2))
  also have "\<dots> = a_run 3 (word_state v 55 [m] [] [(77, []), (3, [])])" using usage_steps(1) [OF assms, of 4] by simp
  also have "\<dots> = a_run 2 (word_state v 58 [3, m] [] [(77, []), (3, [])])"
    using v by (simp add: server_steps del: a_run.simps(2))
  also have "\<dots> = a_run 1 (word_state (said v (usage_report m)) 61 [] [] [(77, []), (3, [])])"
    using usage_steps(2) [OF assms, of 2] by simp
  also have "\<dots> = Inr ((), word_state (said v (usage_report m)) 77 [] [] [(3, [])])"
    using v by (simp add: server_steps del: a_run.simps(2))
  finally show ?thesis .
qed

lemma new_vm_word_state:
  "loaded prog d v \<Longrightarrow> new_vm a (word_state v i ws xs fs) = word_state v (unat a) [] [] []"
  by (simp add: new_vm_def word_state_def loaded_def)

lemma spawned_x_simps:
  assumes "x_now x < length (x_tasks x)"
  shows "spawned_x a v (put_now w x) = spawned_x a v x" and "now_task (spawned_x a v x) = v"
    and "x_now (spawned_x a v x) = x_now x" and "length (x_tasks (spawned_x a v x)) = Suc (length (x_tasks x))"
  using assms by (simp_all add: spawned_x_def put_now_again now_task_def x_tasks_put_now nth_append)

lemma server_begins:
  fixes s :: cpu
  defines "m \<equiv> dynamic_memory_usage s + 15932" and "es \<equiv> out s @ [Printf ''Starting VM\<newline>'' []] @ usage_report (dynamic_memory_usage s + 15932)"
  shows "\<exists>x. x_run 10 (x_start server_code 106 s) = Inr ((), x) \<and> server.crew_fine es m 3 x \<and> length (x_tasks x) = 3"
proof -
  let ?v = "a_start server_code 106 s" and ?x = "x_start server_code 106 s"
  let ?v1 = "?v\<lparr>v_memory := v_memory ?v + 5264\<rparr>"
  let ?v2 = "?v1\<lparr>v_memory := v_memory ?v1 + 5264\<rparr>"
  let ?y = "spawned_x 86 (word_state ?v1 68 [] [] [(3, [])]) ?x"
  let ?z = "spawned_x 96 (word_state ?v2 74 [] [] [(3, [])]) ?y"
  have x: "x_now ?x < length (x_tasks ?x)" "length (x_tasks ?x) = 1" by (simp_all add: x_start_def)
  then have y: "x_now ?y < length (x_tasks ?y)" "length (x_tasks ?y) = 2"
    using spawned_x_simps [OF x(1)] by simp_all
  then have z: "x_now ?z < length (x_tasks ?z)" "length (x_tasks ?z) = 3"
    using spawned_x_simps [OF y(1)] by simp_all
  have loaded: "loaded server_code 106 ?v" "loaded server_code 106 ?v1" "loaded server_code 106 ?v2" by simp_all
  have "word_state ?v 0 [] [] [] = now_task ?x" by (simp add: word_state_def x_start_def now_task_def a_start_def)
  then have a: "x_run 2 ?x = Inr ((), put_now (word_state ?v 65 [89] [] [(3, [])]) ?x)"
    using server_starts(1) [OF loaded(1)] by (intro x_run_now(1) [OF x(1)]) simp
  have b: "x_run 1 (put_now (word_state ?v 65 [89] [] [(3, [])]) ?x) = Inr ((), ?y)"
    using x_async_call [OF _ server_starts(3) [OF loaded(1)], of _ 89 "[]" "[]" "[(3, [])]"] server_starts(5,7) [OF loaded(1)] x
    by (simp add: spawned_x_simps st_simps)
  have "now_task ?y = word_state ?v1 68 [] [] [(3, [])]" by (rule spawned_x_simps(2) [OF x(1)])
  then have c: "x_run 1 ?y = Inr ((), put_now (word_state ?v1 71 [99] [] [(3, [])]) ?y)"
    using server_starts(2) [OF loaded(2)] by (intro x_run_now(1) [OF y(1)]) simp
  have d: "x_run 1 (put_now (word_state ?v1 71 [99] [] [(3, [])]) ?y) = Inr ((), ?z)"
    using x_async_call [OF _ server_starts(4) [OF loaded(2)], of _ 99 "[]" "[]" "[(3, [])]"] server_starts(6,8) [OF loaded(2)] y
    by (simp add: spawned_x_simps st_simps)
  let ?m = "dynamic_memory_usage s + 15932" and ?e = "out s @ [Printf ''Starting VM\<newline>'' []]"
  let ?v3 = "said ?v2 (usage_report ?m)"
  let ?w = "word_state ?v3 77 [] [] [(3, [])]"
  have "v_memory ?v2 = ?m" "v_out ?v2 = ?e @ concat (replicate 0 (usage_report ?m))" by (simp_all add: a_start_def)
  then have duty: "on_duty ?e ?m ?v2" using loaded(3) unfolding on_duty_def by blast
  have "now_task ?z = word_state ?v2 74 [] [] [(3, [])]" by (rule spawned_x_simps(2) [OF y(1)])
  then have e: "x_run 5 ?z = Inr ((), put_now ?w ?z)"
    using server_reports [OF duty] by (intro x_run_now(1) [OF z(1)]) simp
  have "x_run (2 + (1 + (1 + (1 + 5)))) ?x = Inr ((), put_now ?w ?z)"
    unfolding x_run_add seq_apply by (simp only: a b c d e sum.case prod.case)
  moreover have "server.crew_fine es m 3 (put_now ?w ?z)"
    unfolding server.crew_fine_def
  proof (intro conjI exI [of _ "[0, 0, 0]"])
    have tasks: "x_tasks (put_now ?w ?z) = [?w, word_state ?v1 86 [] [] [], word_state ?v2 96 [] [] []]"
      using new_vm_word_state [OF loaded(2)] new_vm_word_state [OF loaded(3)]
      by (simp add: spawned_x_def put_now_def x_start_def)
    have "v_memory ?w = m" "v_out ?w = es @ concat (replicate 0 (usage_report m))"
      by (simp_all add: word_state_def m_def es_def a_start_def said_def)
    then have handed: "on_duty es m (hand_over ?w u)" if "loaded server_code 106 u" for u
      using serves_handed(1) that by blast
    have "now_task (put_now ?w ?z) = ?w" using z(1) by simp
    then show "list_all2 (\<lambda>_. serves es m) [0, 0, 0] (map (hand_over (now_task (put_now ?w ?z))) (x_tasks (put_now ?w ?z)))"
      unfolding tasks list.map hand_over_states using loaded
      by (simp only: list_all2_Cons list_all2_Nil simp_thms) (intro conjI serves.intros handed; simp)
  qed (use z in \<open>simp_all add: spawned_x_def put_now_def x_start_def\<close>)
  ultimately show ?thesis using z(2) by auto
qed

lemma server_rounds:
  fixes s :: cpu
  defines "m \<equiv> dynamic_memory_usage s + 15932" and "es \<equiv> out s @ [Printf ''Starting VM\<newline>'' []] @ usage_report (dynamic_memory_usage s + 15932)"
  shows "\<exists>x k. x_rounds (Suc rounds) (x_start server_code 106 s) = Inr ((), x) \<and> length (x_tasks x) = 3
    \<and> v_out (now_task x) = es @ concat (replicate k (usage_report m))"
proof -
  let ?x = "x_start server_code 106 s"
  obtain y where y: "x_run 10 ?x = Inr ((), y)" "server.crew_fine es m 3 y"
    using server_begins [of s] by (auto simp: m_def es_def)
  have "x_turn 0 ?x = x_run (10 + 245) ?x"
    by (simp add: x_turn_def x_slice_def x_switch_def x_start_def now_task_def st_simps)
  then have turn: "x_turn 0 ?x = x_run 245 y" unfolding x_run_add seq_apply y(1) by simp
  have "server.keeps_fine es m (seq (x_run 245) (seq (x_turns [1..<5]) (x_rounds rounds)))"
    by (intro server.keeps_fine_seq server.keeps_fine_run server.keeps_fine_turns server.keeps_fine_rounds)
  with y(2) obtain x where x: "seq (x_run 245) (seq (x_turns [1..<5]) (x_rounds rounds)) y = Inr ((), x)" "server.crew_fine es m 3 x"
    unfolding server.keeps_fine_def by (fastforce split: sum.splits)
  have "[0..<5] = 0 # [1..<5 :: nat]" by (simp add: upt_conv_Cons)
  then have rounds: "x_rounds (Suc rounds) = seq (x_turn 0) (seq (x_turns [1..<5]) (x_rounds rounds))"
    by (simp only: x_rounds.simps x_round_def x_turns.simps seq_assoc)
  have run: "x_rounds (Suc rounds) ?x = Inr ((), x)"
    using x(1) unfolding rounds seq_apply turn .
  obtain bs :: "nat list" where bs: "list_all2 (\<lambda>_. serves es m) bs (map (hand_over (now_task x)) (x_tasks x))"
      "x_now x < length (x_tasks x)" "length (x_tasks x) \<le> 3"
    using x(2) by (auto simp: server.crew_fine_def)
  from server.fine_now [OF bs(1,2)] have now: "serves es m (now_task x)" by (simp flip: now_task_def)
  have "accounts (dynamic_memory_usage s + 140) x"
    using accounts_rounds [of "dynamic_memory_usage s + 140" "Suc rounds"] accounts_start [of s server_code 106] run
    unfolding keeps_def by fastforce
  then have "dynamic_memory_usage s + 140 + 5264 * of_nat (length (x_tasks x)) = m"
    using serves_shares(1) [OF now] by (simp add: accounts_def)
  moreover have "length (x_tasks x) \<in> {1, 2, 3}" using bs(2,3) by auto
  ultimately have "length (x_tasks x) = 3" by (auto simp: m_def)
  with run serves_shares(2) [OF now] show ?thesis by auto
qed

section \<open>Property\<close>

text \<open>C8: a sample program with several tasks, from its text to its runs. The compiler accepts
  src/programs/async_tasks_server.rfl, with the two files it includes, and the machine built
  with its result keeps running, whatever the clock says: after any number of rounds of the
  scheduler there are its three tasks, which use 15932 bytes, and the output is the start line
  and one or more complete reports of the memory usage, the same every time, although the
  time slices of 255 instructions end anywhere in the loops of the tasks.\<close>

theorem server_keeps_running:
  fixes s :: cpu
  assumes "power_on s" and "network_up s" and "env_accept s = (\<lambda>_. WouldBlock)" and "10 \<le> fuel"
    and "read (base @ ''/delay.rfl'') = Some delay_source" and "read (base @ ''/memory_usage.rfl'') = Some usage_source"
  shows "\<exists>t k. build_and_run fl read base (Suc n) server_source fuel (Suc rounds) s = Inr (Inr ((), t))
    \<and> cpu_tasks_number t = 2 \<and> dynamic_memory_usage t = dynamic_memory_usage s + 15932
    \<and> out t = out s @ [Printf ''Starting VM\<newline>'' []] @ concat (replicate (Suc k) (usage_report (dynamic_memory_usage s + 15932)))"
proof -
  obtain x k where x: "x_rounds (Suc rounds) (x_start server_code 106 s) = Inr ((), x)" "length (x_tasks x) = 3"
      "v_out (now_task x) = out s @ [Printf ''Starting VM\<newline>'' []]
        @ concat (replicate (Suc k) (usage_report (dynamic_memory_usage s + 15932)))"
    using server_rounds [of rounds s] by auto
  have "length server_code = unat (180 :: u16)" by simp
  from crew_whole_run [where rounds = rounds and d = 106, OF this assms(1-4)] x
  obtain t where t: "vm_main server_code 180 106 fuel (Suc rounds) s = Inr ((), t)" "cpu_tasks_number t = 2"
      "dynamic_memory_usage t = dynamic_memory_usage s + 15932" "out t = v_out (now_task x)"
    by auto
  have "map word_of_int (map uint p) = p" for p :: "u8 list" by (simp add: map_idI)
  then have "build_and_run fl read base (Suc n) server_source fuel (Suc rounds) s = Inr (Inr ((), t))"
    using t(1) server_compiles [where read = read and base = base and fl = fl and n = n, OF assms(5,6)]
    by (simp add: build_and_run_def and_then_simps del: map_map)
  with t x(3) show ?thesis by auto
qed

text \<open>After a thousand rounds on a host that has just been switched on.\<close>

theorem server_keeps_running_witness:
  "\<exists>t k. build_and_run (\<lambda>_. None) [''programs/delay.rfl'' \<mapsto> delay_source, ''programs/memory_usage.rfl'' \<mapsto> usage_source]
      ''programs'' 1 server_source 10 1000 (blank_cpu 3) = Inr (Inr ((), t))
    \<and> cpu_tasks_number t = 2 \<and> out t = [Printf ''Starting VM\<newline>'' []] @ concat (replicate (Suc k) (usage_report 15932))"
proof -
  let ?read = "[''programs/delay.rfl'' \<mapsto> delay_source, ''programs/memory_usage.rfl'' \<mapsto> usage_source]"
  have s: "power_on (blank_cpu 3)" "network_up (blank_cpu 3)" "env_accept (blank_cpu 3) = (\<lambda>_. WouldBlock)" "(10 :: nat) \<le> 10"
    and read: "?read (''programs'' @ ''/delay.rfl'') = Some delay_source"
      "?read (''programs'' @ ''/memory_usage.rfl'') = Some usage_source"
    and n: "Suc 0 = 1" "Suc 999 = 1000" "out (blank_cpu 3) = []" "dynamic_memory_usage (blank_cpu 3) = 0" "(0 :: u16) + 15932 = 15932"
    by (simp_all add: blank_cpu_def demo_cpu_def power_on_def network_up_def)
  from server_keeps_running [where n = 0 and rounds = 999, OF s read] show ?thesis unfolding n append_Nil by blast
qed

end
