(* ===== verification/Test_C.thy ===== *)
theory Test_C
  imports Stack_Spec Tasktree_C
begin

text \<open>
  src/tests/test_stack.c, the unit test of the byte stacks, and what it reports about the model
  of src/stack.c. The test calls \<open>stack_push_bytes\<close>, which src/stack.c does not have; it is a
  parameter.
\<close>

section \<open>The tests\<close>

definition test_stack_size :: u16 where
  "test_stack_size = 16"

definition print_result :: "string \<Rightarrow> bool \<Rightarrow> ('z sys_scheme, unit) st" where
  "print_result test_name failed =
     (if failed then vmprintf ''%s FAILED\<newline>'' [AStr test_name]
      else vmprintf ''%s SUCCESS\<newline>'' [AStr test_name])"

text \<open>The statement \<open>if (wrong) { vmprintf(message); failed = 1; }\<close>\<close>

definition expect :: "bool \<Rightarrow> string \<Rightarrow> bool \<Rightarrow> ('z sys_scheme, bool) st" where
  "expect wrong message failed =
     (if wrong then seq (vmprintf message []) (return True) else return failed)"

definition finish :: "string \<Rightarrow> ptr \<Rightarrow> bool \<Rightarrow> ('z stack_heap_scheme, bool) st" where
  "finish test_name stack failed = seq (print_result test_name failed) (seq (stack_free stack) (return failed))"

text \<open>The loop over \<open>stack->data\<close>, which ends at the first byte that is not 0.\<close>

fun expect_zeros :: "u8 list \<Rightarrow> nat \<Rightarrow> nat \<Rightarrow> bool \<Rightarrow> ('z sys_scheme, bool) st" where
  "expect_zeros data i 0 failed = return failed"
| "expect_zeros data i (Suc n) failed =
     bind (in_bounds (nth_opt data i)) (\<lambda>b.
     if b \<noteq> 0 then expect True ''stack data size error\<newline>'' failed
     else expect_zeros data (Suc i) n failed)"

definition test_stack_create :: "('z stack_heap_scheme, bool) st" where
  "test_stack_create =
     bind (stack_create test_stack_size) (\<lambda>stack.
     bind (deref stacks stack) (\<lambda>k.
     bind (expect (stk_size k \<noteq> test_stack_size) ''stack size error\<newline>'' False) (\<lambda>failed.
     bind (expect (sp k \<noteq> 0) ''stack pointer error\<newline>'' failed) (\<lambda>failed.
     bind (expect_zeros (stk_data k) 0 (unat test_stack_size) failed)
       (finish ''test_stack_create'' stack)))))"

definition test_stack_push :: "('z stack_heap_scheme, bool) st" where
  "test_stack_push =
     bind (stack_create test_stack_size) (\<lambda>stack.
     seq (stack_push stack 10)
     (bind (deref stacks stack) (\<lambda>k.
     bind (in_bounds (nth_opt (stk_data k) 0)) (\<lambda>b.
     bind (expect (b \<noteq> 10) ''stack push error\<newline>'' False) (\<lambda>failed.
     bind (expect (sp k \<noteq> 1) ''stack pointer error\<newline>'' failed)
       (finish ''test_stack_push'' stack))))))"

text \<open>The assignments to \<open>stack->data\<close> from index 0.\<close>

definition set_bytes :: "ptr \<Rightarrow> u8 list \<Rightarrow> ('z stack_heap_scheme, unit) st" where
  "set_bytes p bs =
     bind (deref stacks p) (\<lambda>k.
     if length bs \<le> length (stk_data k)
     then put_stack p (k\<lparr>stk_data := bs @ drop (length bs) (stk_data k), sp := of_nat (length bs)\<rparr>)
     else undef OutOfBounds)"

definition test_stack_pop :: "('z stack_heap_scheme, bool) st" where
  "test_stack_pop =
     bind (stack_create test_stack_size) (\<lambda>stack.
     seq (set_bytes stack [10])
     (bind (stack_pop stack) (\<lambda>b.
     bind (deref stacks stack) (\<lambda>k.
     bind (expect (b \<noteq> 10) ''stack pop error\<newline>'' False) (\<lambda>failed.
     bind (expect (sp k \<noteq> 0) ''stack pointer error\<newline>'' failed)
       (finish ''test_stack_pop'' stack))))))"

definition test_stack_push_bytes ::
    "(ptr \<Rightarrow> u8 list \<Rightarrow> ('z stack_heap_scheme, unit) st) \<Rightarrow> ('z stack_heap_scheme, bool) st" where
  "test_stack_push_bytes stack_push_bytes =
     bind (stack_create test_stack_size) (\<lambda>stack.
     seq (stack_push_bytes stack [10, 20, 30, 40])
     (bind (deref stacks stack) (\<lambda>k.
     bind (expect (sp k \<noteq> 4) ''stack pointer error\<newline>'' False) (\<lambda>failed.
     bind (in_bounds (if 4 \<le> length (stk_data k) then Some (take 4 (stk_data k)) else None)) (\<lambda>bs.
     bind (expect (bs \<noteq> [10, 20, 30, 40]) ''stack data error\<newline>'' failed)
       (finish ''test_stack_push_bytes'' stack))))))"

definition test_stack_pop_bytes :: "('z stack_heap_scheme, bool) st" where
  "test_stack_pop_bytes =
     bind (stack_create test_stack_size) (\<lambda>stack.
     seq (set_bytes stack [10, 20, 30, 40])
     (bind (stack_pop_bytes stack 4) (\<lambda>bs.
     bind (deref stacks stack) (\<lambda>k.
     bind (expect (sp k \<noteq> 0) ''stack pointer error\<newline>'' False) (\<lambda>failed.
     bind (expect (bs \<noteq> [10, 20, 30, 40]) ''stack data error\<newline>'' failed)
       (finish ''test_stack_pop_bytes'' stack))))))"

text \<open>Every test assigns \<open>failed\<close>, so that the result is that of the last one.\<close>

definition tests_main ::
    "(ptr \<Rightarrow> u8 list \<Rightarrow> ('z stack_heap_scheme, unit) st) \<Rightarrow> ('z stack_heap_scheme, bool) st" where
  "tests_main stack_push_bytes =
     seq test_stack_create
    (seq test_stack_push
    (seq test_stack_pop
    (seq (test_stack_push_bytes stack_push_bytes)
         test_stack_pop_bytes)))"

section \<open>Their results\<close>

text \<open>The first three tests pass and leave the memory counter as it was. The test of
  \<open>stack_pop_bytes\<close> fails: it expects the bytes in the order in which they lie on the stack,
  and the function delivers the last one first.\<close>

lemma unit_tests:
  fixes s :: "'z stack_heap_scheme"
  assumes "\<And>n. malloc_ok s n"
  shows "\<exists>t. test_stack_create s = Inr (False, t) \<and> dynamic_memory_usage t = dynamic_memory_usage s
      \<and> out t = out s @ [Printf ''%s SUCCESS\<newline>'' [AStr ''test_stack_create'']]"
    and "\<exists>t. test_stack_push s = Inr (False, t) \<and> dynamic_memory_usage t = dynamic_memory_usage s
      \<and> out t = out s @ [Printf ''%s SUCCESS\<newline>'' [AStr ''test_stack_push'']]"
    and "\<exists>t. test_stack_pop s = Inr (False, t) \<and> dynamic_memory_usage t = dynamic_memory_usage s
      \<and> out t = out s @ [Printf ''%s SUCCESS\<newline>'' [AStr ''test_stack_pop'']]"
    and "\<exists>t. test_stack_pop_bytes s = Inr (True, t) \<and> dynamic_memory_usage t = dynamic_memory_usage s
      \<and> out t = out s @ [Printf ''stack data error\<newline>'' [], Printf ''%s FAILED\<newline>'' [AStr ''test_stack_pop_bytes'']]"
proof -
  note defs = stack_create_def stack_free_def put_stack_def test_stack_size_def expect_def finish_def print_result_def
    st_simps assms nth_opt_def
  show "\<exists>t. test_stack_create s = Inr (False, t) \<and> dynamic_memory_usage t = dynamic_memory_usage s
      \<and> out t = out s @ [Printf ''%s SUCCESS\<newline>'' [AStr ''test_stack_create'']]"
  proof -
    have zeros: "i + n \<le> 16 \<Longrightarrow> expect_zeros (replicate 16 0) i n False = (return False :: ('z stack_heap_scheme, bool) st)" for i n
    proof (induction n arbitrary: i)
      case (Suc n)
      have "nth_opt (replicate 16 0) i = Some (0 :: u8)" using Suc.prems by (simp add: nth_opt_def)
      with Suc show ?case by (simp add: st_simps)
    qed simp
    show ?thesis using zeros [of 0 16] by (simp add: test_stack_create_def defs)
  qed
  show "\<exists>t. test_stack_push s = Inr (False, t) \<and> dynamic_memory_usage t = dynamic_memory_usage s
      \<and> out t = out s @ [Printf ''%s SUCCESS\<newline>'' [AStr ''test_stack_push'']]"
    by (simp add: test_stack_push_def stack_push_def defs)
  show "\<exists>t. test_stack_pop s = Inr (False, t) \<and> dynamic_memory_usage t = dynamic_memory_usage s
      \<and> out t = out s @ [Printf ''%s SUCCESS\<newline>'' [AStr ''test_stack_pop'']]"
    by (simp add: test_stack_pop_def stack_pop_def set_bytes_def Let_def defs)
  show "\<exists>t. test_stack_pop_bytes s = Inr (True, t) \<and> dynamic_memory_usage t = dynamic_memory_usage s
      \<and> out t = out s @ [Printf ''stack data error\<newline>'' [], Printf ''%s FAILED\<newline>'' [AStr ''test_stack_pop_bytes'']]"
  proof -
    have four: "stack_pop_bytes p 4 = (bind (stack_pop p) (\<lambda>a. bind (bind (stack_pop p) (\<lambda>b.
        bind (bind (stack_pop p) (\<lambda>c. bind (bind (stack_pop p) (\<lambda>d. bind (return []) (\<lambda>bs. return (d # bs))))
          (\<lambda>bs. return (c # bs)))) (\<lambda>bs. return (b # bs)))) (\<lambda>bs. return (a # bs)))
        :: ('z stack_heap_scheme, u8 list) st)" for p
      by (simp add: eval_nat_numeral)
    show ?thesis by (simp add: test_stack_pop_bytes_def four stack_pop_def set_bytes_def Let_def defs)
  qed
qed

end
