(* ===== verification/Spec2Isabelle.thy ===== *)
theory Spec2Isabelle
  imports Memory_Spec Straight_Spec Locals_Spec Print_Spec Ports_Spec Wire_Spec Tree_Spec
    Invariant_Spec Boot_Spec Task_Spec Schedule_Spec Send_Spec Recursion_Spec Avr_Spec Clock_Spec Tool_Spec
    Whole_Spec Compiler_Spec Sample_Tasks Test_C
begin

text \<open>
  SimpleStackMachine: a byte-code machine in C, for a micro-controller and for a host. This
  library models the C sources and proves what its parts do.

  \<^bold>\<open>The program.\<close> \<open>main\<close> (src/main.c) creates the machine, loads the program it was compiled with,
  and runs the scheduler \<open>cpu_run\<close> for ever. The scheduler walks the tree of tasks in preorder
  (src/tasktree.c) and gives every task a slice of 255 instructions (\<open>cpu_run_cycle\<close>,
  src/cpu.c). Before its slice the machine polls the network server (src/server.c) for one
  message and delivers it to the inbox of a task (src/messaging.c), switches to the task, and
  calls the task's message handler once for every message in its inbox. An instruction
  (src/instructions.c) works on the operand stack and on the call stack of the running task
  (src/stack.c, src/task.c); system calls (src/builtin.c) print, send messages and so on;
  input and output go through memory-mapped ports (src/io.c); src/delay.c is the clock, and
  src/sys.c counts the memory in use. On the board (ARDUINO) the clock is a timer interrupt
  and the output is a serial port (src/serial.c). src/tools/send_message.c is a command-line
  client that sends one message to a machine. The byte code is made by src/compiler.py from an
  assembly language (src/programs has samples); the Makefile passes its result to \<open>main\<close>.

  \<^bold>\<open>How C is modelled.\<close> Prelude: a C function is a function from a state to \<open>Inr (value, state)\<close>,
  or to \<open>Inl (reason, state)\<close> when the process stops in it. The reasons are \<open>exit\<close>, each kind
  of undefined behaviour that the code can reach, and \<open>OutOfFuel\<close>. Machine integers are
  words; where C promotes to \<open>int\<close>, the arithmetic is written out. Objects are records in
  heaps, one heap per type, a freed object is gone from its heap, and a pointer is \<open>Null\<close>, an
  address, or indeterminate. The state is one record that grows with the components: Sys_C
  (trace of output, allocator, memory counter), Stack_C, Messaging_C, Task_C, Tasktree_C, Io_C,
  Server_C, Delay_C, and last \<open>cpu\<close> in Cpu_C. So a function of a component runs unchanged on
  every larger state. Memory_C, Avr_C and Tool_C extend the state of Sys_C by their own.

  \<^bold>\<open>The translation,\<close> one theory per source file, one definition per function, loop or handler:
  \<^item> Sys_C: src/sys.c and the output channel; Memory_C: src/memory.c; Stack_C: src/stack.c
  \<^item> Messaging_C: src/messaging.c (messages, inboxes, delivery, wire format)
  \<^item> Task_C: src/task.c; Tasktree_C: src/tasktree.c; Io_C: src/io.c; Server_C: src/server.c
  \<^item> Delay_C: the MACOSX and WINDOWS branches of src/delay.c; Avr_C: its ARDUINO branch,
    src/serial.c, the LED call of src/builtin.c and the first calls of \<open>main\<close> on the board
  \<^item> Cpu_C: the machine's state, creation, loading, fetch, tasks and context switch of
    src/cpu.c; Builtin_C: src/builtin.c; Instructions_C: src/instructions.c; Run_C: dispatch,
    time slices and scheduler of src/cpu.c, and \<open>main\<close>
  \<^item> Tool_C: src/tools/send_message.c; Test_C: src/tests/test_stack.c
  \<^item> Compiler_Py: src/compiler.py, from the lines of a text to the list of bytes (strings are
    lists of characters below 256, exceptions are values), and the generator of the enumeration;
    Sample_Source and Sample_Tasks: the texts of three sample programs and the Makefile's step from the compiler's
    result to the program of \<open>main\<close>

  \<^bold>\<open>The interfaces.\<close> Interfaces has the contracts \<open>byte_lifo\<close> (a bounded stack of bytes), \<open>codec\<close>
  (byte images) and \<open>typed_lifo\<close> (both together); Stack_Spec interprets the first on
  src/stack.c, Operand_Spec all of them on the operand stack of the machine. Messaging_Spec has
  \<open>bounded_fifo\<close>, interpreted on the delivery to an inbox. Heap_Spec has \<open>heap_laws\<close>: a predicate
  that the primitive changes of state keep is kept by every function of the machine that runs
  before \<open>HALT\<close>; \<open>machine_invariant\<close> in Invariant_Spec extends it by a second, weaker predicate for
  the states in which a run stops, \<open>HALT\<close> included. They are interpreted with \<open>vm_running\<close> and
  \<open>vm_inv\<close>, which relate a state to an earlier one. Crew_Safe has \<open>task_code\<close>: a predicate on tasks that their steps keep makes every run of a program with
  several tasks safe; it is interpreted with the types of the verifier, and
  in Sample_Tasks with the states of the tasks of a sample program.

  \<^bold>\<open>What is proved.\<close>
  \<^item> The whole machine: Boot_Spec (start-up; a straight-line program run from \<open>main\<close> computes what
    an abstract stack machine computes), Refine_Spec and Whole_Spec (an abstract machine without
    heap and pointers, whose operand stack is a list of bytes and whose call stack is a list of
    frames, and the proof that \<open>main\<close> implements it for any program and any number of rounds),
    Crew_Vm, Crew_Spec and Crew_Run (the same with several tasks, which create tasks: an abstract
    machine whose tasks are abstract machines and whose tree is a tree of numbers, the
    simulation of its instructions, slices and rounds, and its runs), Crew_Safe (the verifier
    below for programs that create tasks, with a budget of tasks, and its soundness),
    Typing_Spec (a verifier of byte code, with jumps and loops, and its soundness for \<open>main\<close> and
    any number of rounds), Schedule_Spec (the same for a tree of tasks, which do not disturb each
    other and get their slices in turn), Heap_Spec and Invariant_Spec (what no program can change,
    between any two states of a run and at its end), Recursion_Spec (a routine that calls itself
    without end: how many calls fit, and the exit, by instructions and by rounds)
  \<^item> Programs: Word_Vm (symbolic execution on the abstract machine, one rule per instruction),
    Sample_Spec (a recursive program, by induction on its calls, and one with a loop, by
    induction on its rounds), Compiler_Spec (jumps, local variables and constants are compiled to
    the right numbers), Sample_Source (from the text of a program to its output), Sample_Tasks
    (the same for a program with three tasks that runs for ever)
  \<^item> Instructions: Alu_Spec (a table of the two-operand instructions, which the code refines),
    Straight_Spec (sequences of them), Control_Spec (fetch, literals, jumps, calls and
    returns), Locals_Spec, Ports_Spec, Print_Spec, Opcode_Spec (the numbering)
  \<^item> Tasks: Task_Spec (context switch, creation, message handlers and their
    returns, end of a task), Tree_Spec (the
    tree against an abstract one: preorder, insertion, removal)
  \<^item> Messages: Messaging_Spec (outcomes and order of deliveries), Wire_Spec (wire format, release),
    Send_Spec (from the system call of one task to the handler of another, and why an inbox that
    was read cannot be used again), Tool_Spec (from the
    command line of the client to the inbox of a task)
  \<^item> Services: Stack_Spec, Memory_Spec, Clock_Spec (readings of the host's clock), Avr_Spec (the
    delay of the board ends in time; its LED; serial port)

  \<^bold>\<open>Bounds.\<close> A loop that the code runs for ever, or until something outside the machine happens,
  takes a bound. \<open>cpu_run\<close> runs \<open>n\<close> rounds, and the theorems hold for every \<open>n\<close>. The traversal of
  the tree takes a bound on its depth and breadth; Tree_Spec shows how much is enough for a
  tree, two are for one node, and \<open>tree_fuel\<close> in \<open>cpu_free\<close> is the number of allocations and
  more. \<open>process_inbox_loop\<close> takes one more than the count of the inbox, and every round takes
  one from the count. The loops over a linked list of inboxes take one more than the number of
  allocations; \<open>delay_ms_avr\<close> and \<open>wait_transmit\<close> take a bound on the polls, and Avr_Spec shows
  that the loops end within it when the interrupts or the transmitter come in time. The includes
  of the compiler nest to a bounded depth, as Python's recursion limit has it.

  \<^bold>\<open>The abstract machine\<close> of Refine_Spec runs one task and gives up (\<open>OutOfFuel\<close>) on what it does not
  describe: the instructions that create and end tasks, those that address the call stack
  absolutely, the system calls that send messages or print a stack, variables outside the
  running function or not assigned yet, a fetch at the end of the program, a read of a local
  variable of size zero, an allocation that brings the call stack to 65532 bytes or more, a
  write to a local variable while allocations have grown the call stack beyond its array, and
  the instructions that read or drop the top of the operand stack without a check of the code
  (\<open>TOP_U16\<close>, \<open>TOP_I16\<close>, \<open>TOP_F32\<close>, \<open>POP_I16\<close>) when it holds too few bytes. Where it gives up, the
  theorems claim nothing. Everything else, errors and exits included, it does as the code
  does. The machine of Crew_Vm is built from it and creates tasks as well; so it gives up on
  the same, less \<open>OP_ASYNC_CALL\<close>. There the traversal bound is ten or more: five tasks, at most
  two calls for each.

  \<^bold>\<open>Inputs of the model.\<close> What the C library, the network, the clock and the hardware return are
  fields of the state that nothing changes, indexed by the number of calls: whether an
  allocation succeeds, the results of the socket calls, the time, the served timer
  interrupts, the state of the transmitter, the characters of \<open>vsnprintf\<close>. The four
  operations on \<open>float\<close> are fields too; their values are 32-bit patterns. The host is
  little-endian, pointers have 8 bytes, \<open>int\<close> has 32 bits (on the board 16); conversions to
  signed types truncate, as gcc and clang define them. Output is a trace of the calls of
  \<open>printf\<close> with their arguments; the formatting is the library's.

  \<^bold>\<open>Not modelled.\<close> The hardware behind the ports of src/io.c on the board. The whole machine as
  built for the board: Avr_C models what differs there, but the machine of Cpu_C is the
  MACOSX build. The printing that src/compiler.py does for debugging, and its reading of files:
  the files that a text includes, and the four bytes of a decimal number as a float, are
  parameters. The sample programs other than the three. Code that is commented out in the
  sources.
\<close>

end
